(* ===== verification/Prelude.thy ===== *)
theory Prelude
  imports Main "HOL-Library.Word" "HOL-Library.Monad_Syntax"
begin

text \<open>
  Shared vocabulary of the development.

  \<^item> \<open>addr\<close>, \<open>u32\<close>, \<open>u8\<close>: the ARM's 32-bit addresses and the
    \<open>uint32\<close> / \<open>uint8\<close> of \<^verbatim>\<open>src/src/common.h\<close>, as words that wrap.
  \<^item> An object of a C struct type lives in a typed heap \<open>addr \<rightharpoonup> 'a\<close>, from its
    address to its fields.
    \<open>deref\<close> reads through a pointer and \<open>upd\<close> writes through it; both are
    \<open>None\<close> at \<open>NULL\<close> and where no object of that type lives.
  \<^item> A C function that may go through a bad pointer, index outside an array, or never return
    has type \<open>\<dots> option\<close>.
    \<open>None\<close> means that it does one of these, so a theorem with
    \<open>= Some \<dots>\<close> in its conclusion says that the code neither faults nor hangs.
    (The exception is \<^verbatim>\<open>page_list[446]\<close>, which the code always writes; see \<^verbatim>\<open>Kstate\<close>.)
  \<^item> The loop \<^verbatim>\<open>while (p->next != NULL) p = p->next;\<close> stands in eight functions of
    the kernel; it is \<open>walk_end\<close> here.
\<close>

section \<open>Machine types\<close>

unbundle bit_operations_syntax

type_synonym u8 = "8 word"
type_synonym u32 = "32 word"
type_synonym addr = "32 word"

abbreviation (input) NULL :: addr where
  "NULL \<equiv> 0"

named_theorems heap_simps \<open>reading and writing typed heaps\<close>
named_theorems wf_intros \<open>introduction rules for well-formed states\<close>

section \<open>Macros of common.h\<close>

definition ROUNDDOWN :: "u32 \<Rightarrow> u32 \<Rightarrow> u32" where
  "ROUNDDOWN a n = a - a mod n"

definition ROUNDUP :: "u32 \<Rightarrow> u32 \<Rightarrow> u32" where
  "ROUNDUP a n = ROUNDDOWN (a + n - 1) n"

lemma unat_of_nat32: "k < 2 ^ 32 \<Longrightarrow> unat (of_nat k :: u32) = k"
  by (simp add: unat_of_nat)

lemma ROUNDDOWN_div: "ROUNDDOWN a n = (a div n) * n"
  by (simp add: ROUNDDOWN_def minus_mod_eq_div_mult)

lemma unat_ROUNDDOWN: "unat (ROUNDDOWN a n) = unat a - unat a mod unat n"
proof -
  have "a mod n \<le> a"
    by (simp add: word_le_nat_alt unat_mod)
  then show ?thesis
    by (simp add: ROUNDDOWN_def unat_sub unat_mod)
qed

lemma ROUNDDOWN_le: "ROUNDDOWN a n \<le> a"
  by (simp add: word_le_nat_alt unat_ROUNDDOWN)

lemma ROUNDDOWN_gt:
  assumes "n \<noteq> 0"
  shows "unat a < unat (ROUNDDOWN a n) + unat n"
proof -
  have "unat a mod unat n < unat n"
    using assms by (simp add: unat_gt_0)
  then show ?thesis by (simp add: unat_ROUNDDOWN)
qed

lemma ROUNDDOWN_eqI:
  assumes "unat m mod unat n = 0" and "unat m \<le> unat a" and "unat a < unat m + unat n"
  shows "ROUNDDOWN a n = m"
proof -
  obtain d where d: "unat a = unat m + d" "d < unat n"
    using assms(2,3) by (metis add_less_cancel_left le_Suc_ex)
  have "unat a mod unat n = d"
    using d assms(1) by (metis mod_add_left_eq add_0 mod_less)
  then have "unat (ROUNDDOWN a n) = unat m" using d by (simp add: unat_ROUNDDOWN)
  then show ?thesis by (rule unsigned_word_eqI)
qed

lemma unat_ROUNDUP:
  assumes "n \<noteq> 0" and "unat a + unat n \<le> 2 ^ 32"
  shows "unat (ROUNDUP a n) = (unat a + unat n - 1) div unat n * unat n"
proof -
  have pos: "0 < unat n" using assms(1) by (simp add: unat_gt_0)
  have "a + n - 1 = of_nat (unat a + unat n - 1)"
    using pos by (simp add: of_nat_diff)
  moreover have "unat (of_nat (unat a + unat n - 1) :: u32) = unat a + unat n - 1"
    using assms(2) pos by (intro unat_of_nat32) simp
  ultimately have "unat (a + n - 1) = unat a + unat n - 1" by simp
  then show ?thesis
    by (simp add: ROUNDUP_def unat_ROUNDDOWN minus_mod_eq_div_mult)
qed

lemma ROUNDUP_bounds:
  assumes "n \<noteq> 0" and "unat a + unat n \<le> 2 ^ 32"
  shows "unat a \<le> unat (ROUNDUP a n)" and "unat (ROUNDUP a n) < unat a + unat n"
    and "unat (ROUNDUP a n) mod unat n = 0"
proof -
  define m where "m = unat a + unat n - 1"
  have pos: "0 < unat n" using assms(1) by (simp add: unat_gt_0)
  have split: "m div unat n * unat n + m mod unat n = m" by simp
  have small: "m mod unat n < unat n" using pos by simp
  have eq: "unat (ROUNDUP a n) = m div unat n * unat n"
    using unat_ROUNDUP [OF assms] by (simp add: m_def)
  show "unat a \<le> unat (ROUNDUP a n)"
    using split small pos unfolding eq m_def by linarith
  show "unat (ROUNDUP a n) < unat a + unat n"
    using split pos unfolding eq m_def by linarith
  show "unat (ROUNDUP a n) mod unat n = 0"
    unfolding eq by simp
qed

text \<open>Element \<open>i\<close> of an array of \<open>n\<close> structs of \<open>sz\<close> bytes that does not wrap.\<close>

lemma unat_array:
  fixes base sz :: u32
  assumes "unat base + n * unat sz < 2 ^ 32" and "i \<le> n"
  shows "unat (base + of_nat i * sz) = unat base + i * unat sz"
proof -
  have "base + of_nat i * sz = of_nat (unat base + i * unat sz)" by simp
  moreover have "i * unat sz \<le> n * unat sz" using assms(2) by (rule mult_le_mono1)
  then have "unat base + i * unat sz < 2 ^ 32" using assms(1) by linarith
  ultimately show ?thesis by (simp only: unat_of_nat32)
qed

section \<open>Typed heaps\<close>

definition deref :: "(addr \<rightharpoonup> 'a) \<Rightarrow> addr \<Rightarrow> 'a option" where
  "deref h p = (if p = NULL then None else h p)"

definition upd :: "addr \<Rightarrow> ('a \<Rightarrow> 'a) \<Rightarrow> (addr \<rightharpoonup> 'a) \<Rightarrow> (addr \<rightharpoonup> 'a) option" where
  "upd p f h = map_option (\<lambda>v. h(p \<mapsto> f v)) (deref h p)"

definition new_obj :: "addr \<Rightarrow> 'a \<Rightarrow> (addr \<rightharpoonup> 'a) \<Rightarrow> (addr \<rightharpoonup> 'a) option" where
  "new_obj p v h = (if p = NULL then None else Some (h(p \<mapsto> v)))"

lemma deref_NULL [simp]: "deref h NULL = None"
  by (simp add: deref_def)

lemma deref_non_NULL [heap_simps]: "p \<noteq> NULL \<Longrightarrow> deref h p = h p"
  by (simp add: deref_def)

lemma deref_SomeD: "deref h p = Some v \<Longrightarrow> p \<noteq> NULL \<and> h p = Some v"
  by (simp add: deref_def split: if_splits)

lemma upd_NULL [simp]: "upd NULL f h = None"
  by (simp add: upd_def)

lemma upd_Some [heap_simps]:
  "p \<noteq> NULL \<Longrightarrow> h p = Some v \<Longrightarrow> upd p f h = Some (h(p \<mapsto> f v))"
  by (simp add: upd_def deref_def)

lemma upd_SomeD: "upd p f h = Some h' \<Longrightarrow> \<exists>v. p \<noteq> NULL \<and> h p = Some v \<and> h' = h(p \<mapsto> f v)"
  by (auto simp: upd_def deref_def split: if_splits)

lemma upd_None_iff: "upd p f h = None \<longleftrightarrow> p = NULL \<or> h p = None"
  by (simp add: upd_def deref_def)

section \<open>The pointer walk shared by the list-tail loops\<close>

partial_function (option) walk_end ::
    "('a \<Rightarrow> addr) \<Rightarrow> (addr \<rightharpoonup> 'a) \<Rightarrow> addr \<Rightarrow> addr option" where
  "walk_end nx h p =
     (case deref h p of
        None \<Rightarrow> None
      | Some v \<Rightarrow> if nx v = NULL then Some p else walk_end nx h (nx v))"

section \<open>Counting loops\<close>

text \<open>\<^verbatim>\<open>for (i = a; i < b; i++) body\<close> with a body that may fault: \<open>for_each body [a..<b]\<close>.\<close>

fun for_each :: "('i \<Rightarrow> 's \<Rightarrow> 's option) \<Rightarrow> 'i list \<Rightarrow> 's \<Rightarrow> 's option" where
  "for_each body [] s = Some s"
| "for_each body (i # is) s = Option.bind (body i s) (for_each body is)"

lemma for_each_append:
  "for_each body (is @ js) s = Option.bind (for_each body is s) (for_each body js)"
proof (induction "is" arbitrary: s)
  case Nil
  then show ?case by simp
next
  case (Cons i "is")
  then show ?case by (cases "body i s") simp_all
qed

text \<open>A loop invariant indexed by the number of iterations done.\<close>

lemma for_each_upt:
  assumes "I 0 s" and "\<And>i s. i < n \<Longrightarrow> I i s \<Longrightarrow> \<exists>s'. body i s = Some s' \<and> I (Suc i) s'"
  shows "\<exists>s'. for_each body [0..<n] s = Some s' \<and> I n s'"
  using assms(2)
proof (induction n)
  case 0
  then show ?case using assms(1) by simp
next
  case (Suc n)
  then obtain t where "for_each body [0..<n] s = Some t" "I n t" by fastforce
  with Suc.prems [of n t] show ?case by (auto simp: for_each_append)
qed

section \<open>Lists\<close>

lemma remove1_mid: "y \<notin> set xs \<Longrightarrow> remove1 y (xs @ y # ys) = xs @ ys"
  by (simp add: remove1_append)

end
