(* ===== verification/Links.thy ===== *)
theory Links
  imports Prelude
begin

text \<open>
  Linked lists of C structs, as the kernel keeps its pages, blocks, tasks, directories and
  files.
  \<open>links f h\<close> is the link map that a pointer field \<open>f\<close> draws on a typed heap
  \<open>h\<close>; \<open>chain l p as\<close> says that following the link map \<open>l\<close> from \<open>p\<close>
  visits exactly the nodes \<open>as\<close> and then \<open>NULL\<close>; \<open>backs r q as\<close> that the back
  links of \<open>as\<close> name the predecessors, the first one \<open>q\<close>; \<open>dll\<close> is both.
  The lemmas say what the pointer surgery of the C code does to these lists: append at the
  tail, drop the head, unlink in the middle, drop the tail, and the frame rules.
  The locale \<open>tail_append\<close> is the contract that the tail-append operations share.
\<close>

section \<open>Link maps\<close>

definition links :: "('a \<Rightarrow> 'b) \<Rightarrow> (addr \<rightharpoonup> 'a) \<Rightarrow> addr \<rightharpoonup> 'b" where
  "links f h = (\<lambda>a. map_option f (h a))"

lemma links_apply [simp]: "h a = Some v \<Longrightarrow> links f h a = Some (f v)"
  by (simp add: links_def)

lemma links_SomeD: "links f h a = Some b \<Longrightarrow> \<exists>v. h a = Some v \<and> f v = b"
  by (auto simp: links_def)

lemma links_upd [simp]: "links f (h(a \<mapsto> v)) = (links f h)(a \<mapsto> f v)"
  by (auto simp: links_def)

lemma links_upd_other: "h a = Some v \<Longrightarrow> f w = f v \<Longrightarrow> links f (h(a \<mapsto> w)) = links f h"
  by (rule ext) (simp add: links_def)

lemma links_upd_idem [simp]: "h a = Some v \<Longrightarrow> (links f h)(a \<mapsto> f v) = links f h"
  by (simp add: fun_upd_idem_iff)

lemma links_coarser:
  assumes eq: "links f h = links f h'" and fg: "\<And>v w. f v = f w \<Longrightarrow> g v = g w"
  shows "links g h = links g h'"
proof (rule ext)
  fix q show "links g h q = links g h' q"
    using fun_cong [OF eq, of q] by (cases "h q"; cases "h' q") (auto simp: links_def intro: fg)
qed

section \<open>Chains\<close>

fun chain :: "(addr \<rightharpoonup> addr) \<Rightarrow> addr \<Rightarrow> addr list \<Rightarrow> bool" where
  "chain l p [] \<longleftrightarrow> p = NULL"
| "chain l p (a # as) \<longleftrightarrow>
     p = a \<and> a \<noteq> NULL \<and> (case l a of None \<Rightarrow> False | Some q \<Rightarrow> chain l q as)"

fun seg :: "(addr \<rightharpoonup> addr) \<Rightarrow> addr \<Rightarrow> addr list \<Rightarrow> addr \<Rightarrow> bool" where
  "seg l p [] q \<longleftrightarrow> p = q"
| "seg l p (a # as) q \<longleftrightarrow>
     p = a \<and> a \<noteq> NULL \<and> (case l a of None \<Rightarrow> False | Some p' \<Rightarrow> seg l p' as q)"

fun backs :: "(addr \<rightharpoonup> addr) \<Rightarrow> addr \<Rightarrow> addr list \<Rightarrow> bool" where
  "backs r q [] \<longleftrightarrow> True"
| "backs r q (a # as) \<longleftrightarrow> r a = Some q \<and> backs r a as"

definition dll :: "(addr \<rightharpoonup> addr) \<Rightarrow> (addr \<rightharpoonup> addr) \<Rightarrow> addr \<Rightarrow> addr list \<Rightarrow> bool" where
  "dll l r p as \<longleftrightarrow> chain l p as \<and> backs r NULL as"

lemma chain_seg: "chain l p as \<longleftrightarrow> seg l p as NULL"
  by (induction as arbitrary: p) (auto split: option.splits)

lemma seg_append: "seg l p (as @ bs) q \<longleftrightarrow> (\<exists>m. seg l p as m \<and> seg l m bs q)"
  by (induction as arbitrary: p) (auto split: option.splits)

lemma chain_append: "chain l p (as @ bs) \<longleftrightarrow> (\<exists>m. seg l p as m \<and> chain l m bs)"
  by (simp add: chain_seg seg_append)

lemma chain_NULL [simp]: "chain l NULL as \<longleftrightarrow> as = []"
  by (cases as) auto

lemma chain_ne_Nil: "chain l p as \<Longrightarrow> p \<noteq> NULL \<Longrightarrow> \<exists>q bs. as = p # bs \<and> l p = Some q \<and> chain l q bs"
  by (cases as) (auto split: option.splits)

lemma chain_hd: "chain l p as \<Longrightarrow> as \<noteq> [] \<Longrightarrow> p = hd as"
  by (cases as) auto

lemma chain_head_iff: "chain l p as \<Longrightarrow> p = NULL \<longleftrightarrow> as = []"
  by (cases as) auto

lemma seg_cong: "\<forall>x \<in> set as. l' x = l x \<Longrightarrow> seg l' p as q \<longleftrightarrow> seg l p as q"
  by (induction as arbitrary: p) (auto split: option.splits)

lemma chain_cong: "\<forall>x \<in> set as. l' x = l x \<Longrightarrow> chain l' p as \<longleftrightarrow> chain l p as"
  by (simp add: chain_seg seg_cong)

lemma seg_upd [simp]: "a \<notin> set as \<Longrightarrow> seg (l(a := x)) p as q \<longleftrightarrow> seg l p as q"
  by (rule seg_cong) auto

lemma chain_upd [simp]: "a \<notin> set as \<Longrightarrow> chain (l(a := x)) p as \<longleftrightarrow> chain l p as"
  by (rule chain_cong) auto

lemma chain_unique: "chain l p as \<Longrightarrow> chain l p bs \<Longrightarrow> as = bs"
proof (induction as arbitrary: p bs)
  case Nil
  then show ?case by simp
next
  case (Cons a as)
  then obtain q where a: "p = a" "a \<noteq> NULL" "l a = Some q" "chain l q as"
    by (auto split: option.splits)
  with Cons.prems(2) obtain cs where "bs = a # cs" "chain l q cs"
    by (cases bs) auto
  with Cons.IH a(4) show ?case by blast
qed

lemma chain_mem: "chain l p as \<Longrightarrow> x \<in> set as \<Longrightarrow> x \<noteq> NULL \<and> l x \<noteq> None"
  by (induction as arbitrary: p) (auto split: option.splits)

lemma chain_NULL_notin [simp]: "chain l p as \<Longrightarrow> NULL \<notin> set as"
  using chain_mem by blast

lemma chain_split:
  "chain l p (as @ a # bs) \<Longrightarrow> \<exists>q. l a = Some q \<and> a \<noteq> NULL \<and> chain l q bs \<and> seg l p as a"
  by (auto simp: chain_append split: option.splits)

lemma chain_distinct: "chain l p as \<Longrightarrow> distinct as"
proof (induction as arbitrary: p)
  case Nil
  then show ?case by simp
next
  case (Cons a as)
  then obtain q where q: "l a = Some q" "chain l q as"
    by (auto split: option.splits)
  have "a \<notin> set as"
  proof
    assume "a \<in> set as"
    then obtain bs cs where s: "as = bs @ a # cs" by (meson split_list)
    with q obtain q' where "l a = Some q'" "chain l q' cs"
      using chain_split by metis
    with q have "chain l q cs" by simp
    with q(2) have "as = cs" by (rule chain_unique)
    with s show False by simp
  qed
  with Cons.IH q(2) show ?case by simp
qed

lemma chain_snoc_last: "chain l p as \<Longrightarrow> as \<noteq> [] \<Longrightarrow> l (last as) = Some NULL"
  using chain_split [of l p "butlast as" "last as" "[]"] by auto

lemma walk_end_chain:
  assumes "chain (links nx h) p as" and "as \<noteq> []"
  shows "walk_end nx h p = Some (last as)"
  using assms
proof (induction as arbitrary: p)
  case Nil
  then show ?case by simp
next
  case (Cons a as)
  then obtain q where a: "p = a" "a \<noteq> NULL" "links nx h a = Some q" "chain (links nx h) q as"
    by (auto split: option.splits)
  then obtain v where v: "h a = Some v" "nx v = q" by (auto dest: links_SomeD)
  show ?case
  proof (cases "as = []")
    case True
    with a v show ?thesis by (simp add: walk_end.simps [of nx h a] deref_def)
  next
    case False
    with a(4) have "q \<noteq> NULL" by (auto dest: chain_head_iff)
    moreover have "walk_end nx h q = Some (last as)" using Cons.IH a(4) False by blast
    ultimately show ?thesis using a v False by (simp add: walk_end.simps [of nx h a] deref_def)
  qed
qed

lemma walk_end_NULL [simp]: "walk_end nx h NULL = None"
  by (simp add: walk_end.simps)

section \<open>Pointer surgery\<close>

lemma chain_snoc:
  assumes "chain l p as" and "as \<noteq> []" and "a \<notin> set as" and "a \<noteq> NULL"
  shows "chain (l(last as \<mapsto> a, a \<mapsto> NULL)) p (as @ [a])"
proof -
  obtain bs b where as: "as = bs @ [b]" using assms(2) by (metis append_butlast_last_id)
  then have "seg l p bs b" "b \<noteq> NULL" using assms(1) chain_split by blast+
  moreover have "b \<notin> set bs" using chain_distinct [OF assms(1)] as by simp
  ultimately show ?thesis using as assms(3,4) by (auto simp: chain_append seg_append)
qed

lemma chain_unlink:
  assumes "chain l p (as @ a # bs)" and "as \<noteq> []" and "l a = Some q"
  shows "chain (l(last as \<mapsto> q)) p (as @ bs)"
proof -
  obtain cs c where as: "as = cs @ [c]" using assms(2) by (metis append_butlast_last_id)
  have d: "distinct (cs @ [c] @ a # bs)" using chain_distinct [OF assms(1)] as by simp
  have "seg l p cs c" "c \<noteq> NULL"
    using chain_split [of l p cs c "a # bs"] assms(1) as by auto
  moreover have "chain l q bs" using chain_split [OF assms(1)] assms(3) by auto
  ultimately show ?thesis using as d by (auto simp: chain_append seg_append)
qed

lemma backs_append: "backs r q (as @ bs) \<longleftrightarrow> backs r q as \<and> backs r (if as = [] then q else last as) bs"
  by (induction as arbitrary: q) auto

lemma backs_cong: "\<forall>x \<in> set as. r' x = r x \<Longrightarrow> backs r' q as \<longleftrightarrow> backs r q as"
  by (induction as arbitrary: q) auto

lemma backs_upd [simp]: "a \<notin> set as \<Longrightarrow> backs (r(a := x)) q as \<longleftrightarrow> backs r q as"
  by (rule backs_cong) auto

lemma backs_snoc:
  "backs r q as \<Longrightarrow> as \<noteq> [] \<Longrightarrow> a \<notin> set as \<Longrightarrow> backs (r(a \<mapsto> last as)) q (as @ [a])"
  by (simp add: backs_append)

lemma backs_mid: "backs r q (as @ a # bs) \<Longrightarrow> r a = Some (if as = [] then q else last as)"
  by (simp add: backs_append)

lemma backs_unlink:
  assumes "backs r q (as @ a # b # bs)" and "as \<noteq> []" and "distinct (as @ a # b # bs)"
  shows "backs (r(b \<mapsto> last as)) q (as @ b # bs)"
  using assms by (auto simp: backs_append)

lemma dll_chain: "dll l r p as \<Longrightarrow> chain l p as"
  by (simp add: dll_def)

lemma dll_distinct: "dll l r p as \<Longrightarrow> distinct as"
  by (auto simp: dll_def dest: chain_distinct)

lemma dll_upd [simp]:
  "a \<notin> set as \<Longrightarrow> dll (l(a := x)) r p as \<longleftrightarrow> dll l r p as"
  "a \<notin> set as \<Longrightarrow> dll l (r(a := x)) p as \<longleftrightarrow> dll l r p as"
  by (simp_all add: dll_def)

lemma dll_Nil [simp]: "dll l r p [] \<longleftrightarrow> p = NULL"
  by (simp add: dll_def)

lemma dll_singleton: "a \<noteq> NULL \<Longrightarrow> dll (l(a \<mapsto> NULL)) (r(a \<mapsto> NULL)) a [a]"
  by (simp add: dll_def)

lemma dll_snoc:
  assumes "dll l r p as" and "as \<noteq> []" and "a \<notin> set as" and "a \<noteq> NULL"
  shows "dll (l(last as \<mapsto> a, a \<mapsto> NULL)) (r(a \<mapsto> last as)) p (as @ [a])"
  using assms chain_snoc backs_snoc by (simp add: dll_def)

text \<open>Dropping the head: the new head's back link is cleared.\<close>

lemma dll_tl:
  assumes "dll l r p (a # b # bs)"
  shows "dll l (r(b \<mapsto> NULL)) b (b # bs)"
  using assms chain_distinct [of l p "a # b # bs"] by (auto simp: dll_def split: option.splits)

text \<open>Dropping the tail: the new tail's forward link is cleared.\<close>

lemma dll_butlast:
  assumes "dll l r p (as @ [a])" and "as \<noteq> []"
  shows "dll (l(last as \<mapsto> NULL)) r p as"
proof -
  have "l a = Some NULL" using assms(1) chain_snoc_last [of l p "as @ [a]"] by (simp add: dll_def)
  then show ?thesis using assms chain_unlink [of l p as a "[]"] by (simp add: dll_def backs_append)
qed

text \<open>Unlinking an inner node: its two neighbours are joined.\<close>

lemma dll_unlink:
  assumes "dll l r p (as @ a # b # bs)" and "as \<noteq> []"
  shows "dll (l(last as \<mapsto> b)) (r(b \<mapsto> last as)) p (as @ b # bs)"
proof -
  have c: "chain l p (as @ a # b # bs)" using assms(1) by (simp add: dll_def)
  then have "l a = Some b" using chain_split [OF c] by (auto split: option.splits)
  then show ?thesis
    using assms chain_unlink [OF c assms(2)] backs_unlink [of r NULL as a b bs] chain_distinct [OF c]
    by (simp add: dll_def)
qed

lemma dll_next:
  "dll l r p (as @ a # bs) \<Longrightarrow> l a = Some (if bs = [] then NULL else hd bs)"
  by (cases bs) (auto simp: dll_def dest!: chain_split split: option.splits)

lemma dll_prev:
  "dll l r p (as @ a # bs) \<Longrightarrow> r a = Some (if as = [] then NULL else last as)"
  by (auto simp: dll_def dest: backs_mid)

text \<open>
  The lists that the initialisation loops thread through an array of structs: element \<open>i\<close> at
  address \<open>f i\<close> links to its neighbours.
\<close>

lemma chain_array:
  assumes "k < n" and "\<And>i. k \<le> i \<Longrightarrow> i < n \<Longrightarrow> f i \<noteq> NULL"
    and "\<And>i. k \<le> i \<Longrightarrow> i < n \<Longrightarrow> l (f i) = Some (if i = n - 1 then NULL else f (i + 1))"
  shows "chain l (f k) (map f [k..<n])"
  using assms
proof (induction "n - k" arbitrary: k)
  case 0
  then show ?case by simp
next
  case (Suc m)
  have up: "[k..<n] = k # [Suc k..<n]" using Suc.prems(1) by (rule upt_conv_Cons)
  show ?case
  proof (cases "Suc k < n")
    case True
    have "chain l (f (Suc k)) (map f [Suc k..<n])"
      using Suc.hyps(1) [of "Suc k"] Suc.hyps(2) Suc.prems True by simp
    moreover have "k \<noteq> n - 1" using True by linarith
    moreover from this have "l (f k) = Some (f (Suc k))"
      using Suc.prems(3) [of k] Suc.prems(1) by simp
    ultimately show ?thesis using up Suc.prems(1,2) by simp
  next
    case False
    then have "n = Suc k" using Suc.prems(1) by simp
    then show ?thesis using Suc.prems(2,3) [of k] by simp
  qed
qed

lemma backs_array:
  assumes "\<And>i. k \<le> i \<Longrightarrow> i < n \<Longrightarrow> r (f i) = Some (if i = k then q else f (i - 1))"
  shows "backs r q (map f [k..<n])"
  using assms
proof (induction "n - k" arbitrary: k q)
  case 0
  then show ?case by simp
next
  case (Suc m)
  then have lt: "k < n" by simp
  have "backs r (f k) (map f [Suc k..<n])"
    using Suc.hyps(1) [of "Suc k" "f k"] Suc.hyps(2) Suc.prems by simp
  then show ?case using Suc.prems [of k] lt by (simp add: upt_conv_Cons)
qed

section \<open>The contract of tail-append operations\<close>

text \<open>
  \<open>repr s xs\<close>: the list that state \<open>s\<close> holds is \<open>xs\<close>; \<open>spare s a\<close>: the object
  \<open>a\<close> exists and may be appended.
  The provider promises that appending a spare object succeeds, puts it last and leaves the
  other spare objects spare.
\<close>

locale tail_append =
  fixes app :: "addr \<Rightarrow> 's \<Rightarrow> 's option"
    and repr :: "'s \<Rightarrow> addr list \<Rightarrow> bool"
    and spare :: "'s \<Rightarrow> addr \<Rightarrow> bool"
  assumes append_last:
      "repr s xs \<Longrightarrow> spare s a \<Longrightarrow> a \<notin> set xs \<Longrightarrow>
        \<exists>s'. app a s = Some s' \<and> repr s' (xs @ [a]) \<and> (\<forall>b. b \<noteq> a \<longrightarrow> spare s b \<longrightarrow> spare s' b)"
begin

lemma for_each_repr:
  "repr s xs \<Longrightarrow> \<forall>a \<in> set as. spare s a \<Longrightarrow> distinct as \<Longrightarrow> set as \<inter> set xs = {} \<Longrightarrow>
    \<exists>s'. for_each app as s = Some s' \<and> repr s' (xs @ as)"
proof (induction as arbitrary: s xs)
  case Nil
  then show ?case by simp
next
  case (Cons a as)
  then obtain t where t: "app a s = Some t" "repr t (xs @ [a])" "\<forall>b. b \<noteq> a \<longrightarrow> spare s b \<longrightarrow> spare t b"
    using append_last [of s xs a] by auto
  have "\<forall>b \<in> set as. spare t b" using t(3) Cons.prems by auto
  then obtain s' where "for_each app as t = Some s'" "repr s' ((xs @ [a]) @ as)"
    using Cons.IH [of t "xs @ [a]"] t(2) Cons.prems by auto
  with t(1) show ?case by simp
qed

end

section \<open>The contract of the page allocator\<close>

text \<open>
  \<open>state s fs us\<close>: the free pages, in the order they will be handed out, are \<open>fs\<close>,
  and the used ones are \<open>us\<close>.
  The provider hands out the first free page while another one is left, and promises that no
  page is on the two lists at once; taking the last page is outside the contract.
\<close>

fun alloc_many :: "('s \<Rightarrow> (addr \<times> 's) option) \<Rightarrow> nat \<Rightarrow> 's \<Rightarrow> (addr list \<times> 's) option" where
  "alloc_many alloc 0 s = Some ([], s)"
| "alloc_many alloc (Suc n) s = do {
     (p, s) \<leftarrow> alloc s;
     (ps, s) \<leftarrow> alloc_many alloc n s;
     Some (p # ps, s)
   }"

locale page_source =
  fixes alloc :: "'s \<Rightarrow> (addr \<times> 's) option"
    and state :: "'s \<Rightarrow> addr list \<Rightarrow> addr list \<Rightarrow> bool"
  assumes alloc_next:
      "state s (p # q # fs) us \<Longrightarrow> \<exists>s'. alloc s = Some (p, s') \<and> state s' (q # fs) (us @ [p])"
    and alloc_only: "state s [p] us \<Longrightarrow> alloc s = None"
    and state_distinct: "state s fs us \<Longrightarrow> distinct (fs @ us)"
begin

lemma alloc_many_prefix:
  "state s fs us \<Longrightarrow> n < length fs \<Longrightarrow>
    \<exists>s'. alloc_many alloc n s = Some (take n fs, s') \<and> state s' (drop n fs) (us @ take n fs)"
proof (induction n arbitrary: s fs us)
  case 0
  then show ?case by simp
next
  case (Suc n)
  then obtain p q gs where fs: "fs = p # q # gs"
    by (metis Suc_length_conv Suc_lessD length_Suc_conv less_Suc_eq_0_disj not_less_eq neq_Nil_conv
        list.size(3) not_less_zero)
  then obtain t where t: "alloc s = Some (p, t)" "state t (q # gs) (us @ [p])"
    using alloc_next Suc.prems(1) by blast
  then obtain s' where "alloc_many alloc n t = Some (take n (q # gs), s')"
    "state s' (drop n (q # gs)) ((us @ [p]) @ take n (q # gs))"
    using Suc.IH Suc.prems(2) fs by (metis length_Cons Suc_less_eq)
  with t fs show ?case by simp
qed

lemma alloc_many_exhausted:
  "state s fs us \<Longrightarrow> fs \<noteq> [] \<Longrightarrow> length fs \<le> n \<Longrightarrow> alloc_many alloc n s = None"
proof (induction n arbitrary: s fs us)
  case 0
  then show ?case by simp
next
  case (Suc n)
  then obtain p gs where fs: "fs = p # gs" by (cases fs) auto
  show ?case
  proof (cases gs)
    case Nil
    then have "alloc s = None" using alloc_only Suc.prems(1) fs by simp
    then show ?thesis by simp
  next
    case (Cons q hs)
    then obtain t where t: "alloc s = Some (p, t)" "state t gs (us @ [p])"
      using alloc_next Suc.prems(1) fs by blast
    then have "alloc_many alloc n t = None"
      using Suc.IH [OF t(2)] Suc.prems(3) fs Cons by simp
    with t show ?thesis by simp
  qed
qed

lemma alloc_many_fresh:
  assumes "state s fs us" and "alloc_many alloc n s = Some (ps, s')" and "fs \<noteq> []"
  shows "distinct ps \<and> set ps \<inter> set us = {}"
proof -
  have "n < length fs"
    using alloc_many_exhausted [OF assms(1,3)] assms(2) by (cases "n < length fs") auto
  then obtain t where "alloc_many alloc n s = Some (take n fs, t)"
    using alloc_many_prefix [OF assms(1)] by blast
  then have "ps = take n fs" using assms(2) by simp
  then show ?thesis using state_distinct [OF assms(1)] set_take_subset [of n fs] by auto
qed

end

end
