(* ===== verification/Kstate.thy ===== *)
theory Kstate
  imports Links
begin

text \<open>
  The kernel's data: one record per C struct, and the record \<open>kstate\<close> of the kernel's
  global variables, the typed heaps its pointers range over, and the few machine registers and
  device words the C code writes.
  Field names follow the C fields; a prefix (\<open>pg_\<close>, \<open>b_\<close>, \<open>c_\<close>,
  \<open>d_\<close>, \<open>f_\<close>, \<open>q_\<close>) keeps fields of the same C name apart.
  Pointers are addresses, \<^verbatim>\<open>int\<close> and \<^verbatim>\<open>uint32_t\<close> fields 32-bit words; the four
  \<^verbatim>\<open>int\<close> fields of \<^verbatim>\<open>struct QUEUE\<close>, which only hold small counts, are HOL integers.
  A character array is the list of its cells, so that reading or writing past its end shows.
\<close>

section \<open>Constants\<close>

abbreviation (input) PAGE_SIZE :: u32 where "PAGE_SIZE \<equiv> 0x100000"
abbreviation (input) PAGE_NUM :: nat where "PAGE_NUM \<equiv> 446"
abbreviation (input) TASK_STACK_SIZE :: u32 where "TASK_STACK_SIZE \<equiv> 4096"
abbreviation (input) BLK_SIZE :: u32 where "BLK_SIZE \<equiv> 4096"
abbreviation (input) BLK_NUM_PER_PAGE :: nat where "BLK_NUM_PER_PAGE \<equiv> 256"
abbreviation (input) KBLK_SIZE :: u32 where "KBLK_SIZE \<equiv> 16384"
abbreviation (input) KBLK_NUM_PER_PAGE :: nat where "KBLK_NUM_PER_PAGE \<equiv> 64"

abbreviation (input) FREE :: u32 where "FREE \<equiv> 0"
abbreviation (input) INUSE :: u32 where "INUSE \<equiv> 1"
abbreviation (input) FULL :: u32 where "FULL \<equiv> 2"
abbreviation (input) FOR_TASK :: u32 where "FOR_TASK \<equiv> 3"
abbreviation (input) FOR_KERN :: u32 where "FOR_KERN \<equiv> 4"
abbreviation (input) FOR_QUEUE :: u32 where "FOR_QUEUE \<equiv> 5"

abbreviation (input) C_FALSE :: u32 where "C_FALSE \<equiv> 0"
abbreviation (input) C_TRUE :: u32 where "C_TRUE \<equiv> 1"

abbreviation (input) UMEM_START_PADDR :: addr where "UMEM_START_PADDR \<equiv> 0x82100000"
abbreviation (input) KUSE_START_PADDR :: addr where "KUSE_START_PADDR \<equiv> 0x82000000"

abbreviation (input) TASK_RUNNING :: u32 where "TASK_RUNNING \<equiv> 0"
abbreviation (input) TASK_READY :: u32 where "TASK_READY \<equiv> 1"
abbreviation (input) TASK_TERMINATE :: u32 where "TASK_TERMINATE \<equiv> 2"
abbreviation (input) MAXNUM_PRIORITY :: nat where "MAXNUM_PRIORITY \<equiv> 5"
abbreviation (input) MAX_FD :: nat where "MAX_FD \<equiv> 8"
abbreviation (input) NAME_BUF_SIZE :: nat where "NAME_BUF_SIZE \<equiv> 16"

text \<open>\<^verbatim>\<open>sizeof\<close> of the structs under the ARM EABI (every field is one word, a name buffer four).\<close>

abbreviation (input) sizeof_PAGE_INFO :: u32 where "sizeof_PAGE_INFO \<equiv> 44"
abbreviation (input) sizeof_BLK_INFO :: u32 where "sizeof_BLK_INFO \<equiv> 28"
abbreviation (input) sizeof_DIR_NODE :: u32 where "sizeof_DIR_NODE \<equiv> 36"
abbreviation (input) sizeof_FILE :: u32 where "sizeof_FILE \<equiv> 48"

abbreviation (input) NUL :: char where "NUL \<equiv> CHR 0x00"

section \<open>Structs\<close>

record page_info =
  pg_next :: addr
  pg_prev :: addr
  page_status :: u32
  page_id :: u32
  pgstart :: addr
  task_stk_top :: addr
  pg_top :: addr
  free_start :: addr
  blk_list_head :: addr
  no_free_blks :: u32
  blk_not_init :: u32

record blk_info =
  b_owner :: addr
  b_next :: addr
  b_prev :: addr
  b_start :: addr
  b_top :: addr
  b_status :: u32
  b_id :: u32

record task_context =
  c_r0 :: u32
  c_r1 :: u32
  c_r2 :: u32
  c_r3 :: u32
  c_r4 :: u32
  c_r5 :: u32
  c_r6 :: u32
  c_r7 :: u32
  c_r8 :: u32
  c_r9_return_lr :: u32
  c_r10 :: u32
  c_r11 :: u32
  c_r12_spsr :: u32
  c_lr :: u32

record task_info =
  next_ptr :: addr
  prev_ptr :: addr
  stk_bottom :: addr
  stk_top :: addr
  taskCallBack :: addr
  task_id :: u32
  task_status :: u32
  task_context_ptr :: addr
  priority :: u32
  openfiles :: "addr list"
  cwdn :: addr
  pgtbase :: addr

text \<open>The four functions that the \<^verbatim>\<open>file_read\<close> / \<^verbatim>\<open>file_write\<close> pointers can hold, and NULL.\<close>

datatype file_fn = Fn_NULL | Fn_console_read | Fn_console_write | Fn_ipc_read | Fn_ipc_write

record file_obj =
  f_parent :: addr
  f_next_sibling :: addr
  f_list_next :: addr
  f_list_prev :: addr
  f_type :: u32
  f_namebuf :: "char list"
  f_name :: "char list"
  file_read :: file_fn
  file_write :: file_fn

record dir_node =
  d_firstchild :: addr
  d_parent :: addr
  d_next_sibling :: addr
  d_firstfile :: addr
  d_namebuf :: "char list"
  d_name :: "char list"

record dirtree_info =
  dt_ma :: addr
  dt_ma_aval_start :: addr
  dt_n_nodes :: u32
  dt_root :: addr

record queue =
  q_size :: int
  q_head :: int
  q_end :: int
  q_n_data :: int
  q_data :: addr

text \<open>What \<^verbatim>\<open>schedFuncContextSPtr->lr\<close> can hold.\<close>

datatype sched_fn = Fn_unset | Fn_sched | Fn_run_first_sched

text \<open>A store to a device register, of a word or of a byte.\<close>

datatype dev_write = Wr32 addr u32 | Wr8 addr u8

section \<open>The kernel's global state\<close>

text \<open>
  \<open>kernal_end\<close> is the linker's \<^verbatim>\<open>_end\<close>, \<open>kpage_addr\<close> where the linker puts the variable \<open>kpage\<close>.
  \<open>page_list\<close> holds the 446 cells of the array and, last, the word that follows it in
  memory, which \<^verbatim>\<open>page_list_init\<close> writes (see theory \<open>Pages\<close>).
  \<open>bytes\<close> are the bytes of RAM that no struct occupies: kernel buffers.
  \<open>ptes\<close> are the page-table words; \<open>sctlr\<close>, \<open>ttbr0\<close>, \<open>dacr\<close> the CP15
  registers c1, c2, c3 and \<open>tlb\<close> the descriptors the TLB holds, by section number; \<open>uart_tx\<close> the
  characters sent on UART0 so far and \<open>uart_rx\<close> those that will be received.
  \<open>dev_reg\<close> is the value last written to a device register, \<open>dev_log\<close> every device write in
  order, and \<open>dev_in\<close> the values that the hardware will show, one read after the other, in a
  register that it writes itself.
\<close>

record kstate =
  \<comment> \<open>memory.c\<close>
  kernal_end :: addr
  page_heap :: "addr \<rightharpoonup> page_info"
  blk_heap :: "addr \<rightharpoonup> blk_info"
  free_page_head :: addr
  inuse_page_head :: addr
  page_list :: "addr list"
  kpage :: page_info
  kpage_addr :: addr
  kblk_list_base :: addr
  \<comment> \<open>task.c\<close>
  task_heap :: "addr \<rightharpoonup> task_info"
  ctx_heap :: "addr \<rightharpoonup> task_context"
  task_ready_list :: "addr list"
  curr_running_task :: addr
  taskid :: u32
  prio :: u32
  sched_lr :: sched_fn
  \<comment> \<open>file.c\<close>
  dir_heap :: "addr \<rightharpoonup> dir_node"
  file_heap :: "addr \<rightharpoonup> file_obj"
  path_tree :: dirtree_info
  root :: addr
  file_list_head :: addr
  \<comment> \<open>ipc.c\<close>
  ipc_q :: queue
  \<comment> \<open>RAM, MMU and devices\<close>
  bytes :: "addr \<Rightarrow> u8"
  ptes :: "addr \<Rightarrow> u32"
  ttbr0 :: addr
  sctlr :: u32
  dacr :: u32
  tlb :: "u32 \<rightharpoonup> u32"
  uart_tx :: "char list"
  uart_rx :: "u8 list"
  dev_reg :: "addr \<Rightarrow> u32"
  dev_log :: "dev_write list"
  dev_in :: "addr \<Rightarrow> u32 list"
  \<comment> \<open>interrupt.c\<close>
  irq_handler_array :: "addr list"

text \<open>
  A state whose C globals are zero, as \<^verbatim>\<open>bss_init\<close> leaves them, with the kernel image ending
  at 0x82020000 (the place the memory map of \<^verbatim>\<open>src/src/kernel/mmu.h\<close> gives).
\<close>

definition zero_page :: page_info where
  "zero_page = \<lparr>pg_next = 0, pg_prev = 0, page_status = 0, page_id = 0, pgstart = 0,
     task_stk_top = 0, pg_top = 0, free_start = 0, blk_list_head = 0, no_free_blks = 0,
     blk_not_init = 0\<rparr>"

definition zero_state :: kstate where
  "zero_state = \<lparr>
     kernal_end = 0x82020000, page_heap = Map.empty, blk_heap = Map.empty, free_page_head = 0,
     inuse_page_head = 0, page_list = replicate 447 0, kpage = zero_page,
     kpage_addr = 0x82018000, kblk_list_base = 0,
     task_heap = Map.empty, ctx_heap = Map.empty, task_ready_list = replicate 5 0,
     curr_running_task = 0, taskid = 0, prio = 0, sched_lr = Fn_unset,
     dir_heap = Map.empty, file_heap = Map.empty,
     path_tree = \<lparr>dt_ma = 0, dt_ma_aval_start = 0, dt_n_nodes = 0, dt_root = 0\<rparr>,
     root = 0, file_list_head = 0,
     ipc_q = \<lparr>q_size = 0, q_head = 0, q_end = 0, q_n_data = 0, q_data = 0\<rparr>,
     bytes = (\<lambda>_. 0), ptes = (\<lambda>_. 0), ttbr0 = 0, sctlr = 0, dacr = 0, tlb = Map.empty,
     uart_tx = [], uart_rx = [],
     dev_reg = (\<lambda>_. 0), dev_log = [], dev_in = (\<lambda>_. []), irq_handler_array = replicate 128 0\<rparr>"

section \<open>Writing through struct pointers\<close>

definition upd_page :: "addr \<Rightarrow> (page_info \<Rightarrow> page_info) \<Rightarrow> kstate \<Rightarrow> kstate option" where
  "upd_page p f s = map_option (\<lambda>h. s\<lparr>page_heap := h\<rparr>) (upd p f (page_heap s))"

definition upd_blk :: "addr \<Rightarrow> (blk_info \<Rightarrow> blk_info) \<Rightarrow> kstate \<Rightarrow> kstate option" where
  "upd_blk p f s = map_option (\<lambda>h. s\<lparr>blk_heap := h\<rparr>) (upd p f (blk_heap s))"

definition upd_task :: "addr \<Rightarrow> (task_info \<Rightarrow> task_info) \<Rightarrow> kstate \<Rightarrow> kstate option" where
  "upd_task p f s = map_option (\<lambda>h. s\<lparr>task_heap := h\<rparr>) (upd p f (task_heap s))"

definition upd_ctx :: "addr \<Rightarrow> (task_context \<Rightarrow> task_context) \<Rightarrow> kstate \<Rightarrow> kstate option" where
  "upd_ctx p f s = map_option (\<lambda>h. s\<lparr>ctx_heap := h\<rparr>) (upd p f (ctx_heap s))"

definition upd_dir :: "addr \<Rightarrow> (dir_node \<Rightarrow> dir_node) \<Rightarrow> kstate \<Rightarrow> kstate option" where
  "upd_dir p f s = map_option (\<lambda>h. s\<lparr>dir_heap := h\<rparr>) (upd p f (dir_heap s))"

definition upd_file :: "addr \<Rightarrow> (file_obj \<Rightarrow> file_obj) \<Rightarrow> kstate \<Rightarrow> kstate option" where
  "upd_file p f s = map_option (\<lambda>h. s\<lparr>file_heap := h\<rparr>) (upd p f (file_heap s))"

lemma upd_objs [heap_simps]:
  "p \<noteq> NULL \<Longrightarrow> page_heap s p = Some v \<Longrightarrow>
     upd_page p f s = Some (s\<lparr>page_heap := (page_heap s)(p \<mapsto> f v)\<rparr>)"
  "p \<noteq> NULL \<Longrightarrow> blk_heap s p = Some b \<Longrightarrow>
     upd_blk p fb s = Some (s\<lparr>blk_heap := (blk_heap s)(p \<mapsto> fb b)\<rparr>)"
  "p \<noteq> NULL \<Longrightarrow> task_heap s p = Some t \<Longrightarrow>
     upd_task p ft s = Some (s\<lparr>task_heap := (task_heap s)(p \<mapsto> ft t)\<rparr>)"
  "p \<noteq> NULL \<Longrightarrow> ctx_heap s p = Some c \<Longrightarrow>
     upd_ctx p fc s = Some (s\<lparr>ctx_heap := (ctx_heap s)(p \<mapsto> fc c)\<rparr>)"
  "p \<noteq> NULL \<Longrightarrow> dir_heap s p = Some d \<Longrightarrow>
     upd_dir p fd s = Some (s\<lparr>dir_heap := (dir_heap s)(p \<mapsto> fd d)\<rparr>)"
  "p \<noteq> NULL \<Longrightarrow> file_heap s p = Some fl \<Longrightarrow>
     upd_file p ff s = Some (s\<lparr>file_heap := (file_heap s)(p \<mapsto> ff fl)\<rparr>)"
  by (simp_all add: upd_page_def upd_blk_def upd_task_def upd_ctx_def upd_dir_def upd_file_def
      upd_Some)

lemma upd_objs_NULL [simp]:
  "upd_page NULL f s = None" "upd_blk NULL fb s = None" "upd_task NULL ft s = None"
  "upd_ctx NULL fc s = None" "upd_dir NULL fd s = None" "upd_file NULL ff s = None"
  by (simp_all add: upd_page_def upd_blk_def upd_task_def upd_ctx_def upd_dir_def upd_file_def)

end
