(* ===== verification/Printk.thy ===== *)
theory Printk
  imports Kstate
begin

text \<open>
  Formatted output: \<^verbatim>\<open>src/src/kernel/printk.c\<close> and its user-mode twin in
  \<^verbatim>\<open>src/src/klib/stdio.c\<close>.
  A C string is the list of the cells from the pointer to the end of its array, so a format
  that runs past its terminator is \<open>None\<close>; so is a conversion without an argument.
  \<open>kprint\<close> yields the characters in the order they are handed to \<open>print_char\<close>;
  \<open>printk\<close> sends them.
  The lemmas show that numbers read back as printed, that the pad flags do nothing, that
  \<open>kprint\<close> agrees with a two-pass reference (parse the format, then render it) exactly when no
  \<^verbatim>\<open>%d\<close> meets a negative argument, and that the kernel's and the user's formatter agree.
\<close>

section \<open>C strings\<close>

definition cstr :: "char list \<Rightarrow> char list" where
  "cstr t = t @ [NUL]"

abbreviation (input) crlf :: "char list" where
  "crlf \<equiv> [CHR 0x0D, CHR 0x0A]"

section \<open>print_va and kprint\<close>

text \<open>\<^verbatim>\<open>while (--width > 0) print_char(padc);\<close>\<close>

function pad_loop :: "int \<Rightarrow> char \<Rightarrow> char list" where
  "pad_loop width padc =
     (if width - 1 > 0 then padc # pad_loop (width - 1) padc else [])"
  by pat_completeness auto
termination
  by (relation "measure (\<lambda>(w, _). nat w)") auto

declare pad_loop.simps [simp del]

definition hex_digits :: "char list" where
  "hex_digits = ''0123456789abcdef''"

definition digit_char :: "u32 \<Rightarrow> char option" where
  "digit_char d = (if unat d < length hex_digits then Some (hex_digits ! unat d) else None)"

partial_function (option) print_va :: "u32 \<Rightarrow> u32 \<Rightarrow> int \<Rightarrow> char \<Rightarrow> char list option" where
  "print_va va_val base width padc = do {
     out \<leftarrow> (if va_val \<ge> base then print_va (va_val div base) base (width - 1) padc
            else Some (pad_loop width padc));
     d \<leftarrow> digit_char (va_val mod base);
     Some (out @ [d])
   }"

text \<open>
  \<open>kprint\<close> is the outer \<^verbatim>\<open>while (1)\<close>, \<open>kprint_format\<close> the code at the label
  \<^verbatim>\<open>FORMAT_PRINT\<close>.
  In the \<^verbatim>\<open>%d\<close> case the argument has become a \<^verbatim>\<open>uint32_t\<close> before it is compared as a
  \<^verbatim>\<open>long long\<close>, so the comparison is on \<open>uint\<close>.
\<close>

fun kprint :: "char list \<Rightarrow> u32 list \<Rightarrow> char list option"
  and kprint_format :: "char list \<Rightarrow> u32 list \<Rightarrow> int \<Rightarrow> char \<Rightarrow> char list option" where
  "kprint [] args = None"
| "kprint (c # fmt) args =
     (if c = CHR ''%'' then kprint_format fmt args (-1) (CHR '' '')
      else if c = NUL then Some []
      else map_option ((#) c) (kprint fmt args))"
| "kprint_format [] args width padc = None"
| "kprint_format (c # fmt) args width padc =
     (if c = CHR ''-'' then kprint_format fmt args width (CHR ''-'')
      else if c = CHR ''0'' then kprint_format fmt args width (CHR ''0'')
      else if c = CHR ''c'' then
        (case args of [] \<Rightarrow> None
         | a # args \<Rightarrow> map_option ((#) (char_of (unat a))) (kprint fmt args))
      else if c = CHR ''p'' \<or> c = CHR ''x'' then
        (case args of [] \<Rightarrow> None
         | a # args \<Rightarrow> do {
             ds \<leftarrow> print_va a 16 width padc;
             out \<leftarrow> kprint fmt args;
             Some (''0x'' @ ds @ out) })
      else if c = CHR ''d'' then
        (case args of [] \<Rightarrow> None
         | a # args \<Rightarrow> do {
             let neg = uint a < 0;
             ds \<leftarrow> print_va (if neg then - a else a) 10 width padc;
             out \<leftarrow> kprint fmt args;
             Some ((if neg then ''-'' else []) @ ds @ out) })
      else if c = CHR ''u'' then
        (case args of [] \<Rightarrow> None
         | a # args \<Rightarrow> do {
             ds \<leftarrow> print_va a 10 width padc;
             out \<leftarrow> kprint fmt args;
             Some (ds @ out) })
      else kprint fmt args)"

definition print_char :: "char \<Rightarrow> kstate \<Rightarrow> kstate" where
  "print_char c s = s\<lparr>uart_tx := uart_tx s @ [c]\<rparr>"

definition printk :: "char list \<Rightarrow> u32 list \<Rightarrow> kstate \<Rightarrow> kstate option" where
  "printk fmt args s = map_option (\<lambda>out. fold print_char out s) (kprint fmt args)"

section \<open>The user-mode formatter of stdio.c\<close>

partial_function (option) put_va :: "u32 \<Rightarrow> u32 \<Rightarrow> int \<Rightarrow> char \<Rightarrow> char list option" where
  "put_va va_val base width padc = do {
     out \<leftarrow> (if va_val \<ge> base then put_va (va_val div base) base (width - 1) padc
            else Some (pad_loop width padc));
     d \<leftarrow> digit_char (va_val mod base);
     Some (out @ [d])
   }"

fun uprint :: "char list \<Rightarrow> u32 list \<Rightarrow> char list option"
  and uprint_format :: "char list \<Rightarrow> u32 list \<Rightarrow> int \<Rightarrow> char \<Rightarrow> char list option" where
  "uprint [] args = None"
| "uprint (c # fmt) args =
     (if c = CHR ''%'' then uprint_format fmt args (-1) (CHR '' '')
      else if c = NUL then Some []
      else map_option ((#) c) (uprint fmt args))"
| "uprint_format [] args width padc = None"
| "uprint_format (c # fmt) args width padc =
     (if c = CHR ''-'' then uprint_format fmt args width (CHR ''-'')
      else if c = CHR ''0'' then uprint_format fmt args width (CHR ''0'')
      else if c = CHR ''c'' then
        (case args of [] \<Rightarrow> None
         | a # args \<Rightarrow> map_option ((#) (char_of (unat a))) (uprint fmt args))
      else if c = CHR ''p'' \<or> c = CHR ''x'' then
        (case args of [] \<Rightarrow> None
         | a # args \<Rightarrow> do {
             ds \<leftarrow> put_va a 16 width padc;
             out \<leftarrow> uprint fmt args;
             Some (''0x'' @ ds @ out) })
      else if c = CHR ''d'' then
        (case args of [] \<Rightarrow> None
         | a # args \<Rightarrow> do {
             let neg = uint a < 0;
             ds \<leftarrow> put_va (if neg then - a else a) 10 width padc;
             out \<leftarrow> uprint fmt args;
             Some ((if neg then ''-'' else []) @ ds @ out) })
      else if c = CHR ''u'' then
        (case args of [] \<Rightarrow> None
         | a # args \<Rightarrow> do {
             ds \<leftarrow> put_va a 10 width padc;
             out \<leftarrow> uprint fmt args;
             Some (ds @ out) })
      else uprint fmt args)"

declare print_va.simps [code] put_va.simps [code]

section \<open>Numbers\<close>

text \<open>The digits of a number, most significant first, and what a digit string denotes.\<close>

function digits :: "nat \<Rightarrow> nat \<Rightarrow> nat list" where
  "digits b n = (if b \<le> 1 \<or> n < b then [n] else digits b (n div b) @ [n mod b])"
  by pat_completeness auto
termination
  by (relation "measure snd") auto

declare digits.simps [simp del]

definition num_text :: "nat \<Rightarrow> nat \<Rightarrow> char list" where
  "num_text b n = map (\<lambda>d. hex_digits ! d) (digits b n)"

definition char_val :: "char \<Rightarrow> nat" where
  "char_val c = (if (of_char c :: nat) < 58 then of_char c - 48 else of_char c - 87)"

definition read_num :: "nat \<Rightarrow> char list \<Rightarrow> nat" where
  "read_num b cs = foldl (\<lambda>a c. a * b + char_val c) 0 cs"

lemma char_val_hex_digit:
  assumes "d < 16"
  shows "char_val (hex_digits ! d) = d"
proof -
  have "\<forall>d \<in> {0, 1, 2, 3, 4, 5, 6, 7, 8, 9, 10, 11, 12, 13, 14, 15}.
      char_val (hex_digits ! d) = d"
    by (simp add: char_val_def hex_digits_def of_char_def)
  moreover have "d \<in> {0, 1, 2, 3, 4, 5, 6, 7, 8, 9, 10, 11, 12, 13, 14, 15}"
    using assms by (simp only: insert_iff empty_iff) presburger
  ultimately show ?thesis by (rule bspec)
qed

lemma digits_bound: "2 \<le> b \<Longrightarrow> d \<in> set (digits b n) \<Longrightarrow> d < b"
proof (induction b n rule: digits.induct)
  case (1 b n)
  then show ?case by (auto simp: digits.simps [of b n] split: if_splits)
qed

lemma digits_value:
  assumes "2 \<le> b"
  shows "foldl (\<lambda>a d. a * b + d) 0 (digits b n) = n"
  using assms
proof (induction b n rule: digits.induct)
  case (1 b n)
  show ?case
  proof (cases "n < b")
    case True
    then show ?thesis by (simp add: digits.simps [of b n])
  next
    case False
    then show ?thesis using 1 by (simp add: digits.simps [of b n])
  qed
qed

lemma digits_hd: "2 \<le> b \<Longrightarrow> n \<noteq> 0 \<Longrightarrow> hd (digits b n) \<noteq> 0"
proof (induction b n rule: digits.induct)
  case (1 b n)
  have ne: "digits b m \<noteq> []" for m by (subst digits.simps) simp
  show ?case
  proof (cases "n < b")
    case True
    then show ?thesis using 1 by (simp add: digits.simps [of b n])
  next
    case False
    then have "n div b \<noteq> 0" using 1 by (simp add: div_eq_0_iff)
    then show ?thesis using 1 False ne by (simp add: digits.simps [of b n])
  qed
qed

lemma read_num_text:
  assumes "2 \<le> b" and "b \<le> 16"
  shows "read_num b (num_text b n) = n"
proof -
  have "foldl (\<lambda>a c. a * b + char_val c) k (map (\<lambda>d. hex_digits ! d) ds) =
      foldl (\<lambda>a d. a * b + d) k ds" if "\<forall>d \<in> set ds. d < 16" for ds k
    using that by (induction ds arbitrary: k) (auto simp: char_val_hex_digit)
  moreover have "\<forall>d \<in> set (digits b n). d < 16"
    using digits_bound assms by fastforce
  ultimately show ?thesis
    using digits_value [OF assms(1)] by (simp add: read_num_def num_text_def)
qed

lemma pad_loop_Nil [simp]: "width \<le> 1 \<Longrightarrow> pad_loop width padc = []"
  by (simp add: pad_loop.simps)

lemma digit_char_lt16: "unat d < 16 \<Longrightarrow> digit_char d = Some (hex_digits ! unat d)"
  by (simp add: digit_char_def hex_digits_def)

text \<open>
  With the width that \<open>kprint\<close> passes, the result is the number's digits and no padding.
  The lemma takes the equation of the C function as a hypothesis, so that it serves both copies.
\<close>

lemma va_num_text:
  assumes eq: "\<And>v width. f v width = do {
      out \<leftarrow> (if v \<ge> of_nat b then f (v div of_nat b) (width - 1)
             else Some (pad_loop width padc));
      d \<leftarrow> digit_char (v mod of_nat b);
      Some (out @ [d]) }"
    and "2 \<le> b" and "b \<le> 16" and "width \<le> 1"
  shows "f v width = Some (num_text b (unat v))"
  using assms(4)
proof (induction "unat v" arbitrary: v width rule: less_induct)
  case less
  have ub: "unat (of_nat b :: u32) = b" using assms by (intro unat_of_nat32) simp
  have lt: "unat v mod b < 16" using assms by (meson mod_less_divisor order_less_le_trans zero_less_numeral order_trans less_le_trans zero_less_two)
  then have md: "digit_char (v mod of_nat b) = Some (hex_digits ! (unat v mod b))"
    using ub by (subst digit_char_lt16) (simp_all add: unat_mod)
  show ?case
  proof (cases "unat v < b")
    case True
    then have "\<not> v \<ge> of_nat b" by (simp add: word_le_nat_alt ub)
    then show ?thesis
      using less.prems md True by (simp add: eq [of v] num_text_def digits.simps [of b])
  next
    case False
    then have ge: "v \<ge> of_nat b" by (simp add: word_le_nat_alt ub)
    have dv: "unat (v div of_nat b) = unat v div b" by (simp add: unat_div ub)
    have "f (v div of_nat b) (width - 1) = Some (num_text b (unat v div b))"
      using less.hyps [of "v div of_nat b" "width - 1"] less.prems False assms by (simp add: dv)
    then show ?thesis
      using ge md False assms by (simp add: eq [of v] num_text_def digits.simps [of b "unat v"])
  qed
qed

lemma print_va_10 [simp]: "print_va v 10 (-1) padc = Some (num_text 10 (unat v))"
  by (rule va_num_text [where f = "\<lambda>v w. print_va v 10 w padc" and b = 10 and padc = padc], subst print_va.simps) simp_all

lemma print_va_16 [simp]: "print_va v 16 (-1) padc = Some (num_text 16 (unat v))"
  by (rule va_num_text [where f = "\<lambda>v w. print_va v 16 w padc" and b = 16 and padc = padc], subst print_va.simps) simp_all

lemma put_va_10 [simp]: "put_va v 10 (-1) padc = Some (num_text 10 (unat v))"
  by (rule va_num_text [where f = "\<lambda>v w. put_va v 10 w padc" and b = 10 and padc = padc], subst put_va.simps) simp_all

lemma put_va_16 [simp]: "put_va v 16 (-1) padc = Some (num_text 16 (unat v))"
  by (rule va_num_text [where f = "\<lambda>v w. put_va v 16 w padc" and b = 16 and padc = padc], subst put_va.simps) simp_all

section \<open>A reference formatter\<close>

text \<open>
  Two passes: the format becomes a list of directives, then each directive takes its argument. The
  directives are those that the comments of \<^verbatim>\<open>kprint\<close> name: character, pointer and hexadecimal, signed
  decimal, unsigned decimal. Pad flags and unknown conversion letters leave no directive.
\<close>

datatype directive = Lit char | Conv_c | Conv_hex | Conv_int | Conv_dec

fun parse_text :: "char list \<Rightarrow> directive list option"
  and parse_conv :: "char list \<Rightarrow> directive list option" where
  "parse_text [] = None"
| "parse_text (c # fmt) =
     (if c = CHR ''%'' then parse_conv fmt
      else if c = NUL then Some []
      else map_option ((#) (Lit c)) (parse_text fmt))"
| "parse_conv [] = None"
| "parse_conv (c # fmt) =
     (if c = CHR ''-'' \<or> c = CHR ''0'' then parse_conv fmt
      else if c = CHR ''c'' then map_option ((#) Conv_c) (parse_text fmt)
      else if c = CHR ''p'' \<or> c = CHR ''x'' then map_option ((#) Conv_hex) (parse_text fmt)
      else if c = CHR ''d'' then map_option ((#) Conv_int) (parse_text fmt)
      else if c = CHR ''u'' then map_option ((#) Conv_dec) (parse_text fmt)
      else parse_text fmt)"

definition signed_text :: "u32 \<Rightarrow> char list" where
  "signed_text a = (if sint a < 0 then CHR ''-'' # num_text 10 (nat (- sint a)) else num_text 10 (nat (sint a)))"

fun render :: "directive list \<Rightarrow> u32 list \<Rightarrow> char list option" where
  "render [] args = Some []"
| "render (Lit c # ds) args = map_option ((#) c) (render ds args)"
| "render (Conv_c # ds) (a # args) = map_option ((#) (char_of (unat a))) (render ds args)"
| "render (Conv_hex # ds) (a # args) =
     map_option ((@) (''0x'' @ num_text 16 (unat a))) (render ds args)"
| "render (Conv_int # ds) (a # args) = map_option ((@) (signed_text a)) (render ds args)"
| "render (Conv_dec # ds) (a # args) =
     map_option ((@) (num_text 10 (unat a))) (render ds args)"
| "render (_ # ds) [] = None"

text \<open>What the code makes of a signed directive.\<close>

fun as_unsigned :: "directive \<Rightarrow> directive" where
  "as_unsigned Conv_int = Conv_dec"
| "as_unsigned d = d"

lemma kprint_eq_render:
  "kprint fmt args = Option.bind (parse_text fmt) (\<lambda>ds. render (map as_unsigned ds) args)"
  "kprint_format fmt args (-1) padc = Option.bind (parse_conv fmt) (\<lambda>ds. render (map as_unsigned ds) args)"
  by (induction fmt args and fmt args "-1 :: int" padc rule: kprint_kprint_format.induct)
    (auto split: list.splits option.splits simp: map_option_case bind_eq_None_conv
      Option.bind_eq_Some_conv)

text \<open>How many arguments a directive list takes, and whether none of its signed ones is negative.\<close>

fun n_args :: "directive list \<Rightarrow> nat" where
  "n_args [] = 0"
| "n_args (Lit c # ds) = n_args ds"
| "n_args (_ # ds) = Suc (n_args ds)"

fun no_negative :: "directive list \<Rightarrow> u32 list \<Rightarrow> bool" where
  "no_negative [] args = True"
| "no_negative (Lit c # ds) args = no_negative ds args"
| "no_negative (Conv_int # ds) (a # args) = (0 \<le> sint a \<and> no_negative ds args)"
| "no_negative (_ # ds) (a # args) = no_negative ds args"
| "no_negative (_ # ds) [] = True"

lemma n_args_unsigned: "n_args (map as_unsigned ds) = n_args ds"
  by (induction ds rule: n_args.induct) auto

lemma render_enough: "n_args ds \<le> length args \<Longrightarrow> \<exists>out. render ds args = Some out"
proof (induction ds args rule: render.induct)
  case (1 args)
  then show ?case by simp
qed auto

lemma render_short: "length args < n_args ds \<Longrightarrow> render ds args = None"
  by (induction ds args rule: render.induct) auto

lemma signed_text_nonneg: "0 \<le> sint a \<Longrightarrow> signed_text a = num_text 10 (unat a)"
proof -
  assume a: "0 \<le> sint a"
  have "sint a < 2 ^ 32" using sint_lt [of a] by simp
  then have "nat (sint a) = unat a" using a by (simp add: unat_eq_nat_uint uint_sint take_bit_int_eq_self)
  then show "signed_text a = num_text 10 (unat a)" using a by (simp add: signed_text_def)
qed

lemma num_text_first: "\<exists>d cs. num_text 10 n = d # cs \<and> d \<noteq> CHR ''-''"
proof -
  have ne: "digits 10 n \<noteq> []" by (subst digits.simps) simp
  then have "hd (digits 10 n) < 16" using digits_bound [of 10 "hd (digits 10 n)" n] by simp
  then have "char_val (hex_digits ! hd (digits 10 n)) = hd (digits 10 n)" "hd (digits 10 n) < 10"
    using ne digits_bound [of 10 "hd (digits 10 n)" n] by (simp_all add: char_val_hex_digit)
  have "hex_digits ! k \<noteq> CHR ''-''" if "k < 16" for k
    using char_val_hex_digit [OF that] that by (cases "k = 0") (auto simp: char_val_def of_char_def hex_digits_def)
  then show ?thesis using ne \<open>hd (digits 10 n) < 16\<close> by (cases "digits 10 n") (auto simp: num_text_def)
qed

lemma render_unsigned:
  assumes "n_args ds \<le> length args"
  shows "render (map as_unsigned ds) args = render ds args \<longleftrightarrow> no_negative ds args"
  using assms
proof (induction ds args rule: render.induct)
  case (5 ds a args)
  obtain out out' where o: "render ds args = Some out" "render (map as_unsigned ds) args = Some out'"
    using render_enough [of ds args] render_enough [of "map as_unsigned ds" args] 5(2) by (auto simp: n_args_unsigned)
  show ?case
  proof (cases "0 \<le> sint a")
    case True
    then show ?thesis using 5 o by (simp add: signed_text_nonneg)
  next
    case False
    then show ?thesis using o num_text_first [of "unat a"] by (auto simp: signed_text_def)
  qed
next
  case (2 c ds args)
  then show ?case by (cases "render ds args"; cases "render (map as_unsigned ds) args") auto
next
  case (3 ds a args)
  then show ?case by (cases "render ds args"; cases "render (map as_unsigned ds) args") auto
next
  case (4 ds a args)
  then show ?case by (cases "render ds args"; cases "render (map as_unsigned ds) args") auto
next
  case (6 ds a args)
  then show ?case by (cases "render ds args"; cases "render (map as_unsigned ds) args") auto
qed auto

lemma parse_text_plain:
  "CHR ''%'' \<notin> set t \<Longrightarrow> NUL \<notin> set t \<Longrightarrow> parse_text (t @ NUL # rest) = Some (map Lit t)"
  by (induction t) auto

lemma render_plain: "render (map Lit t) args = Some t" "render (map as_unsigned (map Lit t)) args = Some t"
  by (induction t) auto

lemma kprint_plain:
  assumes "CHR ''%'' \<notin> set t" and "NUL \<notin> set t"
  shows "kprint (t @ NUL # rest) args = Some t"
  using assms by (simp add: kprint_eq_render parse_text_plain render_plain del: map_map)

lemma fold_print_char: "fold print_char out s = s\<lparr>uart_tx := uart_tx s @ out\<rparr>"
  by (induction out arbitrary: s) (simp_all add: print_char_def)

lemma printk_Some:
  "kprint fmt args = Some out \<Longrightarrow> printk fmt args s = Some (s\<lparr>uart_tx := uart_tx s @ out\<rparr>)"
  by (simp add: printk_def fold_print_char)

lemma printk_plain [heap_simps]:
  assumes "CHR ''%'' \<notin> set t" and "NUL \<notin> set t"
  shows "printk (cstr t) args s = Some (s\<lparr>uart_tx := uart_tx s @ t\<rparr>)"
  using assms kprint_plain [of t "[]" args] by (simp add: cstr_def printk_Some)

lemma uprint_eq_render:
  "uprint fmt args = Option.bind (parse_text fmt) (\<lambda>ds. render (map as_unsigned ds) args)"
  "uprint_format fmt args (-1) padc = Option.bind (parse_conv fmt) (\<lambda>ds. render (map as_unsigned ds) args)"
  by (induction fmt args and fmt args "-1 :: int" padc rule: uprint_uprint_format.induct)
    (auto split: list.splits option.splits simp: map_option_case)

section \<open>Properties\<close>

text \<open>
  C18: on every format buffer and argument list the one-pass formatter of the kernel computes what
  the two-pass reference formatter computes for the format with each signed directive read as an unsigned
  one: it faults exactly when the format runs past its array or the arguments run out. So
  it agrees with the reference itself exactly on the calls in which no \<^verbatim>\<open>%d\<close> is given a negative argument.
\<close>

theorem kprint_reference:
  "kprint fmt args = Option.bind (parse_text fmt) (\<lambda>ds. render (map as_unsigned ds) args)
   \<and> (kprint fmt args = Option.bind (parse_text fmt) (\<lambda>ds. render ds args)
      \<longleftrightarrow> (\<forall>ds. parse_text fmt = Some ds \<longrightarrow> n_args ds \<le> length args \<longrightarrow> no_negative ds args))"
proof (cases "parse_text fmt")
  case (Some ds)
  show ?thesis
  proof (cases "n_args ds \<le> length args")
    case True
    then show ?thesis using Some render_unsigned by (simp add: kprint_eq_render)
  next
    case False
    then show ?thesis using Some render_short [of args ds] render_short [of args "map as_unsigned ds"]
      by (simp add: kprint_eq_render n_args_unsigned)
  qed
qed (simp add: kprint_eq_render)

theorem kprint_reference_witness:
  "kprint (cstr ''id %d'') [7] = render [Lit CHR ''i'', Lit CHR ''d'', Lit CHR '' '', Conv_int] [7]
   \<and> kprint (cstr ''id %d'') [- 7] \<noteq> render [Lit CHR ''i'', Lit CHR ''d'', Lit CHR '' '', Conv_int] [- 7]"
  using kprint_reference [of "cstr ''id %d''" "[7]"] kprint_reference [of "cstr ''id %d''" "[- 7]"] by (simp add: cstr_def)

text \<open>
  What \<open>%u\<close> and \<open>%x\<close> print reads back as the argument's unsigned value,
  decimal or hexadecimal, and only zero begins with the digit 0.
\<close>

theorem kprint_number_roundtrip:
  "(\<exists>out. kprint (cstr ''%u'') [v] = Some out \<and> read_num 10 out = unat v
      \<and> (hd out = CHR ''0'' \<longleftrightarrow> v = 0))
   \<and> (\<exists>out. kprint (cstr ''%x'') [v] = Some (''0x'' @ out) \<and> read_num 16 out = unat v
      \<and> (hd out = CHR ''0'' \<longleftrightarrow> v = 0))"
proof -
  have hd0: "hd (num_text b (unat v)) \<noteq> CHR ''0''" if "v \<noteq> 0" "2 \<le> b" "b \<le> 16" for b
  proof -
    have ne: "digits b (unat v) \<noteq> []" by (subst digits.simps) simp
    have "hd (digits b (unat v)) \<noteq> 0" using digits_hd that by (simp add: unat_gt_0)
    moreover have "hd (digits b (unat v)) < 16"
      using digits_bound [OF that(2)] ne that(3) by (meson hd_in_set order_less_le_trans)
    ultimately have "char_val (hd (num_text b (unat v))) \<noteq> 0"
      using ne by (simp add: num_text_def hd_map char_val_hex_digit)
    then show ?thesis by (auto simp: char_val_def of_char_def)
  qed
  moreover have "hd (num_text b 0) = CHR ''0''" if "2 \<le> b" for b
    using that by (subst num_text_def, subst digits.simps) (simp add: hex_digits_def)
  ultimately show ?thesis
    by (cases "v = 0") (simp_all add: cstr_def read_num_text)
qed

text \<open>
  \<open>%d\<close> never prints a sign. Since the argument is stored in a \<^verbatim>\<open>uint32_t\<close> before it
  is tested, a negative argument prints as its unsigned value: \<open>-1\<close> as 4294967295.
\<close>

theorem kprint_signed_is_unsigned:
  "kprint (cstr ''%d'') [v] = kprint (cstr ''%u'') [v]
   \<and> kprint (cstr ''%d'') [- 1] = Some ''4294967295''"
proof
  show "kprint (cstr ''%d'') [v] = kprint (cstr ''%u'') [v]"
    by (simp add: cstr_def)
  have "num_text 10 4294967295 = ''4294967295''"
    by (simp add: num_text_def digits.simps hex_digits_def)
  moreover have "unat (- 1 :: u32) = 4294967295"
    by (simp add: unsigned_minus_1_eq_mask mask_eq_exp_minus_1)
  ultimately show "kprint (cstr ''%d'') [- 1] = Some ''4294967295''"
    by (simp add: cstr_def)
qed

text \<open>
  The user-mode formatter of \<^verbatim>\<open>stdio.c\<close> prints exactly what the kernel's does, on every
  format buffer and argument list.
\<close>

theorem uprint_eq_kprint: "uprint fmt args = kprint fmt args"
  by (simp add: uprint_eq_render kprint_eq_render)

end
