(* ===== verification/Pages.thy ===== *)
theory Pages
  imports Printk
begin

text \<open>
  The page allocator of \<^verbatim>\<open>src/src/kernel/memory.c\<close>: 446 frames of 1 MB, each described by
  a \<open>page_info\<close> object on one of two doubly linked lists, the free list and the in-use list.
  \<open>pages_ok s fs us\<close> is the representation invariant: the free list is \<open>fs\<close> and the
  in-use list \<open>us\<close>.
  The lemmas give the result of every operation on the abstract lists, where it faults, and
  what \<open>page_list_init\<close> builds.
\<close>

section \<open>Initialisation\<close>

definition page_num_cal :: "u32 \<Rightarrow> u32 \<Rightarrow> u32" where
  "page_num_cal vstart vend = drop_bit 20 (ROUNDUP vend PAGE_SIZE - ROUNDDOWN vstart PAGE_SIZE)"

definition KERN_PADDR :: "kstate \<Rightarrow> addr" where
  "KERN_PADDR s = ROUNDUP (kernal_end s) 0x10000"

text \<open>Adding \<open>n\<close> to a \<^verbatim>\<open>uint32_t *\<close> adds \<open>4 * n\<close> to the address.\<close>

definition kpage_struct_init :: "kstate \<Rightarrow> kstate" where
  "kpage_struct_init s = s\<lparr>kpage := (kpage s)\<lparr>
     page_id := - 1,
     page_status := FOR_KERN,
     pgstart := 0x82000000,
     pg_top := 0x82000000 + 4 * (PAGE_SIZE - 4),
     task_stk_top := NULL,
     pg_prev := NULL,
     pg_next := NULL,
     free_start := KERN_PADDR s + 4 * page_num_cal 0x00000000 0xa0000000,
     blk_list_head := NULL,
     blk_not_init := C_TRUE,
     no_free_blks := C_FALSE\<rparr>\<rparr>"

text \<open>
  One iteration of the loop of \<open>page_list_init\<close>. The cell \<open>i + 1\<close> it writes in its last
  iteration, number 446, is one past the end of the array \<open>page_list\<close>.
\<close>

definition page_list_init_body :: "nat \<Rightarrow> kstate \<Rightarrow> kstate option" where
  "page_list_init_body i s = do {
     let p = page_list s ! i;
     let start = UMEM_START_PADDR + of_nat i * PAGE_SIZE;
     let s = s\<lparr>page_list := (page_list s)[i + 1 := p + sizeof_PAGE_INFO]\<rparr>;
     h \<leftarrow> new_obj p \<lparr>
         pg_next = (if i = PAGE_NUM - 1 then NULL else page_list s ! (i + 1)),
         pg_prev = (if i = 0 then NULL else page_list s ! (i - 1)),
         page_status = FREE,
         page_id = of_nat i,
         pgstart = start,
         task_stk_top = start + 4 * (TASK_STACK_SIZE div 4 - 1),
         pg_top = start + 4 * (PAGE_SIZE div 4 - 1),
         free_start = start,
         blk_list_head = NULL,
         no_free_blks = C_FALSE,
         blk_not_init = C_TRUE\<rparr> (page_heap s);
     Some (s\<lparr>page_heap := h\<rparr>)
   }"

definition page_list_init :: "kstate \<Rightarrow> kstate option" where
  "page_list_init s = do {
     let s = s\<lparr>page_list := replicate PAGE_NUM NULL @ drop PAGE_NUM (page_list s)\<rparr>;
     let s = s\<lparr>page_list := (page_list s)[0 := free_start (kpage s)]\<rparr>;
     let s = s\<lparr>free_page_head := page_list s ! 0\<rparr>;
     s \<leftarrow> for_each page_list_init_body [0..<PAGE_NUM] s;
     Some (s\<lparr>kpage := (kpage s)\<lparr>free_start := page_list s ! PAGE_NUM + sizeof_PAGE_INFO\<rparr>\<rparr>)
   }"

section \<open>The two lists\<close>

definition add_to_free_list_end :: "addr \<Rightarrow> kstate \<Rightarrow> kstate option" where
  "add_to_free_list_end page_node s =
     (if free_page_head s = NULL then
        upd_page page_node (\<lambda>p. p\<lparr>pg_next := NULL\<rparr>) (s\<lparr>free_page_head := page_node\<rparr>)
      else do {
        end_ptr \<leftarrow> walk_end pg_next (page_heap s) (free_page_head s);
        s \<leftarrow> upd_page end_ptr (\<lambda>p. p\<lparr>pg_next := page_node\<rparr>) s;
        s \<leftarrow> upd_page page_node (\<lambda>p. p\<lparr>pg_next := NULL\<rparr>) s;
        upd_page page_node (\<lambda>p. p\<lparr>pg_prev := end_ptr\<rparr>) s
      })"

definition insert_to_inuse_list :: "addr \<Rightarrow> kstate \<Rightarrow> kstate option" where
  "insert_to_inuse_list page_node s =
     (if inuse_page_head s = NULL then do {
        let s = s\<lparr>inuse_page_head := page_node\<rparr>;
        s \<leftarrow> upd_page page_node (\<lambda>p. p\<lparr>pg_next := NULL\<rparr>) s;
        upd_page page_node (\<lambda>p. p\<lparr>pg_prev := NULL\<rparr>) s
      } else do {
        end_ptr \<leftarrow> walk_end pg_next (page_heap s) (inuse_page_head s);
        s \<leftarrow> upd_page end_ptr (\<lambda>p. p\<lparr>pg_next := page_node\<rparr>) s;
        s \<leftarrow> upd_page page_node (\<lambda>p. p\<lparr>pg_next := NULL\<rparr>) s;
        upd_page page_node (\<lambda>p. p\<lparr>pg_prev := end_ptr\<rparr>) s
      })"

definition delete_from_inuse_list :: "addr \<Rightarrow> kstate \<Rightarrow> kstate option" where
  "delete_from_inuse_list page_node s = do {
     v \<leftarrow> deref (page_heap s) page_node;
     let prev_node = pg_prev v;
     let next_node = pg_next v;
     if prev_node = NULL then do {
       let s = s\<lparr>inuse_page_head := next_node\<rparr>;
       s \<leftarrow> upd_page next_node (\<lambda>p. p\<lparr>pg_prev := NULL\<rparr>) s;
       upd_page page_node (\<lambda>p. p\<lparr>pg_next := NULL\<rparr>) s
     } else if next_node = NULL then do {
       s \<leftarrow> upd_page prev_node (\<lambda>p. p\<lparr>pg_next := NULL\<rparr>) s;
       upd_page page_node (\<lambda>p. p\<lparr>pg_prev := NULL\<rparr>) s
     } else do {
       s \<leftarrow> upd_page prev_node (\<lambda>p. p\<lparr>pg_next := next_node\<rparr>) s;
       s \<leftarrow> upd_page next_node (\<lambda>p. p\<lparr>pg_prev := prev_node\<rparr>) s;
       s \<leftarrow> upd_page page_node (\<lambda>p. p\<lparr>pg_next := NULL\<rparr>) s;
       upd_page page_node (\<lambda>p. p\<lparr>pg_prev := NULL\<rparr>) s
     }
   }"

section \<open>Allocation and release\<close>

definition page_alloc :: "kstate \<Rightarrow> (addr \<times> kstate) option" where
  "page_alloc s = do {
     let prev_head = free_page_head s;
     v \<leftarrow> deref (page_heap s) prev_head;
     let s = s\<lparr>free_page_head := pg_next v\<rparr>;
     s \<leftarrow> upd_page (free_page_head s) (\<lambda>p. p\<lparr>pg_prev := NULL\<rparr>) s;
     s \<leftarrow> upd_page prev_head (\<lambda>p. p\<lparr>pg_next := NULL\<rparr>) s;
     s \<leftarrow> upd_page prev_head (\<lambda>p. p\<lparr>page_status := INUSE\<rparr>) s;
     s \<leftarrow> insert_to_inuse_list prev_head s;
     Some (prev_head, s)
   }"

definition page_free :: "addr \<Rightarrow> kstate \<Rightarrow> kstate option" where
  "page_free page_node s = do {
     v \<leftarrow> deref (page_heap s) page_node;
     if page_status v \<noteq> FREE then do {
       s \<leftarrow> delete_from_inuse_list page_node s;
       add_to_free_list_end page_node s
     } else
       printk (cstr (''The page info node is already in free list.'' @ crlf)) [] s
   }"

section \<open>Queries\<close>

definition atleast_a_page_alloc :: "kstate \<Rightarrow> u32" where
  "atleast_a_page_alloc s = (if inuse_page_head s = NULL then C_FALSE else C_TRUE)"

partial_function (option) find_page_list_end :: "addr \<Rightarrow> kstate \<Rightarrow> addr option" where
  "find_page_list_end head s =
     (if head \<noteq> NULL then
        (case deref (page_heap s) head of
           None \<Rightarrow> None
         | Some v \<Rightarrow> find_page_list_end (pg_next v) s)
      else Some head)"

text \<open>The condition \<^verbatim>\<open>head->page_status = INUSE\<close> is an assignment of 1, hence always true.\<close>

definition find_aval_inuse_page :: "kstate \<Rightarrow> (addr \<times> kstate) option" where
  "find_aval_inuse_page s =
     (let head = inuse_page_head s in
      if head \<noteq> NULL then do {
        s \<leftarrow> upd_page head (\<lambda>p. p\<lparr>page_status := INUSE\<rparr>) s;
        Some (head, s)
      } else Some (NULL, s))"

partial_function (option) which_page_loop :: "addr \<Rightarrow> addr \<Rightarrow> kstate \<Rightarrow> addr option" where
  "which_page_loop pg head s =
     (case deref (page_heap s) head of
        None \<Rightarrow> None
      | Some v \<Rightarrow>
          if pg_next v \<noteq> NULL then
            (if pgstart v = pg then Some head else which_page_loop pg (pg_next v) s)
          else Some head)"

definition which_page :: "addr \<Rightarrow> kstate \<Rightarrow> addr option" where
  "which_page address s = which_page_loop (ROUNDDOWN address PAGE_SIZE) (inuse_page_head s) s"

declare find_page_list_end.simps [code] which_page_loop.simps [code]

section \<open>The representation invariant\<close>

definition pages_ok :: "kstate \<Rightarrow> addr list \<Rightarrow> addr list \<Rightarrow> bool" where
  "pages_ok s fs us \<longleftrightarrow>
     dll (links pg_next (page_heap s)) (links pg_prev (page_heap s)) (free_page_head s) fs \<and>
     dll (links pg_next (page_heap s)) (links pg_prev (page_heap s)) (inuse_page_head s) us \<and>
     set fs \<inter> set us = {}"

text \<open>The fields that no list operation touches.\<close>

definition pg_fixed :: "page_info \<Rightarrow> page_info" where
  "pg_fixed v = v\<lparr>pg_next := NULL, pg_prev := NULL, page_status := FREE\<rparr>"

definition no_pages :: "kstate \<Rightarrow> kstate" where
  "no_pages s = s\<lparr>page_heap := Map.empty, free_page_head := NULL, inuse_page_head := NULL\<rparr>"

definition same_pages :: "kstate \<Rightarrow> kstate \<Rightarrow> bool" where
  "same_pages s s' \<longleftrightarrow>
     links pg_fixed (page_heap s') = links pg_fixed (page_heap s) \<and> no_pages s' = no_pages s"

lemma pg_fixed_simps [simp]:
  "pg_fixed (v\<lparr>pg_next := x\<rparr>) = pg_fixed v"
  "pg_fixed (v\<lparr>pg_prev := x\<rparr>) = pg_fixed v"
  "pg_fixed (v\<lparr>page_status := y\<rparr>) = pg_fixed v"
  by (simp_all add: pg_fixed_def)

lemma pg_fixed_eqD:
  assumes "pg_fixed v = pg_fixed w"
  shows "pgstart v = pgstart w" "task_stk_top v = task_stk_top w" "pg_top v = pg_top w"
    "blk_list_head v = blk_list_head w" "no_free_blks v = no_free_blks w" "blk_not_init v = blk_not_init w"
  using arg_cong [OF assms, of pgstart] arg_cong [OF assms, of task_stk_top] arg_cong [OF assms, of pg_top]
    arg_cong [OF assms, of blk_list_head] arg_cong [OF assms, of no_free_blks] arg_cong [OF assms, of blk_not_init]
  by (simp_all add: pg_fixed_def)

lemma same_pages_refl [simp]: "same_pages s s"
  by (simp add: same_pages_def)

lemma same_pages_trans: "same_pages s t \<Longrightarrow> same_pages t u \<Longrightarrow> same_pages s u"
  by (simp add: same_pages_def)

lemma pages_ok_mem:
  assumes "pages_ok s fs us" and "a \<in> set fs \<union> set us"
  shows "a \<noteq> NULL \<and> (\<exists>v. page_heap s a = Some v)"
proof -
  have "a \<noteq> NULL \<and> links pg_next (page_heap s) a \<noteq> None"
    using assms chain_mem by (fastforce simp: pages_ok_def dll_def)
  then show ?thesis by (auto simp: links_def)
qed

lemma pages_ok_distinct: "pages_ok s fs us \<Longrightarrow> distinct (fs @ us)"
  by (auto simp: pages_ok_def dest: dll_distinct)

section \<open>The list operations\<close>

lemma insert_to_inuse_list_ok:
  assumes ok: "pages_ok s fs us" and a: "page_heap s a = Some v" "a \<noteq> NULL" "a \<notin> set fs \<union> set us"
  shows "\<exists>s'. insert_to_inuse_list a s = Some s' \<and> pages_ok s' fs (us @ [a]) \<and> same_pages s s'
    \<and> free_page_head s' = free_page_head s
    \<and> links page_status (page_heap s') = links page_status (page_heap s)"
proof (cases "us = []")
  case True
  then have "inuse_page_head s = NULL" using ok by (simp add: pages_ok_def)
  then show ?thesis
    using ok a True dll_singleton [OF a(2)]
    by (simp add: insert_to_inuse_list_def upd_objs pages_ok_def same_pages_def no_pages_def)
next
  case False
  let ?H = "page_heap s"
  define e where "e = last us"
  have e: "e \<in> set us" "e \<noteq> a" "e \<notin> set fs" using False a ok by (auto simp: e_def pages_ok_def)
  obtain w where w: "?H e = Some w" "e \<noteq> NULL"
    using pages_ok_mem [OF ok] e by blast
  have d: "dll (links pg_next ?H) (links pg_prev ?H) (inuse_page_head s) us"
    using ok by (simp add: pages_ok_def)
  have nn: "inuse_page_head s \<noteq> NULL" using d False by (auto dest: dll_chain chain_head_iff)
  have we: "walk_end pg_next ?H (inuse_page_head s) = Some e"
    using walk_end_chain [OF dll_chain [OF d] False] by (simp add: e_def)
  have sn: "dll ((links pg_next ?H)(e \<mapsto> a, a \<mapsto> NULL)) ((links pg_prev ?H)(a \<mapsto> e))
      (inuse_page_head s) (us @ [a])"
    using dll_snoc [OF d False] a by (simp add: e_def)
  show ?thesis
    using nn we w a e ok sn
    by (simp add: insert_to_inuse_list_def upd_objs pages_ok_def same_pages_def no_pages_def fun_upd_twist)
qed

lemma add_to_free_list_end_ok:
  assumes ok: "pages_ok s fs us" and a: "page_heap s a = Some v" "a \<noteq> NULL" "a \<notin> set fs \<union> set us"
    and pv: "pg_prev v = NULL"
  shows "\<exists>s'. add_to_free_list_end a s = Some s' \<and> pages_ok s' (fs @ [a]) us \<and> same_pages s s'
    \<and> inuse_page_head s' = inuse_page_head s
    \<and> links page_status (page_heap s') = links page_status (page_heap s)"
proof (cases "fs = []")
  case True
  then have "free_page_head s = NULL" using ok by (simp add: pages_ok_def)
  then show ?thesis
    using ok a True pv
    by (simp add: add_to_free_list_end_def upd_objs pages_ok_def same_pages_def no_pages_def dll_def)
next
  case False
  let ?H = "page_heap s"
  define e where "e = last fs"
  have e: "e \<in> set fs" "e \<noteq> a" "e \<notin> set us" using False a ok last_in_set [OF False] by (auto simp: e_def pages_ok_def disjoint_iff)
  obtain w where w: "?H e = Some w" "e \<noteq> NULL"
    using pages_ok_mem [OF ok] e by blast
  have d: "dll (links pg_next ?H) (links pg_prev ?H) (free_page_head s) fs"
    using ok by (simp add: pages_ok_def)
  have nn: "free_page_head s \<noteq> NULL" using d False by (auto dest: dll_chain chain_head_iff)
  have we: "walk_end pg_next ?H (free_page_head s) = Some e"
    using walk_end_chain [OF dll_chain [OF d] False] by (simp add: e_def)
  have sn: "dll ((links pg_next ?H)(e \<mapsto> a, a \<mapsto> NULL)) ((links pg_prev ?H)(a \<mapsto> e))
      (free_page_head s) (fs @ [a])"
    using dll_snoc [OF d False] a by (simp add: e_def)
  show ?thesis
    using nn we w a e ok sn
    by (simp add: add_to_free_list_end_def upd_objs pages_ok_def same_pages_def no_pages_def fun_upd_twist)
qed

text \<open>
  Unlinking from the in-use list works when another page stays in it; the unlinked page's own
  links end up cleared.
\<close>

lemma delete_from_inuse_list_ok:
  assumes ok: "pages_ok s fs (as @ a # bs)" and ne: "as @ bs \<noteq> []"
  shows "\<exists>s'. delete_from_inuse_list a s = Some s' \<and> pages_ok s' fs (as @ bs) \<and> same_pages s s'
    \<and> (\<exists>v. page_heap s' a = Some v \<and> pg_prev v = NULL)
    \<and> free_page_head s' = free_page_head s
    \<and> links page_status (page_heap s') = links page_status (page_heap s)"
proof -
  let ?H = "page_heap s"
  let ?N = "links pg_next ?H" and ?P = "links pg_prev ?H"
  have d: "dll ?N ?P (inuse_page_head s) (as @ a # bs)" and fd: "dll ?N ?P (free_page_head s) fs"
    and dj: "set fs \<inter> set (as @ a # bs) = {}"
    using ok by (auto simp: pages_ok_def)
  have dist: "distinct (as @ a # bs)" using dll_distinct [OF d] .
  obtain v where v: "?H a = Some v" "a \<noteq> NULL" using pages_ok_mem [OF ok, of a] by auto
  have nx: "pg_next v = (if bs = [] then NULL else hd bs)"
    using dll_next [OF d] v by simp
  have pv: "pg_prev v = (if as = [] then NULL else last as)"
    using dll_prev [OF d] v by simp
  have mem: "x \<in> set (as @ bs) \<Longrightarrow> x \<noteq> NULL \<and> x \<noteq> a \<and> x \<notin> set fs \<and> (\<exists>w. ?H x = Some w)" for x
    using pages_ok_mem [OF ok, of x] dj dist by auto
  consider (head) b bs' where "as = []" "bs = b # bs'" | (tail) "as \<noteq> []" "bs = []"
    | (mid) b bs' where "as \<noteq> []" "bs = b # bs'"
    using ne by (cases bs) auto
  then show ?thesis
  proof cases
    case head
    obtain w where "?H b = Some w" "b \<noteq> NULL" "b \<noteq> a" "b \<notin> set fs" using mem [of b] head by auto
    moreover have "dll ?N (?P(b \<mapsto> NULL)) b (b # bs')" using d head dll_tl by simp
    ultimately show ?thesis
      using head v nx pv fd dj dist
      by (simp add: delete_from_inuse_list_def Let_def deref_def upd_objs fun_upd_idem pages_ok_def same_pages_def no_pages_def)
  next
    case tail
    define e where "e = last as"
    obtain w where "?H e = Some w" "e \<noteq> NULL" "e \<noteq> a" "e \<notin> set fs" using mem [of e] tail e_def by auto
    moreover have "dll (?N(e \<mapsto> NULL)) ?P (inuse_page_head s) as"
      using dll_butlast d tail e_def by simp
    ultimately show ?thesis
      using tail v nx pv fd dj dist e_def
      by (simp add: delete_from_inuse_list_def Let_def deref_def upd_objs fun_upd_idem pages_ok_def same_pages_def no_pages_def)
  next
    case mid
    define e where "e = last as"
    have eb: "e \<noteq> b" using dist mid e_def by auto
    obtain w where "?H e = Some w" "e \<noteq> NULL" "e \<noteq> a" "e \<notin> set fs" using mem [of e] mid e_def by auto
    moreover obtain u where "?H b = Some u" "b \<noteq> NULL" "b \<noteq> a" "b \<notin> set fs"
      using mem [of b] mid by auto
    moreover have "dll (?N(e \<mapsto> b)) (?P(b \<mapsto> e)) (inuse_page_head s) (as @ b # bs')"
      using dll_unlink d mid e_def by simp
    ultimately show ?thesis
      using mid v nx pv fd dj dist eb e_def
      by (simp add: delete_from_inuse_list_def Let_def deref_def upd_objs fun_upd_idem pages_ok_def same_pages_def no_pages_def)
  qed
qed

lemma page_alloc_ok:
  assumes ok: "pages_ok s (p # q # fs) us"
  shows "\<exists>s'. page_alloc s = Some (p, s') \<and> pages_ok s' (q # fs) (us @ [p]) \<and> same_pages s s'
    \<and> links page_status (page_heap s') = (links page_status (page_heap s))(p \<mapsto> INUSE)"
proof -
  let ?H = "page_heap s"
  have d: "dll (links pg_next ?H) (links pg_prev ?H) (free_page_head s) (p # q # fs)"
    and ud: "dll (links pg_next ?H) (links pg_prev ?H) (inuse_page_head s) us"
    and dj: "set (p # q # fs) \<inter> set us = {}"
    using ok by (auto simp: pages_ok_def)
  have dist: "distinct (p # q # fs)" using dll_distinct [OF d] .
  have hd: "free_page_head s = p" using chain_hd [OF dll_chain [OF d]] by simp
  obtain v where v: "?H p = Some v" "p \<noteq> NULL" using pages_ok_mem [OF ok, of p] by auto
  obtain w where w: "?H q = Some w" "q \<noteq> NULL" using pages_ok_mem [OF ok, of q] by auto
  have nx: "pg_next v = q" using dll_next [of "links pg_next ?H" _ _ "[]" p "q # fs"] d v by simp
  define t where "t = s\<lparr>free_page_head := q,
    page_heap := ?H(q \<mapsto> w\<lparr>pg_prev := NULL\<rparr>, p \<mapsto> v\<lparr>pg_next := NULL, page_status := INUSE\<rparr>)\<rparr>"
  have "dll (links pg_next ?H) ((links pg_prev ?H)(q \<mapsto> NULL)) q (q # fs)" using d dll_tl by blast
  then have "pages_ok t (q # fs) us"
    using ud dj dist v w by (simp add: t_def pages_ok_def)
  moreover have "same_pages s t" using v w dist by (simp add: t_def same_pages_def no_pages_def)
  moreover have "links page_status (page_heap t) = (links page_status ?H)(p \<mapsto> INUSE)"
    using v w by (simp add: t_def)
  moreover obtain s' where "insert_to_inuse_list p t = Some s'"
    "pages_ok s' (q # fs) (us @ [p])" "same_pages t s'"
    "links page_status (page_heap s') = links page_status (page_heap t)"
    using insert_to_inuse_list_ok [of t "q # fs" us p "v\<lparr>pg_next := NULL, page_status := INUSE\<rparr>"]
      calculation(1) v dj dist by (auto simp: t_def)
  moreover have "page_alloc s = Option.bind (insert_to_inuse_list p t) (\<lambda>s'. Some (p, s'))"
    using v w dist hd nx by (simp add: page_alloc_def deref_def upd_objs t_def fun_upd_twist)
  ultimately show ?thesis by (auto intro: same_pages_trans)
qed

lemma page_free_ok:
  assumes ok: "pages_ok s fs (as @ a # bs)" and ne: "as @ bs \<noteq> []"
    and st: "page_heap s a = Some v" "page_status v \<noteq> FREE"
  shows "\<exists>s'. page_free a s = Some s' \<and> pages_ok s' (fs @ [a]) (as @ bs) \<and> same_pages s s'
    \<and> links page_status (page_heap s') = links page_status (page_heap s)"
proof -
  have a: "a \<noteq> NULL" "a \<notin> set fs \<union> set (as @ bs)"
    using pages_ok_mem [OF ok, of a] pages_ok_distinct [OF ok] by auto
  obtain t w where t: "delete_from_inuse_list a s = Some t" "pages_ok t fs (as @ bs)" "same_pages s t"
    "page_heap t a = Some w" "pg_prev w = NULL"
    "links page_status (page_heap t) = links page_status (page_heap s)"
    using delete_from_inuse_list_ok [OF ok ne] by auto
  obtain s' where "add_to_free_list_end a t = Some s'" "pages_ok s' (fs @ [a]) (as @ bs)"
    "same_pages t s'" "links page_status (page_heap s') = links page_status (page_heap t)"
    using add_to_free_list_end_ok [OF t(2,4) a t(5)] by auto
  with t st a show ?thesis by (auto simp: page_free_def deref_def intro: same_pages_trans)
qed

section \<open>Where the allocator faults\<close>

lemma page_alloc_last:
  assumes "pages_ok s [p] us"
  shows "page_alloc s = None"
proof -
  obtain v where "page_heap s p = Some v" "p \<noteq> NULL" using pages_ok_mem [OF assms, of p] by auto
  moreover have "free_page_head s = p" "pg_next v = NULL"
    using assms calculation by (auto simp: pages_ok_def dll_def)
  ultimately show ?thesis by (simp add: page_alloc_def deref_def)
qed

lemma delete_only_page:
  assumes "pages_ok s fs [a]"
  shows "delete_from_inuse_list a s = None"
proof -
  obtain v where "page_heap s a = Some v" "a \<noteq> NULL" using pages_ok_mem [OF assms, of a] by auto
  moreover have "pg_prev v = NULL" "pg_next v = NULL"
    using assms calculation by (auto simp: pages_ok_def dll_def)
  ultimately show ?thesis by (simp add: delete_from_inuse_list_def deref_def)
qed

section \<open>The queries\<close>

lemma which_page_loop_find:
  assumes "chain (links pg_next (page_heap s)) p us" and "us \<noteq> []"
  shows "which_page_loop pg p s =
    Some (case find (\<lambda>q. links pgstart (page_heap s) q = Some pg) us of Some q \<Rightarrow> q | None \<Rightarrow> last us)"
  using assms
proof (induction us arbitrary: p)
  case Nil
  then show ?case by simp
next
  case (Cons a us)
  then obtain q where a: "p = a" "a \<noteq> NULL" "links pg_next (page_heap s) a = Some q"
    "chain (links pg_next (page_heap s)) q us"
    by (auto split: option.splits)
  then obtain v where v: "page_heap s a = Some v" "pg_next v = q" by (auto dest: links_SomeD)
  show ?case
  proof (cases "us = []")
    case True
    with a v show ?thesis by (simp add: which_page_loop.simps [of pg a] deref_def)
  next
    case False
    then have "q \<noteq> NULL" using a(4) by (auto dest: chain_head_iff)
    with a v False Cons.IH [OF a(4)] show ?thesis
      by (simp add: which_page_loop.simps [of pg a] deref_def split: option.split)
  qed
qed

lemma which_page_find:
  assumes "pages_ok s fs us" and "us \<noteq> []"
  shows "which_page address s = Some
    (case find (\<lambda>q. links pgstart (page_heap s) q = Some (ROUNDDOWN address PAGE_SIZE)) us of
       Some q \<Rightarrow> q | None \<Rightarrow> last us)"
  using assms which_page_loop_find by (simp add: which_page_def pages_ok_def dll_def)

lemma which_page_hit:
  assumes ok: "pages_ok s fs us" and p: "p \<in> set us"
    and st: "links pgstart (page_heap s) p = Some (ROUNDDOWN address PAGE_SIZE)"
    and inj: "inj_on (links pgstart (page_heap s)) (set us)"
  shows "which_page address s = Some p"
proof -
  have "find (\<lambda>q. links pgstart (page_heap s) q = Some (ROUNDDOWN address PAGE_SIZE)) us = Some p"
  proof -
    obtain xs ys where us: "us = xs @ p # ys" using p by (meson split_list)
    have "p \<notin> set xs" using pages_ok_distinct [OF ok] us by auto
    then have "\<forall>q \<in> set xs. links pgstart (page_heap s) q \<noteq> Some (ROUNDDOWN address PAGE_SIZE)"
      using inj st us by (auto simp: inj_on_def)
    then show ?thesis using us st by (induction xs arbitrary: us) auto
  qed
  then show ?thesis using which_page_find [OF ok] p by fastforce
qed

lemma find_page_list_end_chain:
  "chain (links pg_next (page_heap s)) p us \<Longrightarrow> find_page_list_end p s = Some NULL"
proof (induction us arbitrary: p)
  case Nil
  then show ?case by (simp add: find_page_list_end.simps)
next
  case (Cons a us)
  then obtain v where "p = a" "a \<noteq> NULL" "page_heap s a = Some v"
    "chain (links pg_next (page_heap s)) (pg_next v) us"
    by (auto split: option.splits dest: links_SomeD)
  with Cons.IH show ?case by (simp add: find_page_list_end.simps [of a] deref_def)
qed

section \<open>What page_list_init builds\<close>

definition page_at :: "addr \<Rightarrow> nat \<Rightarrow> addr" where
  "page_at base i = base + of_nat i * sizeof_PAGE_INFO"

definition page_frame :: "nat \<Rightarrow> addr" where
  "page_frame i = UMEM_START_PADDR + of_nat i * PAGE_SIZE"

definition init_page :: "addr \<Rightarrow> nat \<Rightarrow> page_info" where
  "init_page base i = \<lparr>
     pg_next = (if i = PAGE_NUM - 1 then NULL else page_at base (i + 1)),
     pg_prev = (if i = 0 then NULL else page_at base (i - 1)),
     page_status = FREE, page_id = of_nat i, pgstart = page_frame i,
     task_stk_top = page_frame i + 0xFFC, pg_top = page_frame i + 0xFFFFC,
     free_start = page_frame i, blk_list_head = NULL, no_free_blks = C_FALSE,
     blk_not_init = C_TRUE\<rparr>"

lemma unat_page_at:
  assumes "unat base + 447 * 44 < 2 ^ 32" and "i \<le> 446"
  shows "unat (page_at base i) = unat base + i * 44"
proof -
  have "page_at base i = of_nat (unat base + i * 44)" by (simp add: page_at_def)
  then show ?thesis using assms by (simp only: unat_of_nat32)
qed

lemma page_at_inj:
  assumes "unat base + 447 * 44 < 2 ^ 32" and "i \<le> 446" and "j \<le> 446"
  shows "page_at base i = page_at base j \<longleftrightarrow> i = j"
  using unat_page_at [OF assms(1,2)] unat_page_at [OF assms(1,3)] by (metis add_left_cancel mult_cancel2 zero_neq_numeral)

lemma unat_page_frame: "i < 446 \<Longrightarrow> unat (page_frame i) = 0x82100000 + i * 0x100000"
proof -
  assume i: "i < 446"
  have "page_frame i = of_nat (0x82100000 + i * 0x100000)" by (simp add: page_frame_def)
  moreover have "0x82100000 + i * 0x100000 < (2 :: nat) ^ 32" using i by simp
  ultimately show ?thesis by (simp only: unat_of_nat32)
qed

text \<open>The state after \<open>n\<close> iterations.\<close>

definition page_init_inv :: "addr \<Rightarrow> kstate \<Rightarrow> nat \<Rightarrow> kstate \<Rightarrow> bool" where
  "page_init_inv base s n t \<longleftrightarrow>
     length (page_list t) = 447 \<and> (\<forall>j \<le> n. page_list t ! j = page_at base j) \<and>
     (\<forall>i < n. page_heap t (page_at base i) = Some (init_page base i)) \<and>
     (\<forall>a. a \<notin> page_at base ` {..<n} \<longrightarrow> page_heap t a = page_heap s a) \<and>
     t = s\<lparr>page_list := page_list t, page_heap := page_heap t, free_page_head := base\<rparr>"

lemma page_list_init_body_inv:
  assumes base: "base \<noteq> NULL" "unat base + 447 * 44 < 2 ^ 32"
    and n: "n < 446" and inv: "page_init_inv base s n t"
  shows "\<exists>t'. page_list_init_body n t = Some t' \<and> page_init_inv base s (Suc n) t'"
proof -
  let ?p = "page_at base n"
  let ?l = "(page_list t)[n + 1 := page_at base (n + 1)]"
  let ?t = "t\<lparr>page_list := ?l, page_heap := (page_heap t)(?p \<mapsto> init_page base n)\<rparr>"
  have len: "length (page_list t) = 447" and cells: "\<forall>j \<le> n. page_list t ! j = page_at base j"
    using inv by (auto simp: page_init_inv_def)
  have "unat ?p \<noteq> 0" using unat_page_at [OF base(2), of n] base n by (simp add: unat_eq_zero)
  then have nn: "?p \<noteq> NULL" by auto
  have nx: "page_at base m + 44 = page_at base (Suc m)" for m
    by (simp add: page_at_def distrib_right)
  have prev: "n \<noteq> 0 \<Longrightarrow> ?l ! (n - 1) = page_at base (n - 1)" using cells by simp
  have body: "page_list_init_body n t = Some ?t"
    using nn nx prev cells n len
    by (simp add: page_list_init_body_def Let_def new_obj_def init_page_def page_frame_def)
  have "page_init_inv base s (Suc n) ?t"
    unfolding page_init_inv_def
  proof (intro conjI allI impI)
    show "length (page_list ?t) = 447" using len by simp
    show "page_list ?t ! j = page_at base j" if "j \<le> Suc n" for j
      using that cells len n by (auto simp: nth_list_update le_Suc_eq)
    show "page_heap ?t (page_at base i) = Some (init_page base i)" if "i < Suc n" for i
      using that inv n page_at_inj [OF base(2), of i n]
      by (auto simp: page_init_inv_def less_Suc_eq)
    show "page_heap ?t a = page_heap s a" if "a \<notin> page_at base ` {..<Suc n}" for a
      using that inv by (auto simp: page_init_inv_def lessThan_Suc)
    show "?t = s\<lparr>page_list := page_list ?t, page_heap := page_heap ?t, free_page_head := base\<rparr>"
    proof -
      have "t = s\<lparr>page_list := page_list t, page_heap := page_heap t, free_page_head := base\<rparr>"
        using inv by (simp add: page_init_inv_def)
      then obtain L H where "t = s\<lparr>page_list := L, page_heap := H, free_page_head := base\<rparr>" by blast
      then show ?thesis by simp
    qed
  qed
  with body show ?thesis by blast
qed

lemma page_list_init_ok:
  assumes base: "free_start (kpage s) = base" "base \<noteq> NULL" "unat base + 447 * 44 < 2 ^ 32"
    and len: "length (page_list s) = 447" and no: "inuse_page_head s = NULL"
  shows "\<exists>s'. page_list_init s = Some s' \<and> pages_ok s' (map (page_at base) [0..<446]) []
    \<and> (\<forall>i < 446. page_heap s' (page_at base i) = Some (init_page base i))
    \<and> free_start (kpage s') = page_at base 447
    \<and> page_list s' = map (page_at base) [0..<447]
    \<and> s' = s\<lparr>page_list := page_list s', page_heap := page_heap s', free_page_head := base,
             kpage := (kpage s)\<lparr>free_start := page_at base 447\<rparr>\<rparr>"
proof -
  define t0 where "t0 = s\<lparr>page_list := (replicate 446 NULL @ drop 446 (page_list s))[0 := base],
    free_page_head := base\<rparr>"
  have "page_init_inv base s 0 t0"
    using len by (simp add: page_init_inv_def t0_def page_at_def)
  then obtain t where t: "for_each page_list_init_body [0..<446] t0 = Some t"
    "page_init_inv base s 446 t"
    using for_each_upt [of "page_init_inv base s" t0 446 page_list_init_body]
      page_list_init_body_inv [OF base(2,3)] by blast
  define s' where "s' = t\<lparr>kpage := (kpage t)\<lparr>free_start := page_at base 447\<rparr>\<rparr>"
  have last: "page_list t ! 446 + 44 = page_at base 447"
    using t(2) by (simp add: page_init_inv_def page_at_def)
  have run: "page_list_init s = Some s'"
    using t(1) last base by (simp add: page_list_init_def t0_def s'_def)
  have objs: "page_heap s' (page_at base i) = Some (init_page base i)" if "i < 446" for i
    using t(2) that by (simp add: page_init_inv_def s'_def)
  have nn: "page_at base i \<noteq> NULL" if "i < 446" for i
    using unat_page_at [OF base(3), of i] base that by (metis add_is_0 less_imp_le_nat not_less unat_0 unat_eq_zero less_Suc_eq_le eval_nat_numeral(3) order_less_imp_le)
  have ts: "t = s\<lparr>page_list := page_list t, page_heap := page_heap t, free_page_head := base\<rparr>"
    using t(2) by (simp add: page_init_inv_def)
  have heads: "free_page_head s' = page_at base 0" "inuse_page_head s' = NULL"
    using no by (subst s'_def, subst ts, simp add: page_at_def)+
  have "chain (links pg_next (page_heap s')) (page_at base 0) (map (page_at base) [0..<446])"
    using nn objs by (intro chain_array) (auto simp: init_page_def)
  moreover have "backs (links pg_prev (page_heap s')) NULL (map (page_at base) [0..<446])"
    using objs by (intro backs_array) (auto simp: init_page_def)
  ultimately have "pages_ok s' (map (page_at base) [0..<446]) []"
    by (simp add: pages_ok_def dll_def heads)
  moreover have "page_list s' = map (page_at base) [0..<447]"
    using t(2) by (intro nth_equalityI) (auto simp: page_init_inv_def s'_def)
  moreover have "s' = s\<lparr>page_list := page_list s', page_heap := page_heap s', free_page_head := base,
             kpage := (kpage s)\<lparr>free_start := page_at base 447\<rparr>\<rparr>"
  proof -
    obtain L H where tt: "t = s\<lparr>page_list := L, page_heap := H, free_page_head := base\<rparr>"
      using ts by blast
    show ?thesis by (simp add: s'_def tt)
  qed
  moreover have "free_start (kpage s') = page_at base 447" by (simp add: s'_def)
  ultimately show ?thesis using run objs by blast
qed

section \<open>The interfaces\<close>

lemma same_pages_dom: "same_pages s s' \<Longrightarrow> page_heap s' a = None \<longleftrightarrow> page_heap s a = None"
  unfolding same_pages_def links_def by (metis option.map_disc_iff)

text \<open>Inserting into the in-use list and returning to the free list are both tail appends.\<close>

interpretation inuse: tail_append insert_to_inuse_list "\<lambda>s us. pages_ok s fs us"
    "\<lambda>s a. a \<noteq> NULL \<and> a \<notin> set fs \<and> page_heap s a \<noteq> None" for fs
proof unfold_locales
  fix s us a
  assume ok: "pages_ok s fs us" and sp: "a \<noteq> NULL \<and> a \<notin> set fs \<and> page_heap s a \<noteq> None"
    and new: "a \<notin> set us"
  then obtain v where "page_heap s a = Some v" by auto
  then obtain s' where s': "insert_to_inuse_list a s = Some s'" "pages_ok s' fs (us @ [a])"
    "same_pages s s'"
    using insert_to_inuse_list_ok [OF ok] sp new by auto
  then show "\<exists>s'. insert_to_inuse_list a s = Some s' \<and> pages_ok s' fs (us @ [a]) \<and>
      (\<forall>b. b \<noteq> a \<longrightarrow> (b \<noteq> NULL \<and> b \<notin> set fs \<and> page_heap s b \<noteq> None) \<longrightarrow>
        (b \<noteq> NULL \<and> b \<notin> set fs \<and> page_heap s' b \<noteq> None))"
    using same_pages_dom [OF s'(3)] by (simp del: not_None_eq)
qed

interpretation page_pool: page_source page_alloc pages_ok
proof unfold_locales
  show "\<exists>s'. page_alloc s = Some (p, s') \<and> pages_ok s' (q # fs) (us @ [p])"
    if "pages_ok s (p # q # fs) us" for s p q fs us
    using page_alloc_ok [OF that] by blast
  show "page_alloc s = None" if "pages_ok s [p] us" for s p us
    using that by (rule page_alloc_last)
  show "distinct (fs @ us)" if "pages_ok s fs us" for s fs us
    using that by (rule pages_ok_distinct)
qed

section \<open>Runs of the allocator\<close>

text \<open>
  A client takes pages, and returns a page that is in the in-use list and not marked FREE.
\<close>

inductive page_step :: "kstate \<Rightarrow> kstate \<Rightarrow> bool" where
  take_page: "page_alloc s = Some (p, s') \<Longrightarrow> page_step s s'"
| give_page: "chain (links pg_next (page_heap s)) (inuse_page_head s) us \<Longrightarrow> p \<in> set us \<Longrightarrow>
     page_heap s p = Some v \<Longrightarrow> page_status v \<noteq> FREE \<Longrightarrow> page_free p s = Some s' \<Longrightarrow> page_step s s'"

definition page_pool_inv :: "addr set \<Rightarrow> kstate \<Rightarrow> bool" where
  "page_pool_inv A s \<longleftrightarrow> (\<exists>fs us. pages_ok s fs us \<and> fs \<noteq> [] \<and> set fs \<union> set us = A)"

lemma page_pool_invI [wf_intros]:
  "pages_ok s fs us \<Longrightarrow> fs \<noteq> [] \<Longrightarrow> set fs \<union> set us = A \<Longrightarrow> page_pool_inv A s"
  by (auto simp: page_pool_inv_def)

lemma page_step_inv:
  assumes "page_step s t" and "page_pool_inv A s"
  shows "page_pool_inv A t \<and> same_pages s t"
proof -
  obtain fs us where ok: "pages_ok s fs us" and ne: "fs \<noteq> []" and A: "set fs \<union> set us = A"
    using assms(2) by (auto simp: page_pool_inv_def)
  from assms(1) show ?thesis
  proof cases
    case (take_page p)
    show ?thesis
    proof (cases "tl fs = []")
      case True
      then have "fs = [hd fs]" using ne by (metis list.collapse)
      then show ?thesis using page_alloc_last [of s "hd fs" us] ok take_page by simp
    next
      case False
      then obtain a b gs where fs: "fs = a # b # gs" using ne by (metis list.collapse)
      then have "pages_ok t (b # gs) (us @ [a])" "same_pages s t"
        using page_alloc_ok [of s a b gs us] ok take_page by auto
      moreover have "set (b # gs) \<union> set (us @ [a]) = A" using fs A by auto
      ultimately show ?thesis by (blast intro: wf_intros)
    qed
  next
    case (give_page vs p v)
    have "chain (links pg_next (page_heap s)) (inuse_page_head s) us"
      using ok by (simp add: pages_ok_def dll_def)
    then have "vs = us" using give_page(1) chain_unique by blast
    then obtain as bs where us: "us = as @ p # bs" using give_page(2) by (meson split_list)
    have "as @ bs \<noteq> []"
    proof
      assume "as @ bs = []"
      then have "delete_from_inuse_list p s = None" using delete_only_page ok us by simp
      then show False
        using give_page(3-5) pages_ok_mem [OF ok, of p] us by (simp add: page_free_def deref_def)
    qed
    then have "pages_ok t (fs @ [p]) (as @ bs)" "same_pages s t"
      using page_free_ok [of s fs as p bs v] ok us give_page(3-5) by auto
    moreover have "set (fs @ [p]) \<union> set (as @ bs) = A" using us A by auto
    ultimately show ?thesis by (blast intro: wf_intros)
  qed
qed

lemma page_steps_inv:
  assumes "page_step\<^sup>*\<^sup>* s t" and "page_pool_inv A s"
  shows "page_pool_inv A t \<and> same_pages s t"
  using assms
proof (induction rule: rtranclp_induct)
  case base
  then show ?case by simp
next
  case (step t u)
  then have "page_pool_inv A u \<and> same_pages t u" using page_step_inv by blast
  with step show ?case by (blast intro: same_pages_trans)
qed

section \<open>A small concrete pool, for the witnesses\<close>

definition demo_page :: "addr \<Rightarrow> addr \<Rightarrow> u32 \<Rightarrow> addr \<Rightarrow> page_info" where
  "demo_page n p st a = zero_page\<lparr>pg_next := n, pg_prev := p, page_status := st, pgstart := a\<rparr>"

text \<open>Free: 0x100 (freed before, its status still FOR_TASK), 0x200. In use: 0x300, 0x400.\<close>

definition demo_pages :: kstate where
  "demo_pages = zero_state\<lparr>
     page_heap := [0x100 \<mapsto> demo_page 0x200 0 FOR_TASK 0x82100000,
                   0x200 \<mapsto> demo_page 0 0x100 FREE 0x82200000,
                   0x300 \<mapsto> demo_page 0x400 0 FOR_TASK 0x82300000,
                   0x400 \<mapsto> demo_page 0 0x300 FOR_TASK 0x82400000],
     free_page_head := 0x100, inuse_page_head := 0x300\<rparr>"

lemma demo_pages_ok: "pages_ok demo_pages [0x100, 0x200] [0x300, 0x400]"
  by (simp add: pages_ok_def dll_def demo_pages_def demo_page_def)

section \<open>Properties\<close>

text \<open>
  C21: booted with its image inside the kernel megabyte, \<open>page_list_init\<close> builds one free list
  of 446 pages, all FREE, whose frames are consecutive megabytes from 0x82100000 up to the kernel
  stack at 0x9df00000, and whose descriptors end below the first frame.
\<close>

theorem page_list_init_builds:
  assumes "0x82000000 \<le> unat (kernal_end s)" and "unat (kernal_end s) \<le> 0x820d0000"
    and "length (page_list s) = 447" and "inuse_page_head s = NULL"
  shows "\<exists>s' base. page_list_init (kpage_struct_init s) = Some s'
    \<and> base = KERN_PADDR s + 0x2800
    \<and> pages_ok s' (map (page_at base) [0..<446]) []
    \<and> (\<forall>i < 446. \<exists>v. page_heap s' (page_at base i) = Some v \<and> page_status v = FREE
         \<and> unat (pgstart v) = 0x82100000 + i * 0x100000 \<and> unat (pg_top v) = unat (pgstart v) + 0xFFFFC
         \<and> unat (page_at base i) + 44 \<le> 0x82100000)
    \<and> unat (page_frame 445) + 0x100000 = 0x9df00000"
proof -
  let ?s = "kpage_struct_init s"
  define base where "base = KERN_PADDR s + 0x2800"
  have "unat (kernal_end s) + unat (0x10000 :: u32) \<le> 2 ^ 32" using assms(2) by simp
  then have up: "unat (KERN_PADDR s) < unat (kernal_end s) + 0x10000"
    "unat (kernal_end s) \<le> unat (KERN_PADDR s)"
    using ROUNDUP_bounds [of "0x10000" "kernal_end s"] by (simp_all add: KERN_PADDR_def)
  have "unat base = unat (KERN_PADDR s) + 0x2800"
  proof -
    have "base = of_nat (unat (KERN_PADDR s) + 0x2800)" by (simp add: base_def)
    moreover have "unat (KERN_PADDR s) + 0x2800 < 2 ^ 32" using up assms(2) by simp
    ultimately show ?thesis by (simp only: unat_of_nat32)
  qed
  then have b: "unat base + 447 * 44 \<le> 0x82100000" "base \<noteq> NULL" "unat base + 447 * 44 < 2 ^ 32"
    using up assms(1,2) by auto
  have "free_start (kpage ?s) = base"
    by (simp add: kpage_struct_init_def page_num_cal_def ROUNDUP_def ROUNDDOWN_def base_def)
  then obtain s' where s': "page_list_init ?s = Some s'"
    "pages_ok s' (map (page_at base) [0..<446]) []"
    "\<forall>i < 446. page_heap s' (page_at base i) = Some (init_page base i)"
    using page_list_init_ok [of ?s base] b assms(3,4) by (auto simp: kpage_struct_init_def)
  have top: "unat (page_frame i + 0xFFFFC) = unat (page_frame i) + 0xFFFFC" if "i < 446" for i
  proof -
    have "page_frame i + 0xFFFFC = of_nat (unat (page_frame i) + 0xFFFFC)" by simp
    moreover have "unat (page_frame i) + 0xFFFFC < 2 ^ 32" using unat_page_frame [OF that] that by simp
    ultimately show ?thesis by (simp only: unat_of_nat32)
  qed
  have low: "unat (page_at base i) + 44 \<le> 0x82100000" if "i < 446" for i
    using unat_page_at [OF b(3), of i] that b(1) by simp
  show ?thesis
    using s' unat_page_frame top low unat_page_frame [of 445] base_def
    by (intro exI [of _ s'] exI [of _ base]) (auto simp: init_page_def)
qed

theorem page_list_init_builds_witness:
  "\<exists>s' base. page_list_init (kpage_struct_init zero_state) = Some s'
    \<and> base = KERN_PADDR zero_state + 0x2800
    \<and> pages_ok s' (map (page_at base) [0..<446]) []
    \<and> (\<forall>i < 446. \<exists>v. page_heap s' (page_at base i) = Some v \<and> page_status v = FREE
         \<and> unat (pgstart v) = 0x82100000 + i * 0x100000 \<and> unat (pg_top v) = unat (pgstart v) + 0xFFFFC
         \<and> unat (page_at base i) + 44 \<le> 0x82100000)
    \<and> unat (page_frame 445) + 0x100000 = 0x9df00000"
  by (rule page_list_init_builds) (simp_all add: zero_state_def)

text \<open>
  C39: with free list \<open>fs\<close>, the allocator hands out the pages of \<open>fs\<close> in order, each moving to
  the end of the in-use list, as long as one free page stays behind; asking for as many pages as
  there are faults, because \<open>page_alloc\<close> writes the back link of a page that does not exist.
\<close>

theorem page_alloc_capacity:
  assumes "pages_ok s fs us" and "fs \<noteq> []"
  shows "(if n < length fs
    then \<exists>s'. alloc_many page_alloc n s = Some (take n fs, s') \<and> pages_ok s' (drop n fs) (us @ take n fs)
    else alloc_many page_alloc n s = None)"
  using page_pool.alloc_many_prefix [OF assms(1)] page_pool.alloc_many_exhausted [OF assms]
  by simp

theorem page_alloc_capacity_witness:
  "(\<exists>s'. alloc_many page_alloc 1 demo_pages = Some ([0x100], s') \<and> pages_ok s' [0x200] [0x300, 0x400, 0x100])
   \<and> alloc_many page_alloc 2 demo_pages = None"
  using page_alloc_capacity [OF demo_pages_ok, of 1] page_alloc_capacity [OF demo_pages_ok, of 2]
  by simp

text \<open>
  C3: over any sequence of page allocations and releases, no page is lost, none is both free and
  in use or twice on a list, and no page's frame, stack top or block fields change.
\<close>

theorem page_runs_safe:
  assumes "page_step\<^sup>*\<^sup>* s t" and "page_pool_inv A s"
  shows "\<exists>fs us. pages_ok t fs us \<and> distinct (fs @ us) \<and> set fs \<union> set us = A
    \<and> links pg_fixed (page_heap t) = links pg_fixed (page_heap s)"
proof -
  have "page_pool_inv A t" "links pg_fixed (page_heap t) = links pg_fixed (page_heap s)"
    using page_steps_inv [OF assms] by (simp_all add: same_pages_def)
  then show ?thesis using pages_ok_distinct unfolding page_pool_inv_def by blast
qed

theorem page_runs_safe_witness:
  "\<exists>t. page_step demo_pages t \<and> (\<exists>fs us. pages_ok t fs us \<and> distinct (fs @ us)
    \<and> set fs \<union> set us = {0x100, 0x200, 0x300, 0x400}
    \<and> links pg_fixed (page_heap t) = links pg_fixed (page_heap demo_pages))"
proof -
  obtain t where t: "page_step demo_pages t"
    using page_alloc_ok [OF demo_pages_ok] by (blast intro: page_step.intros)
  have "page_pool_inv {0x100, 0x200, 0x300, 0x400} demo_pages"
    using demo_pages_ok unfolding page_pool_inv_def
    by (intro exI [of _ "[0x100, 0x200]"] exI [of _ "[0x300, 0x400]"]) auto
  with t show ?thesis using page_runs_safe [OF r_into_rtranclp [of page_step, OF t]] by blast
qed

text \<open>
  \<open>page_free\<close> never sets a page's status back to FREE, so its guard does not stop a second
  release. Releasing the page at the head of the free list a second time makes the in-use list
  point into the free pages and cuts the free list down to that one page.
\<close>

theorem page_free_twice_corrupts:
  assumes "pages_ok s (p # q # fs) us" and "page_heap s p = Some v" and "page_status v \<noteq> FREE"
  shows "\<exists>s'. page_free p s = Some s' \<and> inuse_page_head s' = q
    \<and> chain (links pg_next (page_heap s')) (free_page_head s') [p]"
proof -
  let ?H = "page_heap s"
  have d: "dll (links pg_next ?H) (links pg_prev ?H) (free_page_head s) (p # q # fs)"
    using assms(1) by (simp add: pages_ok_def)
  have ne: "p \<noteq> NULL" "q \<noteq> NULL" "p \<noteq> q" "free_page_head s = p"
    using pages_ok_mem [OF assms(1)] dll_distinct [OF d] chain_hd [OF dll_chain [OF d]] by auto
  obtain w where w: "?H q = Some w" using pages_ok_mem [OF assms(1), of q] by auto
  have v: "pg_prev v = NULL" "pg_next v = q"
    using dll_prev [of "links pg_next ?H" "links pg_prev ?H" p "[]" p "q # fs"]
      dll_next [of "links pg_next ?H" "links pg_prev ?H" p "[]" p "q # fs"] d ne assms(2) by auto
  define t where "t = s\<lparr>inuse_page_head := q,
    page_heap := ?H(q \<mapsto> w\<lparr>pg_prev := NULL\<rparr>, p \<mapsto> v\<lparr>pg_next := NULL\<rparr>)\<rparr>"
  have "delete_from_inuse_list p s = Some t"
    using ne w v assms(2) by (simp add: delete_from_inuse_list_def deref_def upd_objs t_def)
  moreover have "walk_end pg_next (page_heap t) p = Some p"
    using ne by (simp add: walk_end.simps [of pg_next _ p] deref_def t_def)
  ultimately show ?thesis
    using ne assms(2,3)
    by (simp add: page_free_def deref_def add_to_free_list_end_def t_def upd_objs)
qed

theorem page_free_twice_corrupts_witness:
  "\<exists>s'. page_free 0x100 demo_pages = Some s' \<and> inuse_page_head s' = 0x200
    \<and> chain (links pg_next (page_heap s')) (free_page_head s') [0x100]"
  by (rule page_free_twice_corrupts [OF demo_pages_ok, of "demo_page 0x200 0 FOR_TASK 0x82100000"])
    (simp_all add: demo_pages_def demo_page_def)

text \<open>
  \<open>which_page\<close> maps an address to the in-use page whose frame holds it; an address in no
  in-use frame is not reported but attributed to the last page of the list.
\<close>

theorem which_page_correct:
  assumes "pages_ok s fs us" and "us \<noteq> []" and "inj_on (links pgstart (page_heap s)) (set us)"
  shows "(\<forall>p \<in> set us. links pgstart (page_heap s) p = Some (ROUNDDOWN address PAGE_SIZE)
      \<longrightarrow> which_page address s = Some p)
    \<and> ((\<forall>p \<in> set us. links pgstart (page_heap s) p \<noteq> Some (ROUNDDOWN address PAGE_SIZE))
      \<longrightarrow> which_page address s = Some (last us))"
proof
  show "\<forall>p \<in> set us. links pgstart (page_heap s) p = Some (ROUNDDOWN address PAGE_SIZE)
      \<longrightarrow> which_page address s = Some p"
    using which_page_hit [OF assms(1) _ _ assms(3)] by blast
  show "(\<forall>p \<in> set us. links pgstart (page_heap s) p \<noteq> Some (ROUNDDOWN address PAGE_SIZE))
      \<longrightarrow> which_page address s = Some (last us)"
    using which_page_find [OF assms(1,2), of address]
      find_None_iff [of "\<lambda>q. links pgstart (page_heap s) q = Some (ROUNDDOWN address PAGE_SIZE)" us]
    by auto
qed

theorem which_page_correct_witness:
  "which_page 0x82300abc demo_pages = Some 0x300 \<and> which_page 0x85000000 demo_pages = Some 0x400"
proof -
  have inj: "inj_on (links pgstart (page_heap demo_pages)) (set [0x300, 0x400])"
    by (simp add: demo_pages_def demo_page_def links_def)
  have "links pgstart (page_heap demo_pages) 0x300 = Some (ROUNDDOWN 0x82300abc PAGE_SIZE)"
    "\<forall>p \<in> set [0x300, 0x400].
      links pgstart (page_heap demo_pages) p \<noteq> Some (ROUNDDOWN 0x85000000 PAGE_SIZE)"
    by (simp_all add: demo_pages_def demo_page_def links_def ROUNDDOWN_def)
  then show ?thesis
    using which_page_correct [of _ _ _ "0x82300abc", OF demo_pages_ok _ inj]
      which_page_correct [of _ _ _ "0x85000000", OF demo_pages_ok _ inj] by simp
qed

end
