(* ===== verification/Blocks.thy ===== *)
theory Blocks
  imports Pages
begin

text \<open>
  The block allocators of \<^verbatim>\<open>src/src/kernel/memory.c\<close>: 4 KB blocks inside a task's page,
  described by 256 \<open>blk_info\<close> objects that start 4 KB into the page, and the 16 KB blocks of
  the kernel's own megabyte, which hold page tables and queues.
  \<open>blks_ok s pg bs\<close> and \<open>kblks_ok s bs\<close> say that the free list of the page, or of the
  kernel, is \<open>bs\<close>.
  Both allocators are interpretations of the contract \<open>page_source\<close>: like the page
  allocator they fault on the last block.
\<close>

definition blk_at :: "addr \<Rightarrow> nat \<Rightarrow> addr" where
  "blk_at head i = head + of_nat i * sizeof_BLK_INFO"

section \<open>Blocks of a task page\<close>

definition blks_init_body :: "addr \<Rightarrow> addr \<Rightarrow> nat \<Rightarrow> kstate \<Rightarrow> kstate option" where
  "blks_init_body pg head i s = do {
     v \<leftarrow> deref (page_heap s) pg;
     let start = pgstart v + of_nat i * BLK_SIZE;
     h \<leftarrow> new_obj (blk_at head i) \<lparr>
         b_owner = pg,
         b_next = (if i = BLK_NUM_PER_PAGE - 1 then NULL else blk_at head (i + 1)),
         b_prev = (if i = 0 then NULL else blk_at head (i - 1)),
         b_start = start,
         b_top = start + 4 * (BLK_SIZE - 4),
         b_status = FREE,
         b_id = of_nat i\<rparr> (blk_heap s);
     Some (s\<lparr>blk_heap := h\<rparr>)
   }"

text \<open>The \<^verbatim>\<open>pg->blk_not_init == FALSE\<close> after the loop is a comparison and changes nothing.\<close>

definition blks_init :: "addr \<Rightarrow> kstate \<Rightarrow> (addr \<times> kstate) option" where
  "blks_init pg s = do {
     v \<leftarrow> deref (page_heap s) pg;
     if blk_not_init v = C_FALSE then Some (pg, s)
     else do {
       s \<leftarrow> upd_page pg (\<lambda>p. p\<lparr>blk_list_head := pgstart p + BLK_SIZE\<rparr>) s;
       let head = pgstart v + BLK_SIZE;
       s \<leftarrow> for_each (blks_init_body pg head) [0..<BLK_NUM_PER_PAGE] s;
       s \<leftarrow> upd_blk (blk_at head 0) (\<lambda>b. b\<lparr>b_status := FULL\<rparr>) s;
       s \<leftarrow> upd_blk (blk_at head 1) (\<lambda>b. b\<lparr>b_status := FULL\<rparr>) s;
       s \<leftarrow> upd_blk (blk_at head 2) (\<lambda>b. b\<lparr>b_status := FULL\<rparr>) s;
       s \<leftarrow> upd_page pg (\<lambda>p. p\<lparr>blk_list_head := blk_at head 3\<rparr>) s;
       Some (pg, s)
     }
   }"

definition blk_alloc :: "addr \<Rightarrow> kstate \<Rightarrow> (addr \<times> kstate) option" where
  "blk_alloc pg s =
     (if pg = NULL then Some (NULL, s)
      else do {
        v \<leftarrow> deref (page_heap s) pg;
        if no_free_blks v = C_TRUE then Some (NULL, s)
        else if blk_list_head v = NULL then Some (NULL, s)
        else do {
          ret \<leftarrow> deref (blk_heap s) (blk_list_head v);
          s \<leftarrow> (if b_next ret = NULL
                then upd_page pg (\<lambda>p. p\<lparr>blk_list_head := NULL, no_free_blks := C_TRUE\<rparr>) s
                else Some s);
          s \<leftarrow> upd_page pg (\<lambda>p. p\<lparr>blk_list_head := b_next ret\<rparr>) s;
          s \<leftarrow> upd_blk (b_next ret) (\<lambda>b. b\<lparr>b_prev := NULL\<rparr>) s;
          Some (b_start ret, s)
        }
      })"

definition find_blk_list_end :: "addr \<Rightarrow> kstate \<Rightarrow> addr option" where
  "find_blk_list_end pg s = do {
     v \<leftarrow> deref (page_heap s) pg;
     if blk_list_head v = NULL then Some NULL
     else walk_end b_next (blk_heap s) (blk_list_head v)
   }"

definition put_to_blklist_end :: "addr \<Rightarrow> addr \<Rightarrow> kstate \<Rightarrow> kstate option" where
  "put_to_blklist_end pg blk s =
     (if pg = NULL then Some s
      else if blk = NULL then Some s
      else do {
        v \<leftarrow> deref (page_heap s) pg;
        if blk_list_head v = NULL then upd_page pg (\<lambda>p. p\<lparr>blk_list_head := blk\<rparr>) s
        else do {
          end \<leftarrow> find_blk_list_end pg s;
          s \<leftarrow> upd_blk end (\<lambda>b. b\<lparr>b_next := blk\<rparr>) s;
          s \<leftarrow> upd_blk blk (\<lambda>b. b\<lparr>b_prev := end\<rparr>) s;
          upd_blk blk (\<lambda>b. b\<lparr>b_next := NULL\<rparr>) s
        }
      })"

definition which_blk :: "addr \<Rightarrow> addr" where
  "which_blk address =
     (let blk_start = ROUNDDOWN address BLK_SIZE;
          page_start = ROUNDDOWN address PAGE_SIZE;
          index = (blk_start - page_start) div BLK_SIZE
      in page_start + BLK_SIZE + index * sizeof_BLK_INFO)"

definition free_blk :: "addr \<Rightarrow> kstate \<Rightarrow> kstate option" where
  "free_blk address s = do {
     let blk = which_blk address;
     pg \<leftarrow> which_page blk s;
     put_to_blklist_end pg blk s
   }"

definition is_blk_init :: "addr \<Rightarrow> kstate \<Rightarrow> u32 option" where
  "is_blk_init pg s = do {
     v \<leftarrow> deref (page_heap s) pg;
     Some (if blk_not_init v \<noteq> 0 then C_FALSE else C_TRUE)
   }"

definition no_blks :: "addr \<Rightarrow> kstate \<Rightarrow> u32 option" where
  "no_blks pg s = do {
     v \<leftarrow> deref (page_heap s) pg;
     Some (if blk_list_head v = NULL then C_TRUE else C_FALSE)
   }"

section \<open>Blocks of the kernel page\<close>

definition kpage_blks_init_body :: "addr \<Rightarrow> nat \<Rightarrow> kstate \<Rightarrow> kstate option" where
  "kpage_blks_init_body head i s = do {
     let start = pgstart (kpage s) + of_nat i * KBLK_SIZE;
     h \<leftarrow> new_obj (blk_at head i) \<lparr>
         b_owner = kpage_addr s,
         b_next = (if i = KBLK_NUM_PER_PAGE - 1 then NULL else blk_at head (i + 1)),
         b_prev = (if i = 0 then NULL else blk_at head (i - 1)),
         b_start = start,
         b_top = start + 4 * (KBLK_SIZE - 4),
         b_status = FREE,
         b_id = of_nat i\<rparr> (blk_heap s);
     Some (s\<lparr>blk_heap := h\<rparr>)
   }"

text \<open>
  \<open>j0\<close> is what the uninitialised \<^verbatim>\<open>int j\<close> of the second loop happens to hold; the loop
  compares it with the unsigned \<^verbatim>\<open>index\<close>, so as an unsigned number.
\<close>

definition kpage_blks_init :: "u32 \<Rightarrow> kstate \<Rightarrow> kstate option" where
  "kpage_blks_init j0 s = do {
     let s = s\<lparr>kpage := (kpage s)\<lparr>blk_list_head := free_start (kpage s)\<rparr>\<rparr>;
     let head = blk_list_head (kpage s);
     let s = s\<lparr>kpage := (kpage s)\<lparr>free_start := blk_at head KBLK_NUM_PER_PAGE\<rparr>\<rparr>;
     s \<leftarrow> for_each (kpage_blks_init_body head) [0..<KBLK_NUM_PER_PAGE] s;
     let s = s\<lparr>kblk_list_base := blk_at head 0\<rparr>;
     let end = ROUNDUP (free_start (kpage s)) KBLK_SIZE;
     let index = drop_bit 12 (end - 0x82000000);
     s \<leftarrow> for_each (\<lambda>j. upd_blk (blk_at head j) (\<lambda>b. b\<lparr>b_status := FULL\<rparr>)) [unat j0..<unat index] s;
     let s = s\<lparr>kpage := (kpage s)\<lparr>blk_list_head := blk_at head (unat index)\<rparr>\<rparr>;
     Some (s\<lparr>kpage := (kpage s)\<lparr>free_start := ROUNDUP (free_start (kpage s)) KBLK_SIZE\<rparr>\<rparr>)
   }"

text \<open>The search loop of \<open>which_kblk\<close> and \<open>kblk_free\<close>; \<open>NULL\<close> if it falls through.\<close>

fun kblk_search :: "addr \<Rightarrow> nat list \<Rightarrow> kstate \<Rightarrow> addr option" where
  "kblk_search blk_start [] s = Some NULL"
| "kblk_search blk_start (i # is) s = do {
     b \<leftarrow> deref (blk_heap s) (blk_at (kblk_list_base s) i);
     if b_start b = blk_start then Some (blk_at (kblk_list_base s) i)
     else kblk_search blk_start is s
   }"

text \<open>Falling through, \<open>which_kblk\<close> reaches its end without a \<^verbatim>\<open>return\<close>.\<close>

definition which_kblk :: "addr \<Rightarrow> kstate \<Rightarrow> addr option" where
  "which_kblk address s = do {
     target \<leftarrow> kblk_search (ROUNDDOWN address BLK_SIZE) [0..<BLK_NUM_PER_PAGE] s;
     if target = NULL then None else Some target
   }"

definition kblk_free :: "addr \<Rightarrow> kstate \<Rightarrow> kstate option" where
  "kblk_free address s = do {
     target \<leftarrow> kblk_search (ROUNDDOWN address BLK_SIZE) [0..<BLK_NUM_PER_PAGE] s;
     end \<leftarrow> walk_end b_next (blk_heap s) (blk_list_head (kpage s));
     s \<leftarrow> upd_blk end (\<lambda>b. b\<lparr>b_next := target\<rparr>) s;
     s \<leftarrow> upd_blk target (\<lambda>b. b\<lparr>b_prev := end\<rparr>) s;
     s \<leftarrow> upd_blk target (\<lambda>b. b\<lparr>b_next := NULL\<rparr>) s;
     upd_blk target (\<lambda>b. b\<lparr>b_status := FREE\<rparr>) s
   }"

definition kblk_alloc :: "u32 \<Rightarrow> kstate \<Rightarrow> (addr \<times> kstate) option" where
  "kblk_alloc purpose s = do {
     s \<leftarrow> (if blk_list_head (kpage s) = NULL
           then printk (cstr (''blk_list_head is empty.'' @ crlf)) [] s else Some s);
     let ret = blk_list_head (kpage s);
     b \<leftarrow> deref (blk_heap s) ret;
     s \<leftarrow> (if b_next b = NULL then printk (cstr (''Last blk.'' @ crlf)) [] s else Some s);
     let s = s\<lparr>kpage := (kpage s)\<lparr>blk_list_head := b_next b\<rparr>\<rparr>;
     s \<leftarrow> upd_blk (b_next b) (\<lambda>b. b\<lparr>b_prev := NULL\<rparr>) s;
     s \<leftarrow> upd_blk ret (\<lambda>b. b\<lparr>b_next := NULL\<rparr>) s;
     s \<leftarrow> upd_blk ret (\<lambda>b. b\<lparr>b_prev := NULL\<rparr>) s;
     s \<leftarrow> upd_blk ret (\<lambda>b. b\<lparr>b_status := purpose\<rparr>) s;
     b \<leftarrow> deref (blk_heap s) ret;
     Some (b_start b, s)
   }"

definition free_pgt :: "addr \<Rightarrow> kstate \<Rightarrow> kstate option" where
  "free_pgt base s = kblk_free base s"

section \<open>Clearing a block\<close>

text \<open>1024 word stores of 0; RAM that no struct occupies is the byte map \<open>bytes\<close>.\<close>

definition clean_area_content :: "addr \<Rightarrow> kstate \<Rightarrow> kstate" where
  "clean_area_content start s =
     fold (\<lambda>i s. s\<lparr>bytes := (bytes s)(start + 4 * of_nat i := 0, start + 4 * of_nat i + 1 := 0,
                                       start + 4 * of_nat i + 2 := 0, start + 4 * of_nat i + 3 := 0)\<rparr>)
       [0..<unat (BLK_SIZE div 4)] s"

section \<open>Arrays of block descriptors\<close>

lemma blk_at_unat:
  "unat head + 257 * 28 < 2 ^ 32 \<Longrightarrow> i \<le> 257 \<Longrightarrow> unat (blk_at head i) = unat head + i * 28"
  using unat_array [of head 257 28 i] by (simp add: blk_at_def)

lemma blk_at_inj:
  assumes "unat head + 257 * 28 < 2 ^ 32" and "i \<le> 257" and "j \<le> 257"
  shows "blk_at head i = blk_at head j \<longleftrightarrow> i = j"
proof
  assume "blk_at head i = blk_at head j"
  then have "unat head + i * 28 = unat head + j * 28" using blk_at_unat [OF assms(1)] assms(2,3) by metis
  then show "i = j" by simp
qed simp

lemma blk_at_non_NULL:
  assumes "unat head + 257 * 28 < 2 ^ 32" and "head \<noteq> NULL" and "i \<le> 257"
  shows "blk_at head i \<noteq> NULL"
proof
  assume "blk_at head i = NULL"
  then have "unat head + i * 28 = 0" using blk_at_unat [OF assms(1,3)] by simp
  then show False using assms(2) by (simp add: unat_eq_zero)
qed

definition init_blk :: "addr \<Rightarrow> addr \<Rightarrow> addr \<Rightarrow> u32 \<Rightarrow> nat \<Rightarrow> nat \<Rightarrow> blk_info" where
  "init_blk own head st sz n i = \<lparr>
     b_owner = own,
     b_next = (if i = n - 1 then NULL else blk_at head (i + 1)),
     b_prev = (if i = 0 then NULL else blk_at head (i - 1)),
     b_start = st + of_nat i * sz,
     b_top = st + of_nat i * sz + 4 * (sz - 4),
     b_status = FREE,
     b_id = of_nat i\<rparr>"

text \<open>Both initialisation loops fill an array of descriptors.\<close>

lemma blk_array_init:
  assumes body: "\<And>i h. i < n \<Longrightarrow>
      body i (s\<lparr>blk_heap := h\<rparr>) = Some (s\<lparr>blk_heap := h(blk_at head i \<mapsto> val i)\<rparr>)"
    and head: "unat head + 257 * 28 < 2 ^ 32" and n: "n \<le> 257"
  shows "\<exists>h. for_each body [0..<n] s = Some (s\<lparr>blk_heap := h\<rparr>)
    \<and> (\<forall>i < n. h (blk_at head i) = Some (val i)) \<and> (\<forall>a. a \<notin> blk_at head ` {..<n} \<longrightarrow> h a = blk_heap s a)"
proof -
  let ?I = "\<lambda>k t. \<exists>h. t = s\<lparr>blk_heap := h\<rparr> \<and> (\<forall>i < k. h (blk_at head i) = Some (val i))
    \<and> (\<forall>a. a \<notin> blk_at head ` {..<k} \<longrightarrow> h a = blk_heap s a)"
  have base: "?I 0 s" by (rule exI [of _ "blk_heap s"]) simp
  have step: "\<exists>t'. body k t = Some t' \<and> ?I (Suc k) t'" if "k < n" "?I k t" for k t
  proof -
    obtain h where h: "t = s\<lparr>blk_heap := h\<rparr>" "\<forall>i < k. h (blk_at head i) = Some (val i)"
      "\<forall>a. a \<notin> blk_at head ` {..<k} \<longrightarrow> h a = blk_heap s a" using \<open>?I k t\<close> by blast
    have "\<forall>i < Suc k. (h(blk_at head k \<mapsto> val k)) (blk_at head i) = Some (val i)"
      using h(2) blk_at_inj [OF head, of _ k] n \<open>k < n\<close> by (auto simp: less_Suc_eq)
    moreover have "\<forall>a. a \<notin> blk_at head ` {..<Suc k} \<longrightarrow> (h(blk_at head k \<mapsto> val k)) a = blk_heap s a"
      using h(3) by (auto simp: lessThan_Suc)
    ultimately show ?thesis using body [OF \<open>k < n\<close>] h(1) by blast
  qed
  show ?thesis using for_each_upt [of ?I s n body] base step by blast
qed

lemma init_blk_chain:
  assumes objs: "\<forall>i < n. h (blk_at head i) = Some (init_blk own head st sz n i)"
    and head: "unat head + 257 * 28 < 2 ^ 32" "head \<noteq> NULL" and n: "k < n" "n \<le> 257"
  shows "chain (links b_next h) (blk_at head k) (map (blk_at head) [k..<n])"
  using objs n blk_at_non_NULL [OF head]
  by (intro chain_array) (auto simp: init_blk_def)

section \<open>The representation invariants\<close>

definition blks_ok :: "kstate \<Rightarrow> addr \<Rightarrow> addr list \<Rightarrow> bool" where
  "blks_ok s pg bs \<longleftrightarrow> pg \<noteq> NULL \<and>
     (\<exists>v. page_heap s pg = Some v \<and> no_free_blks v \<noteq> C_TRUE \<and>
        chain (links b_next (blk_heap s)) (blk_list_head v) bs)"

definition kblks_ok :: "kstate \<Rightarrow> addr list \<Rightarrow> bool" where
  "kblks_ok s bs \<longleftrightarrow> chain (links b_next (blk_heap s)) (blk_list_head (kpage s)) bs"

section \<open>Allocation and release of blocks\<close>

lemma blk_alloc_ok:
  assumes "blks_ok s pg (b # c # bs)"
  shows "\<exists>v w x s'. page_heap s pg = Some v \<and> blk_heap s b = Some w \<and> blk_heap s c = Some x
    \<and> s' = s\<lparr>page_heap := (page_heap s)(pg \<mapsto> v\<lparr>blk_list_head := c\<rparr>),
             blk_heap := (blk_heap s)(c \<mapsto> x\<lparr>b_prev := NULL\<rparr>)\<rparr>
    \<and> blk_alloc pg s = Some (b_start w, s') \<and> blks_ok s' pg (c # bs)"
proof -
  obtain v where v: "pg \<noteq> NULL" "page_heap s pg = Some v" "no_free_blks v \<noteq> C_TRUE"
    "chain (links b_next (blk_heap s)) (blk_list_head v) (b # c # bs)"
    using assms by (auto simp: blks_ok_def)
  then obtain w x where w: "blk_list_head v = b" "b \<noteq> NULL" "blk_heap s b = Some w" "b_next w = c"
    "c \<noteq> NULL" "blk_heap s c = Some x" "chain (links b_next (blk_heap s)) c (c # bs)"
    by (auto split: option.splits dest!: links_SomeD)
  have "links b_next ((blk_heap s)(c \<mapsto> x\<lparr>b_prev := NULL\<rparr>)) = links b_next (blk_heap s)"
    using w by (intro links_upd_other) auto
  then show ?thesis
    using v w by (simp add: blk_alloc_def blks_ok_def deref_def upd_objs)
qed

lemma blk_alloc_last:
  assumes "blks_ok s pg [b]"
  shows "blk_alloc pg s = None"
  using assms by (auto simp: blks_ok_def blk_alloc_def deref_def upd_objs split: option.splits
      dest!: links_SomeD)

lemma put_to_blklist_end_ok:
  assumes "blks_ok s pg bs" and "bs \<noteq> []" and "blk \<noteq> NULL" and "blk_heap s blk = Some w"
    and "blk \<notin> set bs"
  shows "\<exists>e. blk_heap s (last bs) = Some e
    \<and> put_to_blklist_end pg blk s = Some (s\<lparr>blk_heap := (blk_heap s)(last bs \<mapsto> e\<lparr>b_next := blk\<rparr>,
          blk \<mapsto> w\<lparr>b_prev := last bs, b_next := NULL\<rparr>)\<rparr>)
    \<and> blks_ok (s\<lparr>blk_heap := (blk_heap s)(last bs \<mapsto> e\<lparr>b_next := blk\<rparr>,
          blk \<mapsto> w\<lparr>b_prev := last bs, b_next := NULL\<rparr>)\<rparr>) pg (bs @ [blk])"
proof -
  obtain v where v: "pg \<noteq> NULL" "page_heap s pg = Some v" "no_free_blks v \<noteq> C_TRUE"
    "chain (links b_next (blk_heap s)) (blk_list_head v) bs"
    using assms(1) by (auto simp: blks_ok_def)
  have e: "last bs \<in> set bs" using assms(2) by simp
  then obtain x where x: "blk_heap s (last bs) = Some x" "last bs \<noteq> NULL" "last bs \<noteq> blk"
    using chain_mem [OF v(4)] assms(5) by (auto simp: links_def)
  have "walk_end b_next (blk_heap s) (blk_list_head v) = Some (last bs)"
    using walk_end_chain [OF v(4) assms(2)] .
  moreover have "blk_list_head v \<noteq> NULL" using v(4) assms(2) by (auto dest: chain_head_iff)
  moreover have "chain ((links b_next (blk_heap s))(last bs \<mapsto> blk, blk \<mapsto> NULL)) (blk_list_head v) (bs @ [blk])"
    using chain_snoc [OF v(4) assms(2,5,3)] .
  ultimately show ?thesis
    using v x assms(3,4)
    by (simp add: put_to_blklist_end_def find_blk_list_end_def blks_ok_def deref_def upd_objs)
qed

lemma kblk_alloc_ok:
  assumes "kblks_ok s (b # c # bs)"
  shows "\<exists>w x s'. blk_heap s b = Some w \<and> blk_heap s c = Some x
    \<and> s' = s\<lparr>kpage := (kpage s)\<lparr>blk_list_head := c\<rparr>,
             blk_heap := (blk_heap s)(c \<mapsto> x\<lparr>b_prev := NULL\<rparr>,
                b \<mapsto> w\<lparr>b_next := NULL, b_prev := NULL, b_status := purpose\<rparr>)\<rparr>
    \<and> kblk_alloc purpose s = Some (b_start w, s') \<and> kblks_ok s' (c # bs)"
proof -
  let ?l = "links b_next (blk_heap s)"
  have ch: "chain ?l (blk_list_head (kpage s)) (b # c # bs)" using assms by (simp add: kblks_ok_def)
  then obtain w x where w: "blk_list_head (kpage s) = b" "b \<noteq> NULL" "blk_heap s b = Some w" "b_next w = c"
    "c \<noteq> NULL" "blk_heap s c = Some x" "chain ?l c (c # bs)" "b \<noteq> c" "b \<notin> set (c # bs)"
    using chain_distinct [OF ch] by (auto split: option.splits dest!: links_SomeD)
  let ?h = "(blk_heap s)(c \<mapsto> x\<lparr>b_prev := NULL\<rparr>, b \<mapsto> w\<lparr>b_next := NULL, b_prev := NULL, b_status := purpose\<rparr>)"
  have "links b_next ?h = ?l(b \<mapsto> NULL)"
    using w by (simp add: links_upd_other)
  moreover have "chain (?l(b \<mapsto> NULL)) c (c # bs)" by (rule chain_upd [OF w(9), THEN iffD2, OF w(7)])
  ultimately have "chain (links b_next ?h) c (c # bs)" by simp
  then show ?thesis
    using w by (simp add: kblk_alloc_def kblks_ok_def deref_def upd_objs)
qed

lemma kblk_alloc_starts:
  assumes "kblks_ok s (b # c # bs)"
  shows "\<exists>w s'. blk_heap s b = Some w \<and> kblk_alloc purpose s = Some (b_start w, s') \<and> kblks_ok s' (c # bs)
    \<and> links b_start (blk_heap s') = links b_start (blk_heap s)
    \<and> s' = s\<lparr>kpage := (kpage s)\<lparr>blk_list_head := c\<rparr>, blk_heap := blk_heap s'\<rparr>"
proof -
  obtain w x s' where s': "blk_heap s b = Some w" "blk_heap s c = Some x"
    "s' = s\<lparr>kpage := (kpage s)\<lparr>blk_list_head := c\<rparr>,
             blk_heap := (blk_heap s)(c \<mapsto> x\<lparr>b_prev := NULL\<rparr>,
                b \<mapsto> w\<lparr>b_next := NULL, b_prev := NULL, b_status := purpose\<rparr>)\<rparr>"
    "kblk_alloc purpose s = Some (b_start w, s')" "kblks_ok s' (c # bs)"
    using kblk_alloc_ok [OF assms] by blast
  have "links b_start ((blk_heap s)(c \<mapsto> x\<lparr>b_prev := NULL\<rparr>)) = links b_start (blk_heap s)"
    using s'(2) by (intro links_upd_other) auto
  then have "links b_start (blk_heap s') = links b_start (blk_heap s)"
    using s'(1-3) by (cases "b = c") (auto simp: links_upd_other)
  moreover have "s' = s\<lparr>kpage := (kpage s)\<lparr>blk_list_head := c\<rparr>, blk_heap := blk_heap s'\<rparr>" by (simp add: s'(3))
  ultimately show ?thesis using s'(1,4,5) by blast
qed

lemma kblk_alloc_last:
  assumes "kblks_ok s [b]"
  shows "kblk_alloc purpose s = None"
  using assms by (auto simp: kblks_ok_def kblk_alloc_def deref_def upd_objs printk_plain split: option.splits
      dest!: links_SomeD bind_eq_Some_conv [THEN iffD1])

section \<open>The allocator contract\<close>

text \<open>
  The free list seen through the addresses that will be handed out: \<open>fs\<close>; \<open>us\<close> are those
  already handed out.
\<close>

definition blk_pool :: "addr \<Rightarrow> kstate \<Rightarrow> addr list \<Rightarrow> addr list \<Rightarrow> bool" where
  "blk_pool pg s fs us \<longleftrightarrow> distinct (fs @ us) \<and>
     (\<exists>bs. blks_ok s pg bs \<and> map Some fs = map (links b_start (blk_heap s)) bs)"

definition kblk_pool :: "kstate \<Rightarrow> addr list \<Rightarrow> addr list \<Rightarrow> bool" where
  "kblk_pool s fs us \<longleftrightarrow> distinct (fs @ us) \<and>
     (\<exists>bs. kblks_ok s bs \<and> map Some fs = map (links b_start (blk_heap s)) bs)"

lemma map_Some_Cons2:
  "map Some (p # q # fs) = map f bs \<Longrightarrow>
    \<exists>b c bs'. bs = b # c # bs' \<and> f b = Some p \<and> f c = Some q \<and> map Some fs = map f bs'"
  by (auto simp: Cons_eq_map_conv)

lemma map_Some_Cons1: "map Some [p] = map f bs \<Longrightarrow> \<exists>b. bs = [b] \<and> f b = Some p"
  by (auto simp: Cons_eq_map_conv)

interpretation blks: page_source "blk_alloc pg" "blk_pool pg" for pg
proof unfold_locales
  fix s p q fs us
  assume "blk_pool pg s (p # q # fs) us"
  then obtain b c bs where b: "distinct ((p # q # fs) @ us)" "blks_ok s pg (b # c # bs)"
    "links b_start (blk_heap s) b = Some p" "links b_start (blk_heap s) c = Some q"
    "map Some fs = map (links b_start (blk_heap s)) bs"
    by (auto simp: blk_pool_def dest!: map_Some_Cons2 [of p q fs])
  obtain v w x s' where s': "blk_heap s b = Some w" "blk_heap s c = Some x"
    "s' = s\<lparr>page_heap := (page_heap s)(pg \<mapsto> v\<lparr>blk_list_head := c\<rparr>),
             blk_heap := (blk_heap s)(c \<mapsto> x\<lparr>b_prev := NULL\<rparr>)\<rparr>"
    "blk_alloc pg s = Some (b_start w, s')" "blks_ok s' pg (c # bs)"
    using blk_alloc_ok [OF b(2)] by blast
  have "links b_start (blk_heap s') = links b_start (blk_heap s)"
    using s' by (simp add: links_upd_other)
  moreover have "b_start w = p" using s'(1) b(3) by simp
  ultimately show "\<exists>s'. blk_alloc pg s = Some (p, s') \<and> blk_pool pg s' (q # fs) (us @ [p])"
    using s'(4,5) b by (auto simp: blk_pool_def intro!: exI [of _ "c # bs"])
next
  fix s p us
  assume "blk_pool pg s [p] us"
  then show "blk_alloc pg s = None"
    by (auto simp: blk_pool_def Cons_eq_map_conv intro: blk_alloc_last)
qed (simp add: blk_pool_def)

interpretation kblks: page_source "kblk_alloc purpose" kblk_pool for purpose
proof unfold_locales
  fix s p q fs us
  assume "kblk_pool s (p # q # fs) us"
  then obtain b c bs where b: "distinct ((p # q # fs) @ us)" "kblks_ok s (b # c # bs)"
    "links b_start (blk_heap s) b = Some p" "links b_start (blk_heap s) c = Some q"
    "map Some fs = map (links b_start (blk_heap s)) bs"
    by (auto simp: kblk_pool_def dest!: map_Some_Cons2 [of p q fs])
  obtain w s' where s': "blk_heap s b = Some w" "kblk_alloc purpose s = Some (b_start w, s')" "kblks_ok s' (c # bs)"
    "links b_start (blk_heap s') = links b_start (blk_heap s)"
    using kblk_alloc_starts [OF b(2)] by blast
  moreover have "b_start w = p" using s'(1) b(3) by simp
  ultimately show "\<exists>s'. kblk_alloc purpose s = Some (p, s') \<and> kblk_pool s' (q # fs) (us @ [p])"
    using b by (auto simp: kblk_pool_def intro!: exI [of _ "c # bs"])
next
  fix s p us
  assume "kblk_pool s [p] us"
  then show "kblk_alloc purpose s = None"
    by (auto simp: kblk_pool_def Cons_eq_map_conv intro: kblk_alloc_last)
qed (simp add: kblk_pool_def)

section \<open>What the initialisations build\<close>

lemma blks_init_ok:
  assumes pg: "pg \<noteq> NULL" "page_heap s pg = Some v" "blk_not_init v \<noteq> C_FALSE" "no_free_blks v \<noteq> C_TRUE"
    and fr: "unat (pgstart v) + 0x100000 \<le> 2 ^ 32"
  shows "\<exists>s' h. blks_init pg s = Some (pg, s')
    \<and> s' = s\<lparr>page_heap := (page_heap s)(pg \<mapsto> v\<lparr>blk_list_head := blk_at (pgstart v + 0x1000) 3\<rparr>), blk_heap := h\<rparr>
    \<and> (\<forall>i < 256. h (blk_at (pgstart v + 0x1000) i) =
         Some ((init_blk pg (pgstart v + 0x1000) (pgstart v) BLK_SIZE 256 i)
                 \<lparr>b_status := if i < 3 then FULL else FREE\<rparr>))
    \<and> (\<forall>a. a \<notin> blk_at (pgstart v + 0x1000) ` {..<256} \<longrightarrow> h a = blk_heap s a)
    \<and> blks_ok s' pg (map (blk_at (pgstart v + 0x1000)) [3..<256])"
proof -
  define head where "head = pgstart v + 0x1000"
  have u: "unat head = unat (pgstart v) + 0x1000"
    using unat_array [of "pgstart v" 1 "0x1000" 1] fr by (simp add: head_def)
  then have head: "unat head + 257 * 28 < 2 ^ 32" "head \<noteq> NULL" using fr by (auto simp: unat_eq_zero)
  define t where "t = s\<lparr>page_heap := (page_heap s)(pg \<mapsto> v\<lparr>blk_list_head := head\<rparr>)\<rparr>"
  let ?val = "init_blk pg head (pgstart v) BLK_SIZE 256"
  have body: "blks_init_body pg head i (t\<lparr>blk_heap := h\<rparr>)
      = Some (t\<lparr>blk_heap := h(blk_at head i \<mapsto> ?val i)\<rparr>)" if "i < 256" for i h
    using that blk_at_non_NULL [OF head] pg
    by (simp add: blks_init_body_def t_def deref_def new_obj_def init_blk_def Let_def)
  obtain h where h: "for_each (blks_init_body pg head) [0..<256] t = Some (t\<lparr>blk_heap := h\<rparr>)"
    "\<forall>i < 256. h (blk_at head i) = Some (?val i)" "\<forall>a. a \<notin> blk_at head ` {..<256} \<longrightarrow> h a = blk_heap t a"
    using blk_array_init [of 256 "blks_init_body pg head" t head ?val] body head(1) by auto
  define h' where "h' = h(blk_at head 0 \<mapsto> (?val 0)\<lparr>b_status := FULL\<rparr>,
    blk_at head 1 \<mapsto> (?val 1)\<lparr>b_status := FULL\<rparr>, blk_at head 2 \<mapsto> (?val 2)\<lparr>b_status := FULL\<rparr>)"
  define s' where "s' = s\<lparr>page_heap := (page_heap s)(pg \<mapsto> v\<lparr>blk_list_head := blk_at head 3\<rparr>), blk_heap := h'\<rparr>"
  have nn: "blk_at head i \<noteq> NULL" if "i < 256" for i using blk_at_non_NULL [OF head] that by simp
  have inj: "blk_at head i = blk_at head j \<longleftrightarrow> i = j" if "i < 256" "j < 256" for i j
    using blk_at_inj [OF head(1), of i j] that by simp
  have run: "blks_init pg s = Some (pg, s')"
    using pg h nn [of 0] nn [of 1] nn [of 2] inj [of 1 0] inj [of 2 0] inj [of 2 1]
    by (simp add: blks_init_def deref_def upd_objs Let_def t_def [symmetric] head_def [symmetric])
      (simp add: t_def s'_def h'_def upd_objs)
  have val: "\<forall>i < 256. h' (blk_at head i) = Some ((?val i)\<lparr>b_status := if i < 3 then FULL else FREE\<rparr>)"
  proof (intro allI impI)
    fix i :: nat
    assume i: "i < 256"
    have st: "b_status (?val i) = FREE" by (simp add: init_blk_def)
    consider "i = 0" | "i = 1" | "i = 2" | "3 \<le> i" by linarith
    then show "h' (blk_at head i) = Some ((?val i)\<lparr>b_status := if i < 3 then FULL else FREE\<rparr>)"
    proof cases
      case 4
      then have "h' (blk_at head i) = Some (?val i)"
        using i h(2) inj [of i 0] inj [of i 1] inj [of i 2] by (simp add: h'_def)
      with 4 st show ?thesis by simp
    qed (simp_all add: h'_def inj)
  qed
  have "chain (links b_next h') (blk_at head 3) (map (blk_at head) [3..<256])"
    using val nn by (intro chain_array) (auto simp: init_blk_def)
  then have "blks_ok s' pg (map (blk_at head) [3..<256])"
    using pg by (simp add: blks_ok_def s'_def)
  moreover have "\<forall>a. a \<notin> blk_at head ` {..<256} \<longrightarrow> h' a = blk_heap s a"
    using h(3) by (auto simp: h'_def t_def)
  ultimately show ?thesis using run val s'_def unfolding head_def by blast
qed

section \<open>From a block's address to its descriptor\<close>

lemma which_blk_ok:
  assumes al: "unat ps mod 0x100000 = 0" and fr: "unat ps + 0x100000 \<le> 2 ^ 32"
    and i: "i < 256" and off: "unat off < 4096"
  shows "which_blk (ps + of_nat i * BLK_SIZE + off) = blk_at (ps + 0x1000) i"
    and "unat (ps + of_nat i * BLK_SIZE + off) = unat ps + i * 4096 + unat off"
proof -
  let ?b = "ps + of_nat i * BLK_SIZE"
  have b: "unat ?b = unat ps + i * 4096"
    using unat_array [of ps 255 BLK_SIZE i] fr i by simp
  have "?b + off = of_nat (unat ps + i * 4096 + unat off)" by simp
  moreover have lt: "unat ps + i * 4096 + unat off < 2 ^ 32" using fr i off by linarith
  ultimately show a: "unat (?b + off) = unat ps + i * 4096 + unat off"
    by (simp only: unat_of_nat32)
  have "unat ps mod 4096 = 0"
    using al mod_mod_cancel [of 4096 "0x100000" "unat ps"] by simp
  then have "unat ?b mod 4096 = 0" by (simp add: b mod_add_left_eq [symmetric])
  then have "ROUNDDOWN (?b + off) BLK_SIZE = ?b"
    using a b off by (intro ROUNDDOWN_eqI) simp_all
  moreover have "ROUNDDOWN (?b + off) PAGE_SIZE = ps"
    using a i off al by (intro ROUNDDOWN_eqI) simp_all
  moreover have "(?b - ps) div BLK_SIZE = of_nat i"
  proof -
    have "of_nat i * BLK_SIZE = of_nat (i * 4096)" by simp
    moreover have "i * 4096 < 2 ^ 32" using i by simp
    ultimately have "unat (of_nat i * BLK_SIZE) = i * 4096" by (simp only: unat_of_nat32)
    then have "unat ((?b - ps) div BLK_SIZE) = i" by (simp add: unat_div)
    then have "of_nat (unat ((?b - ps) div BLK_SIZE)) = (of_nat i :: u32)" by (rule arg_cong)
    then show ?thesis by simp
  qed
  ultimately show "which_blk (?b + off) = blk_at (ps + 0x1000) i"
    by (simp add: which_blk_def blk_at_def Let_def)
qed

lemma pages_ok_frame:
  assumes "page_heap s pg = Some v" and "pg_next w = pg_next v" and "pg_prev w = pg_prev v"
  shows "pages_ok (s\<lparr>page_heap := (page_heap s)(pg \<mapsto> w), blk_heap := h\<rparr>) fs us \<longleftrightarrow> pages_ok s fs us"
proof -
  have "links pg_next ((page_heap s)(pg \<mapsto> w)) = links pg_next (page_heap s)"
    "links pg_prev ((page_heap s)(pg \<mapsto> w)) = links pg_prev (page_heap s)"
    using assms by (simp_all add: links_upd_other del: links_upd)
  then show ?thesis by (simp add: pages_ok_def del: links_upd)
qed

text \<open>The descriptors themselves lie in the frame, so \<open>which_page\<close> finds the page back.\<close>

lemma descriptor_page:
  assumes al: "unat ps mod 0x100000 = 0" and fr: "unat ps + 0x100000 \<le> 2 ^ 32" and i: "i < 256"
  shows "ROUNDDOWN (blk_at (ps + 0x1000) i) PAGE_SIZE = ps" and "blk_at (ps + 0x1000) i \<noteq> NULL"
proof -
  have u: "unat (ps + 0x1000) = unat ps + 0x1000"
    using unat_array [of ps 1 "0x1000" 1] fr by simp
  then have "unat (blk_at (ps + 0x1000) i) = unat ps + 0x1000 + i * 28"
    using blk_at_unat [of "ps + 0x1000" i] fr i by simp
  then show "ROUNDDOWN (blk_at (ps + 0x1000) i) PAGE_SIZE = ps" and "blk_at (ps + 0x1000) i \<noteq> NULL"
    using al i by (auto intro!: ROUNDDOWN_eqI)
qed

lemma free_blk_ok:
  assumes ok: "pages_ok s fs us" and pg: "pg \<in> set us" "page_heap s pg = Some v"
    and inj: "inj_on (links pgstart (page_heap s)) (set us)"
    and al: "unat (pgstart v) mod 0x100000 = 0" and fr: "unat (pgstart v) + 0x100000 \<le> 2 ^ 32"
    and bl: "blks_ok s pg bs" "bs \<noteq> []" "blk_at (pgstart v + 0x1000) i \<notin> set bs"
    and b: "blk_heap s (blk_at (pgstart v + 0x1000) i) = Some w" "i < 256" and off: "unat off < 4096"
  shows "\<exists>s'. free_blk (pgstart v + of_nat i * BLK_SIZE + off) s = Some s'
    \<and> blks_ok s' pg (bs @ [blk_at (pgstart v + 0x1000) i])"
proof -
  let ?b = "blk_at (pgstart v + 0x1000) i"
  have "which_page ?b s = Some pg"
    using which_page_hit [OF ok pg(1) _ inj] descriptor_page [OF al fr b(2)] pg(2) by simp
  then show ?thesis
    using put_to_blklist_end_ok [OF bl(1,2) _ b(1) bl(3)] descriptor_page [OF al fr b(2)]
      which_blk_ok(1) [OF al fr b(2) off]
    by (auto simp: free_blk_def)
qed

section \<open>The kernel's blocks at boot\<close>

lemma mark_full:
  assumes "\<forall>j \<in> set js. blk_at head j \<noteq> NULL \<and> blk_heap s (blk_at head j) \<noteq> None"
  shows "\<exists>h. for_each (\<lambda>j. upd_blk (blk_at head j) (\<lambda>b. b\<lparr>b_status := FULL\<rparr>)) js s = Some (s\<lparr>blk_heap := h\<rparr>)
    \<and> links b_next h = links b_next (blk_heap s) \<and> links b_start h = links b_start (blk_heap s)"
  using assms
proof (induction js arbitrary: s)
  case Nil
  show ?case by (rule exI [of _ "blk_heap s"]) simp
next
  case (Cons j js)
  then obtain b where b: "blk_at head j \<noteq> NULL" "blk_heap s (blk_at head j) = Some b" by auto
  define t where "t = s\<lparr>blk_heap := (blk_heap s)(blk_at head j \<mapsto> b\<lparr>b_status := FULL\<rparr>)\<rparr>"
  have "upd_blk (blk_at head j) (\<lambda>b. b\<lparr>b_status := FULL\<rparr>) s = Some t"
    using b by (simp add: upd_objs t_def)
  moreover obtain h where "for_each (\<lambda>j. upd_blk (blk_at head j) (\<lambda>b. b\<lparr>b_status := FULL\<rparr>)) js t = Some (t\<lparr>blk_heap := h\<rparr>)"
    "links b_next h = links b_next (blk_heap t)" "links b_start h = links b_start (blk_heap t)"
  proof -
    have "\<forall>k \<in> set js. blk_at head k \<noteq> NULL \<and> blk_heap t (blk_at head k) \<noteq> None"
      using Cons.prems by (simp add: t_def)
    then show ?thesis using Cons.IH [of t] that by blast
  qed
  moreover have "links b_next (blk_heap t) = links b_next (blk_heap s)"
    "links b_start (blk_heap t) = links b_start (blk_heap s)"
    using b by (simp_all add: t_def)
  ultimately show ?case by (intro exI [of _ h]) (simp add: t_def)
qed

lemma kpage_blks_init_ok:
  assumes hd: "free_start (kpage s) = head" "head \<noteq> NULL" and ps: "pgstart (kpage s) = 0x82000000"
    and en: "end = ROUNDUP (blk_at head 64) KBLK_SIZE" "0x82000000 \<le> unat end" "unat end < 0x82040000"
    and hb: "unat head < 0x82040000"
  shows "\<exists>s' h. kpage_blks_init j0 s = Some s'
    \<and> kblks_ok s' (map (blk_at head) [unat (drop_bit 12 (end - 0x82000000))..<64])
    \<and> (\<forall>i < 64. links b_start (blk_heap s') (blk_at head i) = Some (0x82000000 + of_nat i * KBLK_SIZE))
    \<and> s' = s\<lparr>blk_heap := h, kblk_list_base := head, kpage := (kpage s)\<lparr>
         blk_list_head := blk_at head (unat (drop_bit 12 (end - 0x82000000))), free_start := end\<rparr>\<rparr>"
proof -
  let ?i = "unat (drop_bit 12 (end - 0x82000000))"
  have "unat (end - 0x82000000) = unat end - 0x82000000"
    using en(2) by (simp add: unat_sub word_le_nat_alt)
  then have idx: "?i < 64" using en(3) by (simp add: unat_drop_bit_eq drop_bit_eq_div unat_div)
  have h1: "unat head + 257 * 28 < 2 ^ 32" using hb by simp
  have nn: "blk_at head i \<noteq> NULL" if "i < 64" for i using blk_at_non_NULL [OF h1 hd(2)] that by simp
  define t where "t = s\<lparr>kpage := (kpage s)\<lparr>blk_list_head := head, free_start := blk_at head 64\<rparr>\<rparr>"
  let ?val = "init_blk (kpage_addr s) head 0x82000000 KBLK_SIZE 64"
  have body: "kpage_blks_init_body head i (t\<lparr>blk_heap := h\<rparr>)
      = Some (t\<lparr>blk_heap := h(blk_at head i \<mapsto> ?val i)\<rparr>)" if "i < 64" for i h
    using that nn ps
    by (simp add: kpage_blks_init_body_def t_def new_obj_def init_blk_def Let_def)
  obtain h where h: "for_each (kpage_blks_init_body head) [0..<64] t = Some (t\<lparr>blk_heap := h\<rparr>)"
    "\<forall>i < 64. h (blk_at head i) = Some (?val i)"
    using blk_array_init [of 64 "kpage_blks_init_body head" t head ?val] body h1 by auto
  define u where "u = t\<lparr>blk_heap := h, kblk_list_base := blk_at head 0\<rparr>"
  obtain g where g: "for_each (\<lambda>j. upd_blk (blk_at head j) (\<lambda>b. b\<lparr>b_status := FULL\<rparr>)) [unat j0..<?i] u
        = Some (u\<lparr>blk_heap := g\<rparr>)"
    "links b_next g = links b_next h" "links b_start g = links b_start h"
    using mark_full [of "[unat j0..<?i]" head u] nn h(2) idx by (auto simp: u_def)
  define s' where "s' = s\<lparr>blk_heap := g, kblk_list_base := head, kpage := (kpage s)\<lparr>
         blk_list_head := blk_at head ?i, free_start := end\<rparr>\<rparr>"
  have z: "blk_at head 0 = head" by (simp add: blk_at_def)
  have run: "kpage_blks_init j0 s = Some s'"
    using h(1) g(1) hd(1) en(1)
    by (simp add: kpage_blks_init_def Let_def t_def u_def s'_def z)
  have "chain (links b_next h) (blk_at head ?i) (map (blk_at head) [?i..<64])"
    using h(2) nn idx by (intro chain_array) (auto simp: init_blk_def)
  then have "kblks_ok s' (map (blk_at head) [?i..<64])"
    using g(2) by (simp add: kblks_ok_def s'_def)
  moreover have "\<forall>i < 64. links b_start (blk_heap s') (blk_at head i) = Some (0x82000000 + of_nat i * KBLK_SIZE)"
    using g(3) h(2) by (simp add: s'_def init_blk_def)
  ultimately show ?thesis using run s'_def by blast
qed

section \<open>Pools over an array of blocks\<close>

text \<open>Blocks of \<open>sz > 0\<close> bytes that follow each other from \<open>st\<close> have distinct starts.\<close>

definition block_start :: "addr \<Rightarrow> u32 \<Rightarrow> nat \<Rightarrow> addr" where
  "block_start st sz i = st + of_nat i * sz"

lemma unat_block_start:
  "unat st + n * unat sz < 2 ^ 32 \<Longrightarrow> i \<le> n \<Longrightarrow> unat (block_start st sz i) = unat st + i * unat sz"
  unfolding block_start_def by (rule unat_array)

lemma block_start_inj:
  assumes "unat st + n * unat sz < 2 ^ 32" and "sz \<noteq> 0"
  shows "inj_on (block_start st sz) {..n}"
proof (rule inj_onI)
  fix i j
  assume "i \<in> {..n}" "j \<in> {..n}" "block_start st sz i = block_start st sz j"
  then have "unat st + i * unat sz = unat st + j * unat sz"
    using unat_block_start [OF assms(1), of i] unat_block_start [OF assms(1), of j]
    by (metis atMost_iff)
  then have "i * unat sz = j * unat sz" by (rule add_left_imp_eq)
  moreover have "unat sz \<noteq> 0" using assms(2) by (metis unat_eq_zero)
  ultimately show "i = j" by (metis mult_right_cancel)
qed

lemma distinct_block_starts:
  assumes "unat st + n * unat sz < 2 ^ 32" and "sz \<noteq> 0" and "m \<le> Suc n"
  shows "distinct (map (block_start st sz) [k..<m])"
  using inj_on_subset [OF block_start_inj [OF assms(1,2)], of "{k..<m}"] assms(3)
  by (simp add: distinct_map subset_iff)

lemma map_Some_blocks:
  assumes "\<And>i. k \<le> i \<Longrightarrow> i < m \<Longrightarrow> l (at i) = Some (f i)"
  shows "map Some (map f [k..<m]) = map l (map at [k..<m])"
  using assms by simp

lemma take_blocks: "k + n \<le> m \<Longrightarrow> take n (map f [k..<m]) = map f [k..<k + n]"
  by (simp add: take_map)

section \<open>Releasing a kernel block\<close>

definition kblk_array :: "kstate \<Rightarrow> bool" where
  "kblk_array s \<longleftrightarrow> kblk_list_base s \<noteq> NULL \<and> unat (kblk_list_base s) < 0x82040000 \<and>
     (\<forall>k < 64. links b_start (blk_heap s) (blk_at (kblk_list_base s) k)
        = Some (block_start 0x82000000 KBLK_SIZE k))"

lemma kblk_search_hit:
  assumes "\<forall>k < m. blk_at (kblk_list_base s) k \<noteq> NULL \<and>
      (\<exists>b. links b_start (blk_heap s) (blk_at (kblk_list_base s) k) = Some b \<and> (b = st \<longleftrightarrow> k = i))"
    and "i < m" and "j \<le> i"
  shows "kblk_search st ([j..<m] @ ks) s = Some (blk_at (kblk_list_base s) i)"
  using assms(3)
proof (induction "i - j" arbitrary: j)
  case 0
  then show ?case
    using assms(1,2) by (fastforce simp: upt_conv_Cons deref_def dest: links_SomeD)
next
  case (Suc d)
  then have "d = i - Suc j" "Suc j \<le> i" by simp_all
  then have "kblk_search st ([Suc j..<m] @ ks) s = Some (blk_at (kblk_list_base s) i)"
    by (rule Suc.hyps(1))
  moreover have "j < m" "j \<noteq> i" using Suc.hyps(2) Suc.prems assms(2) by simp_all
  ultimately show ?case
    using assms(1) by (fastforce simp: upt_conv_Cons deref_def dest: links_SomeD)
qed

lemma kblk_array_at:
  assumes "kblk_array s" and "k < 64"
  shows "blk_at (kblk_list_base s) k \<noteq> NULL"
    and "\<exists>b. blk_heap s (blk_at (kblk_list_base s) k) = Some b \<and> b_start b = block_start 0x82000000 KBLK_SIZE k"
proof -
  have "unat (kblk_list_base s) + 257 * 28 < 2 ^ 32" using assms(1) by (simp add: kblk_array_def)
  then show "blk_at (kblk_list_base s) k \<noteq> NULL"
    using blk_at_non_NULL assms by (simp add: kblk_array_def)
  show "\<exists>b. blk_heap s (blk_at (kblk_list_base s) k) = Some b \<and> b_start b = block_start 0x82000000 KBLK_SIZE k"
    using assms by (auto simp: kblk_array_def dest!: spec [of _ k] links_SomeD)
qed

lemma kblk_search_ok:
  assumes "kblk_array s" and "i < 64"
  shows "kblk_search (ROUNDDOWN (block_start 0x82000000 KBLK_SIZE i) BLK_SIZE) [0..<256] s
    = Some (blk_at (kblk_list_base s) i)"
proof -
  let ?st = "block_start 0x82000000 KBLK_SIZE"
  have u: "unat (?st k) = 0x82000000 + k * 16384" if "k < 64" for k
    using unat_block_start [of "0x82000000" 64 KBLK_SIZE k] that by simp
  have "(0x82000000 + i * 16384) mod 4096 = 0"
    using mod_add_left_eq [of "0x82000000" 4096 "i * 16384"] by (simp add: mod_mult_right_eq [symmetric])
  then have "ROUNDDOWN (?st i) BLK_SIZE = ?st i"
    using u [OF assms(2)] by (intro ROUNDDOWN_eqI) simp_all
  moreover have "?st k = ?st i \<longleftrightarrow> k = i" if "k < 64" for k
    using u [OF that] u [OF assms(2)] by (metis add_left_cancel mult_cancel2 zero_neq_numeral)
  then have "\<forall>k < 64. blk_at (kblk_list_base s) k \<noteq> NULL \<and>
      (\<exists>b. links b_start (blk_heap s) (blk_at (kblk_list_base s) k) = Some b \<and> (b = ?st i \<longleftrightarrow> k = i))"
    using assms(1) kblk_array_at(1) by (simp add: kblk_array_def)
  then have "kblk_search (?st i) ([0..<64] @ [64..<256]) s = Some (blk_at (kblk_list_base s) i)"
    using assms(2) by (intro kblk_search_hit) simp_all
  moreover have "[0..<64] @ [64..<256] = [0..<256 :: nat]"
    using upt_add_eq_append [of 0 64 192] by (simp del: upt_rec_numeral)
  ultimately show ?thesis by simp
qed

lemma kblk_free_ok:
  assumes ok: "kblks_ok s bs" "bs \<noteq> []" and arr: "kblk_array s" "i < 64"
    and new: "blk_at (kblk_list_base s) i \<notin> set bs"
  shows "\<exists>s'. kblk_free (block_start 0x82000000 KBLK_SIZE i) s = Some s'
    \<and> kblks_ok s' (bs @ [blk_at (kblk_list_base s) i])
    \<and> links b_status (blk_heap s') (blk_at (kblk_list_base s) i) = Some FREE \<and> kblk_array s'"
proof -
  let ?b = "blk_at (kblk_list_base s) i"
  have ch: "chain (links b_next (blk_heap s)) (blk_list_head (kpage s)) bs"
    using ok(1) by (simp add: kblks_ok_def)
  obtain w where w: "?b \<noteq> NULL" "blk_heap s ?b = Some w" using kblk_array_at [OF arr] by blast
  have l: "last bs \<in> set bs" using ok(2) by simp
  then have "last bs \<noteq> ?b" using new by metis
  with l obtain x where x: "blk_heap s (last bs) = Some x" "last bs \<noteq> NULL" "last bs \<noteq> ?b"
    using chain_mem [OF ch, of "last bs"] by (auto simp: links_def)
  define t where "t = s\<lparr>blk_heap := (blk_heap s)(last bs \<mapsto> x\<lparr>b_next := ?b\<rparr>,
     ?b \<mapsto> w\<lparr>b_prev := last bs, b_next := NULL, b_status := FREE\<rparr>)\<rparr>"
  have run: "kblk_free (block_start 0x82000000 KBLK_SIZE i) s = Some t"
    using kblk_search_ok [OF arr] walk_end_chain [OF ch ok(2)] w x
    by (simp add: kblk_free_def upd_objs t_def del: upt_rec_numeral)
  moreover have "kblks_ok t (bs @ [?b])"
    using chain_snoc [OF ch ok(2) new w(1)] by (simp add: kblks_ok_def t_def)
  moreover have "links b_start (blk_heap t) = links b_start (blk_heap s)"
    using w x by (simp add: t_def fun_upd_idem_iff)
  then have "kblk_array t" using arr(1) by (simp add: kblk_array_def t_def)
  ultimately show ?thesis by (auto simp: t_def)
qed

section \<open>Properties\<close>

text \<open>
  Once \<open>blks_init\<close> has run on a page, \<open>blk_alloc\<close> hands out the 4 KB blocks 3, 4, ... of
  its frame in order, never one of the first three, which hold the task's stack and the
  descriptors. The frame has 253 free blocks, of which 252 can be taken: the next request faults
  on the link of the block that is not there.
\<close>

theorem blk_alloc_capacity:
  assumes "pg \<noteq> NULL" and "page_heap s pg = Some v" and "blk_not_init v \<noteq> C_FALSE"
    and "no_free_blks v \<noteq> C_TRUE" and "unat (pgstart v) + 0x100000 \<le> 2 ^ 32"
  shows "\<exists>s'. blks_init pg s = Some (pg, s') \<and>
    (if n < 253
     then \<exists>t. alloc_many (blk_alloc pg) n s' = Some (map (block_start (pgstart v) BLK_SIZE) [3..<3 + n], t)
     else alloc_many (blk_alloc pg) n s' = None)"
proof -
  let ?at = "blk_at (pgstart v + 0x1000)" and ?st = "block_start (pgstart v) BLK_SIZE"
  obtain s' h where s': "blks_init pg s = Some (pg, s')" "blk_heap s' = h"
    "\<forall>i < 256. h (?at i) = Some ((init_blk pg (pgstart v + 0x1000) (pgstart v) BLK_SIZE 256 i)
       \<lparr>b_status := if i < 3 then FULL else FREE\<rparr>)"
    "blks_ok s' pg (map ?at [3..<256])"
    using blks_init_ok [OF assms] by fastforce
  have "distinct (map ?st [3..<256])"
    by (rule distinct_block_starts [where n = 255]) (use assms(5) in simp_all)
  moreover have "map Some (map ?st [3..<256]) = map (links b_start (blk_heap s')) (map ?at [3..<256])"
    by (rule map_Some_blocks) (use s'(2,3) in \<open>simp add: init_blk_def block_start_def\<close>)
  ultimately have pool: "blk_pool pg s' (map ?st [3..<256]) []"
    using s'(4) unfolding blk_pool_def by (metis append_Nil2)
  have len: "length (map ?st [3..<256]) = 253" "map ?st [3..<256] \<noteq> []"
    by (simp_all del: upt_rec_numeral)
  show ?thesis
  proof (cases "n < 253")
    case True
    then have "take n (map ?st [3..<256]) = map ?st [3..<3 + n]" by (intro take_blocks) simp
    then show ?thesis
      using s'(1) blks.alloc_many_prefix [OF pool, of n] True len(1) by auto
  next
    case False
    then show ?thesis
      using s'(1) blks.alloc_many_exhausted [OF pool len(2), of n] len(1) by auto
  qed
qed

definition demo_blocks :: kstate where
  "demo_blocks = zero_state\<lparr>
     page_heap := [0x300 \<mapsto> zero_page\<lparr>page_status := FOR_TASK, pgstart := 0x82300000,
                              blk_list_head := 0x82301054, blk_not_init := C_TRUE\<rparr>],
     blk_heap := [0x82301054 \<mapsto> (init_blk 0x300 0x82301000 0x82300000 BLK_SIZE 5 3),
                  0x82301070 \<mapsto> (init_blk 0x300 0x82301000 0x82300000 BLK_SIZE 5 4)],
     inuse_page_head := 0x300\<rparr>"

lemma demo_blocks_page:
  "page_heap demo_blocks 0x300 = Some (zero_page\<lparr>page_status := FOR_TASK, pgstart := 0x82300000,
                              blk_list_head := 0x82301054, blk_not_init := C_TRUE\<rparr>)"
  by (simp add: demo_blocks_def)

theorem blk_alloc_capacity_witness:
  "\<exists>s' t. blks_init 0x300 demo_blocks = Some (0x300, s')
    \<and> alloc_many (blk_alloc 0x300) 2 s' = Some ([0x82303000, 0x82304000], t)"
proof -
  have "\<exists>s'. blks_init 0x300 demo_blocks = Some (0x300, s') \<and>
    (if (2 :: nat) < 253
     then \<exists>t. alloc_many (blk_alloc 0x300) 2 s' = Some (map (block_start 0x82300000 BLK_SIZE) [3..<3 + 2], t)
     else alloc_many (blk_alloc 0x300) 2 s' = None)"
    using blk_alloc_capacity [OF _ demo_blocks_page, of 2] by (simp add: zero_page_def)
  then show ?thesis by (auto simp: block_start_def)
qed

text \<open>
  C31: allocating a block of a task page and releasing it through any address inside it succeeds
  and puts its descriptor at the end of that page's free list; the other free blocks keep their
  order.
\<close>

theorem blk_free_roundtrip:
  assumes pages: "pages_ok s fs us" "pg \<in> set us" "page_heap s pg = Some v"
      "inj_on (links pgstart (page_heap s)) (set us)"
    and frame: "unat (pgstart v) mod 0x100000 = 0" "unat (pgstart v) + 0x100000 \<le> 2 ^ 32"
    and free: "blks_ok s pg (map (blk_at (pgstart v + 0x1000)) (i # j # is))" "i < 256"
      "links b_start (blk_heap s) (blk_at (pgstart v + 0x1000) i) = Some (pgstart v + of_nat i * BLK_SIZE)"
    and off: "unat off < 4096"
  shows "\<exists>a s1 s2. blk_alloc pg s = Some (a, s1) \<and> free_blk (a + off) s1 = Some s2
    \<and> blks_ok s2 pg (map (blk_at (pgstart v + 0x1000)) (j # is @ [i]))"
proof -
  let ?at = "blk_at (pgstart v + 0x1000)"
  have bl: "blks_ok s pg (?at i # ?at j # map ?at is)" using free(1) by simp
  obtain w x s1 where s1: "blk_heap s (?at i) = Some w" "blk_heap s (?at j) = Some x"
    "s1 = s\<lparr>page_heap := (page_heap s)(pg \<mapsto> v\<lparr>blk_list_head := ?at j\<rparr>),
             blk_heap := (blk_heap s)(?at j \<mapsto> x\<lparr>b_prev := NULL\<rparr>)\<rparr>"
    "blk_alloc pg s = Some (b_start w, s1)" "blks_ok s1 pg (?at j # map ?at is)"
    using blk_alloc_ok [OF bl] pages(3) by auto
  have new: "?at i \<notin> set (?at j # map ?at is)"
  proof -
    obtain va :: page_info where "chain (links b_next (blk_heap s)) (blk_list_head va) (?at i # ?at j # map ?at is)"
      using bl unfolding blks_ok_def by blast
    then have "distinct (?at i # ?at j # map ?at is)" by (rule chain_distinct)
    then show ?thesis by simp
  qed
  have ok: "pages_ok s1 fs us" unfolding s1(3) by (subst pages_ok_frame [OF pages(3)]) (simp_all add: pages(1))
  have "links pgstart (page_heap s1) = links pgstart (page_heap s)"
    using pages(3) s1(3) by (simp add: links_upd_other)
  then have inj: "inj_on (links pgstart (page_heap s1)) (set us)" using pages(4) by simp
  have v1: "page_heap s1 pg = Some (v\<lparr>blk_list_head := ?at j\<rparr>)" using s1(3) by simp
  have b: "blk_heap s1 (?at i) = Some w" using s1(1,3) new by simp
  have "\<exists>s'. free_blk (pgstart v + of_nat i * BLK_SIZE + off) s1 = Some s'
    \<and> blks_ok s' pg ((?at j # map ?at is) @ [?at i])"
    using free_blk_ok [OF ok pages(2) v1 inj _ _ s1(5), of i w off] new b frame free(2) off by simp
  moreover have "b_start w = pgstart v + of_nat i * BLK_SIZE" using free(3) s1(1) by simp
  ultimately show ?thesis using s1(4) by auto
qed

theorem blk_free_roundtrip_witness:
  "\<exists>a s1 s2. blk_alloc 0x300 demo_blocks = Some (a, s1) \<and> free_blk (a + 0xabc) s1 = Some s2
    \<and> blks_ok s2 0x300 (map (blk_at 0x82301000) [4, 3])"
proof -
  have "pages_ok demo_blocks [] [0x300]"
    by (simp add: pages_ok_def dll_def demo_blocks_def zero_page_def zero_state_def)
  moreover have "blks_ok demo_blocks 0x300 (map (blk_at 0x82301000) [3, 4])"
    by (simp add: blks_ok_def demo_blocks_def zero_page_def blk_at_def init_blk_def)
  moreover have "links b_start (blk_heap demo_blocks) (blk_at 0x82301000 3) = Some 0x82303000"
    by (simp add: demo_blocks_def blk_at_def init_blk_def)
  ultimately show ?thesis
    using blk_free_roundtrip [OF _ _ demo_blocks_page, of "[]" "[0x300]" 3 4 "[]" "0xabc"]
    by (simp add: zero_page_def)
qed

text \<open>What \<open>page_list_init\<close> and \<open>kpage_blks_init\<close> build, and the parts of the state they touch.\<close>

definition no_mem :: "kstate \<Rightarrow> kstate" where
  "no_mem s = s\<lparr>page_list := [], page_heap := Map.empty, free_page_head := NULL, kpage := zero_page,
     blk_heap := Map.empty, kblk_list_base := NULL\<rparr>"

lemma kernel_memory_boot:
  assumes "0x82000000 \<le> unat (kernal_end s)" and "unat (kernal_end s) \<le> 0x82030000"
    and "length (page_list s) = 447" and "inuse_page_head s = NULL"
    and "first = (unat (KERN_PADDR s) + 0x8000 - 0x82000000) div 4096"
  shows "\<exists>s1 s2 base head m. page_list_init (kpage_struct_init s) = Some s1 \<and> kpage_blks_init j0 s1 = Some s2
    \<and> base = KERN_PADDR s + 0x2800 \<and> head = page_at base 447 \<and> m \<le> 3
    \<and> unat (KERN_PADDR s) = 0x82000000 + 65536 * m \<and> first = 16 * m + 8
    \<and> unat base = unat (KERN_PADDR s) + 0x2800 \<and> unat head = unat (KERN_PADDR s) + 29908
    \<and> unat (free_start (kpage s2)) = unat (KERN_PADDR s) + 0x8000
    \<and> pages_ok s2 (map (page_at base) [0..<446]) []
    \<and> (\<forall>i < 446. page_heap s2 (page_at base i) = Some (init_page base i))
    \<and> kblks_ok s2 (map (blk_at head) [first..<64]) \<and> kblk_array s2 \<and> kblk_list_base s2 = head
    \<and> no_mem s2 = no_mem s"
proof -
  let ?s = "kpage_struct_init s"
  define K where "K = unat (KERN_PADDR s)"
  have "unat (kernal_end s) + unat (0x10000 :: u32) \<le> 2 ^ 32" using assms(2) by simp
  then have b: "K < unat (kernal_end s) + 65536" "unat (kernal_end s) \<le> K" "K mod 65536 = 0"
    using ROUNDUP_bounds [of "0x10000" "kernal_end s"] by (simp_all add: KERN_PADDR_def K_def)
  obtain k where k: "K = 65536 * k" using b(3) by auto
  then have K: "0x82000000 \<le> K" "K \<le> 0x82030000" using b(1,2) assms(1,2) by simp_all
  define base where "base = KERN_PADDR s + 0x2800"
  have ub: "unat base = K + 0x2800"
    using unat_array [of "KERN_PADDR s" 1 "0x2800" 1] K by (simp add: base_def K_def)
  then have base: "base \<noteq> NULL" "unat base + 447 * 44 < 2 ^ 32" using K by auto
  have "free_start (kpage ?s) = base"
    by (simp add: kpage_struct_init_def page_num_cal_def ROUNDUP_def ROUNDDOWN_def base_def)
  then obtain s1 where s1: "page_list_init ?s = Some s1" "free_start (kpage s1) = page_at base 447"
    "pages_ok s1 (map (page_at base) [0..<446]) []" "\<forall>i < 446. page_heap s1 (page_at base i) = Some (init_page base i)"
    "s1 = ?s\<lparr>page_list := page_list s1, page_heap := page_heap s1, free_page_head := base,
             kpage := (kpage ?s)\<lparr>free_start := page_at base 447\<rparr>\<rparr>"
    using page_list_init_ok [of ?s base] base assms(3,4) by (auto simp: kpage_struct_init_def)
  define head where "head = page_at base 447"
  have uh: "unat head = K + 29908"
    using unat_array [of base 447 44 447] base(2) ub by (simp add: head_def page_at_def)
  then have hn: "head \<noteq> NULL" "unat head < 0x82040000" using K by auto
  have ps: "pgstart (kpage s1) = 0x82000000"
    by (subst s1(5)) (simp add: kpage_struct_init_def)
  define e where "e = ROUNDUP (blk_at head 64) KBLK_SIZE"
  have "unat (blk_at head 64) = K + 31700" using blk_at_unat [of head 64] uh K by simp
  then have "unat e = (65536 * k + 48083) div 16384 * 16384"
    using unat_ROUNDUP [of KBLK_SIZE "blk_at head 64"] K k by (simp add: e_def)
  also have "(65536 * k + 48083) div 16384 = 4 * k + 2" by simp
  finally have e: "unat e = K + 0x8000" using k by simp
  then have el: "0x82000000 \<le> unat e" "unat e < 0x82040000" using K by simp_all
  have "unat (e - 0x82000000) = unat e - 0x82000000"
    using el by (simp add: unat_sub word_le_nat_alt)
  then have idx: "unat (drop_bit 12 (e - 0x82000000)) = first"
    using e assms(5) by (simp add: unat_drop_bit_eq drop_bit_eq_div unat_div K_def)
  have kf: "K = 0x82000000 + 65536 * (k - 33280)" "first = 16 * (k - 33280) + 8" "k - 33280 \<le> 3"
    using k K assms(5) unfolding K_def [symmetric] by simp_all
  obtain s2 h where s2: "kpage_blks_init j0 s1 = Some s2" "kblks_ok s2 (map (blk_at head) [first..<64])"
    "\<forall>i < 64. links b_start (blk_heap s2) (blk_at head i) = Some (0x82000000 + of_nat i * KBLK_SIZE)"
    "s2 = s1\<lparr>blk_heap := h, kblk_list_base := head, kpage := (kpage s1)\<lparr>
         blk_list_head := blk_at head first, free_start := e\<rparr>\<rparr>"
    using kpage_blks_init_ok [OF s1(2) [folded head_def] hn(1) ps e_def el hn(2), of j0] unfolding idx by blast
  have arr: "kblk_array s2" using s2(3,4) hn by (simp add: kblk_array_def block_start_def)
  have "no_mem s2 = no_mem s1" by (simp add: s2(4) no_mem_def)
  also have "\<dots> = no_mem s" by (subst s1(5)) (simp add: no_mem_def kpage_struct_init_def)
  finally have nm: "no_mem s2 = no_mem s" .
  have pg: "pages_ok s2 (map (page_at base) [0..<446]) []" "\<forall>i < 446. page_heap s2 (page_at base i) = Some (init_page base i)"
    using s1(3,4) by (simp_all add: s2(4) pages_ok_def del: upt_rec_numeral)
  have fs: "unat (free_start (kpage s2)) = K + 0x8000" "kblk_list_base s2 = head" using e by (simp_all add: s2(4))
  show ?thesis
    unfolding K_def [symmetric]
    by (intro exI conjI) (rule s1(1) s2(1) base_def head_def kf(3) kf(1) kf(2) ub uh fs pg s2(2) arr nm)+
qed

lemma kblk_pool_boot:
  assumes "kblk_array s" and "kblks_ok s (map (blk_at (kblk_list_base s)) [k..<64])"
  shows "kblk_pool s (map (block_start 0x82000000 KBLK_SIZE) [k..<64]) []"
proof -
  have "distinct (map (block_start 0x82000000 KBLK_SIZE) [k..<64])"
    by (rule distinct_block_starts [where n = 64]) simp_all
  moreover have "map Some (map (block_start 0x82000000 KBLK_SIZE) [k..<64])
      = map (links b_start (blk_heap s)) (map (blk_at (kblk_list_base s)) [k..<64])"
    by (rule map_Some_blocks) (use assms(1) in \<open>simp add: kblk_array_def\<close>)
  ultimately show ?thesis using assms(2) unfolding kblk_pool_def by (metis append_Nil2)
qed

text \<open>
  C22: booted with the kernel image ending at or below 0x82030000, the kernel's 16 KB blocks
  handed out for page tables and queues follow each other up to the end of the kernel megabyte,
  start above the image, the boot page table and all descriptors, and are 64 minus four times the
  blocks that lie below, because the index of the first one is computed by shifting by 12 and not
  by 14. The last of them cannot be taken. The junk in the uninitialised loop variable does not
  matter.
\<close>

theorem kernel_blocks_boot:
  assumes "0x82000000 \<le> unat (kernal_end s)" and "unat (kernal_end s) \<le> 0x82030000"
    and "length (page_list s) = 447" and "inuse_page_head s = NULL"
    and "first = (unat (KERN_PADDR s) + 0x8000 - 0x82000000) div 4096"
  shows "\<exists>s1 s2. page_list_init (kpage_struct_init s) = Some s1 \<and> kpage_blks_init j0 s1 = Some s2
    \<and> kblk_array s2 \<and> first < 64
    \<and> (if n < 64 - first
       then \<exists>t. alloc_many (kblk_alloc purpose) n s2
              = Some (map (block_start 0x82000000 KBLK_SIZE) [first..<first + n], t)
       else alloc_many (kblk_alloc purpose) n s2 = None)
    \<and> (\<forall>i. first \<le> i \<and> i < 64 \<longrightarrow>
         unat (free_start (kpage s2)) \<le> unat (block_start 0x82000000 KBLK_SIZE i)
         \<and> unat (block_start 0x82000000 KBLK_SIZE i) + 0x4000 \<le> 0x82100000)"
proof -
  let ?st = "block_start 0x82000000 KBLK_SIZE"
  obtain s1 s2 base head m where s2: "page_list_init (kpage_struct_init s) = Some s1" "kpage_blks_init j0 s1 = Some s2"
    "m \<le> 3" "unat (KERN_PADDR s) = 0x82000000 + 65536 * m" "first = 16 * m + 8"
    "unat (free_start (kpage s2)) = unat (KERN_PADDR s) + 0x8000"
    "kblks_ok s2 (map (blk_at head) [first..<64])" "kblk_array s2" "kblk_list_base s2 = head"
    using kernel_memory_boot [OF assms, of j0] by blast
  have pool: "kblk_pool s2 (map ?st [first..<64]) []" using kblk_pool_boot [OF s2(8), of first] s2(7,9) by (simp del: upt_rec_numeral)
  have first: "first < 64" using s2(3,5) by simp
  then have ne: "map ?st [first..<64] \<noteq> []" by simp
  have "if n < 64 - first
       then \<exists>t. alloc_many (kblk_alloc purpose) n s2 = Some (map ?st [first..<first + n], t)
       else alloc_many (kblk_alloc purpose) n s2 = None"
    using kblks.alloc_many_prefix [OF pool, of n purpose] kblks.alloc_many_exhausted [OF pool ne, of n purpose]
      take_blocks [of first n 64 ?st] by auto
  moreover have "unat (free_start (kpage s2)) \<le> unat (?st i) \<and> unat (?st i) + 0x4000 \<le> 0x82100000"
    if "first \<le> i \<and> i < 64" for i
  proof -
    have "unat (?st i) = 0x82000000 + i * 16384"
      using unat_block_start [of "0x82000000" 64 KBLK_SIZE i] that by simp
    then show ?thesis using that s2(3-6) by simp
  qed
  ultimately show ?thesis using s2(1,2,8) first by blast
qed

theorem kernel_blocks_boot_witness:
  "\<exists>s1 s2. page_list_init (kpage_struct_init zero_state) = Some s1 \<and> kpage_blks_init 0xdeadbeef s1 = Some s2
    \<and> (\<exists>t. alloc_many (kblk_alloc FOR_KERN) 2 s2 = Some ([0x820a0000, 0x820a4000], t))
    \<and> unat (free_start (kpage s2)) \<le> 0x820a0000"
proof -
  let ?P = "\<lambda>s2. (if (2 :: nat) < 64 - 40
       then \<exists>t. alloc_many (kblk_alloc FOR_KERN) 2 s2
              = Some (map (block_start 0x82000000 KBLK_SIZE) [40..<40 + 2], t)
       else alloc_many (kblk_alloc FOR_KERN) 2 s2 = None)
    \<and> (\<forall>i. 40 \<le> i \<and> i < 64 \<longrightarrow>
         unat (free_start (kpage s2)) \<le> unat (block_start 0x82000000 KBLK_SIZE i)
         \<and> unat (block_start 0x82000000 KBLK_SIZE i) + 0x4000 \<le> 0x82100000)"
  have "40 = (unat (KERN_PADDR zero_state) + 0x8000 - 0x82000000) div 4096"
    by (simp add: KERN_PADDR_def ROUNDUP_def ROUNDDOWN_def zero_state_def)
  then obtain s1 s2 where r: "page_list_init (kpage_struct_init zero_state) = Some s1"
    "kpage_blks_init 0xdeadbeef s1 = Some s2" "?P s2"
    using kernel_blocks_boot [of zero_state 40 "0xdeadbeef" 2 FOR_KERN] by (auto simp: zero_state_def)
  then have "unat (free_start (kpage s2)) \<le> unat (block_start 0x82000000 KBLK_SIZE 40)" by simp
  with r show ?thesis by (auto simp: block_start_def)
qed

text \<open>
  C32: a 16 KB kernel block that is allocated and then released through \<open>free_pgt\<close> becomes FREE
  again and goes to the end of the kernel's free list; \<open>free_pgt\<close> finds its descriptor although
  the search runs over four times as many entries as there are.
\<close>

theorem kblk_roundtrip:
  assumes "kblks_ok s (map (blk_at (kblk_list_base s)) (i # j # is))" and "kblk_array s" and "i < 64"
  shows "\<exists>s1 s2. kblk_alloc purpose s = Some (block_start 0x82000000 KBLK_SIZE i, s1)
    \<and> free_pgt (block_start 0x82000000 KBLK_SIZE i) s1 = Some s2
    \<and> kblks_ok s2 (map (blk_at (kblk_list_base s)) (j # is @ [i])) \<and> kblk_array s2
    \<and> links b_status (blk_heap s2) (blk_at (kblk_list_base s) i) = Some FREE"
proof -
  let ?at = "blk_at (kblk_list_base s)"
  have bl: "kblks_ok s (?at i # ?at j # map ?at is)" using assms(1) by simp
  obtain w x s1 where s1: "blk_heap s (?at i) = Some w" "blk_heap s (?at j) = Some x"
    "s1 = s\<lparr>kpage := (kpage s)\<lparr>blk_list_head := ?at j\<rparr>,
             blk_heap := (blk_heap s)(?at j \<mapsto> x\<lparr>b_prev := NULL\<rparr>,
                ?at i \<mapsto> w\<lparr>b_next := NULL, b_prev := NULL, b_status := purpose\<rparr>)\<rparr>"
    "kblk_alloc purpose s = Some (b_start w, s1)" "kblks_ok s1 (?at j # map ?at is)"
    using kblk_alloc_ok [OF bl] by blast
  have "distinct (?at i # ?at j # map ?at is)"
    using bl unfolding kblks_ok_def by (rule chain_distinct)
  then have new: "?at i \<notin> set (?at j # map ?at is)" by simp
  have "links b_start ((blk_heap s)(?at j \<mapsto> x\<lparr>b_prev := NULL\<rparr>)) = links b_start (blk_heap s)"
    using s1(2) by (intro links_upd_other) auto
  then have "links b_start (blk_heap s1) = links b_start (blk_heap s)"
    using s1(1-3) new by (auto simp: links_upd_other)
  then have arr: "kblk_array s1" using assms(2) s1(3) by (simp add: kblk_array_def)
  have base: "kblk_list_base s1 = kblk_list_base s" using s1(3) by simp
  have "b_start w = block_start 0x82000000 KBLK_SIZE i"
    using kblk_array_at(2) [OF assms(2,3)] s1(1) by auto
  then show ?thesis
    using s1(4) kblk_free_ok [OF s1(5) _ arr assms(3)] new base by (auto simp: free_pgt_def)
qed

definition demo_kpage :: kstate where
  "demo_kpage = zero_state\<lparr>kpage := zero_page\<lparr>pgstart := 0x82000000, free_start := 0x82027400\<rparr>\<rparr>"

lemma demo_kpage_boot:
  "\<exists>s0 h. kpage_blks_init 0 demo_kpage = Some s0 \<and> kblks_ok s0 (map (blk_at 0x82027400) [40..<64]) \<and> kblk_array s0
    \<and> s0 = demo_kpage\<lparr>blk_heap := h, kblk_list_base := 0x82027400, kpage := (kpage demo_kpage)\<lparr>
         blk_list_head := blk_at 0x82027400 40, free_start := 0x82028000\<rparr>\<rparr>"
proof -
  have e: "ROUNDUP (blk_at 0x82027400 64) KBLK_SIZE = 0x82028000"
    by (simp add: blk_at_def ROUNDUP_def ROUNDDOWN_def)
  have i: "unat (drop_bit 12 (0x82028000 - 0x82000000 :: u32)) = 40"
    by (simp add: unat_drop_bit_eq drop_bit_eq_div)
  obtain s0 h where s0: "kpage_blks_init 0 demo_kpage = Some s0"
    "kblks_ok s0 (map (blk_at 0x82027400) [40..<64])"
    "\<forall>k < 64. links b_start (blk_heap s0) (blk_at 0x82027400 k) = Some (0x82000000 + of_nat k * KBLK_SIZE)"
    "s0 = demo_kpage\<lparr>blk_heap := h, kblk_list_base := 0x82027400, kpage := (kpage demo_kpage)\<lparr>
         blk_list_head := blk_at 0x82027400 40, free_start := 0x82028000\<rparr>\<rparr>"
    using kpage_blks_init_ok [of demo_kpage "0x82027400" "0x82028000" 0] e
    unfolding i by (auto simp: demo_kpage_def simp del: upt_rec_numeral)
  have "kblk_list_base s0 = 0x82027400" by (simp add: s0(4))
  then have "kblk_array s0" using s0(3) by (simp add: kblk_array_def block_start_def)
  then show ?thesis using s0(1,2,4) by blast
qed

theorem kblk_roundtrip_witness:
  "\<exists>s0 s1 s2. kpage_blks_init 0 demo_kpage = Some s0 \<and> kblk_alloc FOR_QUEUE s0 = Some (0x820a0000, s1)
    \<and> free_pgt 0x820a0000 s1 = Some s2 \<and> kblks_ok s2 (map (blk_at 0x82027400) (41 # [42..<64] @ [40]))"
proof -
  obtain s0 h where s0: "kpage_blks_init 0 demo_kpage = Some s0" "kblks_ok s0 (map (blk_at 0x82027400) [40..<64])" "kblk_array s0"
    "s0 = demo_kpage\<lparr>blk_heap := h, kblk_list_base := 0x82027400, kpage := (kpage demo_kpage)\<lparr>
         blk_list_head := blk_at 0x82027400 40, free_start := 0x82028000\<rparr>\<rparr>"
    using demo_kpage_boot by blast
  have b: "kblk_list_base s0 = 0x82027400" by (simp add: s0(4))
  have up: "[40..<64] = 40 # 41 # [42..<64 :: nat]"
    by (simp add: upt_conv_Cons del: upt_rec_numeral)
  show ?thesis
    using kblk_roundtrip [of s0 40 41 "[42..<64]" FOR_QUEUE] s0(1-3) b
    unfolding up by (auto simp: block_start_def simp del: upt_rec_numeral)
qed

end
