(* ===== verification/Ram.thy ===== *)
theory Ram
  imports Blocks
begin

text \<open>
  Byte access to RAM and the routines of \<^verbatim>\<open>src/src/klib/mem.c\<close>.
  RAM that no struct occupies is the map \<open>bytes\<close>; \<open>load8\<close> and \<open>store8\<close> are
  \<^verbatim>\<open>*p\<close> and \<^verbatim>\<open>*p = v\<close> for a \<^verbatim>\<open>uint8_t *\<close>, faults at \<open>NULL\<close>.
  The lemmas say what a filled or copied range reads as, and that the rest is unchanged.
\<close>

definition load8 :: "addr \<Rightarrow> kstate \<Rightarrow> u8 option" where
  "load8 a s = (if a = NULL then None else Some (bytes s a))"

definition store8 :: "addr \<Rightarrow> u8 \<Rightarrow> kstate \<Rightarrow> kstate option" where
  "store8 a v s = (if a = NULL then None else Some (s\<lparr>bytes := (bytes s)(a := v)\<rparr>))"

definition mem_set :: "addr \<Rightarrow> u8 \<Rightarrow> u32 \<Rightarrow> kstate \<Rightarrow> kstate option" where
  "mem_set start value SizeofBytes s =
     for_each (\<lambda>i. store8 (start + of_nat i) value) [0..<unat SizeofBytes] s"

definition mem_cpy :: "addr \<Rightarrow> addr \<Rightarrow> u32 \<Rightarrow> kstate \<Rightarrow> kstate option" where
  "mem_cpy dest src nbytes s =
     for_each (\<lambda>i s. do { b \<leftarrow> load8 (src + of_nat i) s; store8 (dest + of_nat i) b s })
       [0..<unat nbytes] s"

definition showmm :: "addr \<Rightarrow> u32 \<Rightarrow> kstate \<Rightarrow> kstate option" where
  "showmm start SizeofBytes s = do {
     s \<leftarrow> printk (cstr (crlf @ ''Show memory content:'')) [] s;
     for_each (\<lambda>i s. do {
         let p = start + of_nat i;
         s \<leftarrow> (if i mod 4 = 0 then do {
               s \<leftarrow> printk (cstr crlf) [] s;
               printk (cstr ''%x : '') [p] s
             } else Some s);
         b \<leftarrow> load8 p s;
         printk (cstr ''%x  '') [ucast b] s
       }) [0..<unat SizeofBytes] s
   }"

definition bss_init :: "addr \<Rightarrow> addr \<Rightarrow> kstate \<Rightarrow> kstate option" where
  "bss_init kernal_sbss kernal_ebss s = mem_set kernal_sbss 0 (kernal_ebss - kernal_sbss) s"

section \<open>Ranges\<close>

definition in_range :: "addr \<Rightarrow> nat \<Rightarrow> addr \<Rightarrow> bool" where
  "in_range start n a \<longleftrightarrow> unat start \<le> unat a \<and> unat a < unat start + n"

text \<open>A range that does not start at NULL and does not wrap.\<close>

definition valid_range :: "addr \<Rightarrow> nat \<Rightarrow> bool" where
  "valid_range start n \<longleftrightarrow> start \<noteq> NULL \<and> unat start + n \<le> 2 ^ 32"

lemma unat_plus_range:
  fixes start :: addr
  assumes "unat start + n \<le> 2 ^ 32" and "i < n"
  shows "unat (start + of_nat i) = unat start + i"
  using unat_array [of start i 1 i] assms by simp

lemma valid_range_at:
  assumes "valid_range start n" and "i < n"
  shows "start + of_nat i \<noteq> NULL" and "unat (start + of_nat i) = unat start + i"
    and "in_range start n (start + of_nat i)"
proof -
  show u: "unat (start + of_nat i) = unat start + i"
    using unat_plus_range [of start n i] assms by (simp add: valid_range_def)
  show "in_range start n (start + of_nat i)" using u assms(2) by (simp add: in_range_def)
  show "start + of_nat i \<noteq> NULL"
  proof
    assume "start + of_nat i = NULL"
    then have "unat start = 0" using u by simp
    then show False using assms(1) by (simp add: valid_range_def unat_eq_zero)
  qed
qed

lemma range_at_inj:
  assumes "valid_range start n" and "i < n" and "j < n"
  shows "start + of_nat i = start + of_nat j \<longleftrightarrow> i = j"
  using valid_range_at(2) [OF assms(1,2)] valid_range_at(2) [OF assms(1,3)]
  by (metis add_left_cancel)

lemma in_rangeE:
  assumes "in_range start n a" and "valid_range start n"
  obtains i where "i < n" and "a = start + of_nat i"
proof
  let ?i = "unat a - unat start"
  show i: "?i < n" using assms(1) by (auto simp: in_range_def)
  have "unat (start + of_nat ?i) = unat a"
    using valid_range_at(2) [OF assms(2) i] assms(1) by (simp add: in_range_def)
  then show "a = start + of_nat ?i" by (metis unsigned_word_eqI)
qed

section \<open>Filling and copying\<close>

lemma fill_loop:
  assumes "valid_range start n" and "k \<le> n"
  shows "\<exists>m. for_each (\<lambda>i. store8 (start + of_nat i) (f i)) [0..<k] s = Some (s\<lparr>bytes := m\<rparr>)
    \<and> (\<forall>i < k. m (start + of_nat i) = f i) \<and> (\<forall>a. \<not> in_range start n a \<longrightarrow> m a = bytes s a)"
  using assms(2)
proof (induction k)
  case 0
  show ?case by (rule exI [of _ "bytes s"]) simp
next
  case (Suc k)
  then obtain m where m: "for_each (\<lambda>i. store8 (start + of_nat i) (f i)) [0..<k] s = Some (s\<lparr>bytes := m\<rparr>)"
    "\<forall>i < k. m (start + of_nat i) = f i" "\<forall>a. \<not> in_range start n a \<longrightarrow> m a = bytes s a" by auto
  have k: "k < n" using Suc.prems by simp
  note at = valid_range_at [OF assms(1) k] range_at_inj [OF assms(1) _ k]
  have "for_each (\<lambda>i. store8 (start + of_nat i) (f i)) [0..<Suc k] s
      = Some (s\<lparr>bytes := m(start + of_nat k := f k)\<rparr>)"
    using m(1) at(1) by (simp add: for_each_append store8_def)
  moreover have "\<forall>i < Suc k. (m(start + of_nat k := f k)) (start + of_nat i) = f i"
    using m(2) at(4) k by (auto simp: less_Suc_eq)
  moreover have "\<forall>a. \<not> in_range start n a \<longrightarrow> (m(start + of_nat k := f k)) a = bytes s a"
    using m(3) at(3) by auto
  ultimately show ?case by blast
qed

lemma mem_set_ok:
  assumes "valid_range start (unat n)"
  shows "\<exists>m. mem_set start v n s = Some (s\<lparr>bytes := m\<rparr>)
    \<and> (\<forall>i < unat n. m (start + of_nat i) = v) \<and> (\<forall>a. \<not> in_range start (unat n) a \<longrightarrow> m a = bytes s a)"
  using fill_loop [OF assms order_refl, of "\<lambda>_. v" s] by (simp add: mem_set_def)

lemma mem_cpy_ok:
  assumes d: "valid_range dest (unat n)" and r: "valid_range src (unat n)"
    and disj: "\<And>a. in_range dest (unat n) a \<Longrightarrow> \<not> in_range src (unat n) a"
  shows "\<exists>m. mem_cpy dest src n s = Some (s\<lparr>bytes := m\<rparr>)
    \<and> (\<forall>i < unat n. m (dest + of_nat i) = bytes s (src + of_nat i))
    \<and> (\<forall>a. \<not> in_range dest (unat n) a \<longrightarrow> m a = bytes s a)"
proof -
  let ?I = "\<lambda>k t. \<exists>m. t = s\<lparr>bytes := m\<rparr> \<and> (\<forall>i < k. m (dest + of_nat i) = bytes s (src + of_nat i))
    \<and> (\<forall>a. \<not> in_range dest (unat n) a \<longrightarrow> m a = bytes s a)"
  let ?body = "\<lambda>i s. do { b \<leftarrow> load8 (src + of_nat i) s; store8 (dest + of_nat i) b s }"
  have base: "?I 0 s" by (rule exI [of _ "bytes s"]) simp
  have step: "\<exists>t'. ?body k t = Some t' \<and> ?I (Suc k) t'" if k: "k < unat n" and "?I k t" for k t
  proof -
    obtain m where m: "t = s\<lparr>bytes := m\<rparr>" "\<forall>i < k. m (dest + of_nat i) = bytes s (src + of_nat i)"
      "\<forall>a. \<not> in_range dest (unat n) a \<longrightarrow> m a = bytes s a" using \<open>?I k t\<close> by blast
    note at = valid_range_at [OF d k] valid_range_at [OF r k] range_at_inj [OF d _ k]
    define m' where "m' = m(dest + of_nat k := m (src + of_nat k))"
    have "m (src + of_nat k) = bytes s (src + of_nat k)" using m(3) at(6) disj by blast
    then have "\<forall>i < Suc k. m' (dest + of_nat i) = bytes s (src + of_nat i)"
      using m(2) at(7) k by (auto simp: less_Suc_eq m'_def)
    moreover have "\<forall>a. \<not> in_range dest (unat n) a \<longrightarrow> m' a = bytes s a"
      using m(3) at(3) by (auto simp: m'_def)
    moreover have "?body k t = Some (s\<lparr>bytes := m'\<rparr>)"
      using m(1) at(1,4) by (simp add: load8_def store8_def m'_def)
    ultimately show ?thesis by blast
  qed
  show ?thesis
    using for_each_upt [of ?I s "unat n" ?body] base step unfolding mem_cpy_def by blast
qed

end
