(* ===== verification/CString.thy ===== *)
theory CString
  imports Ram
begin

text \<open>
  The string library, \<^verbatim>\<open>src/src/klib/string.c\<close>.
  A \<^verbatim>\<open>char *\<close> is either an address in RAM or a pointer to the cells of a name buffer or
  literal; reading past the cells is a fault.
  \<open>str_at p t s\<close> says that \<open>p\<close> points to the NUL-terminated text \<open>t\<close>.
  The loops over \<^verbatim>\<open>s++\<close> keep the offset from the pointer they start with.
\<close>

section \<open>Character access\<close>

datatype cptr = Ram addr | Cells "char list"

definition byte_of :: "char \<Rightarrow> u8" where
  "byte_of c = of_nat (of_char c)"

definition of_byte :: "u8 \<Rightarrow> char" where
  "of_byte b = char_of (unat b)"

fun getc :: "cptr \<Rightarrow> nat \<Rightarrow> kstate \<Rightarrow> char option" where
  "getc (Ram a) i s = map_option of_byte (load8 (a + of_nat i) s)"
| "getc (Cells cs) i s = (if i < length cs then Some (cs ! i) else None)"

section \<open>The functions\<close>

partial_function (option) str_len_from :: "cptr \<Rightarrow> nat \<Rightarrow> kstate \<Rightarrow> nat option" where
  "str_len_from p i s = do {
     c \<leftarrow> getc p i s;
     if c \<noteq> NUL then str_len_from p (i + 1) s else Some i
   }"

definition str_len :: "cptr \<Rightarrow> kstate \<Rightarrow> nat option" where
  "str_len p s = str_len_from p 0 s"

text \<open>
  Inside \<^verbatim>\<open>while (*s == *b)\<close> the tests for one of the two characters being NUL and the other
  not never hold, so two of the three branches of \<^verbatim>\<open>_strcmp\<close> are dead.
\<close>

partial_function (option) str_cmp_from :: "cptr \<Rightarrow> cptr \<Rightarrow> nat \<Rightarrow> kstate \<Rightarrow> int option" where
  "str_cmp_from p q i s = do {
     a \<leftarrow> getc p i s;
     b \<leftarrow> getc q i s;
     if a = b then (if a = NUL \<and> b = NUL then Some 0 else str_cmp_from p q (i + 1) s)
     else Some 1
   }"

definition str_cmp :: "cptr \<Rightarrow> cptr \<Rightarrow> kstate \<Rightarrow> int option" where
  "str_cmp p q s = str_cmp_from p q 0 s"

partial_function (option) str_copy_from :: "addr \<Rightarrow> cptr \<Rightarrow> nat \<Rightarrow> kstate \<Rightarrow> kstate option" where
  "str_copy_from d p i s = do {
     c \<leftarrow> getc p i s;
     if c \<noteq> NUL then do {
       s \<leftarrow> store8 (d + of_nat i) (byte_of c) s;
       str_copy_from d p (i + 1) s
     } else store8 (d + of_nat i) 0 s
   }"

definition str_cpy :: "addr \<Rightarrow> cptr \<Rightarrow> kstate \<Rightarrow> kstate option" where
  "str_cpy dest src s = str_copy_from dest src 0 s"

definition str_cat :: "addr \<Rightarrow> cptr \<Rightarrow> kstate \<Rightarrow> kstate option" where
  "str_cat dest src s = do {
     n \<leftarrow> str_len (Ram dest) s;
     str_copy_from (dest + of_nat n) src 0 s
   }"

definition str_ncpy :: "addr \<Rightarrow> cptr \<Rightarrow> nat \<Rightarrow> kstate \<Rightarrow> kstate option" where
  "str_ncpy dest src count s = do {
     s \<leftarrow> for_each (\<lambda>i s. do { c \<leftarrow> getc src i s; store8 (dest + of_nat i) (byte_of c) s }) [0..<count] s;
     store8 (dest + of_nat count) 0 s
   }"

text \<open>
  \<^verbatim>\<open>sbuf\<close> is a local array, so its contents after \<^verbatim>\<open>_strncpy(sbuf, s, delim_sz)\<close> are a list:
  the \<open>delim_sz\<close> characters at offset \<open>i\<close> and a NUL. They are read even past a terminator.
\<close>

fun read_n :: "cptr \<Rightarrow> nat \<Rightarrow> nat \<Rightarrow> kstate \<Rightarrow> char list option" where
  "read_n p i 0 s = Some []"
| "read_n p i (Suc n) s = do {
     c \<leftarrow> getc p i s;
     cs \<leftarrow> read_n p (i + 1) n s;
     Some (c # cs)
   }"

partial_function (option) strtok_loop :: "cptr \<Rightarrow> cptr \<Rightarrow> nat \<Rightarrow> nat \<Rightarrow> kstate \<Rightarrow> nat option" where
  "strtok_loop p delim delim_sz i s = do {
     sbuf \<leftarrow> read_n p i delim_sz s;
     r \<leftarrow> str_cmp (Cells (sbuf @ [NUL])) delim s;
     if r \<noteq> 0 then do {
       c \<leftarrow> getc p (i + 1) s;
       if c = NUL then Some (i + 1) else strtok_loop p delim delim_sz (i + 1) s
     } else Some i
   }"

definition strtok_fst :: "addr \<Rightarrow> cptr \<Rightarrow> nat \<Rightarrow> addr \<Rightarrow> kstate \<Rightarrow> (addr \<times> kstate) option" where
  "strtok_fst start delim delim_sz token s = do {
     n \<leftarrow> strtok_loop (Ram start) delim delim_sz 0 s;
     s \<leftarrow> str_ncpy token (Ram start) n s;
     c \<leftarrow> getc (Ram start) n s;
     if c \<noteq> NUL then Some (start + of_nat (n + delim_sz), s) else Some (NULL, s)
   }"

declare str_len_from.simps [code] str_cmp_from.simps [code] str_copy_from.simps [code]
  strtok_loop.simps [code]

section \<open>Texts\<close>

definition str_at :: "cptr \<Rightarrow> char list \<Rightarrow> kstate \<Rightarrow> bool" where
  "str_at p t s \<longleftrightarrow> NUL \<notin> set t \<and> (\<forall>i \<le> length t. getc p i s = Some ((t @ [NUL]) ! i))"

lemma str_at_get:
  "str_at p t s \<Longrightarrow> i < length t \<Longrightarrow> getc p i s = Some (t ! i) \<and> t ! i \<noteq> NUL"
  "str_at p t s \<Longrightarrow> getc p (length t) s = Some NUL"
  unfolding str_at_def by (metis less_imp_le nth_append nth_mem) (metis le_refl nth_append_length)

lemma str_at_Cells: "str_at (Cells (t @ NUL # r)) t s \<longleftrightarrow> NUL \<notin> set t"
  by (auto simp: str_at_def nth_append)

lemma str_at_cstr [simp]: "str_at (Cells (cstr t)) t s \<longleftrightarrow> NUL \<notin> set t"
  by (simp add: cstr_def str_at_Cells)

lemma byte_roundtrip [simp]: "of_byte (byte_of c) = c"
proof -
  have "(of_char c :: nat) < 256" by (simp add: of_char_def)
  then show ?thesis by (simp add: of_byte_def byte_of_def unat_of_nat)
qed

lemma of_byte_0 [simp]: "of_byte 0 = NUL"
  by (simp add: of_byte_def char_of_def)

lemma str_len_ok:
  assumes "str_at p t s"
  shows "str_len p s = Some (length t)"
proof -
  have "i \<le> length t \<Longrightarrow> str_len_from p i s = Some (length t)" for i
  proof (induction "length t - i" arbitrary: i)
    case 0
    then show ?case using str_at_get(2) [OF assms] by (simp add: str_len_from.simps [of p i])
  next
    case (Suc n)
    then show ?case
      using str_at_get(1) [OF assms, of i] by (simp add: str_len_from.simps [of p i])
  qed
  then show ?thesis by (simp add: str_len_def)
qed

lemma str_at_unique:
  assumes "str_at p t s" and "str_at p u s"
  shows "t = u"
proof -
  have "length t = length u" using str_len_ok [OF assms(1)] str_len_ok [OF assms(2)] by simp
  then show ?thesis using str_at_get(1) [OF assms(1)] str_at_get(1) [OF assms(2)]
    by (intro nth_equalityI) fastforce+
qed

lemma str_cmp_differ:
  assumes p: "str_at p t s" and q: "str_at q u s" and ne: "t \<noteq> u"
  shows "i \<le> length t \<Longrightarrow> i \<le> length u \<Longrightarrow> take i t = take i u \<Longrightarrow> str_cmp_from p q i s = Some 1"
proof (induction "length t - i" arbitrary: i rule: less_induct)
  case less
  have g: "getc p i s = Some ((t @ [NUL]) ! i)" "getc q i s = Some ((u @ [NUL]) ! i)"
    using p q less.prems by (simp_all add: str_at_def)
  show ?case
  proof (cases "(t @ [NUL]) ! i = (u @ [NUL]) ! i")
    case False
    then show ?thesis using g by (simp add: str_cmp_from.simps [of p q i])
  next
    case True
    have lt: "i < length t"
    proof (rule ccontr)
      assume "\<not> i < length t"
      then have i: "i = length t" using less.prems by simp
      then have "(u @ [NUL]) ! i = NUL" using True by simp
      then have "\<not> i < length u" using str_at_get(1) [OF q, of i] by (auto simp: nth_append)
      then have "i = length u" using less.prems(2) by simp
      then show False using less.prems(3) i ne by simp
    qed
    then have nn: "t ! i \<noteq> NUL" using str_at_get(1) [OF p] by blast
    then have lu: "i < length u"
      using True lt less.prems(2) by (auto simp: nth_append split: if_splits)
    have "take (Suc i) t = take (Suc i) u"
      using less.prems(3) True lt lu by (simp add: take_Suc_conv_app_nth nth_append)
    then have "str_cmp_from p q (Suc i) s = Some 1" using less.hyps [of "Suc i"] lt lu by simp
    then show ?thesis using g True nn lt by (simp add: str_cmp_from.simps [of p q i] nth_append)
  qed
qed

lemma str_cmp_same:
  assumes p: "str_at p t s" and q: "str_at q t s"
  shows "i \<le> length t \<Longrightarrow> str_cmp_from p q i s = Some 0"
proof (induction "length t - i" arbitrary: i)
  case 0
  then show ?case
    using str_at_get(2) [OF p] str_at_get(2) [OF q] by (simp add: str_cmp_from.simps [of p q i])
next
  case (Suc n)
  then show ?case
    using str_at_get(1) [OF p, of i] str_at_get(1) [OF q, of i] by (simp add: str_cmp_from.simps [of p q i])
qed

lemma str_cmp_ok:
  assumes "str_at p t s" and "str_at q u s"
  shows "str_cmp p q s = Some (if t = u then 0 else 1)"
  using str_cmp_same [of p t s q 0] str_cmp_differ [OF assms, of 0] assms by (auto simp: str_cmp_def)

section \<open>Writing strings\<close>

text \<open>The texts that survive a write: those whose characters lie outside the written range.\<close>

fun outside :: "cptr \<Rightarrow> nat \<Rightarrow> addr \<Rightarrow> nat \<Rightarrow> bool" where
  "outside (Ram a) n d m \<longleftrightarrow> (\<forall>i < n. \<not> in_range d m (a + of_nat i))"
| "outside (Cells cs) n d m \<longleftrightarrow> True"

lemma getc_frame:
  assumes "outside p n d m" and "\<forall>a. \<not> in_range d m a \<longrightarrow> bytes s' a = bytes s a" and "i < n"
  shows "getc p i s' = getc p i s"
  using assms by (cases p) (auto simp: load8_def)

lemma str_at_frame:
  assumes "str_at p t s" and "outside p (Suc (length t)) d m"
    and "\<forall>a. \<not> in_range d m a \<longrightarrow> bytes s' a = bytes s a"
  shows "str_at p t s'"
  using assms getc_frame [OF assms(2,3)] by (simp add: str_at_def less_Suc_eq_le)

lemma str_at_Ram:
  assumes "valid_range d (Suc (length t))"
  shows "str_at (Ram d) t s \<longleftrightarrow> NUL \<notin> set t \<and> (\<forall>i < length t. of_byte (bytes s (d + of_nat i)) = t ! i)
    \<and> of_byte (bytes s (d + of_nat (length t))) = NUL"
  using valid_range_at(1) [OF assms]
  by (auto simp: str_at_def load8_def nth_append less_Suc_eq_le le_less)

text \<open>The first \<open>i\<close> cells hold the text; nothing outside the destination has changed.\<close>

definition copied :: "addr \<Rightarrow> char list \<Rightarrow> nat \<Rightarrow> kstate \<Rightarrow> (addr \<Rightarrow> u8) \<Rightarrow> bool" where
  "copied d t i s m \<longleftrightarrow> (\<forall>j < i. m (d + of_nat j) = byte_of (t ! j))
     \<and> (\<forall>a. \<not> in_range d (Suc (length t)) a \<longrightarrow> m a = bytes s a)"

lemma copied_upd:
  assumes d: "valid_range d (Suc (length t))" and i: "i \<le> length t" and m: "copied d t i s m"
    and v: "i < length t \<Longrightarrow> v = byte_of (t ! i)"
  shows "copied d t i s (m(d + of_nat i := v))" and "i < length t \<Longrightarrow> copied d t (Suc i) s (m(d + of_nat i := v))"
proof -
  have "i < Suc (length t)" using i by simp
  note at = valid_range_at [OF d this] range_at_inj [OF d _ this]
  have ne: "d + of_nat j \<noteq> d + of_nat i" if "j < i" for j using at(4) [of j] that i by simp
  show "copied d t i s (m(d + of_nat i := v))"
    using m ne at(3) unfolding copied_def by (metis fun_upd_apply)
  then show "i < length t \<Longrightarrow> copied d t (Suc i) s (m(d + of_nat i := v))"
    using v by (auto simp: copied_def less_Suc_eq)
qed

lemma copy_loop:
  assumes src: "str_at p t s" and d: "valid_range d (Suc (length t))"
    and out: "outside p (Suc (length t)) d (Suc (length t))"
    and "i \<le> length t" and "copied d t i s m"
  shows "\<exists>m'. str_copy_from d p i (s\<lparr>bytes := m\<rparr>) = Some (s\<lparr>bytes := m'\<rparr>)
      \<and> copied d t (length t) s m' \<and> m' (d + of_nat (length t)) = 0"
  using assms(4,5)
proof (induction "length t - i" arbitrary: i m)
  case 0
  then have i: "i = length t" by simp
  have fr: "\<forall>a. \<not> in_range d (Suc (length t)) a \<longrightarrow> bytes (s\<lparr>bytes := m\<rparr>) a = bytes s a"
    using 0 by (simp add: copied_def)
  have "getc p i (s\<lparr>bytes := m\<rparr>) = Some NUL"
    using getc_frame [OF out fr, of i] str_at_get(2) [OF src] i by simp
  then have "str_copy_from d p i (s\<lparr>bytes := m\<rparr>) = Some (s\<lparr>bytes := m(d + of_nat i := 0)\<rparr>)"
    using valid_range_at(1) [OF d, of i] i by (subst str_copy_from.simps) (simp add: store8_def)
  moreover have "copied d t i s (m(d + of_nat i := 0))" using copied_upd(1) [OF d 0(2,3), of 0] i by simp
  ultimately show ?case using i by auto
next
  case (Suc k)
  then have i: "i < length t" by simp
  have fr: "\<forall>a. \<not> in_range d (Suc (length t)) a \<longrightarrow> bytes (s\<lparr>bytes := m\<rparr>) a = bytes s a"
    using Suc by (simp add: copied_def)
  have "getc p i (s\<lparr>bytes := m\<rparr>) = Some (t ! i)" "t ! i \<noteq> NUL"
    using getc_frame [OF out fr, of i] str_at_get(1) [OF src i] i by simp_all
  then have run: "str_copy_from d p i (s\<lparr>bytes := m\<rparr>)
      = str_copy_from d p (Suc i) (s\<lparr>bytes := m(d + of_nat i := byte_of (t ! i))\<rparr>)"
    using valid_range_at(1) [OF d, of i] i
    by (subst str_copy_from.simps) (simp add: store8_def)
  have "copied d t (Suc i) s (m(d + of_nat i := byte_of (t ! i)))"
    using copied_upd(2) [OF d Suc.prems] i by simp
  then show ?case unfolding run using Suc.hyps i by simp
qed

lemma str_copy_ok:
  assumes src: "str_at p t s" and d: "valid_range d (Suc (length t))"
    and out: "outside p (Suc (length t)) d (Suc (length t))"
  shows "\<exists>m. str_copy_from d p 0 s = Some (s\<lparr>bytes := m\<rparr>) \<and> str_at (Ram d) t (s\<lparr>bytes := m\<rparr>)
    \<and> (\<forall>a. \<not> in_range d (Suc (length t)) a \<longrightarrow> m a = bytes s a)"
proof -
  have "copied d t 0 s (bytes s)" by (simp add: copied_def)
  then obtain m where m: "str_copy_from d p 0 s = Some (s\<lparr>bytes := m\<rparr>)"
    "copied d t (length t) s m" "m (d + of_nat (length t)) = 0"
    using copy_loop [OF src d out, of 0 "bytes s"] by auto
  have "NUL \<notin> set t" using src by (simp add: str_at_def)
  then have "str_at (Ram d) t (s\<lparr>bytes := m\<rparr>)"
    using m(2,3) by (simp add: str_at_Ram [OF d] copied_def)
  then show ?thesis using m(1,2) by (auto simp: copied_def)
qed

lemma add_of_nat_range:
  "valid_range d (n + m) \<Longrightarrow> 0 < m \<Longrightarrow> valid_range (d + of_nat n) m"
  using valid_range_at(1,2) [of d "n + m" n] by (simp add: valid_range_def)

lemma str_cat_ok:
  assumes d: "str_at (Ram d) t s" and p: "str_at p u s"
    and v: "valid_range d (length t + Suc (length u))"
    and out: "outside p (Suc (length u)) (d + of_nat (length t)) (Suc (length u))"
  shows "\<exists>m. str_cat d p s = Some (s\<lparr>bytes := m\<rparr>) \<and> str_at (Ram d) (t @ u) (s\<lparr>bytes := m\<rparr>)
    \<and> (\<forall>a. \<not> in_range (d + of_nat (length t)) (Suc (length u)) a \<longrightarrow> m a = bytes s a)"
proof -
  let ?d = "d + of_nat (length t)"
  have vd: "valid_range ?d (Suc (length u))" using add_of_nat_range [OF v] by simp
  obtain m where m: "str_copy_from ?d p 0 s = Some (s\<lparr>bytes := m\<rparr>)" "str_at (Ram ?d) u (s\<lparr>bytes := m\<rparr>)"
    "\<forall>a. \<not> in_range ?d (Suc (length u)) a \<longrightarrow> m a = bytes s a"
    using str_copy_ok [OF p vd out] by blast
  have "str_cat d p s = Some (s\<lparr>bytes := m\<rparr>)" using str_len_ok [OF d] m(1) by (simp add: str_cat_def)
  moreover have "str_at (Ram d) (t @ u) (s\<lparr>bytes := m\<rparr>)"
    unfolding str_at_def
  proof (intro conjI allI impI)
    show "NUL \<notin> set (t @ u)" using d p by (auto simp: str_at_def)
    fix i assume i: "i \<le> length (t @ u)"
    show "getc (Ram d) i (s\<lparr>bytes := m\<rparr>) = Some (((t @ u) @ [NUL]) ! i)"
    proof (cases "i < length t")
      case True
      have "unat (d + of_nat i) = unat d + i" "unat ?d = unat d + length t"
        using valid_range_at(2) [OF v, of i] valid_range_at(2) [OF v, of "length t"] True by simp_all
      then have "\<not> in_range ?d (Suc (length u)) (d + of_nat i)" using True by (simp add: in_range_def)
      then show ?thesis
        using str_at_get(1) [OF d True] m(3) True by (simp add: load8_def nth_append split: if_splits)
    next
      case False
      then obtain j where j: "i = length t + j" "j \<le> length u" using i by (metis le_Suc_ex length_append nat_add_left_cancel_le not_less)
      have "getc (Ram ?d) j (s\<lparr>bytes := m\<rparr>) = Some ((u @ [NUL]) ! j)"
        using m(2) j(2) by (simp add: str_at_def)
      then show ?thesis using j by (simp add: add.assoc nth_append)
    qed
  qed
  ultimately show ?thesis using m(3) by blast
qed

lemma str_ncpy_ok:
  assumes src: "\<forall>i < length t. getc p i s = Some (t ! i)" and d: "valid_range d (Suc (length t))"
    and out: "outside p (length t) d (Suc (length t))"
  shows "\<exists>m. str_ncpy d p (length t) s = Some (s\<lparr>bytes := m\<rparr>)
    \<and> (\<forall>j < length t. m (d + of_nat j) = byte_of (t ! j)) \<and> m (d + of_nat (length t)) = 0
    \<and> (\<forall>a. \<not> in_range d (Suc (length t)) a \<longrightarrow> m a = bytes s a)"
proof -
  let ?body = "\<lambda>i s. do { c \<leftarrow> getc p i s; store8 (d + of_nat i) (byte_of c) s }"
  let ?I = "\<lambda>k u. \<exists>m. u = s\<lparr>bytes := m\<rparr> \<and> copied d t k s m"
  have "?I 0 s" by (rule exI [of _ "bytes s"]) (simp add: copied_def)
  moreover have "\<exists>u'. ?body k u = Some u' \<and> ?I (Suc k) u'" if k: "k < length t" and "?I k u" for k u
  proof -
    obtain m where m: "u = s\<lparr>bytes := m\<rparr>" "copied d t k s m" using \<open>?I k u\<close> by blast
    have fr: "\<forall>a. \<not> in_range d (Suc (length t)) a \<longrightarrow> bytes u a = bytes s a"
      using m by (simp add: copied_def)
    have "getc p k u = Some (t ! k)" using getc_frame [OF out fr k] src k by simp
    then have "?body k u = Some (s\<lparr>bytes := m(d + of_nat k := byte_of (t ! k))\<rparr>)"
      using valid_range_at(1) [OF d, of k] k m(1) by (simp add: store8_def)
    then show ?thesis using copied_upd(2) [OF d _ m(2), of "byte_of (t ! k)"] k by auto
  qed
  ultimately obtain m where m: "for_each ?body [0..<length t] s = Some (s\<lparr>bytes := m\<rparr>)"
    "copied d t (length t) s m"
    using for_each_upt [of ?I s "length t" ?body] by blast
  have "str_ncpy d p (length t) s = Some (s\<lparr>bytes := m(d + of_nat (length t) := 0)\<rparr>)"
    using m(1) valid_range_at(1) [OF d, of "length t"] by (simp add: str_ncpy_def store8_def)
  moreover have "copied d t (length t) s (m(d + of_nat (length t) := 0))"
    using copied_upd(1) [OF d order_refl m(2), of 0] by simp
  ultimately show ?thesis by (auto simp: copied_def)
qed

lemma outside_ranges:
  assumes "valid_range a n" and "unat a + n \<le> unat d \<or> unat d + m \<le> unat a"
  shows "outside (Ram a) n d m"
  using valid_range_at(2) [OF assms(1)] assms(2) by (auto simp: in_range_def)

text \<open>RAM that holds one text and is clear elsewhere.\<close>

definition text_mem :: "addr \<Rightarrow> char list \<Rightarrow> kstate \<Rightarrow> kstate" where
  "text_mem a t s = s\<lparr>bytes := (\<lambda>x. if in_range a (length t) x then byte_of (t ! (unat x - unat a)) else 0)\<rparr>"

lemma text_mem_at:
  assumes "valid_range a (Suc (length t))" and "NUL \<notin> set t"
  shows "str_at (Ram a) t (text_mem a t s)"
  using assms(2) valid_range_at(2) [OF assms(1)]
  by (simp add: str_at_Ram [OF assms(1)] text_mem_def in_range_def)

section \<open>Splitting\<close>

lemma read_n_ok:
  "(\<And>j. j < n \<Longrightarrow> getc p (i + j) s = Some (f j)) \<Longrightarrow> read_n p i n s = Some (map f [0..<n])"
proof (induction n arbitrary: i f)
  case 0
  then show ?case by simp
next
  case (Suc n)
  have "read_n p (Suc i) n s = Some (map (\<lambda>j. f (Suc j)) [0..<n])"
    using Suc.IH [of "Suc i" "\<lambda>j. f (Suc j)"] Suc.prems [of "Suc _"] by simp
  moreover have "getc p i s = Some (f 0)" using Suc.prems [of 0] by simp
  moreover have "[0..<Suc n] = 0 # map Suc [0..<n]" by (simp add: map_Suc_upt upt_conv_Cons)
  ultimately show ?case by simp
qed

lemma read_n_text:
  assumes "str_at p x s" and "i + n \<le> length x"
  shows "read_n p i n s = Some (take n (drop i x))"
proof -
  have "read_n p i n s = Some (map (\<lambda>j. x ! (i + j)) [0..<n])"
    by (rule read_n_ok) (use str_at_get(1) [OF assms(1)] assms(2) in auto)
  also have "map (\<lambda>j. x ! (i + j)) [0..<n] = take n (drop i x)"
    using assms(2) by (intro nth_equalityI) simp_all
  finally show ?thesis .
qed

lemma strtok_loop_hit:
  assumes x: "str_at p (t @ del @ r) s" and d: "str_at delim del s" "del \<noteq> []"
    and first: "\<forall>j < length t. take (length del) (drop j (t @ del @ r)) \<noteq> del"
  shows "i \<le> length t \<Longrightarrow> strtok_loop p delim (length del) i s = Some (length t)"
proof (induction "length t - i" arbitrary: i)
  case 0
  let ?x = "t @ del @ r"
  have "read_n p i (length del) s = Some del" using read_n_text [OF x, of i "length del"] 0 by simp
  moreover have "str_at (Cells (del @ [NUL])) del s" using d(1) by (auto simp: str_at_Cells str_at_def)
  then have "str_cmp (Cells (del @ [NUL])) delim s = Some 0" using str_cmp_ok [OF _ d(1)] by simp
  ultimately show ?case using 0 by (subst strtok_loop.simps) simp
next
  case (Suc k)
  let ?x = "t @ del @ r"
  let ?b = "take (length del) (drop i ?x)"
  have i: "i < length t" using Suc.hyps(2) by simp
  have "set ?b \<subseteq> set ?x" by (meson set_drop_subset set_take_subset subset_trans)
  then have "str_at (Cells (?b @ [NUL])) ?b s" using x by (auto simp: str_at_Cells str_at_def)
  then have "str_cmp (Cells (?b @ [NUL])) delim s = Some 1"
    using str_cmp_ok [OF _ d(1)] first i by auto
  moreover have "read_n p i (length del) s = Some ?b" using read_n_text [OF x] i by simp
  moreover have "getc p (i + 1) s = Some (?x ! (i + 1)) \<and> ?x ! (i + 1) \<noteq> NUL"
    using str_at_get(1) [OF x, of "i + 1"] i d(2) by (cases del) auto
  moreover have "strtok_loop p delim (length del) (i + 1) s = Some (length t)"
    using Suc.hyps i by simp
  ultimately show ?case by (subst strtok_loop.simps) simp
qed

text \<open>
  On an empty string the loop skips the terminator unread: it stops at once only when the next
  byte is NUL too, as in the cleared buffers of its callers.
\<close>

lemma strtok_loop_empty:
  assumes "getc p 0 s = Some NUL" and "getc p 1 s = Some NUL" and d: "str_at delim del s" "del \<noteq> []"
    and rest: "\<And>j. j < length del \<Longrightarrow> \<exists>c. getc p j s = Some c"
  shows "strtok_loop p delim (length del) 0 s = Some 1"
proof -
  let ?f = "\<lambda>j. the (getc p j s)"
  obtain k where k: "length del = Suc k" using d(2) by (cases del) auto
  have b: "read_n p 0 (length del) s = Some (map ?f [0..<length del])"
    by (rule read_n_ok) (use rest in fastforce)
  have "map ?f [0..<length del] = NUL # map ?f [1..<length del]"
    using assms(1) k by (simp add: upt_conv_Cons del: upt_Suc)
  then have "str_at (Cells (map ?f [0..<length del] @ [NUL])) [] s"
    by (simp add: str_at_def)
  then have "str_cmp (Cells (map ?f [0..<length del] @ [NUL])) delim s = Some 1"
    using str_cmp_ok [OF _ d(1)] d(2) by auto
  then show ?thesis using b assms(2) by (subst strtok_loop.simps) simp
qed

lemma str_at_shift:
  "str_at (Ram a) (t @ u) s \<Longrightarrow> str_at (Ram (a + of_nat (length t))) u s"
  unfolding str_at_def
proof (intro conjI allI impI)
  assume x: "NUL \<notin> set (t @ u) \<and> (\<forall>i \<le> length (t @ u). getc (Ram a) i s = Some (((t @ u) @ [NUL]) ! i))"
  then show "NUL \<notin> set u" by simp
  fix i assume "i \<le> length u"
  then have "getc (Ram a) (length t + i) s = Some (((t @ u) @ [NUL]) ! (length t + i))"
    using x by (simp del: getc.simps)
  then show "getc (Ram (a + of_nat (length t))) i s = Some ((u @ [NUL]) ! i)"
    by (simp add: add.assoc)
qed

lemma strtok_ok:
  assumes x: "str_at (Ram start) (t @ del @ r) s" and d: "str_at delim del s" "del \<noteq> []"
    and first: "\<forall>j < length t. take (length del) (drop j (t @ del @ r)) \<noteq> del"
    and tok: "valid_range token (Suc (length t))"
      "outside (Ram start) (Suc (length (t @ del @ r))) token (Suc (length t))"
  shows "\<exists>m. strtok_fst start delim (length del) token s
      = Some (start + of_nat (length (t @ del)), s\<lparr>bytes := m\<rparr>)
    \<and> str_at (Ram token) t (s\<lparr>bytes := m\<rparr>) \<and> str_at (Ram start) (t @ del @ r) (s\<lparr>bytes := m\<rparr>)
    \<and> (\<forall>a. \<not> in_range token (Suc (length t)) a \<longrightarrow> m a = bytes s a)"
proof -
  have src: "\<forall>i < length t. getc (Ram start) i s = Some (t ! i)"
    using str_at_get(1) [OF x] by (auto simp: nth_append simp del: getc.simps)
  have "outside (Ram start) (length t) token (Suc (length t))" using tok(2) by simp
  then obtain m where m: "str_ncpy token (Ram start) (length t) s = Some (s\<lparr>bytes := m\<rparr>)"
    "\<forall>j < length t. m (token + of_nat j) = byte_of (t ! j)" "m (token + of_nat (length t)) = 0"
    "\<forall>a. \<not> in_range token (Suc (length t)) a \<longrightarrow> m a = bytes s a"
    using str_ncpy_ok [OF src tok(1)] by blast
  let ?u = "s\<lparr>bytes := m\<rparr>"
  have "NUL \<notin> set t" using x by (simp add: str_at_def)
  then have t: "str_at (Ram token) t ?u" using m(2,3) by (simp add: str_at_Ram [OF tok(1)])
  have y: "str_at (Ram start) (t @ del @ r) ?u"
    by (rule str_at_frame [OF x tok(2)]) (use m(4) in simp)
  have "getc (Ram start) (length t) ?u = Some (del ! 0) \<and> del ! 0 \<noteq> NUL"
    using str_at_get(1) [OF y, of "length t"] d(2) by (auto simp: nth_append)
  then have "strtok_fst start delim (length del) token s
      = Some (start + of_nat (length (t @ del)), ?u)"
    using strtok_loop_hit [OF x d first, of 0] m(1) by (simp add: strtok_fst_def del: getc.simps)
  then show ?thesis using t y m(4) by blast
qed

section \<open>Properties\<close>

text \<open>\<open>_strcmp\<close> returns 0 on equal texts and 1 on different ones, and reads past neither.\<close>

theorem strcmp_decides_equality:
  assumes "str_at p t s" and "str_at q u s"
  shows "str_cmp p q s = Some (if t = u then 0 else 1)"
  using str_cmp_ok [OF assms] .

theorem strcmp_decides_equality_witness:
  "str_cmp (Cells (cstr ''/dev'')) (Cells (cstr ''/ipc'')) zero_state = Some 1"
  using strcmp_decides_equality [of "Cells (cstr ''/dev'')" "''/dev''" zero_state "Cells (cstr ''/ipc'')" "''/ipc''"]
  by simp

text \<open>
  \<open>_strcat\<close> appends the source, which may be a string in RAM or a name in a kernel object,
  and its terminator, and writes the bytes of those and no others.
\<close>

theorem strcat_appends:
  assumes "str_at (Ram dest) t s" and "str_at src u s" and "valid_range dest (length t + Suc (length u))"
    and "outside src (Suc (length u)) (dest + of_nat (length t)) (Suc (length u))"
  shows "\<exists>s'. str_cat dest src s = Some s' \<and> str_at (Ram dest) (t @ u) s'
    \<and> (\<forall>a. \<not> in_range (dest + of_nat (length t)) (Suc (length u)) a \<longrightarrow> bytes s' a = bytes s a)"
  using str_cat_ok [OF assms] by fastforce

definition demo_text :: kstate where
  "demo_text = text_mem 0x82100000 ''d;;e'' zero_state"

lemma demo_text_at: "str_at (Ram 0x82100000) ''d;;e'' demo_text"
  unfolding demo_text_def by (rule text_mem_at) (simp_all add: valid_range_def)

theorem strcat_appends_witness:
  "\<exists>s'. str_cat 0x82100000 (Cells (cstr ''f'')) demo_text = Some s' \<and> str_at (Ram 0x82100000) ''d;;ef'' s'"
  using strcat_appends [OF demo_text_at, of "Cells (cstr ''f'')" "''f''"]
  by (auto simp: valid_range_def)

text \<open>
  C35: \<open>strtok_fst\<close> copies the text before the first delimiter to the token buffer, terminates
  it, returns a pointer just behind the delimiter, where the rest of the string still is, and
  leaves every byte outside the token untouched.
\<close>

theorem strtok_splits:
  assumes "str_at (Ram start) (t @ del @ r) s" and "str_at delim del s" and "del \<noteq> []"
    and "\<forall>j < length t. take (length del) (drop j (t @ del @ r)) \<noteq> del"
    and "valid_range token (Suc (length t))"
    and "outside (Ram start) (Suc (length (t @ del @ r))) token (Suc (length t))"
  shows "\<exists>next s'. strtok_fst start delim (length del) token s = Some (next, s')
    \<and> str_at (Ram token) t s' \<and> str_at (Ram next) r s'
    \<and> (\<forall>a. \<not> in_range token (Suc (length t)) a \<longrightarrow> bytes s' a = bytes s a)"
proof -
  obtain m where m: "strtok_fst start delim (length del) token s
      = Some (start + of_nat (length (t @ del)), s\<lparr>bytes := m\<rparr>)"
    "str_at (Ram token) t (s\<lparr>bytes := m\<rparr>)" "str_at (Ram start) (t @ del @ r) (s\<lparr>bytes := m\<rparr>)"
    "\<forall>a. \<not> in_range token (Suc (length t)) a \<longrightarrow> m a = bytes s a"
    using strtok_ok [OF assms] by blast
  have "str_at (Ram (start + of_nat (length (t @ del)))) r (s\<lparr>bytes := m\<rparr>)"
    using str_at_shift [of start "t @ del" r] m(3) by simp
  then show ?thesis using m by auto
qed

lemma strcmp_sep: "NUL \<notin> set '';;''"
  by simp

theorem strtok_splits_witness:
  "\<exists>next s'. strtok_fst 0x82100000 (Cells (cstr '';;'')) 2 0x82200000 demo_text = Some (next, s')
    \<and> str_at (Ram 0x82200000) ''d'' s' \<and> str_at (Ram next) ''e'' s'"
proof -
  have "outside (Ram 0x82100000) 5 0x82200000 2"
    by (rule outside_ranges) (simp_all add: valid_range_def)
  moreover have "\<forall>j < length ''d''. take (length '';;'') (drop j (''d'' @ '';;'' @ ''e'')) \<noteq> '';;''"
    by simp
  moreover have "valid_range 0x82200000 (Suc (length ''d''))" by (simp add: valid_range_def)
  moreover have "length '';;'' = 2" "Suc (length (''d'' @ '';;'' @ ''e'')) = 5" "Suc (length ''d'') = 2"
    by simp_all
  ultimately show ?thesis
    using strtok_splits [of "0x82100000" "''d''" "'';;''" "''e''" demo_text "Cells (cstr '';;'')" "0x82200000"]
      demo_text_at by (metis append_Cons append_Nil list.distinct(1) str_at_cstr strcmp_sep)
qed

end
