(* ===== verification/RingQueue.thy ===== *)
theory RingQueue
  imports Ram "HOL-Library.Signed_Division"
begin

text \<open>
  The byte queue of \<^verbatim>\<open>src/src/klib/queue.c\<close>: a ring buffer in a 16 KB kernel block.
  \<open>queue_rel q s xs\<close> is the abstraction: the queue record \<open>q\<close> with its buffer in the RAM of
  \<open>s\<close> holds the bytes \<open>xs\<close>, oldest first.
  The locale \<open>bounded_fifo\<close> is the contract of a bounded queue that reports overflow and
  underflow by a code; the ring buffer is an interpretation of it, and \<open>fifo_run_refines\<close>
  gives the outputs of every sequence of operations.
\<close>

section \<open>The operations\<close>

text \<open>Each takes the queue record that \<^verbatim>\<open>qPtr\<close> points to and returns it updated.\<close>

definition kq_init :: "int \<Rightarrow> queue \<Rightarrow> kstate \<Rightarrow> (int \<times> queue \<times> kstate) option" where
  "kq_init qSize q s = do {
     let q = q\<lparr>q_head := 0, q_end := 0, q_n_data := 0\<rparr>;
     (a, s) \<leftarrow> kblk_alloc FOR_QUEUE s;
     let q = q\<lparr>q_data := a\<rparr>;
     if q_data q = NULL then Some (-1, q, s)
     else do {
       let q = q\<lparr>q_size := qSize\<rparr>;
       s \<leftarrow> mem_set (q_data q) 0 (word_of_int qSize) s;
       Some (0, q, s)
     }
   }"

definition kq_delete :: "queue \<Rightarrow> kstate \<Rightarrow> kstate option" where
  "kq_delete q s = kblk_free (q_data q) s"

definition queue_is_empty :: "queue \<Rightarrow> int" where
  "queue_is_empty q = (if q_n_data q = 0 then 1 else 0)"

definition queue_is_full :: "queue \<Rightarrow> int" where
  "queue_is_full q = (if q_n_data q = q_size q then 1 else 0)"

text \<open>C's \<^verbatim>\<open>%\<close> truncates towards zero and faults on a zero divisor.\<close>

definition c_mod :: "int \<Rightarrow> int \<Rightarrow> int option" where
  "c_mod a b = (if b = 0 then None else Some (a smod b))"

definition enqueue :: "u8 \<Rightarrow> queue \<Rightarrow> kstate \<Rightarrow> (int \<times> queue \<times> kstate) option" where
  "enqueue byte q s =
     (if queue_is_full q = 1 then do {
        s \<leftarrow> printk (cstr (''Warning : Can''@[CHR 0x27]@''t not put data to queue. Queue is Full. Return -1.'' @ crlf)) [] s;
        Some (-1, q, s)
      } else do {
        s \<leftarrow> store8 (q_data q + word_of_int (q_end q)) byte s;
        e \<leftarrow> c_mod (q_end q + 1) (q_size q);
        Some (0, q\<lparr>q_end := e, q_n_data := q_n_data q + 1\<rparr>, s)
      })"

definition dequeue :: "queue \<Rightarrow> kstate \<Rightarrow> (u8 \<times> queue \<times> kstate) option" where
  "dequeue q s =
     (if queue_is_empty q = 1 then do {
        s \<leftarrow> printk (cstr (''Warning : Can''@[CHR 0x27]@''t not get data from queue. Queue is Empty. Return -1.'' @ crlf)) [] s;
        Some (- 1, q, s)
      } else do {
        data \<leftarrow> load8 (q_data q + word_of_int (q_head q)) s;
        s \<leftarrow> store8 (q_data q + word_of_int (q_head q)) 0 s;
        h \<leftarrow> c_mod (q_head q + 1) (q_size q);
        Some (data, q\<lparr>q_n_data := q_n_data q - 1, q_head := h\<rparr>, s)
      })"

fun dump_loop :: "nat \<Rightarrow> int \<Rightarrow> queue \<Rightarrow> kstate \<Rightarrow> kstate option" where
  "dump_loop 0 idx q s = Some s"
| "dump_loop (Suc n) idx q s = do {
     b \<leftarrow> load8 (q_data q + word_of_int idx) s;
     s \<leftarrow> printk (cstr (''queue[%d] : %c'' @ crlf)) [word_of_int idx, ucast b] s;
     idx \<leftarrow> c_mod (idx + 1) (q_size q);
     dump_loop n idx q s
   }"

text \<open>\<^verbatim>\<open>dump_queue\<close> reports a null pointer and follows it all the same; \<open>None\<close> is that pointer.\<close>

definition dump_queue :: "queue option \<Rightarrow> kstate \<Rightarrow> kstate option" where
  "dump_queue qPtr s = do {
     s \<leftarrow> (if qPtr = None then printk (cstr (''qPtr is Null.'' @ crlf)) [] s else Some s);
     q \<leftarrow> qPtr;
     s \<leftarrow> printk (cstr (crlf @ ''++++++++++++++++++++++++++++++++++'' @ crlf)) [] s;
     s \<leftarrow> (if queue_is_empty q = 1 then printk (cstr (''No data in queue.'' @ crlf)) [] s
           else do {
             s \<leftarrow> printk (cstr (''Print data from head.'' @ crlf)) [] s;
             dump_loop (nat (q_n_data q)) (q_head q) q s
           });
     printk (cstr (''++++++++++++++++++++++++++++++++++'' @ crlf)) [] s
   }"

section \<open>The abstraction\<close>

definition slot :: "queue \<Rightarrow> nat \<Rightarrow> addr" where
  "slot q i = q_data q + of_nat ((nat (q_head q) + i) mod nat (q_size q))"

definition queue_rel :: "queue \<Rightarrow> kstate \<Rightarrow> u8 list \<Rightarrow> bool" where
  "queue_rel q s xs \<longleftrightarrow>
     0 < q_size q \<and> valid_range (q_data q) (nat (q_size q)) \<and>
     0 \<le> q_head q \<and> q_head q < q_size q \<and>
     q_n_data q = int (length xs) \<and> q_n_data q \<le> q_size q \<and>
     q_end q = (q_head q + q_n_data q) mod q_size q \<and>
     (\<forall>i < length xs. bytes s (slot q i) = xs ! i)"

lemma c_mod_pos: "0 \<le> a \<Longrightarrow> 0 < b \<Longrightarrow> c_mod a b = Some (a mod b)"
  by (cases "a = 0") (auto simp: c_mod_def signed_modulo_int_def signed_divide_int_def minus_div_mult_eq_mod)

lemma word_of_int_nat: "0 \<le> i \<Longrightarrow> word_of_int i = of_nat (nat i)"
  by simp

text \<open>Two slots within the capacity are the same cell only for the same position.\<close>

lemma ring_inj:
  fixes h n :: nat
  assumes "i < n" and "j < n"
  shows "(h + i) mod n = (h + j) mod n \<longleftrightarrow> i = j"
proof
  assume "(h + i) mod n = (h + j) mod n"
  then have "i mod n = j mod n" by (simp add: nat_mod_eq_iff) 
  then show "i = j" using assms by simp
qed simp

lemma slot_inj:
  assumes "queue_rel q s xs" and "i < nat (q_size q)" and "j < nat (q_size q)"
  shows "slot q i = slot q j \<longleftrightarrow> i = j"
proof -
  have n: "0 < nat (q_size q)" using assms(2) by simp
  have "slot q i = slot q j \<longleftrightarrow> (nat (q_head q) + i) mod nat (q_size q) = (nat (q_head q) + j) mod nat (q_size q)"
    unfolding slot_def using assms(1) n by (intro range_at_inj) (auto simp: queue_rel_def)
  then show ?thesis using ring_inj assms(2,3) by simp
qed

lemma slot_at:
  assumes "queue_rel q s xs"
  shows "slot q i \<noteq> NULL" and "in_range (q_data q) (nat (q_size q)) (slot q i)"
  using assms valid_range_at [of "q_data q" "nat (q_size q)"]
  by (simp_all add: slot_def queue_rel_def)

lemma head_slot:
  assumes "queue_rel q s xs"
  shows "q_data q + word_of_int (q_head q) = slot q 0"
proof -
  have "nat (q_head q) < nat (q_size q)" "0 \<le> q_head q" using assms by (simp_all add: queue_rel_def)
  then show ?thesis by (simp add: slot_def)
qed

lemma end_slot:
  assumes "queue_rel q s xs"
  shows "q_data q + word_of_int (q_end q) = slot q (length xs)"
proof -
  have "nat (q_end q) = (nat (q_head q) + length xs) mod nat (q_size q)"
    using assms by (simp add: queue_rel_def nat_mod_distrib nat_add_distrib)
  moreover have "0 \<le> q_end q" using assms by (simp add: queue_rel_def)
  then have "word_of_int (q_end q) = (of_nat (nat (q_end q)) :: addr)" by simp
  ultimately show ?thesis by (simp only: slot_def)
qed

text \<open>Writes outside the buffer do not disturb the queue.\<close>

lemma queue_rel_frame:
  assumes "queue_rel q s xs"
    and "\<And>a. in_range (q_data q) (nat (q_size q)) a \<Longrightarrow> bytes t a = bytes s a"
  shows "queue_rel q t xs"
  using assms slot_at(2) [OF assms(1)] by (simp add: queue_rel_def)

section \<open>The operations on the abstraction\<close>

lemma enqueue_ok:
  assumes rel: "queue_rel q s xs" and room: "length xs < nat (q_size q)"
  shows "\<exists>q' m. enqueue b q s = Some (0, q', s\<lparr>bytes := m\<rparr>) \<and> queue_rel q' (s\<lparr>bytes := m\<rparr>) (xs @ [b])
    \<and> q_size q' = q_size q \<and> q_data q' = q_data q
    \<and> (\<forall>a. \<not> in_range (q_data q) (nat (q_size q)) a \<longrightarrow> m a = bytes s a)"
proof -
  let ?n = "length xs"
  define e where "e = (q_end q + 1) mod q_size q"
  define q' where "q' = q\<lparr>q_end := e, q_n_data := q_n_data q + 1\<rparr>"
  define m where "m = (bytes s)(slot q ?n := b)"
  have sl: "slot q' i = slot q i" for i by (simp add: q'_def slot_def)
  have "c_mod (q_end q + 1) (q_size q) = Some e"
    using rel unfolding e_def by (intro c_mod_pos) (simp_all add: queue_rel_def)
  moreover have "queue_is_full q = 0" using rel room by (auto simp: queue_is_full_def queue_rel_def)
  ultimately have run: "enqueue b q s = Some (0, q', s\<lparr>bytes := m\<rparr>)"
    using end_slot [OF rel] slot_at(1) [OF rel]
    by (simp add: enqueue_def store8_def q'_def m_def)
  have "e = (q_head q + (q_n_data q + 1)) mod q_size q"
    using rel by (simp add: e_def queue_rel_def mod_add_left_eq add.assoc)
  moreover have "\<forall>i < Suc ?n. m (slot q i) = (xs @ [b]) ! i"
  proof (intro allI impI)
    fix i
    assume i: "i < Suc ?n"
    show "m (slot q i) = (xs @ [b]) ! i"
    proof (cases "i = ?n")
      case False
      then have "slot q i \<noteq> slot q ?n" using slot_inj [OF rel, of i ?n] i room by simp
      then show ?thesis using False i rel by (simp add: m_def queue_rel_def nth_append)
    qed (simp add: m_def)
  qed
  ultimately have "queue_rel q' (s\<lparr>bytes := m\<rparr>) (xs @ [b])"
    using rel room by (simp add: queue_rel_def sl) (simp add: q'_def)
  moreover have "\<forall>a. \<not> in_range (q_data q) (nat (q_size q)) a \<longrightarrow> m a = bytes s a"
    using slot_at(2) [OF rel] by (auto simp: m_def)
  ultimately show ?thesis using run by (intro exI [of _ q'] exI [of _ m]) (simp add: q'_def)
qed

lemma enqueue_full:
  assumes "queue_rel q s xs" and "length xs = nat (q_size q)"
  shows "\<exists>out. enqueue b q s = Some (-1, q, s\<lparr>uart_tx := uart_tx s @ out\<rparr>)"
  using assms by (auto simp: enqueue_def queue_is_full_def queue_rel_def heap_simps)

lemma dequeue_ok:
  assumes rel: "queue_rel q s (x # xs)"
  shows "\<exists>q' m. dequeue q s = Some (x, q', s\<lparr>bytes := m\<rparr>) \<and> queue_rel q' (s\<lparr>bytes := m\<rparr>) xs
    \<and> q_size q' = q_size q \<and> q_data q' = q_data q
    \<and> (\<forall>a. \<not> in_range (q_data q) (nat (q_size q)) a \<longrightarrow> m a = bytes s a)"
proof -
  define h where "h = (q_head q + 1) mod q_size q"
  define q' where "q' = q\<lparr>q_n_data := q_n_data q - 1, q_head := h\<rparr>"
  define m where "m = (bytes s)(slot q 0 := 0)"
  have "c_mod (q_head q + 1) (q_size q) = Some h"
    using rel unfolding h_def by (intro c_mod_pos) (simp_all add: queue_rel_def)
  moreover have "bytes s (slot q 0) = x" using rel by (fastforce simp: queue_rel_def)
  ultimately have run: "dequeue q s = Some (x, q', s\<lparr>bytes := m\<rparr>)"
    using head_slot [OF rel] slot_at(1) [OF rel] rel
    by (simp add: dequeue_def queue_is_empty_def load8_def store8_def q'_def m_def queue_rel_def)
  have hn: "nat h = (nat (q_head q) + 1) mod nat (q_size q)" "0 \<le> h" "h < q_size q"
    using rel by (simp_all add: h_def queue_rel_def nat_mod_distrib nat_add_distrib)
  have sl: "slot q' i = slot q (Suc i)" for i
    by (simp add: slot_def q'_def hn mod_add_left_eq)
  have "(h + (q_n_data q - 1)) mod q_size q = q_end q"
    using rel by (simp add: h_def queue_rel_def mod_add_left_eq add.assoc)
  moreover have "\<forall>i < length xs. m (slot q (Suc i)) = xs ! i"
  proof (intro allI impI)
    fix i
    assume i: "i < length xs"
    have "int (Suc (length xs)) \<le> q_size q" using rel by (simp add: queue_rel_def)
    then have "Suc i < nat (q_size q)" using i by linarith
    then have "slot q (Suc i) \<noteq> slot q 0" using slot_inj [OF rel, of "Suc i" 0] by simp
    then show "m (slot q (Suc i)) = xs ! i" using i rel by (fastforce simp: m_def queue_rel_def)
  qed
  ultimately have "queue_rel q' (s\<lparr>bytes := m\<rparr>) xs"
    using rel hn by (simp add: queue_rel_def sl) (simp add: q'_def)
  moreover have "\<forall>a. \<not> in_range (q_data q) (nat (q_size q)) a \<longrightarrow> m a = bytes s a"
    using slot_at(2) [OF rel] by (auto simp: m_def)
  ultimately show ?thesis using run by (intro exI [of _ q'] exI [of _ m]) (simp add: q'_def)
qed

lemma dequeue_empty:
  assumes "queue_rel q s []"
  shows "\<exists>out. dequeue q s = Some (255, q, s\<lparr>uart_tx := uart_tx s @ out\<rparr>)"
  using assms by (auto simp: dequeue_def queue_is_empty_def queue_rel_def heap_simps)

section \<open>Initialisation\<close>

text \<open>A buffer carved from the kernel's blocks is big enough for any capacity up to 16 KB.\<close>

lemma kq_init_ok:
  assumes pool: "kblk_pool s (a # c # fs) us" and sz: "0 < n" "n \<le> 16384"
    and a: "valid_range a 16384"
  shows "\<exists>q' s'. kq_init n q s = Some (0, q', s') \<and> queue_rel q' s' [] \<and> q_size q' = n \<and> q_data q' = a
    \<and> kblk_pool s' (c # fs) (us @ [a])"
proof -
  obtain t where t: "kblk_alloc FOR_QUEUE s = Some (a, t)" "kblk_pool t (c # fs) (us @ [a])"
    using kblks.alloc_next [OF pool] by blast
  have n: "unat (word_of_int n :: u32) = nat n"
  proof -
    have "word_of_int n = (of_nat (nat n) :: u32)" using sz by simp
    moreover have "nat n < 2 ^ 32" using sz by simp
    ultimately show ?thesis by (simp only: unat_of_nat32)
  qed
  have v: "valid_range a (nat n)" using a sz by (simp add: valid_range_def) linarith
  obtain m where m: "mem_set a 0 (word_of_int n) t = Some (t\<lparr>bytes := m\<rparr>)"
    using mem_set_ok [of a "word_of_int n" 0 t] v n by auto
  have an: "a \<noteq> NULL" using a by (simp add: valid_range_def)
  define q' where "q' = q\<lparr>q_head := 0, q_end := 0, q_n_data := 0, q_data := a, q_size := n\<rparr>"
  have "kq_init n q s = Some (0, q', t\<lparr>bytes := m\<rparr>)"
    using t(1) m an by (simp add: kq_init_def q'_def)
  moreover have "queue_rel q' (t\<lparr>bytes := m\<rparr>) []"
    using v sz by (simp add: queue_rel_def q'_def)
  moreover have "kblk_pool (t\<lparr>bytes := m\<rparr>) (c # fs) (us @ [a])"
    using t(2) by (simp add: kblk_pool_def kblks_ok_def)
  ultimately show ?thesis by (auto simp: q'_def)
qed

section \<open>The contract of a bounded queue\<close>

datatype 'b fifo_op = Put 'b | Get

locale bounded_fifo =
  fixes put :: "'b \<Rightarrow> 's \<Rightarrow> (int \<times> 's) option"
    and get :: "'s \<Rightarrow> ('b \<times> 's) option"
    and repr :: "'s \<Rightarrow> 'b list \<Rightarrow> bool"
    and cap :: nat
    and none :: 'b
  assumes put_room: "repr s xs \<Longrightarrow> length xs < cap \<Longrightarrow> \<exists>s'. put b s = Some (0, s') \<and> repr s' (xs @ [b])"
    and put_full: "repr s xs \<Longrightarrow> length xs = cap \<Longrightarrow> \<exists>s'. put b s = Some (-1, s') \<and> repr s' xs"
    and get_some: "repr s (x # xs) \<Longrightarrow> \<exists>s'. get s = Some (x, s') \<and> repr s' xs"
    and get_none: "repr s [] \<Longrightarrow> \<exists>s'. get s = Some (none, s') \<and> repr s' []"
    and repr_cap: "repr s xs \<Longrightarrow> length xs \<le> cap"

fun fifo_run :: "('b \<Rightarrow> 's \<Rightarrow> (int \<times> 's) option) \<Rightarrow> ('s \<Rightarrow> ('b \<times> 's) option) \<Rightarrow>
    'b fifo_op list \<Rightarrow> 's \<Rightarrow> ((int + 'b) list \<times> 's) option" where
  "fifo_run put get [] s = Some ([], s)"
| "fifo_run put get (Put b # ops) s = do {
     (r, s) \<leftarrow> put b s;
     (rs, s) \<leftarrow> fifo_run put get ops s;
     Some (Inl r # rs, s)
   }"
| "fifo_run put get (Get # ops) s = do {
     (b, s) \<leftarrow> get s;
     (rs, s) \<leftarrow> fifo_run put get ops s;
     Some (Inr b # rs, s)
   }"

text \<open>The specification: a list of at most \<open>cap\<close> elements.\<close>

fun fifo_spec :: "nat \<Rightarrow> 'b \<Rightarrow> 'b fifo_op list \<Rightarrow> 'b list \<Rightarrow> (int + 'b) list \<times> 'b list" where
  "fifo_spec cap none [] xs = ([], xs)"
| "fifo_spec cap none (Put b # ops) xs =
     (if length xs < cap then let (rs, ys) = fifo_spec cap none ops (xs @ [b]) in (Inl 0 # rs, ys)
      else let (rs, ys) = fifo_spec cap none ops xs in (Inl (-1) # rs, ys))"
| "fifo_spec cap none (Get # ops) xs =
     (case xs of
        [] \<Rightarrow> let (rs, ys) = fifo_spec cap none ops [] in (Inr none # rs, ys)
      | x # xs \<Rightarrow> let (rs, ys) = fifo_spec cap none ops xs in (Inr x # rs, ys))"

context bounded_fifo
begin

lemma run_refines:
  "repr s xs \<Longrightarrow> \<exists>s'. fifo_run put get ops s = Some (fst (fifo_spec cap none ops xs), s')
    \<and> repr s' (snd (fifo_spec cap none ops xs))"
proof (induction ops arbitrary: s xs)
  case Nil
  then show ?case by simp
next
  case (Cons a ops)
  show ?case
  proof (cases a)
    case (Put b)
    show ?thesis
    proof (cases "length xs < cap")
      case True
      then obtain t where "put b s = Some (0, t)" "repr t (xs @ [b])"
        using put_room Cons.prems by blast
      with Cons.IH [of t "xs @ [b]"] True Put show ?thesis by (auto simp: case_prod_beta)
    next
      case False
      then obtain t where "put b s = Some (-1, t)" "repr t xs"
        using put_full [OF Cons.prems] repr_cap [OF Cons.prems] by (metis le_neq_implies_less)
      with Cons.IH [of t xs] False Put show ?thesis by (auto simp: case_prod_beta)
    qed
  next
    case Get
    show ?thesis
    proof (cases xs)
      case Nil
      then obtain t where "get s = Some (none, t)" "repr t []" using get_none Cons.prems by blast
      with Cons.IH [of t "[]"] Get Nil show ?thesis by (auto simp: case_prod_beta)
    next
      case (Cons x ys)
      then obtain t where "get s = Some (x, t)" "repr t ys" using get_some Cons.prems by blast
      with Cons.IH [of t ys] Get \<open>xs = x # ys\<close> show ?thesis by (auto simp: case_prod_beta)
    qed
  qed
qed

end

text \<open>The ring buffer, on pairs of the queue record and the rest of the state.\<close>

definition ring_put :: "u8 \<Rightarrow> queue \<times> kstate \<Rightarrow> (int \<times> queue \<times> kstate) option" where
  "ring_put b qs = enqueue b (fst qs) (snd qs)"

definition ring_get :: "queue \<times> kstate \<Rightarrow> (u8 \<times> queue \<times> kstate) option" where
  "ring_get qs = dequeue (fst qs) (snd qs)"

definition ring_repr :: "nat \<Rightarrow> queue \<times> kstate \<Rightarrow> u8 list \<Rightarrow> bool" where
  "ring_repr n qs xs \<longleftrightarrow> queue_rel (fst qs) (snd qs) xs \<and> nat (q_size (fst qs)) = n"

lemma queue_rel_tx [simp]: "queue_rel q (s\<lparr>uart_tx := out\<rparr>) xs \<longleftrightarrow> queue_rel q s xs"
  by (simp add: queue_rel_def)

interpretation ring: bounded_fifo ring_put ring_get "ring_repr n" n 255 for n
proof unfold_locales
  show "\<exists>s'. ring_put b s = Some (0, s') \<and> ring_repr n s' (xs @ [b])"
    if "ring_repr n s xs" "length xs < n" for s xs b
    using enqueue_ok [of "fst s" "snd s" xs b] that by (fastforce simp: ring_repr_def ring_put_def)
  show "\<exists>s'. ring_put b s = Some (-1, s') \<and> ring_repr n s' xs"
    if "ring_repr n s xs" "length xs = n" for s xs b
    using enqueue_full [of "fst s" "snd s" xs b] that by (fastforce simp: ring_repr_def ring_put_def)
  show "\<exists>s'. ring_get s = Some (x, s') \<and> ring_repr n s' xs" if "ring_repr n s (x # xs)" for s x xs
    using dequeue_ok [of "fst s" "snd s" x xs] that by (fastforce simp: ring_repr_def ring_get_def)
  show "\<exists>s'. ring_get s = Some (255, s') \<and> ring_repr n s' []" if "ring_repr n s []" for s
    using dequeue_empty [of "fst s" "snd s"] that by (fastforce simp: ring_repr_def ring_get_def)
  show "length xs \<le> n" if "ring_repr n s xs" for s xs
    using that by (auto simp: ring_repr_def queue_rel_def)
qed

section \<open>Properties\<close>

text \<open>
  C6: on any sequence of enqueues and dequeues the ring buffer answers exactly as a first-in
  first-out list of at most its size: enqueue returns 0, or -1 and drops the byte when full;
  dequeue returns the oldest byte, or 255 when empty. No sequence makes it fault.
\<close>

theorem queue_refines_fifo:
  assumes "queue_rel q s xs"
  shows "\<exists>q' s'. fifo_run ring_put ring_get ops (q, s)
      = Some (fst (fifo_spec (nat (q_size q)) 255 ops xs), (q', s'))
    \<and> queue_rel q' s' (snd (fifo_spec (nat (q_size q)) 255 ops xs))"
  using ring.run_refines [of "nat (q_size q)" "(q, s)" xs ops] assms by (auto simp: ring_repr_def)

definition demo_queue :: queue where
  "demo_queue = \<lparr>q_size = 2, q_head = 1, q_end = 1, q_n_data = 0, q_data = 0x820a0000\<rparr>"

theorem queue_refines_fifo_witness:
  "\<exists>q' s'. fifo_run ring_put ring_get [Put 7, Put 8, Put 9, Get, Get, Get] (demo_queue, zero_state)
    = Some ([Inl 0, Inl 0, Inl (-1), Inr 7, Inr 8, Inr 255], (q', s')) \<and> queue_rel q' s' []"
proof -
  have "queue_rel demo_queue zero_state []"
    by (simp add: queue_rel_def demo_queue_def valid_range_def)
  then show ?thesis
    using queue_refines_fifo [of demo_queue zero_state "[]" "[Put 7, Put 8, Put 9, Get, Get, Get]"]
    by (simp add: demo_queue_def)
qed

end
