(* ===== verification/Ipc.thy ===== *)
theory Ipc
  imports RingQueue
begin

text \<open>
  The one IPC channel, \<^verbatim>\<open>src/src/kernel/ipc.c\<close>: a 128-byte queue behind the read and write
  functions of the file \<^verbatim>\<open>/ipc0\<close>.
  The lemmas give both functions on the queue's contents, for transfers that fit and for those
  that do not.
\<close>

section \<open>The operations\<close>

definition ipc_buf_alloc :: "kstate \<Rightarrow> (int \<times> kstate) option" where
  "ipc_buf_alloc s = do {
     (r, q, s) \<leftarrow> kq_init 128 (ipc_q s) s;
     let s = s\<lparr>ipc_q := q\<rparr>;
     if r \<noteq> 0 then Some (-1, s) else Some (0, s)
   }"

text \<open>
  The loops over \<^verbatim>\<open>n_bytes\<close>; \<open>rbuf\<close> and \<open>wbuf\<close> are the advancing pointers.
  \<open>n_rd\<close> is an \<^verbatim>\<open>int\<close>, kept at its width.
\<close>

fun ipc_read_loop :: "nat \<Rightarrow> addr \<Rightarrow> u32 \<Rightarrow> kstate \<Rightarrow> (u32 \<times> kstate) option" where
  "ipc_read_loop 0 rbuf n_rd s = Some (n_rd, s)"
| "ipc_read_loop (Suc n) rbuf n_rd s = do {
     (b, q, s) \<leftarrow> dequeue (ipc_q s) s;
     let s = s\<lparr>ipc_q := q\<rparr>;
     s \<leftarrow> store8 rbuf b s;
     ipc_read_loop n (rbuf + 1) (n_rd + 1) s
   }"

definition ipc_read_func :: "addr \<Rightarrow> u32 \<Rightarrow> kstate \<Rightarrow> (u32 \<times> kstate) option" where
  "ipc_read_func rbuf n_bytes s = ipc_read_loop (unat n_bytes) rbuf 0 s"

fun ipc_write_loop :: "nat \<Rightarrow> addr \<Rightarrow> kstate \<Rightarrow> (u32 \<times> kstate) option" where
  "ipc_write_loop 0 wbuf s = Some (0, s)"
| "ipc_write_loop (Suc n) wbuf s = do {
     b \<leftarrow> load8 wbuf s;
     (r, q, s) \<leftarrow> enqueue b (ipc_q s) s;
     let s = s\<lparr>ipc_q := q\<rparr>;
     if r \<noteq> 0 then Some (- 1, s) else ipc_write_loop n (wbuf + 1) s
   }"

definition ipc_write_func :: "addr \<Rightarrow> u32 \<Rightarrow> kstate \<Rightarrow> (u32 \<times> kstate) option" where
  "ipc_write_func wbuf n_bytes s = ipc_write_loop (unat n_bytes) wbuf s"

definition free_ipc :: "kstate \<Rightarrow> kstate option" where
  "free_ipc s = kq_delete (ipc_q s) s"

section \<open>Transfers\<close>

text \<open>The channel of \<open>s\<close> holds \<open>xs\<close>; the ranges of user memory a transfer works on.\<close>

definition ipc_holds :: "kstate \<Rightarrow> u8 list \<Rightarrow> bool" where
  "ipc_holds s xs \<longleftrightarrow> queue_rel (ipc_q s) s xs"

definition ipc_cap :: "kstate \<Rightarrow> nat" where
  "ipc_cap s = nat (q_size (ipc_q s))"

definition user_range :: "addr \<Rightarrow> nat \<Rightarrow> kstate \<Rightarrow> bool" where
  "user_range p n s \<longleftrightarrow> valid_range p n \<and>
     (\<forall>a. in_range p n a \<longrightarrow> \<not> in_range (q_data (ipc_q s)) (ipc_cap s) a)"

definition mem_at :: "addr \<Rightarrow> nat \<Rightarrow> kstate \<Rightarrow> u8 list" where
  "mem_at p n s = map (\<lambda>i. bytes s (p + of_nat i)) [0..<n]"

text \<open>Where the channel's buffer is.\<close>

definition ipc_place :: "kstate \<Rightarrow> int \<times> addr" where
  "ipc_place s = (q_size (ipc_q s), q_data (ipc_q s))"

lemma ipc_place_eq:
  "ipc_place t = ipc_place s \<Longrightarrow> ipc_cap t = ipc_cap s \<and> user_range p n t = user_range p n s"
  by (simp add: ipc_place_def ipc_cap_def user_range_def)

lemma user_range_tl:
  assumes "user_range p (Suc n) s"
  shows "p \<noteq> NULL" and "in_range p (Suc n) p" and "n \<noteq> 0 \<Longrightarrow> user_range (p + 1) n s"
    and "\<And>a. n \<noteq> 0 \<Longrightarrow> in_range (p + 1) n a \<Longrightarrow> in_range p (Suc n) a \<and> a \<noteq> p"
proof -
  have v: "valid_range p (Suc n)" using assms by (simp add: user_range_def)
  then show "p \<noteq> NULL" by (simp add: valid_range_def)
  show "in_range p (Suc n) p" by (simp add: in_range_def)
  have u: "unat (p + 1) = unat p + 1" "p + 1 \<noteq> NULL" if "n \<noteq> 0"
    using valid_range_at(1,2) [OF v, of 1] that by simp_all
  show w: "in_range p (Suc n) a \<and> a \<noteq> p" if "n \<noteq> 0" "in_range (p + 1) n a" for a
    using that u by (auto simp: in_range_def)
  show "user_range (p + 1) n s" if "n \<noteq> 0"
    using assms u [OF that] w [OF that] v by (auto simp: user_range_def valid_range_def)
qed

lemma mem_at_Suc: "mem_at p (Suc n) s = bytes s p # mem_at (p + 1) n s"
  unfolding mem_at_def by (subst upt_conv_Cons) (simp_all add: map_Suc_upt [symmetric] add.assoc del: upt_Suc)

lemma mem_at_cong:
  assumes "valid_range p n" and "\<And>a. in_range p n a \<Longrightarrow> bytes t a = bytes s a"
  shows "mem_at p n t = mem_at p n s"
  using assms valid_range_at(3) [OF assms(1)] by (simp add: mem_at_def)

text \<open>
  Writing: what fits is appended, in order; the first byte that does not fit ends the call with
  -1.
\<close>

lemma ipc_write_loop_ok:
  assumes "ipc_holds s xs" and "user_range p n s \<or> n = 0"
  shows "\<exists>s'. ipc_write_loop n p s = Some (if length xs + n \<le> ipc_cap s then 0 else - 1, s')
    \<and> ipc_holds s' (xs @ take (ipc_cap s - length xs) (mem_at p n s)) \<and> ipc_place s' = ipc_place s
    \<and> (\<forall>a. \<not> in_range (q_data (ipc_q s)) (ipc_cap s) a \<longrightarrow> bytes s' a = bytes s a)"
  using assms
proof (induction n arbitrary: p s xs)
  case 0
  moreover from this have "length xs \<le> ipc_cap s"
    by (auto simp: ipc_holds_def queue_rel_def ipc_cap_def)
  ultimately show ?case by (simp add: mem_at_def)
next
  case (Suc n)
  let ?q = "ipc_q s"
  have ur: "user_range p (Suc n) s" using Suc.prems(2) by simp
  note tl = user_range_tl [OF ur]
  have rel: "queue_rel ?q s xs" using Suc.prems(1) by (simp add: ipc_holds_def)
  have le: "length xs \<le> ipc_cap s" using rel by (auto simp: queue_rel_def ipc_cap_def)
  show ?case
  proof (cases "length xs < ipc_cap s")
    case True
    then obtain q' m where e: "enqueue (bytes s p) ?q s = Some (0, q', s\<lparr>bytes := m\<rparr>)"
      "queue_rel q' (s\<lparr>bytes := m\<rparr>) (xs @ [bytes s p])" "q_size q' = q_size ?q" "q_data q' = q_data ?q"
      "\<forall>a. \<not> in_range (q_data ?q) (ipc_cap s) a \<longrightarrow> m a = bytes s a"
      using enqueue_ok [OF rel, of "bytes s p"] by (auto simp: ipc_cap_def)
    define t where "t = s\<lparr>bytes := m, ipc_q := q'\<rparr>"
    have pl: "ipc_place t = ipc_place s" using e by (simp add: t_def ipc_place_def)
    have h: "ipc_holds t (xs @ [bytes s p])" using e(2) by (simp add: ipc_holds_def t_def queue_rel_def)
    have "user_range (p + 1) n t \<or> n = 0" using tl(3) ipc_place_eq [OF pl] by auto
    from Suc.IH [OF h this] obtain s' where s':
      "ipc_write_loop n (p + 1) t = Some (if length (xs @ [bytes s p]) + n \<le> ipc_cap s then 0 else - 1, s')"
      "ipc_holds s' ((xs @ [bytes s p]) @ take (ipc_cap s - length (xs @ [bytes s p])) (mem_at (p + 1) n t))"
      "ipc_place s' = ipc_place s"
      "\<forall>a. \<not> in_range (q_data ?q) (ipc_cap s) a \<longrightarrow> bytes s' a = bytes t a"
      using ipc_place_eq [OF pl] pl by (auto simp: ipc_place_def)
    have "mem_at (p + 1) n t = mem_at (p + 1) n s"
    proof (cases "n = 0")
      case False
      show ?thesis
      proof (rule mem_at_cong)
        show "valid_range (p + 1) n" using tl(3) False by (simp add: user_range_def)
        show "bytes t a = bytes s a" if "in_range (p + 1) n a" for a
          using tl(3) [OF False] that e(5) by (simp add: user_range_def t_def)
      qed
    qed (simp add: mem_at_def)
    moreover have "ipc_write_loop (Suc n) p s = ipc_write_loop n (p + 1) t"
      using e(1) tl(1) by (simp add: load8_def t_def)
    moreover have "take (ipc_cap s - length xs) (bytes s p # ys)
        = bytes s p # take (ipc_cap s - Suc (length xs)) ys" for ys
      using True by (cases "ipc_cap s - length xs") (auto simp: Suc_diff_Suc [symmetric] simp del: Suc_diff_Suc)
    ultimately show ?thesis using s' e(5) by (auto simp: mem_at_Suc t_def)
  next
    case False
    then have eq: "length xs = ipc_cap s" using le by simp
    then obtain out where "enqueue (bytes s p) ?q s = Some (-1, ?q, s\<lparr>uart_tx := uart_tx s @ out\<rparr>)"
      using enqueue_full [OF rel, of "bytes s p"] by (auto simp: ipc_cap_def)
    then show ?thesis
      using tl(1) eq rel by (auto simp: load8_def ipc_holds_def ipc_place_def queue_rel_def)
  qed
qed

text \<open>
  Reading: the oldest bytes land in the buffer; once the channel is empty every further byte is
  255.
\<close>

lemma ipc_read_loop_ok:
  assumes "ipc_holds s xs" and "user_range p n s \<or> n = 0"
  shows "\<exists>s'. ipc_read_loop n p k s = Some (k + of_nat n, s') \<and> ipc_holds s' (drop n xs)
    \<and> mem_at p n s' = take n xs @ replicate (n - length xs) 255 \<and> ipc_place s' = ipc_place s
    \<and> (\<forall>a. \<not> in_range (q_data (ipc_q s)) (ipc_cap s) a \<and> \<not> in_range p n a \<longrightarrow> bytes s' a = bytes s a)"
  using assms
proof (induction n arbitrary: p s xs k)
  case 0
  then show ?case by (simp add: mem_at_def)
next
  case (Suc n)
  let ?q = "ipc_q s"
  have ur: "user_range p (Suc n) s" using Suc.prems(2) by simp
  note tl = user_range_tl [OF ur]
  have rel: "queue_rel ?q s xs" using Suc.prems(1) by (simp add: ipc_holds_def)
  define b where "b = (case xs of [] \<Rightarrow> 255 | x # _ \<Rightarrow> x)"
  obtain q' u where e: "dequeue ?q s = Some (b, q', u)" "queue_rel q' u (tl xs)"
    "q_size q' = q_size ?q" "q_data q' = q_data ?q"
    "\<forall>a. \<not> in_range (q_data ?q) (ipc_cap s) a \<longrightarrow> bytes u a = bytes s a"
  proof (cases xs)
    case Nil
    then show ?thesis using that dequeue_empty [of ?q s] rel by (auto simp: b_def)
  next
    case (Cons x ys)
    then show ?thesis using that dequeue_ok [of ?q s x ys] rel by (auto simp: b_def ipc_cap_def)
  qed
  define t where "t = u\<lparr>ipc_q := q', bytes := (bytes u)(p := b)\<rparr>"
  have pl: "ipc_place t = ipc_place s" using e by (simp add: t_def ipc_place_def)
  have out: "\<not> in_range (q_data ?q) (ipc_cap s) p" using ur tl(2) by (auto simp: user_range_def)
  have h: "ipc_holds t (tl xs)" unfolding ipc_holds_def
  proof (rule queue_rel_frame [of _ u])
    show "queue_rel (ipc_q t) u (tl xs)" using e(2) by (simp add: t_def)
    show "bytes t a = bytes u a" if "in_range (q_data (ipc_q t)) (nat (q_size (ipc_q t))) a" for a
      using that out e(3,4) by (auto simp: t_def ipc_cap_def)
  qed
  have "user_range (p + 1) n t \<or> n = 0" using tl(3) ipc_place_eq [OF pl] by auto
  from Suc.IH [OF h this, of "k + 1"] obtain s' where s':
    "ipc_read_loop n (p + 1) (k + 1) t = Some (k + 1 + of_nat n, s')" "ipc_holds s' (drop n (tl xs))"
    "mem_at (p + 1) n s' = take n (tl xs) @ replicate (n - length (tl xs)) 255" "ipc_place s' = ipc_place s"
    "\<forall>a. \<not> in_range (q_data ?q) (ipc_cap s) a \<and> \<not> in_range (p + 1) n a \<longrightarrow> bytes s' a = bytes t a"
    using ipc_place_eq [OF pl] pl by (auto simp: ipc_place_def)
  have np: "\<not> in_range (p + 1) n p" using tl(4) by (cases "n = 0") (auto simp: in_range_def)
  have sub: "in_range p (Suc n) a" if "in_range (p + 1) n a" for a
    using tl(4) that by (cases "n = 0") (auto simp: in_range_def)
  have bp: "bytes s' p = b" using s'(5) out np by (simp add: t_def)
  have run: "ipc_read_loop (Suc n) p k s = Some (k + of_nat (Suc n), s')"
    using e(1) tl(1) s'(1) by (simp add: store8_def t_def add.assoc)
  have "mem_at p (Suc n) s' = take (Suc n) xs @ replicate (Suc n - length xs) 255"
    using bp s'(3) by (cases xs) (simp_all add: mem_at_Suc b_def)
  moreover have "drop n (tl xs) = drop (Suc n) xs" by (simp add: drop_Suc)
  moreover have "\<forall>a. \<not> in_range (q_data ?q) (ipc_cap s) a \<and> \<not> in_range p (Suc n) a \<longrightarrow> bytes s' a = bytes s a"
    using s'(5) e(5) sub tl(2) by (auto simp: t_def)
  ultimately show ?case using run s'(2,4) by auto
qed

text \<open>A transfer changes RAM and the queue only; it prints only when the channel is full or empty.\<close>

definition no_channel :: "kstate \<Rightarrow> kstate" where
  "no_channel s = s\<lparr>bytes := \<lambda>_. 0, ipc_q := ipc_q zero_state, uart_tx := []\<rparr>"

lemma no_channel_simps [simp]:
  "no_channel (s\<lparr>bytes := m\<rparr>) = no_channel s" "no_channel (s\<lparr>ipc_q := q\<rparr>) = no_channel s"
  "no_channel (s\<lparr>uart_tx := tx\<rparr>) = no_channel s"
  by (simp_all add: no_channel_def)

lemma printk_tx: "printk fmt args s = Some s' \<Longrightarrow> \<exists>out. s' = s\<lparr>uart_tx := out\<rparr>"
  by (auto simp: printk_def fold_print_char)

lemma enqueue_frame:
  "enqueue b q s = Some (r, q', s') \<Longrightarrow> no_channel s' = no_channel s \<and> (r = 0 \<longrightarrow> uart_tx s' = uart_tx s)"
  by (auto simp: enqueue_def bind_eq_Some_conv store8_def split: if_splits dest!: printk_tx)

lemma dequeue_frame:
  "dequeue q s = Some (b, q', s') \<Longrightarrow> no_channel s' = no_channel s
    \<and> (q_n_data q \<noteq> 0 \<longrightarrow> uart_tx s' = uart_tx s \<and> q_n_data q' = q_n_data q - 1)"
  by (auto simp: dequeue_def queue_is_empty_def bind_eq_Some_conv load8_def store8_def split: if_splits dest!: printk_tx)

lemma ipc_write_frame:
  "ipc_write_loop n p s = Some (r, s') \<Longrightarrow> no_channel s' = no_channel s \<and> (r = 0 \<longrightarrow> uart_tx s' = uart_tx s)"
proof (induction n arbitrary: p s)
  case (Suc n)
  then obtain b i q t where t: "enqueue b (ipc_q s) s = Some (i, q, t)"
    "(if i \<noteq> 0 then Some (- 1, t\<lparr>ipc_q := q\<rparr>) else ipc_write_loop n (p + 1) (t\<lparr>ipc_q := q\<rparr>)) = Some (r, s')"
    by (auto simp: bind_eq_Some_conv Let_def)
  show ?case
  proof (cases "i = 0")
    case True
    then show ?thesis using Suc.IH [of "p + 1" "t\<lparr>ipc_q := q\<rparr>"] t enqueue_frame [OF t(1)] by simp
  next
    case False
    then show ?thesis using t enqueue_frame [OF t(1)] by auto
  qed
qed simp

lemma ipc_read_frame:
  "ipc_read_loop n p k s = Some (r, s') \<Longrightarrow> no_channel s' = no_channel s \<and> (int n \<le> q_n_data (ipc_q s) \<longrightarrow> uart_tx s' = uart_tx s)"
proof (induction n arbitrary: p k s)
  case (Suc n)
  then obtain b q t where t: "dequeue (ipc_q s) s = Some (b, q, t)" "p \<noteq> NULL"
    "ipc_read_loop n (p + 1) (k + 1) (t\<lparr>ipc_q := q, bytes := (bytes t)(p := b)\<rparr>) = Some (r, s')"
    by (auto simp: bind_eq_Some_conv Let_def store8_def split: if_splits)
  from Suc.IH [OF t(3)] show ?case using dequeue_frame [OF t(1)] by auto
qed simp

section \<open>Properties\<close>

text \<open>
  C24: a message written to the channel when there is room for it comes out of the next read
  after what was there before, byte for byte, whatever buffers outside the channel the two calls
  use; the read returns the number of bytes, the write always 0 and not the number written.
\<close>

theorem ipc_write_read:
  assumes "ipc_holds s xs" and "user_range wbuf (unat n) s" and "length xs + unat n \<le> ipc_cap s"
    and "user_range rbuf (length xs + unat n) s"
  shows "\<exists>s1 s2. ipc_write_func wbuf n s = Some (0, s1)
    \<and> ipc_read_func rbuf (of_nat (length xs) + n) s1 = Some (of_nat (length xs) + n, s2)
    \<and> mem_at rbuf (length xs + unat n) s2 = xs @ mem_at wbuf (unat n) s \<and> ipc_holds s2 []"
proof -
  obtain s1 where s1: "ipc_write_loop (unat n) wbuf s = Some (0, s1)"
    "ipc_holds s1 (xs @ mem_at wbuf (unat n) s)" "ipc_place s1 = ipc_place s"
    using ipc_write_loop_ok [OF assms(1), of wbuf "unat n"] assms(2,3) by (auto simp: mem_at_def)
  let ?m = "length xs + unat n"
  have "valid_range rbuf ?m" using assms(4) by (simp add: user_range_def)
  then have "rbuf \<noteq> NULL" "unat rbuf + ?m \<le> 2 ^ 32" by (simp_all add: valid_range_def)
  then have "?m < 2 ^ 32" using unat_eq_zero [of rbuf] by linarith
  moreover have "of_nat (length xs) + n = (of_nat ?m :: u32)" by simp
  ultimately have m: "unat (of_nat (length xs) + n) = ?m" by (simp only: unat_of_nat32)
  have "user_range rbuf ?m s1" using ipc_place_eq [OF s1(3)] assms(4) by simp
  then obtain s2 where "ipc_read_loop ?m rbuf 0 s1 = Some (of_nat ?m, s2)"
    "ipc_holds s2 []" "mem_at rbuf ?m s2 = xs @ mem_at wbuf (unat n) s"
    using ipc_read_loop_ok [OF s1(2), of rbuf ?m 0] by (auto simp: mem_at_def)
  then show ?thesis using s1(1) m by (auto simp: ipc_write_func_def ipc_read_func_def)
qed

definition demo_ipc :: kstate where
  "demo_ipc = zero_state\<lparr>
     ipc_q := \<lparr>q_size = 4, q_head = 3, q_end = 3, q_n_data = 0, q_data = 0x820a0000\<rparr>,
     bytes := (\<lambda>a. ucast a)\<rparr>"

lemma demo_ipc_holds: "ipc_holds demo_ipc []"
  by (simp add: ipc_holds_def queue_rel_def demo_ipc_def valid_range_def)

lemma demo_ipc_user:
  "0x82100000 \<le> unat p \<Longrightarrow> unat p + n \<le> 2 ^ 32 \<Longrightarrow> user_range p n demo_ipc"
  by (auto simp: user_range_def valid_range_def in_range_def ipc_cap_def demo_ipc_def)

theorem ipc_write_read_witness:
  "\<exists>s1 s2. ipc_write_func 0x82100005 3 demo_ipc = Some (0, s1)
    \<and> ipc_read_func 0x82300000 3 s1 = Some (3, s2) \<and> mem_at 0x82300000 3 s2 = [5, 6, 7]"
proof -
  have m: "mem_at 0x82100005 3 demo_ipc = [5, 6, 7]"
    by (simp add: mem_at_def demo_ipc_def upt_rec)
  have c: "ipc_cap demo_ipc = 4" by (simp add: ipc_cap_def demo_ipc_def)
  show ?thesis
    using ipc_write_read [OF demo_ipc_holds, of "0x82100005" 3 "0x82300000"]
      demo_ipc_user [of "0x82100005" 3] demo_ipc_user [of "0x82300000" 3]
    by (auto simp: c m)
qed

text \<open>
  C40: a write that does not fit returns -1 although the bytes that did fit are now in the
  channel; a read of more than there is never fails: it fills the rest of the buffer with 255
  and reports the full count.
\<close>

theorem ipc_overflow_underflow:
  assumes "ipc_holds s xs" and "user_range wbuf (unat n) s" and "ipc_cap s < length xs + unat n"
    and "user_range rbuf (unat m) s" and "ipc_cap s \<le> unat m"
  shows "\<exists>s1 s2. ipc_write_func wbuf n s = Some (- 1, s1)
    \<and> ipc_holds s1 (xs @ take (ipc_cap s - length xs) (mem_at wbuf (unat n) s))
    \<and> ipc_read_func rbuf m s1 = Some (m, s2)
    \<and> mem_at rbuf (unat m) s2 = xs @ take (ipc_cap s - length xs) (mem_at wbuf (unat n) s)
          @ replicate (unat m - ipc_cap s) 255 \<and> ipc_holds s2 []"
proof -
  let ?w = "take (ipc_cap s - length xs) (mem_at wbuf (unat n) s)"
  obtain s1 where s1: "ipc_write_loop (unat n) wbuf s = Some (- 1, s1)"
    "ipc_holds s1 (xs @ ?w)" "ipc_place s1 = ipc_place s"
    using ipc_write_loop_ok [OF assms(1), of wbuf "unat n"] assms(2,3) by auto
  have "length xs \<le> ipc_cap s" using assms(1) by (auto simp: ipc_holds_def queue_rel_def ipc_cap_def)
  then have len: "length (xs @ ?w) = ipc_cap s" using assms(3) by (simp add: mem_at_def)
  have "user_range rbuf (unat m) s1" using ipc_place_eq [OF s1(3)] assms(4) by simp
  then obtain s2 where "ipc_read_loop (unat m) rbuf 0 s1 = Some (m, s2)" "ipc_holds s2 []"
    "mem_at rbuf (unat m) s2 = (xs @ ?w) @ replicate (unat m - ipc_cap s) 255"
    using ipc_read_loop_ok [OF s1(2), of rbuf "unat m" 0] len assms(5) by fastforce
  then show ?thesis using s1 by (auto simp: ipc_write_func_def ipc_read_func_def)
qed

theorem ipc_overflow_underflow_witness:
  "\<exists>s1 s2. ipc_write_func 0x82100005 5 demo_ipc = Some (- 1, s1)
    \<and> ipc_read_func 0x82300000 6 s1 = Some (6, s2) \<and> mem_at 0x82300000 6 s2 = [5, 6, 7, 8, 255, 255]"
proof -
  have m: "mem_at 0x82100005 5 demo_ipc = [5, 6, 7, 8, 9]"
    by (simp add: mem_at_def demo_ipc_def upt_rec)
  have c: "ipc_cap demo_ipc = 4" by (simp add: ipc_cap_def demo_ipc_def)
  have r: "replicate 2 (255 :: u8) = [255, 255]" by (simp add: numeral_2_eq_2)
  show ?thesis
    using ipc_overflow_underflow [OF demo_ipc_holds, of "0x82100005" 5 "0x82300000" 6]
      demo_ipc_user [of "0x82100005" 5] demo_ipc_user [of "0x82300000" 6]
    by (auto simp: c m r)
qed

end
