(* ===== verification/Mmu.thy ===== *)
theory Mmu
  imports Ipc
begin

text \<open>
  Page tables: \<^verbatim>\<open>src/src/kernel/mmu.c\<close>.
  A table is 4096 words, one per megabyte of virtual address; every entry the code writes is a
  section descriptor.
  \<open>hw_desc\<close>, \<open>user_reads\<close>, \<open>user_writes\<close> and \<open>section_base\<close> say how the ARM's
  MMU reads a descriptor; the theorems use them to state what a task can reach.
\<close>

section \<open>Descriptors and tables\<close>

abbreviation (input) AP_USER_RW :: u32 where "AP_USER_RW \<equiv> 3"
abbreviation (input) AP_USER_R_ONLY :: u32 where "AP_USER_R_ONLY \<equiv> 2"
abbreviation (input) AP_USER_PROHIBIT :: u32 where "AP_USER_PROHIBIT \<equiv> 1"

definition gen_pte :: "addr \<Rightarrow> u32" where
  "gen_pte paddr = (paddr AND 0xfff00000) OR 0x02"

definition vaddr2L1pteidx :: "addr \<Rightarrow> addr \<Rightarrow> u32" where
  "vaddr2L1pteidx v st = push_bit 2 (drop_bit 20 ((v - st) AND 0xfff00000))"

definition gen_pte_addr :: "addr \<Rightarrow> addr \<Rightarrow> addr" where
  "gen_pte_addr pgt_base vaddr = (pgt_base AND 0xffffc000) OR vaddr2L1pteidx vaddr 0"

definition store_pte :: "addr \<Rightarrow> u32 \<Rightarrow> kstate \<Rightarrow> kstate option" where
  "store_pte a v s = (if a = NULL then None else Some (s\<lparr>ptes := (ptes s)(a := v)\<rparr>))"

text \<open>The local \<^verbatim>\<open>ve\<close> of \<open>pte_init\<close> is computed and never used.\<close>

definition pte_init_body :: "addr \<Rightarrow> u32 \<Rightarrow> addr \<Rightarrow> addr \<Rightarrow> nat \<Rightarrow> kstate \<Rightarrow> kstate option" where
  "pte_init_body vs permision vstart pgt_base i s = do {
     let pte = gen_pte (vs + push_bit 20 (of_nat i));
     let pte = pte OR push_bit 2 0;
     let pte = pte OR push_bit 5 0;
     let pte = pte OR push_bit 10 permision;
     let pte = pte OR push_bit 4 0;
     let pte = pte OR push_bit 16 1;
     let pte_paddr = gen_pte_addr pgt_base (vstart + push_bit 20 (of_nat i));
     s \<leftarrow> store_pte pte_paddr 0 s;
     store_pte pte_paddr pte s
   }"

definition pte_init :: "addr \<Rightarrow> addr \<Rightarrow> u32 \<Rightarrow> addr \<Rightarrow> addr \<Rightarrow> kstate \<Rightarrow> kstate option" where
  "pte_init pstart pend permision vstart pgt_base s =
     for_each (pte_init_body (ROUNDDOWN pstart PAGE_SIZE) permision vstart pgt_base)
       [0..<unat (page_num_cal pstart pend)] s"

definition mem_map :: "kstate \<Rightarrow> kstate option" where
  "mem_map s = do {
     let pgt_base = KERN_PADDR s;
     s \<leftarrow> pte_init 0x00000000 0x80000000 AP_USER_PROHIBIT 0x00000000 pgt_base s;
     s \<leftarrow> pte_init 0x80000000 0x82000000 AP_USER_PROHIBIT 0x80000000 pgt_base s;
     s \<leftarrow> pte_init 0x82000000 0x82100000 AP_USER_R_ONLY 0x82000000 pgt_base s;
     s \<leftarrow> pte_init 0x82100000 0x90000000 AP_USER_R_ONLY 0x82100000 pgt_base s;
     s \<leftarrow> pte_init 0x90000000 0x9df00000 AP_USER_R_ONLY 0x90000000 pgt_base s;
     pte_init 0x9df00000 0xa0000000 AP_USER_R_ONLY 0x9df00000 pgt_base s
   }"

section \<open>CP15\<close>

definition invalidate_tlb :: "kstate \<Rightarrow> kstate" where
  "invalidate_tlb s = s\<lparr>tlb := Map.empty\<rparr>"

definition mmu_enable :: "kstate \<Rightarrow> kstate" where
  "mmu_enable s = s\<lparr>sctlr := sctlr s OR 0x01\<rparr>"

definition mmu_disable :: "kstate \<Rightarrow> kstate" where
  "mmu_disable s = s\<lparr>sctlr := sctlr s AND NOT 0x01\<rparr>"

definition set_pgt_base :: "kstate \<Rightarrow> kstate" where
  "set_pgt_base s = s\<lparr>ttbr0 := KERN_PADDR s\<rparr>"

definition get_pgt_base :: "kstate \<Rightarrow> u32" where
  "get_pgt_base s = ttbr0 s"

definition set_domain :: "kstate \<Rightarrow> kstate" where
  "set_domain s = s\<lparr>dacr := 0x00000001\<rparr>"

definition get_domain :: "kstate \<Rightarrow> u32" where
  "get_domain s = dacr s"

definition pgt_base_setup :: "addr \<Rightarrow> kstate \<Rightarrow> kstate" where
  "pgt_base_setup base s = s\<lparr>ttbr0 := base\<rparr>"

definition mmu_init :: "kstate \<Rightarrow> kstate option" where
  "mmu_init s = do {
     let s = mmu_disable (invalidate_tlb s);
     s \<leftarrow> mem_map s;
     Some (mmu_enable (set_pgt_base (set_domain s)))
   }"

section \<open>Task tables\<close>

definition task_pgt_setup :: "addr \<Rightarrow> addr \<Rightarrow> kstate \<Rightarrow> (addr \<times> kstate) option" where
  "task_pgt_setup pstart pend s = do {
     (pgt_base, s) \<leftarrow> kblk_alloc FOR_KERN s;
     s \<leftarrow> pte_init 0x40000000 0x60000000 AP_USER_PROHIBIT 0x40000000 pgt_base s;
     s \<leftarrow> pte_init 0x82000000 0x82100000 AP_USER_R_ONLY 0x82000000 pgt_base s;
     s \<leftarrow> pte_init 0x82100000 0xa0000000 AP_USER_PROHIBIT 0x82100000 pgt_base s;
     s \<leftarrow> pte_init pstart pend AP_USER_RW pstart pgt_base s;
     Some (pgt_base, s)
   }"

definition set_pte :: "addr \<Rightarrow> addr \<Rightarrow> addr \<Rightarrow> kstate \<Rightarrow> kstate option" where
  "set_pte pstart pend pgt_base s = pte_init pstart pend AP_USER_RW pstart pgt_base s"

definition switch_mm :: "addr \<Rightarrow> kstate \<Rightarrow> kstate" where
  "switch_mm base s = pgt_base_setup base (invalidate_tlb s)"

section \<open>How the MMU reads a table\<close>

text \<open>
  The first-level descriptor of section \<open>k\<close> (the address bits 31 to 20), and what an access
  with it may do when the domain is a client: bits 1 and 0 are 10 for a section, bits 11 and 10
  are the access permissions.
\<close>

definition hw_desc :: "kstate \<Rightarrow> u32 \<Rightarrow> u32" where
  "hw_desc s k = (case tlb s k of Some d \<Rightarrow> d | None \<Rightarrow> ptes s ((ttbr0 s AND 0xffffc000) OR push_bit 2 k))"

definition is_section :: "u32 \<Rightarrow> bool" where
  "is_section d \<longleftrightarrow> d AND 3 = 2"

definition user_reads :: "u32 \<Rightarrow> bool" where
  "user_reads d \<longleftrightarrow> is_section d \<and> (drop_bit 10 d AND 3 = 2 \<or> drop_bit 10 d AND 3 = 3)"

definition user_writes :: "u32 \<Rightarrow> bool" where
  "user_writes d \<longleftrightarrow> is_section d \<and> drop_bit 10 d AND 3 = 3"

definition section_base :: "u32 \<Rightarrow> addr" where
  "section_base d = d AND 0xfff00000"

text \<open>The descriptor that maps section \<open>k\<close> to itself with permission \<open>ap\<close>.\<close>

definition section_of :: "nat \<Rightarrow> addr" where
  "section_of k = of_nat k * 0x100000"

definition identity_desc :: "nat \<Rightarrow> u32 \<Rightarrow> u32" where
  "identity_desc k ap = section_of k OR 0x10002 OR push_bit 10 ap"

definition entry :: "addr \<Rightarrow> nat \<Rightarrow> addr" where
  "entry base k = base + of_nat k * 4"

lemma high_mask: "(0xfff00000 :: u32) = NOT (mask 20)"
  by (simp add: mask_eq_exp_minus_1)

lemma table_mask: "(0xffffc000 :: u32) = NOT (mask 14)"
  by (simp add: mask_eq_exp_minus_1)

lemma section_of_push: "section_of k = push_bit 20 (of_nat k)"
  by (simp add: section_of_def push_bit_eq_mult)

lemma section_mask: "section_of k AND 0xfff00000 = section_of k"
  unfolding high_mask section_of_push by (rule bit_eqI) (auto simp: bit_simps)

lemma bit_lt: "k < 2 ^ n \<Longrightarrow> bit (k :: nat) i \<Longrightarrow> i < n"
  by (metis bit_take_bit_iff take_bit_nat_eq_self)

lemma drop_section: "k < 4096 \<Longrightarrow> drop_bit 20 (section_of k) = of_nat k"
  unfolding section_of_push
  by (rule bit_word_eqI) (use bit_lt [of k 12] in \<open>auto simp: bit_simps\<close>)

definition table_ok :: "addr \<Rightarrow> bool" where
  "table_ok base \<longleftrightarrow> base \<noteq> NULL \<and> base AND mask 14 = 0"

lemma index_small: "k < 4096 \<Longrightarrow> push_bit 2 (of_nat k :: u32) AND mask 14 = push_bit 2 (of_nat k)"
  by (rule bit_word_eqI) (auto simp: bit_simps dest: bit_lt [of k 12, simplified])

lemma table_index_or:
  assumes "table_ok base" and "k < 4096"
  shows "(base AND 0xffffc000) OR push_bit 2 (of_nat k) = entry base k"
proof -
  have b: "base AND NOT (mask 14) = base"
  proof (rule bit_word_eqI)
    fix n assume n: "n < LENGTH(32)"
    have "bit (base AND mask 14) n = False" using assms(1) by (simp add: table_ok_def)
    then show "bit (base AND NOT (mask 14)) n = bit base n" using n by (auto simp: bit_simps)
  qed
  have "base AND push_bit 2 (of_nat k) = base AND (push_bit 2 (of_nat k) AND mask 14)"
    by (simp only: index_small [OF assms(2)])
  also have "\<dots> = (base AND mask 14) AND push_bit 2 (of_nat k)" by (simp only: ac_simps)
  also have "\<dots> = 0" using assms(1) by (simp add: table_ok_def)
  finally have "base + push_bit 2 (of_nat k) = base OR push_bit 2 (of_nat k)"
    by (rule disjunctive_add_eq_or)
  then show ?thesis unfolding table_mask b by (simp add: entry_def push_bit_eq_mult)
qed

lemma gen_pte_addr_section:
  assumes "table_ok base" and "k < 4096"
  shows "gen_pte_addr base (section_of k) = entry base k"
  using table_index_or [OF assms]
  by (simp add: gen_pte_addr_def vaddr2L1pteidx_def section_mask drop_section [OF assms(2)])

lemma table_unat:
  assumes "table_ok base"
  shows "unat base + 0x4000 \<le> 2 ^ 32"
proof -
  have "take_bit 14 base = 0" using assms by (simp add: table_ok_def take_bit_eq_mask)
  then have "unat base mod 2 ^ 14 = 0"
    by (metis take_bit_eq_mod unat_0 unsigned_take_bit_eq take_bit_eq_mod unsigned_0)
  moreover have "unat base < 2 ^ 32" using unsigned_less [of base] by simp
  ultimately show ?thesis by auto
qed

lemma entry_unat:
  assumes "table_ok base" and "k < 4096"
  shows "unat (entry base k) = unat base + k * 4"
  using unat_array [of base k 4 k] table_unat [OF assms(1)] assms(2) by (simp add: entry_def)

lemma entry_inj:
  assumes "table_ok base" and "k < 4096" and "j < 4096"
  shows "entry base k = entry base j \<longleftrightarrow> k = j"
  using entry_unat [OF assms(1,2)] entry_unat [OF assms(1,3)]
  by (metis add_left_cancel mult_cancel2 zero_neq_numeral)

lemma entry_non_NULL:
  assumes "table_ok base" and "k < 4096"
  shows "entry base k \<noteq> NULL"
proof
  assume "entry base k = NULL"
  then have "unat base = 0" using entry_unat [OF assms] by simp
  then show False using assms(1) by (simp add: table_ok_def unat_eq_zero)
qed

section \<open>What pte_init writes\<close>

lemma identity_pte:
  "((((gen_pte (section_of k) OR push_bit 2 0) OR push_bit 5 0) OR push_bit 10 ap) OR push_bit 4 0) OR push_bit 16 1
     = identity_desc k ap"
proof -
  have eqs: "(0x10002 :: u32) = 0x2 OR 0x10000" "push_bit 16 (1 :: u32) = 0x10000" by simp_all
  show ?thesis
    unfolding identity_desc_def eqs
    by (simp only: gen_pte_def section_mask push_bit_of_0 or.right_neutral or.left_neutral or.assoc
        or.commute or.left_commute)
qed

lemma section_of_add: "section_of k + push_bit 20 (of_nat i) = section_of (k + i)"
  by (simp add: section_of_def push_bit_eq_mult distrib_right)

lemma pte_init_loop:
  assumes base: "table_ok base" and n: "k + n \<le> 4096"
  shows "\<exists>m. for_each (pte_init_body (section_of k) ap (section_of k) base) [0..<n] s = Some (s\<lparr>ptes := m\<rparr>)
    \<and> (\<forall>j < 4096. m (entry base j) =
         (if k \<le> j \<and> j < k + n then identity_desc j ap else ptes s (entry base j)))
    \<and> (\<forall>a. a \<notin> entry base ` {k..<k + n} \<longrightarrow> m a = ptes s a)"
  using n
proof (induction n)
  case 0
  show ?case by (rule exI [of _ "ptes s"]) auto
next
  case (Suc n)
  then obtain m where m: "for_each (pte_init_body (section_of k) ap (section_of k) base) [0..<n] s
      = Some (s\<lparr>ptes := m\<rparr>)"
    "\<forall>j < 4096. m (entry base j) = (if k \<le> j \<and> j < k + n then identity_desc j ap else ptes s (entry base j))"
    "\<forall>a. a \<notin> entry base ` {k..<k + n} \<longrightarrow> m a = ptes s a" by auto
  have lt: "k + n < 4096" using Suc.prems by simp
  define m' where "m' = m(entry base (k + n) := identity_desc (k + n) ap)"
  have "pte_init_body (section_of k) ap (section_of k) base n (s\<lparr>ptes := m\<rparr>) = Some (s\<lparr>ptes := m'\<rparr>)"
    unfolding pte_init_body_def Let_def section_of_add identity_pte gen_pte_addr_section [OF base lt]
    using entry_non_NULL [OF base lt] by (simp add: store_pte_def m'_def)
  then have "for_each (pte_init_body (section_of k) ap (section_of k) base) [0..<Suc n] s = Some (s\<lparr>ptes := m'\<rparr>)"
    using m(1) by (simp add: for_each_append)
  moreover have "\<forall>j < 4096. m' (entry base j) =
      (if k \<le> j \<and> j < k + Suc n then identity_desc j ap else ptes s (entry base j))"
    using m(2) entry_inj [OF base _ lt] by (auto simp: m'_def)
  moreover have "\<forall>a. a \<notin> entry base ` {k..<k + Suc n} \<longrightarrow> m' a = ptes s a"
    using m(3) by (auto simp: m'_def atLeastLessThanSuc)
  ultimately show ?case by blast
qed

text \<open>
  Mapping the sections \<open>k\<close> to \<open>k + n - 1\<close> onto themselves; \<open>hi\<close> is any end address
  that \<open>page_num_cal\<close> rounds up to \<open>n\<close> sections.
\<close>

definition table_map :: "kstate \<Rightarrow> addr \<Rightarrow> nat \<Rightarrow> u32" where
  "table_map s base j = ptes s (entry base j)"

lemma pte_init_ok:
  assumes base: "table_ok base" and lo: "pstart = section_of k" and n: "unat (page_num_cal pstart pend) = n"
    and le: "k + n \<le> 4096"
  shows "\<exists>m. pte_init pstart pend ap pstart base s = Some (s\<lparr>ptes := m\<rparr>)
    \<and> (\<forall>j < 4096. m (entry base j) =
         (if k \<le> j \<and> j < k + n then identity_desc j ap else ptes s (entry base j)))
    \<and> (\<forall>a. a \<notin> entry base ` {k..<k + n} \<longrightarrow> m a = ptes s a)"
proof (cases "n = 0")
  case True
  then show ?thesis using n by (intro exI [of _ "ptes s"]) (auto simp: pte_init_def)
next
  case False
  then have k: "k < 4096" using le by simp
  have "unat (section_of k) = k * 0x100000"
    using unat_array [of 0 k "0x100000" k] k by (simp add: section_of_def)
  then have "ROUNDDOWN pstart PAGE_SIZE = section_of k"
    unfolding lo by (intro ROUNDDOWN_eqI) simp_all
  then show ?thesis using pte_init_loop [OF base le, of ap s] n lo by (simp add: pte_init_def)
qed

section \<open>What the descriptors permit\<close>

lemma mask2: "(3 :: u32) = mask 2"
  by (simp add: mask_eq_exp_minus_1)

lemma section_low:
  "section_of k AND 3 = 0" "push_bit 10 (ap :: u32) AND 3 = 0" "drop_bit 10 (section_of k) AND 3 = 0"
  unfolding section_of_push mask2 by (rule bit_word_eqI; auto simp: bit_simps)+

lemma identity_desc_section: "is_section (identity_desc k ap)"
  by (simp add: is_section_def identity_desc_def bit.conj_disj_distrib2 section_low)

lemma identity_desc_ap: "ap \<in> {1, 2, 3} \<Longrightarrow> drop_bit 10 (identity_desc k ap) AND 3 = ap"
  by (auto simp: identity_desc_def bit.conj_disj_distrib2 section_low)

lemma identity_desc_base: "ap \<in> {1, 2, 3} \<Longrightarrow> section_base (identity_desc k ap) = section_of k"
  by (auto simp: section_base_def identity_desc_def bit.conj_disj_distrib2 section_mask)

lemma identity_desc_access:
  "user_writes (identity_desc k 3)" "user_reads (identity_desc k 3)"
  "\<not> user_writes (identity_desc k 2)" "user_reads (identity_desc k 2)"
  "\<not> user_writes (identity_desc k 1)" "\<not> user_reads (identity_desc k 1)"
  using identity_desc_ap [of 3 k] identity_desc_ap [of 2 k] identity_desc_ap [of 1 k]
  by (simp_all add: user_writes_def user_reads_def identity_desc_section)

text \<open>One task page spans one section.\<close>

lemma frame_pages:
  assumes "p < 4095"
  shows "unat (page_num_cal (section_of p) (section_of p + 0xFFFFC)) = 1"
proof -
  have up: "unat (section_of p) = p * 0x100000"
    using unat_array [of 0 p "0x100000" p] assms by (simp add: section_of_def)
  have ue: "unat (section_of p + 0xFFFFC) = p * 0x100000 + 0xFFFFC"
    using unat_array [of "section_of p" 1 "0xFFFFC" 1] up assms by simp
  have "ROUNDDOWN (section_of p) PAGE_SIZE = section_of p"
    using up by (intro ROUNDDOWN_eqI) simp_all
  moreover have "unat (ROUNDUP (section_of p + 0xFFFFC) PAGE_SIZE) = (p * 0x100000 + 0x1FFFFB) div 0x100000 * 0x100000"
    using unat_ROUNDUP [of PAGE_SIZE "section_of p + 0xFFFFC"] ue assms by simp
  then have "unat (ROUNDUP (section_of p + 0xFFFFC) PAGE_SIZE) = p * 0x100000 + 0x100000" by simp
  moreover have "unat (ROUNDUP (section_of p + 0xFFFFC) PAGE_SIZE - section_of p)
      = unat (ROUNDUP (section_of p + 0xFFFFC) PAGE_SIZE) - unat (section_of p)"
    using calculation up by (simp add: unat_sub word_le_nat_alt)
  ultimately have "unat (ROUNDUP (section_of p + 0xFFFFC) PAGE_SIZE - section_of p) = 0x100000"
    using up by simp
  then show ?thesis
    using \<open>ROUNDDOWN (section_of p) PAGE_SIZE = section_of p\<close>
    by (simp add: page_num_cal_def unat_drop_bit_eq drop_bit_eq_div unat_div)
qed

section \<open>The task's table\<close>

text \<open>The permission with which the table of the task in frame \<open>p\<close> maps section \<open>k\<close>.\<close>

definition task_ap :: "nat \<Rightarrow> nat \<Rightarrow> u32 option" where
  "task_ap p k =
     (if k = p then Some AP_USER_RW
      else if 0x400 \<le> k \<and> k < 0x600 then Some AP_USER_PROHIBIT
      else if k = 0x820 then Some AP_USER_R_ONLY
      else if 0x821 \<le> k \<and> k < 0xa00 then Some AP_USER_PROHIBIT
      else None)"

lemma task_ptes_ok:
  assumes base: "table_ok base" and p: "0x821 \<le> p" "p < 0xa00"
  shows "\<exists>m. do {
       s \<leftarrow> pte_init 0x40000000 0x60000000 AP_USER_PROHIBIT 0x40000000 base s;
       s \<leftarrow> pte_init 0x82000000 0x82100000 AP_USER_R_ONLY 0x82000000 base s;
       s \<leftarrow> pte_init 0x82100000 0xa0000000 AP_USER_PROHIBIT 0x82100000 base s;
       pte_init (section_of p) (section_of p + 0xFFFFC) AP_USER_RW (section_of p) base s
     } = Some (s\<lparr>ptes := m\<rparr>)
    \<and> (\<forall>k < 4096. m (entry base k) =
         (case task_ap p k of Some ap \<Rightarrow> identity_desc k ap | None \<Rightarrow> ptes s (entry base k)))
    \<and> (\<forall>a. a \<notin> entry base ` {0x400..<0xa00} \<longrightarrow> m a = ptes s a)"
proof -
  obtain m1 where m1: "pte_init 0x40000000 0x60000000 1 0x40000000 base s = Some (s\<lparr>ptes := m1\<rparr>)"
    "\<forall>j < 4096. m1 (entry base j) = (if 0x400 \<le> j \<and> j < 0x600 then identity_desc j 1 else ptes s (entry base j))"
    "\<forall>a. a \<notin> entry base ` {0x400..<0x600} \<longrightarrow> m1 a = ptes s a"
    using pte_init_ok [OF base, of "0x40000000" "0x400" "0x60000000" "0x200" 1 s]
    by (auto simp: section_of_def page_num_cal_def ROUNDUP_def ROUNDDOWN_def)
  obtain m2 where m2: "pte_init 0x82000000 0x82100000 2 0x82000000 base (s\<lparr>ptes := m1\<rparr>) = Some (s\<lparr>ptes := m2\<rparr>)"
    "\<forall>j < 4096. m2 (entry base j) = (if 0x820 \<le> j \<and> j < 0x821 then identity_desc j 2 else m1 (entry base j))"
    "\<forall>a. a \<notin> entry base ` {0x820..<0x821} \<longrightarrow> m2 a = m1 a"
    using pte_init_ok [OF base, of "0x82000000" "0x820" "0x82100000" 1 2 "s\<lparr>ptes := m1\<rparr>"]
    by (auto simp: section_of_def page_num_cal_def ROUNDUP_def ROUNDDOWN_def)
  obtain m3 where m3: "pte_init 0x82100000 0xa0000000 1 0x82100000 base (s\<lparr>ptes := m2\<rparr>) = Some (s\<lparr>ptes := m3\<rparr>)"
    "\<forall>j < 4096. m3 (entry base j) = (if 0x821 \<le> j \<and> j < 0xa00 then identity_desc j 1 else m2 (entry base j))"
    "\<forall>a. a \<notin> entry base ` {0x821..<0xa00} \<longrightarrow> m3 a = m2 a"
    using pte_init_ok [OF base, of "0x82100000" "0x821" "0xa0000000" "0x1df" 1 "s\<lparr>ptes := m2\<rparr>"]
    by (auto simp: section_of_def page_num_cal_def ROUNDUP_def ROUNDDOWN_def)
  obtain m4 where m4: "pte_init (section_of p) (section_of p + 0xFFFFC) 3 (section_of p) base (s\<lparr>ptes := m3\<rparr>)
      = Some (s\<lparr>ptes := m4\<rparr>)"
    "\<forall>j < 4096. m4 (entry base j) = (if p \<le> j \<and> j < p + 1 then identity_desc j 3 else m3 (entry base j))"
    "\<forall>a. a \<notin> entry base ` {p..<p + 1} \<longrightarrow> m4 a = m3 a"
    using pte_init_ok [OF base refl frame_pages [of p], of 3 "s\<lparr>ptes := m3\<rparr>"] p by auto
  have "\<forall>k < 4096. m4 (entry base k) =
      (case task_ap p k of Some ap \<Rightarrow> identity_desc k ap | None \<Rightarrow> ptes s (entry base k))"
    using m1(2) m2(2) m3(2) m4(2) p by (auto simp: task_ap_def)
  moreover have "\<forall>a. a \<notin> entry base ` {0x400..<0xa00} \<longrightarrow> m4 a = ptes s a"
  proof (intro allI impI)
    fix a assume a: "a \<notin> entry base ` {0x400..<0xa00}"
    have out: "a \<notin> entry base ` A" if "A \<subseteq> {0x400..<0xa00}" for A using a that by blast
    have "m4 a = m3 a" using m4(3) out [of "{p..<p + 1}"] p by simp
    also have "\<dots> = m2 a" using m3(3) out [of "{0x821..<0xa00}"] by simp
    also have "\<dots> = m1 a" using m2(3) out [of "{0x820..<0x821}"] by simp
    also have "\<dots> = ptes s a" using m1(3) out [of "{0x400..<0x600}"] by simp
    finally show "m4 a = ptes s a" .
  qed
  ultimately show ?thesis using m1(1) m2(1) m3(1) m4(1) by auto
qed

lemma task_pgt_setup_ok:
  assumes pool: "kblks_ok s (b # c # bs)" "links b_start (blk_heap s) b = Some base" "table_ok base"
    and p: "0x821 \<le> p" "p < 0xa00"
  shows "\<exists>t m. kblk_alloc FOR_KERN s = Some (base, t) \<and> kblks_ok t (c # bs)
    \<and> task_pgt_setup (section_of p) (section_of p + 0xFFFFC) s = Some (base, t\<lparr>ptes := m\<rparr>)
    \<and> (\<forall>k < 4096. m (entry base k) =
         (case task_ap p k of Some ap \<Rightarrow> identity_desc k ap | None \<Rightarrow> ptes s (entry base k)))
    \<and> (\<forall>a. a \<notin> entry base ` {0x400..<0xa00} \<longrightarrow> m a = ptes s a)"
proof -
  obtain w x t where t: "blk_heap s b = Some w" "kblk_alloc FOR_KERN s = Some (b_start w, t)"
    "kblks_ok t (c # bs)" "t = s\<lparr>kpage := (kpage s)\<lparr>blk_list_head := c\<rparr>,
             blk_heap := (blk_heap s)(c \<mapsto> x\<lparr>b_prev := NULL\<rparr>,
                b \<mapsto> w\<lparr>b_next := NULL, b_prev := NULL, b_status := FOR_KERN\<rparr>)\<rparr>"
    using kblk_alloc_ok [OF pool(1)] by blast
  have bs: "b_start w = base" using t(1) pool(2) by simp
  have pt: "ptes t = ptes s" using t(4) by simp
  obtain m where m: "do {
       s \<leftarrow> pte_init 0x40000000 0x60000000 AP_USER_PROHIBIT 0x40000000 base t;
       s \<leftarrow> pte_init 0x82000000 0x82100000 AP_USER_R_ONLY 0x82000000 base s;
       s \<leftarrow> pte_init 0x82100000 0xa0000000 AP_USER_PROHIBIT 0x82100000 base s;
       pte_init (section_of p) (section_of p + 0xFFFFC) AP_USER_RW (section_of p) base s
     } = Some (t\<lparr>ptes := m\<rparr>)"
    "\<forall>k < 4096. m (entry base k) =
         (case task_ap p k of Some ap \<Rightarrow> identity_desc k ap | None \<Rightarrow> ptes s (entry base k))"
    "\<forall>a. a \<notin> entry base ` {0x400..<0xa00} \<longrightarrow> m a = ptes s a"
    using task_ptes_ok [OF pool(3) p, of t] unfolding pt by blast
  have "task_pgt_setup (section_of p) (section_of p + 0xFFFFC) s = Some (base, t\<lparr>ptes := m\<rparr>)"
    using t(2) m(1) by (auto simp: task_pgt_setup_def bs bind_eq_Some_conv)
  then show ?thesis using t(2,3) m(2,3) bs by blast
qed

lemma hw_desc_switch:
  assumes "table_ok base" and "k < 4096"
  shows "hw_desc (switch_mm base s) (of_nat k) = ptes s (entry base k)"
  using table_index_or [OF assms]
  by (simp add: hw_desc_def switch_mm_def pgt_base_setup_def invalidate_tlb_def)

section \<open>The kernel's table\<close>

lemma KERN_PADDR_table:
  assumes "0x82000000 \<le> unat (kernal_end s)" and "unat (kernal_end s) \<le> 0x820d0000"
  shows "table_ok (KERN_PADDR s)" and "unat (KERN_PADDR s) + 0x4000 \<le> 2 ^ 32"
proof -
  have "unat (kernal_end s) + unat (0x10000 :: u32) \<le> 2 ^ 32" using assms(2) by simp
  then have b: "unat (KERN_PADDR s) < unat (kernal_end s) + 0x10000"
    "unat (kernal_end s) \<le> unat (KERN_PADDR s)" "unat (KERN_PADDR s) mod 65536 = 0"
    using ROUNDUP_bounds [of "0x10000" "kernal_end s"] by (simp_all add: KERN_PADDR_def)
  have "unat (KERN_PADDR s) mod 2 ^ 14 = 0"
    using b(3) mod_mod_cancel [of "2 ^ 14" 65536 "unat (KERN_PADDR s)"] by simp
  then have "unat (take_bit 14 (KERN_PADDR s)) = 0" by (simp add: take_bit_eq_mod unat_mod)
  then have "KERN_PADDR s AND mask 14 = 0" by (simp add: unat_eq_zero take_bit_eq_mask)
  moreover have "KERN_PADDR s \<noteq> NULL" using b(2) assms(1) by auto
  ultimately show "table_ok (KERN_PADDR s)" by (simp add: table_ok_def)
  then show "unat (KERN_PADDR s) + 0x4000 \<le> 2 ^ 32" by (rule table_unat)
qed

definition kernel_ap :: "nat \<Rightarrow> u32" where
  "kernel_ap k = (if k < 0x820 then AP_USER_PROHIBIT else AP_USER_R_ONLY)"

text \<open>One more range mapped by \<open>mem_map\<close>: the sections below \<open>k\<close> are done.\<close>

definition mapped_to :: "kstate \<Rightarrow> nat \<Rightarrow> kstate \<Rightarrow> bool" where
  "mapped_to s k t \<longleftrightarrow> (\<exists>m. t = s\<lparr>ptes := m\<rparr>
     \<and> (\<forall>j < k. m (entry (KERN_PADDR s) j) = identity_desc j (kernel_ap j))
     \<and> (\<forall>a. a \<notin> entry (KERN_PADDR s) ` {..<k} \<longrightarrow> m a = ptes s a))"

lemma KERN_PADDR_ptes [simp]: "KERN_PADDR (s\<lparr>ptes := m\<rparr>) = KERN_PADDR s"
  by (simp add: KERN_PADDR_def)

lemma mapped_step:
  assumes base: "table_ok (KERN_PADDR s)" and t: "mapped_to s k t" and lo: "lo = section_of k"
    and n: "unat (page_num_cal lo hi) = n" "k + n \<le> 4096"
    and ap: "\<forall>j. k \<le> j \<and> j < k + n \<longrightarrow> kernel_ap j = ap"
  shows "\<exists>t'. pte_init lo hi ap lo (KERN_PADDR s) t = Some t' \<and> mapped_to s (k + n) t'"
proof -
  let ?e = "entry (KERN_PADDR s)"
  obtain m where m: "t = s\<lparr>ptes := m\<rparr>" "\<forall>j < k. m (?e j) = identity_desc j (kernel_ap j)"
    "\<forall>a. a \<notin> ?e ` {..<k} \<longrightarrow> m a = ptes s a" using t by (auto simp: mapped_to_def)
  obtain m' where m': "pte_init lo hi ap lo (KERN_PADDR s) t = Some (t\<lparr>ptes := m'\<rparr>)"
    "\<forall>j < 4096. m' (?e j) = (if k \<le> j \<and> j < k + n then identity_desc j ap else m (?e j))"
    "\<forall>a. a \<notin> ?e ` {k..<k + n} \<longrightarrow> m' a = m a"
    using pte_init_ok [OF base lo n, of ap t] m(1) by auto
  have "\<forall>j < k + n. m' (?e j) = identity_desc j (kernel_ap j)"
    using m'(2) m(2) ap n(2) by auto
  moreover have "\<forall>a. a \<notin> ?e ` {..<k + n} \<longrightarrow> m' a = ptes s a"
    using m'(3) m(3) by (auto simp: image_iff)
  ultimately have "mapped_to s (k + n) (s\<lparr>ptes := m'\<rparr>)" by (auto simp: mapped_to_def)
  then show ?thesis using m'(1) m(1) by simp
qed

lemma mem_map_ok:
  assumes base: "table_ok (KERN_PADDR s)"
  shows "\<exists>t. mem_map s = Some t \<and> mapped_to s 0xa00 t"
proof -
  note calc = section_of_def page_num_cal_def ROUNDUP_def ROUNDDOWN_def
  have "mapped_to s 0 s" by (auto simp: mapped_to_def intro: exI [of _ "ptes s"])
  then obtain t1 where t1: "pte_init 0 0x80000000 1 0 (KERN_PADDR s) s = Some t1" "mapped_to s 0x800 t1"
    using mapped_step [OF base, of 0 s 0 "0x80000000" "0x800" 1] by (auto simp: calc kernel_ap_def)
  then obtain t2 where t2: "pte_init 0x80000000 0x82000000 1 0x80000000 (KERN_PADDR s) t1 = Some t2"
    "mapped_to s 0x820 t2"
    using mapped_step [OF base, of "0x800" t1 "0x80000000" "0x82000000" "0x20" 1]
    by (auto simp: calc kernel_ap_def)
  then obtain t3 where t3: "pte_init 0x82000000 0x82100000 2 0x82000000 (KERN_PADDR s) t2 = Some t3"
    "mapped_to s 0x821 t3"
    using mapped_step [OF base, of "0x820" t2 "0x82000000" "0x82100000" 1 2]
    by (auto simp: calc kernel_ap_def)
  then obtain t4 where t4: "pte_init 0x82100000 0x90000000 2 0x82100000 (KERN_PADDR s) t3 = Some t4"
    "mapped_to s 0x900 t4"
    using mapped_step [OF base, of "0x821" t3 "0x82100000" "0x90000000" "0xdf" 2]
    by (auto simp: calc kernel_ap_def)
  then obtain t5 where t5: "pte_init 0x90000000 0x9df00000 2 0x90000000 (KERN_PADDR s) t4 = Some t5"
    "mapped_to s 0x9df t5"
    using mapped_step [OF base, of "0x900" t4 "0x90000000" "0x9df00000" "0xdf" 2]
    by (auto simp: calc kernel_ap_def)
  then obtain t6 where t6: "pte_init 0x9df00000 0xa0000000 2 0x9df00000 (KERN_PADDR s) t5 = Some t6"
    "mapped_to s 0xa00 t6"
    using mapped_step [OF base, of "0x9df" t5 "0x9df00000" "0xa0000000" "0x21" 2]
    by (auto simp: calc kernel_ap_def)
  show ?thesis using t1(1) t2(1) t3(1) t4(1) t5(1) t6 by (simp add: mem_map_def)
qed

section \<open>Properties\<close>

text \<open>
  C23: \<open>mmu_init\<close> turns the MMU on over a table that maps every section below 0xa0000000 to
  itself, closed to user code below the kernel at 0x82000000 and read-only from there on; it
  writes nothing outside the 2560 words it reserves at \<open>KERN_PADDR\<close>.
\<close>

theorem kernel_map_identity:
  assumes "0x82000000 \<le> unat (kernal_end s)" and "unat (kernal_end s) \<le> 0x820d0000"
  shows "\<exists>s'. mmu_init s = Some s' \<and> ttbr0 s' = KERN_PADDR s \<and> dacr s' = 1 \<and> sctlr s' = sctlr s OR 1
    \<and> (\<forall>k < 0xa00. section_base (hw_desc s' (of_nat k)) = section_of k
         \<and> \<not> user_writes (hw_desc s' (of_nat k))
         \<and> (user_reads (hw_desc s' (of_nat k)) \<longleftrightarrow> 0x820 \<le> k))
    \<and> (\<forall>a. \<not> (unat (KERN_PADDR s) \<le> unat a \<and> unat a < unat (KERN_PADDR s) + 0x2800)
         \<longrightarrow> ptes s' a = ptes s a)"
proof -
  define u where "u = mmu_disable (invalidate_tlb s)"
  have K: "KERN_PADDR u = KERN_PADDR s"
    by (simp add: u_def mmu_disable_def invalidate_tlb_def KERN_PADDR_def)
  have base: "table_ok (KERN_PADDR u)" using KERN_PADDR_table(1) [OF assms] K by simp
  obtain m where m: "mem_map u = Some (u\<lparr>ptes := m\<rparr>)"
    "\<forall>j < 0xa00. m (entry (KERN_PADDR s) j) = identity_desc j (kernel_ap j)"
    "\<forall>a. a \<notin> entry (KERN_PADDR s) ` {..<0xa00} \<longrightarrow> m a = ptes s a"
    using mem_map_ok [OF base] by (auto simp: mapped_to_def K) (simp add: u_def mmu_disable_def invalidate_tlb_def)
  define s' where "s' = mmu_enable (set_pgt_base (set_domain (u\<lparr>ptes := m\<rparr>)))"
  have run: "mmu_init s = Some s'" using m(1) by (simp add: mmu_init_def u_def s'_def)
  have "(sctlr s AND NOT 1) OR 1 = sctlr s OR 1"
    by (rule bit_word_eqI) (auto simp: bit_simps)
  then have regs: "ttbr0 s' = KERN_PADDR s" "dacr s' = 1" "sctlr s' = sctlr s OR 1" "ptes s' = m" "tlb s' = Map.empty"
    using K by (simp_all add: s'_def u_def mmu_enable_def set_pgt_base_def set_domain_def mmu_disable_def
        invalidate_tlb_def KERN_PADDR_def)
  have "hw_desc s' (of_nat k) = identity_desc k (kernel_ap k)" if "k < 0xa00" for k
    using table_index_or [OF base, of k] m(2) that regs K by (simp add: hw_desc_def)
  then have "\<forall>k < 0xa00. section_base (hw_desc s' (of_nat k)) = section_of k
         \<and> \<not> user_writes (hw_desc s' (of_nat k))
         \<and> (user_reads (hw_desc s' (of_nat k)) \<longleftrightarrow> 0x820 \<le> k)"
    by (auto simp: kernel_ap_def identity_desc_access identity_desc_base)
  moreover have "a \<notin> entry (KERN_PADDR s) ` {..<0xa00}"
    if "\<not> (unat (KERN_PADDR s) \<le> unat a \<and> unat a < unat (KERN_PADDR s) + 0x2800)" for a
    using that entry_unat [OF base [unfolded K]] by auto
  ultimately show ?thesis using run regs m(3) by blast
qed

theorem kernel_map_identity_witness:
  "\<exists>s'. mmu_init zero_state = Some s' \<and> ttbr0 s' = 0x82020000
    \<and> section_base (hw_desc s' 0x820) = 0x82000000 \<and> \<not> user_writes (hw_desc s' 0x820)"
proof -
  obtain s' where s': "mmu_init zero_state = Some s'" "ttbr0 s' = KERN_PADDR zero_state"
    "\<forall>k < 0xa00. section_base (hw_desc s' (of_nat k)) = section_of k
         \<and> \<not> user_writes (hw_desc s' (of_nat k))
         \<and> (user_reads (hw_desc s' (of_nat k)) \<longleftrightarrow> 0x820 \<le> k)"
    using kernel_map_identity [of zero_state] by (auto simp: zero_state_def)
  then show ?thesis
    using s'(3) [rule_format, of "0x820"]
    by (simp add: section_of_def KERN_PADDR_def ROUNDUP_def ROUNDDOWN_def zero_state_def)
qed

text \<open>The sections that \<open>task_pgt_setup\<close> maps: devices, and the memory of the kernel and the tasks.\<close>

definition set_up :: "nat \<Rightarrow> bool" where
  "set_up k \<longleftrightarrow> 0x400 \<le> k \<and> k < 0x600 \<or> 0x820 \<le> k \<and> k < 0xa00"

text \<open>
  C1: which of the 4096 sections user code reaches when the table that \<open>task_pgt_setup\<close> builds for the
  task in frame \<open>p\<close> is switched in. Of the sections that the function maps, each to its own physical address, it
  can write exactly the megabyte of the task and read only this one and the kernel's. Every other section keeps the
  entry that the recycled 16 KB block held, and user code reaches it when this stale entry says so. So the task
  is confined to its megabyte exactly if no stale entry of the block is open to the user.
\<close>

theorem task_table_reach:
  assumes "kblks_ok s (b # c # bs)" and "links b_start (blk_heap s) b = Some base" and "table_ok base"
    and "0x821 \<le> p" and "p < 0xa00"
  shows "\<exists>s'. task_pgt_setup (section_of p) (section_of p + 0xFFFFC) s = Some (base, s')
    \<and> (\<forall>k < 4096. let d = hw_desc (switch_mm base s') (of_nat k); stale = ptes s (entry base k) in
         (user_writes d \<longleftrightarrow> k = p \<or> \<not> set_up k \<and> user_writes stale)
         \<and> (user_reads d \<longleftrightarrow> k = p \<or> k = 0x820 \<or> \<not> set_up k \<and> user_reads stale)
         \<and> (if set_up k then section_base d = section_of k else d = stale))
    \<and> ((\<forall>k < 4096. let d = hw_desc (switch_mm base s') (of_nat k) in (user_writes d \<longleftrightarrow> k = p) \<and> (user_reads d \<longleftrightarrow> k = p \<or> k = 0x820))
       \<longleftrightarrow> (\<forall>k < 4096. \<not> set_up k \<longrightarrow> \<not> user_reads (ptes s (entry base k))))"
proof -
  obtain t m where t: "task_pgt_setup (section_of p) (section_of p + 0xFFFFC) s = Some (base, t\<lparr>ptes := m\<rparr>)"
    "\<forall>k < 4096. m (entry base k) =
         (case task_ap p k of Some ap \<Rightarrow> identity_desc k ap | None \<Rightarrow> ptes s (entry base k))"
    using task_pgt_setup_ok [OF assms] by blast
  let ?d = "\<lambda>k. hw_desc (switch_mm base (t\<lparr>ptes := m\<rparr>)) (of_nat k)"
  have d: "?d k = (case task_ap p k of Some ap \<Rightarrow> identity_desc k ap | None \<Rightarrow> ptes s (entry base k))" if "k < 4096" for k
    using hw_desc_switch [OF assms(3) that, of "t\<lparr>ptes := m\<rparr>"] t(2) that by simp
  have w: "user_writes (?d k) \<longleftrightarrow> k = p \<or> \<not> set_up k \<and> user_writes (ptes s (entry base k))" if "k < 4096" for k
    using assms(4,5) unfolding d [OF that] by (auto simp: task_ap_def identity_desc_access set_up_def)
  have r: "user_reads (?d k) \<longleftrightarrow> k = p \<or> k = 0x820 \<or> \<not> set_up k \<and> user_reads (ptes s (entry base k))" if "k < 4096" for k
    using assms(4,5) unfolding d [OF that] by (auto simp: task_ap_def identity_desc_access set_up_def)
  have b: "if set_up k then section_base (?d k) = section_of k else ?d k = ptes s (entry base k)" if "k < 4096" for k
    using assms(4,5) that unfolding d [OF that] by (auto simp: task_ap_def identity_desc_base set_up_def)
  have wr: "user_writes x \<Longrightarrow> user_reads x" for x by (simp add: user_writes_def user_reads_def)
  have own: "set_up p" "set_up 0x820" using assms(4,5) by (simp_all add: set_up_def)
  have iff: "(\<forall>k < 4096. (user_writes (?d k) \<longleftrightarrow> k = p) \<and> (user_reads (?d k) \<longleftrightarrow> k = p \<or> k = 0x820))
      \<longleftrightarrow> (\<forall>k < 4096. \<not> set_up k \<longrightarrow> \<not> user_reads (ptes s (entry base k)))"
  proof (intro iffI allI impI notI)
    fix k :: nat assume A: "\<forall>k < 4096. (user_writes (?d k) \<longleftrightarrow> k = p) \<and> (user_reads (?d k) \<longleftrightarrow> k = p \<or> k = 0x820)"
      and k: "k < 4096" "\<not> set_up k" "user_reads (ptes s (entry base k))"
    have "user_reads (?d k)" using r [OF k(1)] k(2,3) by simp
    then have "k = p \<or> k = 0x820" using A k(1) by simp
    then show False using own k(2) by blast
  next
    fix k :: nat assume "\<forall>k < 4096. \<not> set_up k \<longrightarrow> \<not> user_reads (ptes s (entry base k))" and k: "k < 4096"
    then have "set_up k \<or> \<not> user_reads (ptes s (entry base k)) \<and> \<not> user_writes (ptes s (entry base k))" using wr by blast
    then show "(user_writes (?d k) \<longleftrightarrow> k = p) \<and> (user_reads (?d k) \<longleftrightarrow> k = p \<or> k = 0x820)" using w [OF k] r [OF k] by blast
  qed
  have all: "\<forall>k < 4096. let d = ?d k; stale = ptes s (entry base k) in
         (user_writes d \<longleftrightarrow> k = p \<or> \<not> set_up k \<and> user_writes stale)
         \<and> (user_reads d \<longleftrightarrow> k = p \<or> k = 0x820 \<or> \<not> set_up k \<and> user_reads stale)
         \<and> (if set_up k then section_base d = section_of k else d = stale)"
    unfolding Let_def using w r b by (intro allI impI conjI) (rule w r b, assumption)+
  show ?thesis unfolding Let_def
    by (rule exI [of _ "t\<lparr>ptes := m\<rparr>"], intro conjI) (rule t(1) all [unfolded Let_def] iff)+
qed

definition demo_kblks :: kstate where
  "demo_kblks = zero_state\<lparr>
     kpage := zero_page\<lparr>blk_list_head := 0x82027860\<rparr>,
     blk_heap := [0x82027860 \<mapsto> init_blk 0x82018000 0x82027400 0x82000000 KBLK_SIZE 42 40,
                  0x8202787c \<mapsto> init_blk 0x82018000 0x82027400 0x82000000 KBLK_SIZE 42 41]\<rparr>"

lemma demo_kblks_ok:
  "kblks_ok demo_kblks [0x82027860, 0x8202787c]"
  "links b_start (blk_heap demo_kblks) 0x82027860 = Some 0x820a0000"
  "table_ok 0x820a0000"
  by (simp_all add: kblks_ok_def demo_kblks_def init_blk_def blk_at_def table_ok_def mask_eq_exp_minus_1)

text \<open>The same with a block whose last entry is open to the user.\<close>

definition demo_stale :: kstate where
  "demo_stale = demo_kblks\<lparr>ptes := (\<lambda>_. 0)(entry 0x820a0000 0xfff := identity_desc 0xfff AP_USER_RW)\<rparr>"

theorem task_table_reach_witness:
  "(\<exists>s'. task_pgt_setup 0x82300000 0x823FFFFC demo_kblks = Some (0x820a0000, s')
      \<and> (\<forall>k < 4096. user_writes (hw_desc (switch_mm 0x820a0000 s') (of_nat k)) \<longleftrightarrow> k = 0x823))
   \<and> (\<exists>s'. task_pgt_setup 0x82300000 0x823FFFFC demo_stale = Some (0x820a0000, s')
      \<and> user_writes (hw_desc (switch_mm 0x820a0000 s') 0x823) \<and> user_writes (hw_desc (switch_mm 0x820a0000 s') 0xfff)
      \<and> \<not> user_writes (hw_desc (switch_mm 0x820a0000 s') 0x824))"
proof
  have p: "(0x821 :: nat) \<le> 0x823" "(0x823 :: nat) < 0xa00" by simp_all
  have "\<not> user_reads (ptes demo_kblks a)" for a
    by (simp add: demo_kblks_def zero_state_def user_reads_def is_section_def)
  then obtain s' where "task_pgt_setup (section_of 0x823) (section_of 0x823 + 0xFFFFC) demo_kblks = Some (0x820a0000, s')"
    "\<forall>k < 4096. user_writes (hw_desc (switch_mm 0x820a0000 s') (of_nat k)) \<longleftrightarrow> k = 0x823"
    using task_table_reach [OF demo_kblks_ok p] unfolding Let_def by blast
  then show "\<exists>s'. task_pgt_setup 0x82300000 0x823FFFFC demo_kblks = Some (0x820a0000, s')
      \<and> (\<forall>k < 4096. user_writes (hw_desc (switch_mm 0x820a0000 s') (of_nat k)) \<longleftrightarrow> k = 0x823)"
    by (intro exI [of _ s']) (simp add: section_of_def)
  have ok: "kblks_ok demo_stale [0x82027860, 0x8202787c]" "links b_start (blk_heap demo_stale) 0x82027860 = Some 0x820a0000"
    using demo_kblks_ok by (simp_all add: demo_stale_def kblks_ok_def)
  obtain s' where s': "task_pgt_setup (section_of 0x823) (section_of 0x823 + 0xFFFFC) demo_stale = Some (0x820a0000, s')"
    "\<forall>k < 4096. let d = hw_desc (switch_mm 0x820a0000 s') (of_nat k); stale = ptes demo_stale (entry 0x820a0000 k) in
       (user_writes d \<longleftrightarrow> k = 0x823 \<or> \<not> set_up k \<and> user_writes stale)
       \<and> (user_reads d \<longleftrightarrow> k = 0x823 \<or> k = 0x820 \<or> \<not> set_up k \<and> user_reads stale)
       \<and> (if set_up k then section_base d = section_of k else d = stale)"
    using task_table_reach [OF ok demo_kblks_ok(3) p] by (elim exE conjE)
  have "ptes demo_stale (entry 0x820a0000 0xfff) = identity_desc 0xfff AP_USER_RW"
    unfolding demo_stale_def by simp
  moreover have "user_writes (identity_desc 0xfff AP_USER_RW)" by (rule identity_desc_access(1))
  ultimately have "user_writes (ptes demo_stale (entry 0x820a0000 0xfff))" by (simp only:)
  then have "user_writes (hw_desc (switch_mm 0x820a0000 s') (of_nat 0xfff))"
    using s'(2) [rule_format, of "0xfff"] by (simp add: set_up_def Let_def)
  moreover have "user_writes (hw_desc (switch_mm 0x820a0000 s') (of_nat 0x823))" "\<not> user_writes (hw_desc (switch_mm 0x820a0000 s') (of_nat 0x824))"
    using s'(2) [rule_format, of "0x823"] s'(2) [rule_format, of "0x824"] by (simp_all add: set_up_def Let_def)
  moreover have "task_pgt_setup 0x82300000 0x823FFFFC demo_stale = Some (0x820a0000, s')" using s'(1) by (simp add: section_of_def)
  ultimately show "\<exists>s'. task_pgt_setup 0x82300000 0x823FFFFC demo_stale = Some (0x820a0000, s')
      \<and> user_writes (hw_desc (switch_mm 0x820a0000 s') 0x823) \<and> user_writes (hw_desc (switch_mm 0x820a0000 s') 0xfff)
      \<and> \<not> user_writes (hw_desc (switch_mm 0x820a0000 s') 0x824)"
    by (simp only: of_nat_numeral) blast
qed

text \<open>
  After a fork, which maps the parent's frame into the child's table with \<open>set_pte\<close>, user
  code running on the child's table can write both the child's and the parent's megabyte, and
  still no other.
\<close>

theorem fork_table_writes:
  assumes "kblks_ok s (b # c # bs)" and "links b_start (blk_heap s) b = Some base" and "table_ok base"
    and "0x821 \<le> p" and "p < 0xa00" and "0x821 \<le> q" and "q < 0xa00"
  shows "\<exists>s1 s2. task_pgt_setup (section_of p) (section_of p + 0xFFFFC) s = Some (base, s1)
    \<and> set_pte (section_of q) (section_of q + 0xFFFFC) base s1 = Some s2
    \<and> (\<forall>k. 0x820 \<le> k \<and> k < 0xa00 \<longrightarrow>
         (user_writes (hw_desc (switch_mm base s2) (of_nat k)) \<longleftrightarrow> k = p \<or> k = q)
         \<and> section_base (hw_desc (switch_mm base s2) (of_nat k)) = section_of k)"
proof -
  obtain t m where t: "task_pgt_setup (section_of p) (section_of p + 0xFFFFC) s = Some (base, t\<lparr>ptes := m\<rparr>)"
    "\<forall>k < 4096. m (entry base k) =
         (case task_ap p k of Some ap \<Rightarrow> identity_desc k ap | None \<Rightarrow> ptes s (entry base k))"
    using task_pgt_setup_ok [OF assms(1-5)] by blast
  obtain m' where m': "set_pte (section_of q) (section_of q + 0xFFFFC) base (t\<lparr>ptes := m\<rparr>) = Some (t\<lparr>ptes := m'\<rparr>)"
    "\<forall>j < 4096. m' (entry base j) = (if q \<le> j \<and> j < q + 1 then identity_desc j 3 else m (entry base j))"
    using pte_init_ok [OF assms(3) refl frame_pages [of q], of 3 "t\<lparr>ptes := m\<rparr>"] assms(7)
    by (auto simp: set_pte_def)
  have "hw_desc (switch_mm base (t\<lparr>ptes := m'\<rparr>)) (of_nat k) = m' (entry base k)" if "k < 4096" for k
    using hw_desc_switch [OF assms(3) that, of "t\<lparr>ptes := m'\<rparr>"] by simp
  then show ?thesis
    using t m' assms(4-7)
    by (intro exI [of _ "t\<lparr>ptes := m\<rparr>"] exI [of _ "t\<lparr>ptes := m'\<rparr>"])
      (auto simp: task_ap_def identity_desc_access identity_desc_base)
qed

theorem fork_table_writes_witness:
  "\<exists>s1 s2. task_pgt_setup 0x82300000 0x823FFFFC demo_kblks = Some (0x820a0000, s1)
    \<and> set_pte 0x82200000 0x822FFFFC 0x820a0000 s1 = Some s2
    \<and> user_writes (hw_desc (switch_mm 0x820a0000 s2) 0x822)"
proof -
  obtain s1 s2 where s: "task_pgt_setup (section_of 0x823) (section_of 0x823 + 0xFFFFC) demo_kblks = Some (0x820a0000, s1)"
    "set_pte (section_of 0x822) (section_of 0x822 + 0xFFFFC) 0x820a0000 s1 = Some s2"
    "\<forall>k. 0x820 \<le> k \<and> k < 0xa00 \<longrightarrow>
         (user_writes (hw_desc (switch_mm 0x820a0000 s2) (of_nat k)) \<longleftrightarrow> k = 0x823 \<or> k = 0x822)
         \<and> section_base (hw_desc (switch_mm 0x820a0000 s2) (of_nat k)) = section_of k"
    using fork_table_writes [OF demo_kblks_ok, of "0x823" "0x822"] by auto
  then show ?thesis using s(3) [rule_format, of "0x822"] by (simp add: section_of_def)
qed

end
