(* ===== verification/FileTree.thy ===== *)
theory FileTree
  imports CString Mmu
begin

text \<open>
  The in-memory directory tree and the files, \<^verbatim>\<open>src/src/kernel/file.c\<close>.
  Directory nodes and files are carved one after the other from one page; a file is on the
  sibling list of its directory and on the list of all files.
  The lemmas say what is found by name, which descriptor \<open>file_open\<close> takes, and what
  \<open>file_in_ram_init\<close> builds.
\<close>

section \<open>Names\<close>

definition PATH_root :: "char list" where "PATH_root = cstr ''/root'' @ [NUL]"
definition PATH_dev :: "char list" where "PATH_dev = cstr ''/dev'' @ [NUL]"
definition PATH_ipc :: "char list" where "PATH_ipc = cstr ''/ipc'' @ [NUL]"
definition FILE_CONSOLE_IN :: "char list" where "FILE_CONSOLE_IN = cstr ''/console_in'' @ [NUL]"
definition FILE_CONSOLE_OUT :: "char list" where "FILE_CONSOLE_OUT = cstr ''/console_out'' @ [NUL]"
definition FILE_TTY0 :: "char list" where "FILE_TTY0 = cstr ''/tty0'' @ [NUL]"
definition FILE_IPC0 :: "char list" where "FILE_IPC0 = cstr ''/ipc0'' @ [NUL]"

abbreviation (input) CONSOLE_IN_TYPE :: u32 where "CONSOLE_IN_TYPE \<equiv> 0"
abbreviation (input) CONSOLE_OUT_TYPE :: u32 where "CONSOLE_OUT_TYPE \<equiv> 1"
abbreviation (input) TTY0_TYPE :: u32 where "TTY0_TYPE \<equiv> 2"
abbreviation (input) IPC_TYPE :: u32 where "IPC_TYPE \<equiv> 3"

text \<open>
  \<^verbatim>\<open>while (*name != 0) *dest++ = *name++;\<close> into a name buffer: a name of more than 16
  characters runs over the fields behind the buffer.
\<close>

fun copy_name :: "char list \<Rightarrow> nat \<Rightarrow> char list \<Rightarrow> char list option" where
  "copy_name dest i [] = None"
| "copy_name dest i (c # name) =
     (if c = NUL then Some dest
      else if i < length dest then copy_name (dest[i := c]) (i + 1) name
      else None)"

section \<open>Initialisation of the tree\<close>

definition path_tree_init :: "kstate \<Rightarrow> (int \<times> kstate) option" where
  "path_tree_init s = do {
     (ma, s) \<leftarrow> page_alloc s;
     let s = s\<lparr>path_tree := (path_tree s)\<lparr>dt_ma := ma\<rparr>\<rparr>;
     if ma = NULL then Some (-1, s)
     else do {
       v \<leftarrow> deref (page_heap s) ma;
       let s = s\<lparr>path_tree := (path_tree s)\<lparr>dt_ma_aval_start := pgstart v\<rparr>\<rparr>;
       s \<leftarrow> upd_page ma (\<lambda>p. p\<lparr>page_status := FULL\<rparr>) s;
       let s = s\<lparr>path_tree := (path_tree s)\<lparr>dt_n_nodes := 0, dt_root := NULL\<rparr>\<rparr>;
       Some (0, s)
     }
   }"

text \<open>
  The root's name is the literal; its name buffer keeps \<open>junk\<close>, the 16 cells that happened to
  be in the page.
\<close>

definition create_root_path :: "char list \<Rightarrow> kstate \<Rightarrow> (int \<times> kstate) option" where
  "create_root_path junk s =
     (if root s \<noteq> NULL then Some (-1, s)
      else do {
        let s = s\<lparr>root := dt_ma_aval_start (path_tree s)\<rparr>;
        let s = s\<lparr>path_tree := (path_tree s)\<lparr>dt_ma_aval_start := dt_ma_aval_start (path_tree s) + sizeof_DIR_NODE\<rparr>\<rparr>;
        h \<leftarrow> new_obj (root s) \<lparr>d_firstchild = NULL, d_parent = NULL, d_next_sibling = NULL,
               d_firstfile = NULL, d_namebuf = junk, d_name = PATH_root\<rparr> (dir_heap s);
        Some (0, s\<lparr>dir_heap := h\<rparr>)
      })"

definition find_end_sibling :: "addr \<Rightarrow> kstate \<Rightarrow> addr option" where
  "find_end_sibling node s = walk_end d_next_sibling (dir_heap s) node"

definition create_path_node :: "addr \<Rightarrow> char list \<Rightarrow> kstate \<Rightarrow> (addr \<times> kstate) option" where
  "create_path_node parent name s =
     (if root s = NULL \<or> parent = NULL then Some (NULL, s)
      else do {
        let node = dt_ma_aval_start (path_tree s);
        let s = s\<lparr>path_tree := (path_tree s)\<lparr>dt_ma_aval_start := node + sizeof_DIR_NODE\<rparr>\<rparr>;
        buf \<leftarrow> copy_name (replicate NAME_BUF_SIZE NUL) 0 name;
        h \<leftarrow> new_obj node \<lparr>d_firstchild = NULL, d_parent = parent, d_next_sibling = NULL,
               d_firstfile = NULL, d_namebuf = buf, d_name = buf\<rparr> (dir_heap s);
        let s = s\<lparr>dir_heap := h\<rparr>;
        p \<leftarrow> deref (dir_heap s) parent;
        s \<leftarrow> (if d_firstchild p \<noteq> NULL then do {
               end \<leftarrow> find_end_sibling (d_firstchild p) s;
               upd_dir end (\<lambda>d. d\<lparr>d_next_sibling := node\<rparr>) s
             } else upd_dir parent (\<lambda>d. d\<lparr>d_firstchild := node\<rparr>) s);
        Some (node, s)
      })"

section \<open>Files\<close>

definition find_end_filesibling :: "addr \<Rightarrow> kstate \<Rightarrow> addr option" where
  "find_end_filesibling f s = walk_end f_next_sibling (file_heap s) f"

definition file_list_push :: "addr \<Rightarrow> kstate \<Rightarrow> kstate option" where
  "file_list_push file s =
     (if file_list_head s = NULL then do {
        let s = s\<lparr>file_list_head := file\<rparr>;
        s \<leftarrow> upd_file file (\<lambda>f. f\<lparr>f_list_next := NULL\<rparr>) s;
        upd_file file (\<lambda>f. f\<lparr>f_list_prev := NULL\<rparr>) s
      } else do {
        end \<leftarrow> walk_end f_list_next (file_heap s) (file_list_head s);
        s \<leftarrow> upd_file end (\<lambda>f. f\<lparr>f_list_next := file\<rparr>) s;
        s \<leftarrow> upd_file file (\<lambda>f. f\<lparr>f_list_prev := end\<rparr>) s;
        upd_file file (\<lambda>f. f\<lparr>f_list_next := NULL\<rparr>) s
      })"

text \<open>The \<^verbatim>\<open>switch\<close> on the file type.\<close>

definition file_read_of :: "u32 \<Rightarrow> file_fn" where
  "file_read_of ty =
     (if ty = CONSOLE_IN_TYPE then Fn_console_read
      else if ty = CONSOLE_OUT_TYPE then Fn_NULL
      else if ty = TTY0_TYPE then Fn_console_read
      else if ty = IPC_TYPE then Fn_ipc_read
      else Fn_NULL)"

definition file_write_of :: "u32 \<Rightarrow> file_fn" where
  "file_write_of ty =
     (if ty = CONSOLE_IN_TYPE then Fn_NULL
      else if ty = CONSOLE_OUT_TYPE then Fn_console_write
      else if ty = TTY0_TYPE then Fn_console_write
      else if ty = IPC_TYPE then Fn_ipc_write
      else Fn_NULL)"

text \<open>\<open>file_list_push\<close> sets both list links of the new object before they are read.\<close>

definition create_file_under_node :: "addr \<Rightarrow> char list \<Rightarrow> u32 \<Rightarrow> kstate \<Rightarrow> (addr \<times> kstate) option" where
  "create_file_under_node node filename ty s =
     (if root s = NULL \<or> node = NULL then Some (NULL, s)
      else do {
        let file = dt_ma_aval_start (path_tree s);
        let s = s\<lparr>path_tree := (path_tree s)\<lparr>dt_ma_aval_start := file + sizeof_FILE\<rparr>\<rparr>;
        buf \<leftarrow> copy_name (replicate NAME_BUF_SIZE NUL) 0 filename;
        h \<leftarrow> new_obj file \<lparr>f_parent = node, f_next_sibling = NULL, f_list_next = NULL,
               f_list_prev = NULL, f_type = ty, f_namebuf = buf, f_name = buf,
               file_read = file_read_of ty, file_write = file_write_of ty\<rparr> (file_heap s);
        let s = s\<lparr>file_heap := h\<rparr>;
        d \<leftarrow> deref (dir_heap s) node;
        s \<leftarrow> (if d_firstfile d = NULL then upd_dir node (\<lambda>d. d\<lparr>d_firstfile := file\<rparr>) s
             else do {
               end \<leftarrow> find_end_filesibling (d_firstfile d) s;
               upd_file end (\<lambda>f. f\<lparr>f_next_sibling := file\<rparr>) s
             });
        s \<leftarrow> file_list_push file s;
        Some (file, s)
      })"

definition file_in_ram_init :: "char list \<Rightarrow> kstate \<Rightarrow> (int \<times> kstate) option" where
  "file_in_ram_init junk s = do {
     (r, s) \<leftarrow> path_tree_init s;
     if r < 0 then Some (-1, s) else do {
     (r, s) \<leftarrow> create_root_path junk s;
     if r < 0 then Some (-1, s) else do {
     (dev, s) \<leftarrow> create_path_node (root s) PATH_dev s;
     if dev = NULL then Some (-1, s) else do {
     (ipc, s) \<leftarrow> create_path_node (root s) PATH_ipc s;
     if ipc = NULL then Some (-1, s) else do {
     (_, s) \<leftarrow> create_file_under_node dev FILE_CONSOLE_IN CONSOLE_IN_TYPE s;
     (_, s) \<leftarrow> create_file_under_node dev FILE_CONSOLE_OUT CONSOLE_OUT_TYPE s;
     (_, s) \<leftarrow> create_file_under_node dev FILE_TTY0 TTY0_TYPE s;
     (_, s) \<leftarrow> create_file_under_node ipc FILE_IPC0 IPC_TYPE s;
     (_, s) \<leftarrow> ipc_buf_alloc s;
     Some (0, s)
   }}}}}"

section \<open>Lookup\<close>

partial_function (option) find_file_loop :: "cptr \<Rightarrow> addr \<Rightarrow> kstate \<Rightarrow> addr option" where
  "find_file_loop filename head s = do {
     f \<leftarrow> deref (file_heap s) head;
     r \<leftarrow> str_cmp filename (Cells (f_name f)) s;
     if r = 0 then Some head
     else if f_list_next f \<noteq> NULL then find_file_loop filename (f_list_next f) s
     else Some NULL
   }"

definition find_file :: "cptr \<Rightarrow> kstate \<Rightarrow> addr option" where
  "find_file filename s = find_file_loop filename (file_list_head s) s"

partial_function (option) find_subdir_loop :: "cptr \<Rightarrow> addr \<Rightarrow> kstate \<Rightarrow> addr option" where
  "find_subdir_loop subdir_name en s =
     (if en \<noteq> NULL then do {
        d \<leftarrow> deref (dir_heap s) en;
        r \<leftarrow> str_cmp (Cells (d_name d)) subdir_name s;
        if r = 0 then Some en else find_subdir_loop subdir_name (d_next_sibling d) s
      } else Some NULL)"

definition find_target_subdir :: "addr \<Rightarrow> cptr \<Rightarrow> kstate \<Rightarrow> addr option" where
  "find_target_subdir curdir subdir_name s = do {
     d \<leftarrow> deref (dir_heap s) curdir;
     neq \<leftarrow> str_cmp subdir_name (Cells (cstr ''..'' @ [NUL])) s;
     if neq \<noteq> 0 then find_subdir_loop subdir_name (d_firstchild d) s
     else if d_parent d = NULL then Some NULL
     else Some (d_parent d)
   }"

declare find_file_loop.simps [code] find_subdir_loop.simps [code]

section \<open>Open files\<close>

text \<open>The first free descriptor, 2 being reserved; -1 if there is none.\<close>

fun free_fd :: "addr list \<Rightarrow> nat list \<Rightarrow> int" where
  "free_fd files [] = -1"
| "free_fd files (i # is) = (if files ! i = NULL \<and> i \<noteq> 2 then int i else free_fd files is)"

definition file_open :: "cptr \<Rightarrow> addr \<Rightarrow> kstate \<Rightarrow> (int \<times> kstate) option" where
  "file_open filename task s = do {
     file \<leftarrow> find_file filename s;
     if file = NULL then Some (-1, s)
     else do {
       t \<leftarrow> deref (task_heap s) task;
       let fd = free_fd (openfiles t) [0..<MAX_FD];
       if fd = -1 then Some (-1, s)
       else do {
         s \<leftarrow> upd_task task (\<lambda>t. t\<lparr>openfiles := (openfiles t)[nat fd := file]\<rparr>) s;
         Some (fd, s)
       }
     }
   }"

text \<open>The descriptor is not checked: outside 0 to 7 the store misses the array.\<close>

definition file_close :: "u32 \<Rightarrow> addr \<Rightarrow> kstate \<Rightarrow> kstate option" where
  "file_close fd task s =
     (if unat fd < MAX_FD then upd_task task (\<lambda>t. t\<lparr>openfiles := (openfiles t)[unat fd := NULL]\<rparr>) s
      else None)"

section \<open>The console\<close>

text \<open>\<open>uart_getC\<close> waits for a character; with no further input it does not return.\<close>

definition uart_getC :: "kstate \<Rightarrow> (u8 \<times> kstate) option" where
  "uart_getC s = (case uart_rx s of [] \<Rightarrow> None | b # bs \<Rightarrow> Some (b, s\<lparr>uart_rx := bs\<rparr>))"

fun console_read_loop :: "nat \<Rightarrow> addr \<Rightarrow> u32 \<Rightarrow> kstate \<Rightarrow> (u32 \<times> kstate) option" where
  "console_read_loop 0 p n_rd s = Some (n_rd, s)"
| "console_read_loop (Suc n) p n_rd s = do {
     (b, s) \<leftarrow> uart_getC s;
     s \<leftarrow> store8 p b s;
     console_read_loop n (p + 1) (n_rd + 1) s
   }"

definition console_read_func :: "addr \<Rightarrow> u32 \<Rightarrow> kstate \<Rightarrow> (u32 \<times> kstate) option" where
  "console_read_func rdbuf n_bytes s = console_read_loop (unat n_bytes) rdbuf 0 s"

fun console_write_loop :: "nat \<Rightarrow> addr \<Rightarrow> u32 \<Rightarrow> kstate \<Rightarrow> (u32 \<times> kstate) option" where
  "console_write_loop 0 p n_wr s = Some (n_wr, s)"
| "console_write_loop (Suc n) p n_wr s = do {
     b \<leftarrow> load8 p s;
     console_write_loop n (p + 1) (n_wr + 1) (print_char (of_byte b) s)
   }"

definition console_write_func :: "addr \<Rightarrow> u32 \<Rightarrow> kstate \<Rightarrow> (u32 \<times> kstate) option" where
  "console_write_func wrbuf n_bytes s = console_write_loop (unat n_bytes) wrbuf 0 s"

section \<open>Listings\<close>

definition uart_tx_str :: "char list \<Rightarrow> nat \<Rightarrow> kstate \<Rightarrow> kstate option" where
  "uart_tx_str cells n s =
     for_each (\<lambda>i s. map_option (\<lambda>c. print_char c s) (getc (Cells cells) i s)) [0..<n] s"

definition print_name :: "char list \<Rightarrow> kstate \<Rightarrow> kstate option" where
  "print_name cells s = do {
     n \<leftarrow> str_len (Cells cells) s;
     s \<leftarrow> uart_tx_str cells n s;
     Some (print_char (CHR 0x0A) (print_char (CHR 0x0D) s))
   }"

partial_function (option) print_dirs :: "addr \<Rightarrow> kstate \<Rightarrow> kstate option" where
  "print_dirs node s =
     (if node \<noteq> NULL then do {
        d \<leftarrow> deref (dir_heap s) node;
        s \<leftarrow> print_name (d_name d) s;
        print_dirs (d_next_sibling d) s
      } else Some s)"

partial_function (option) print_files :: "(file_obj \<Rightarrow> addr) \<Rightarrow> addr \<Rightarrow> kstate \<Rightarrow> kstate option" where
  "print_files nx file s =
     (if file \<noteq> NULL then do {
        f \<leftarrow> deref (file_heap s) file;
        s \<leftarrow> print_name (f_name f) s;
        print_files nx (nx f) s
      } else Some s)"

definition print_under_node :: "addr \<Rightarrow> kstate \<Rightarrow> kstate option" where
  "print_under_node node s =
     (if node = NULL then Some s
      else do {
        d \<leftarrow> deref (dir_heap s) node;
        s \<leftarrow> print_dirs (d_firstchild d) s;
        print_files f_next_sibling (d_firstfile d) s
      })"

definition print_file_list :: "kstate \<Rightarrow> kstate option" where
  "print_file_list s = print_files f_list_next (file_list_head s) s"

declare print_dirs.simps [code] print_files.simps [code]

section \<open>Finding by name\<close>

definition text_of :: "char list \<Rightarrow> char list" where
  "text_of cells = takeWhile (\<lambda>c. c \<noteq> NUL) cells"

lemma text_of_cstr [simp]: "NUL \<notin> set t \<Longrightarrow> text_of (cstr t) = t" "NUL \<notin> set t \<Longrightarrow> text_of (cstr t @ r) = t"
  by (simp_all add: text_of_def cstr_def takeWhile_append)

lemma str_at_text_of: "NUL \<in> set cells \<Longrightarrow> str_at (Cells cells) (text_of cells) s"
proof -
  assume "NUL \<in> set cells"
  then obtain t r where c: "cells = t @ NUL # r" "NUL \<notin> set t" by (meson split_list_first)
  then show ?thesis by (simp add: text_of_def str_at_Cells takeWhile_append)
qed

definition terminated_files :: "kstate \<Rightarrow> addr list \<Rightarrow> bool" where
  "terminated_files s fs \<longleftrightarrow> (\<forall>p \<in> set fs. \<exists>f. file_heap s p = Some f \<and> NUL \<in> set (f_name f))"

definition terminated_dirs :: "kstate \<Rightarrow> addr list \<Rightarrow> bool" where
  "terminated_dirs s ds \<longleftrightarrow> (\<forall>p \<in> set ds. \<exists>d. dir_heap s p = Some d \<and> NUL \<in> set (d_name d))"

definition file_text :: "kstate \<Rightarrow> addr \<Rightarrow> char list option" where
  "file_text s p = map_option (\<lambda>f. text_of (f_name f)) (file_heap s p)"

definition dir_text :: "kstate \<Rightarrow> addr \<Rightarrow> char list option" where
  "dir_text s p = map_option (\<lambda>d. text_of (d_name d)) (dir_heap s p)"

definition first_or_NULL :: "(addr \<Rightarrow> bool) \<Rightarrow> addr list \<Rightarrow> addr" where
  "first_or_NULL P ps = (case find P ps of Some p \<Rightarrow> p | None \<Rightarrow> NULL)"

lemma find_file_ok:
  assumes "str_at filename t s"
  shows "chain (links f_list_next (file_heap s)) head fs \<Longrightarrow> fs \<noteq> [] \<Longrightarrow> terminated_files s fs \<Longrightarrow>
    find_file_loop filename head s = Some (first_or_NULL (\<lambda>p. file_text s p = Some t) fs)"
proof (induction fs arbitrary: head)
  case Nil
  then show ?case by simp
next
  case (Cons p fs)
  then obtain f where f: "head = p" "p \<noteq> NULL" "file_heap s p = Some f" "NUL \<in> set (f_name f)"
    "chain (links f_list_next (file_heap s)) (f_list_next f) fs"
    by (auto simp: terminated_files_def split: option.splits dest!: links_SomeD)
  have c: "str_cmp filename (Cells (f_name f)) s = Some (if t = text_of (f_name f) then 0 else 1)"
    using str_cmp_ok [OF assms str_at_text_of [OF f(4)]] .
  show ?case
  proof (cases "fs = []")
    case True
    with f c show ?thesis
      by (subst find_file_loop.simps) (auto simp: deref_def first_or_NULL_def file_text_def)
  next
    case False
    then have "f_list_next f \<noteq> NULL" using f(5) by (auto dest: chain_head_iff)
    moreover have "find_file_loop filename (f_list_next f) s
        = Some (first_or_NULL (\<lambda>p. file_text s p = Some t) fs)"
      using Cons.IH [OF f(5) False] Cons.prems(3) by (simp add: terminated_files_def)
    ultimately show ?thesis using f c
      by (subst find_file_loop.simps) (auto simp: deref_def first_or_NULL_def file_text_def)
  qed
qed

lemma find_subdir_ok:
  assumes "str_at name t s"
  shows "chain (links d_next_sibling (dir_heap s)) en ds \<Longrightarrow> terminated_dirs s ds \<Longrightarrow>
    find_subdir_loop name en s = Some (first_or_NULL (\<lambda>p. dir_text s p = Some t) ds)"
proof (induction ds arbitrary: en)
  case Nil
  then show ?case by (subst find_subdir_loop.simps) (simp add: first_or_NULL_def)
next
  case (Cons p ds)
  then obtain d where d: "en = p" "p \<noteq> NULL" "dir_heap s p = Some d" "NUL \<in> set (d_name d)"
    "chain (links d_next_sibling (dir_heap s)) (d_next_sibling d) ds"
    by (auto simp: terminated_dirs_def split: option.splits dest!: links_SomeD)
  have "str_cmp (Cells (d_name d)) name s = Some (if text_of (d_name d) = t then 0 else 1)"
    using str_cmp_ok [OF str_at_text_of [OF d(4)] assms] .
  moreover have "find_subdir_loop name (d_next_sibling d) s
      = Some (first_or_NULL (\<lambda>p. dir_text s p = Some t) ds)"
    using Cons.IH [OF d(5)] Cons.prems(2) by (simp add: terminated_dirs_def)
  ultimately show ?case using d
    by (subst find_subdir_loop.simps) (auto simp: deref_def first_or_NULL_def dir_text_def)
qed

lemma find_target_subdir_ok:
  assumes "dir_heap s cur = Some d" and "cur \<noteq> NULL" and name: "str_at name t s"
    and "chain (links d_next_sibling (dir_heap s)) (d_firstchild d) ds" and "terminated_dirs s ds"
  shows "find_target_subdir cur name s = Some
    (if t = ''..'' then d_parent d else first_or_NULL (\<lambda>p. dir_text s p = Some t) ds)"
proof -
  have "str_at (Cells (cstr ''..'' @ [NUL])) ''..'' s"
    using str_at_Cells [of "''..''" "[NUL]" s] by (simp add: cstr_def)
  then have "str_cmp name (Cells (cstr ''..'' @ [NUL])) s = Some (if t = ''..'' then 0 else 1)"
    using str_cmp_ok [OF name] by blast
  then show ?thesis
    using assms find_subdir_ok [OF name assms(4,5)] by (simp add: find_target_subdir_def deref_def)
qed

section \<open>Descriptors\<close>

lemma free_fd_none: "free_fd files ks = -1 \<longleftrightarrow> (\<forall>i \<in> set ks. files ! i \<noteq> NULL \<or> i = 2)"
  by (induction ks) auto

lemma free_fd_some:
  "free_fd files ks \<noteq> -1 \<Longrightarrow> \<exists>xs i ys. ks = xs @ i # ys \<and> free_fd files ks = int i
    \<and> files ! i = NULL \<and> i \<noteq> 2 \<and> (\<forall>j \<in> set xs. files ! j \<noteq> NULL \<or> j = 2)"
proof (induction ks)
  case Nil
  then show ?case by simp
next
  case (Cons a ks)
  show ?case
  proof (cases "files ! a = NULL \<and> a \<noteq> 2")
    case True
    then show ?thesis by (intro exI [of _ "[]"] exI [of _ a] exI [of _ ks]) simp
  next
    case False
    then obtain xs i ys where "ks = xs @ i # ys" "free_fd files ks = int i" "files ! i = NULL" "i \<noteq> 2"
      "\<forall>j \<in> set xs. files ! j \<noteq> NULL \<or> j = 2"
      using Cons by auto
    then show ?thesis using False by (intro exI [of _ "a # xs"] exI [of _ i] exI [of _ ys]) auto
  qed
qed

lemma free_fd_upt:
  assumes "free_fd files [0..<n] = k" and "k \<noteq> -1"
  shows "\<exists>i < n. k = int i \<and> files ! i = NULL \<and> i \<noteq> 2 \<and> (\<forall>j < i. files ! j \<noteq> NULL \<or> j = 2)"
proof -
  have "free_fd files [0..<n] \<noteq> -1" using assms by simp
  then obtain xs i ys where x: "[0..<n] = xs @ i # ys" "free_fd files [0..<n] = int i" "files ! i = NULL"
    "i \<noteq> 2" "\<forall>j \<in> set xs. files ! j \<noteq> NULL \<or> j = 2"
    using free_fd_some by blast
  have len: "length xs < n" using arg_cong [OF x(1), of length] by simp
  then have i: "i = length xs" using arg_cong [OF x(1), of "\<lambda>l. l ! length xs"] by simp
  have "xs = take (length xs) [0..<n]" using x(1) by simp
  then have "xs = [0..<i]" using len i by (metis add_0 less_imp_le_nat take_upt)
  then have "i < n" "xs = [0..<i]" using len i by simp_all
  then show ?thesis using x assms(1) by auto
qed

lemma first_or_NULL_cases:
  "(first_or_NULL P ps = NULL \<and> (\<forall>p \<in> set ps. \<not> P p))
    \<or> (first_or_NULL P ps \<in> set ps \<and> P (first_or_NULL P ps))" if "NULL \<notin> set ps"
  using that by (induction ps) (auto simp: first_or_NULL_def)

section \<open>What file_in_ram_init builds\<close>

lemma walk_end_step:
  "p \<noteq> NULL \<Longrightarrow> h p = Some v \<Longrightarrow> walk_end nx h p = (if nx v = NULL then Some p else walk_end nx h (nx v))"
  by (subst walk_end.simps) (simp add: deref_def)

lemma same_pages_fields:
  assumes "same_pages s t"
  shows "blk_heap t = blk_heap s" "kpage t = kpage s" "dir_heap t = dir_heap s" "file_heap t = file_heap s"
    "path_tree t = path_tree s" "root t = root s" "file_list_head t = file_list_head s" "ipc_q t = ipc_q s"
proof -
  have e: "no_pages t = no_pages s" using assms by (simp add: same_pages_def)
  show "blk_heap t = blk_heap s" "kpage t = kpage s" "dir_heap t = dir_heap s" "file_heap t = file_heap s"
    "path_tree t = path_tree s" "root t = root s" "file_list_head t = file_list_head s" "ipc_q t = ipc_q s"
    using arg_cong [OF e, of blk_heap]
      arg_cong [OF e, of kpage]
      arg_cong [OF e, of dir_heap]
      arg_cong [OF e, of file_heap]
      arg_cong [OF e, of path_tree]
      arg_cong [OF e, of root]
      arg_cong [OF e, of file_list_head]
      arg_cong [OF e, of ipc_q]
    by (simp_all add: no_pages_def)
qed

lemma path_tree_init_ok:
  assumes ok: "pages_ok s (p # q # fs) us" and v: "page_heap s p = Some v"
  shows "\<exists>t. path_tree_init s = Some (0, t) \<and> pages_ok t (q # fs) (us @ [p])
    \<and> path_tree t = \<lparr>dt_ma = p, dt_ma_aval_start = pgstart v, dt_n_nodes = 0, dt_root = NULL\<rparr>
    \<and> blk_heap t = blk_heap s \<and> kpage t = kpage s \<and> dir_heap t = dir_heap s \<and> file_heap t = file_heap s
    \<and> root t = root s \<and> file_list_head t = file_list_head s \<and> ipc_q t = ipc_q s
    \<and> links pg_fixed (page_heap t) = links pg_fixed (page_heap s) \<and> no_pages t = (no_pages s)\<lparr>path_tree := path_tree t\<rparr>"
proof -
  obtain t where t: "page_alloc s = Some (p, t)" "pages_ok t (q # fs) (us @ [p])" "same_pages s t"
    using page_alloc_ok [OF ok] by blast
  obtain w where w: "p \<noteq> NULL" "page_heap t p = Some w" using pages_ok_mem [OF t(2), of p] by auto
  have "links pg_fixed (page_heap t) p = links pg_fixed (page_heap s) p" using t(3) by (simp add: same_pages_def)
  then have "pg_fixed w = pg_fixed v" using w v by simp
  then have st: "pgstart w = pgstart v" by (rule pg_fixed_eqD)
  define u where "u = t\<lparr>path_tree := \<lparr>dt_ma = p, dt_ma_aval_start = pgstart v, dt_n_nodes = 0, dt_root = NULL\<rparr>,
    page_heap := (page_heap t)(p \<mapsto> w\<lparr>page_status := FULL\<rparr>)\<rparr>"
  have "path_tree_init s = Some (0, u)"
    using t(1) w st by (simp add: path_tree_init_def deref_def upd_objs u_def)
  moreover have "pages_ok u (q # fs) (us @ [p])"
    using t(2) w by (simp add: u_def pages_ok_def fun_upd_idem_iff)
  moreover have "links pg_fixed (page_heap u) = links pg_fixed (page_heap s)"
    using t(3) w by (simp add: u_def same_pages_def links_upd_other del: links_upd)
  moreover have "no_pages u = (no_pages t)\<lparr>path_tree := path_tree u\<rparr>" by (simp add: u_def no_pages_def)
  then have "no_pages u = (no_pages s)\<lparr>path_tree := path_tree u\<rparr>" using t(3) by (simp add: same_pages_def)
  ultimately show ?thesis using same_pages_fields [OF t(3)] by (auto simp: u_def)
qed

text \<open>The objects that the initialisation leaves, and a name padded to its buffer.\<close>

definition dir_obj :: "addr \<Rightarrow> addr \<Rightarrow> addr \<Rightarrow> char list \<Rightarrow> dir_node" where
  "dir_obj par sib ff nm = \<lparr>d_firstchild = NULL, d_parent = par, d_next_sibling = sib, d_firstfile = ff,
     d_namebuf = nm, d_name = nm\<rparr>"

definition root_obj :: "char list \<Rightarrow> addr \<Rightarrow> dir_node" where
  "root_obj junk child = \<lparr>d_firstchild = child, d_parent = NULL, d_next_sibling = NULL, d_firstfile = NULL,
           d_namebuf = junk, d_name = PATH_root\<rparr>"

definition fs_file :: "addr \<Rightarrow> addr \<Rightarrow> addr \<Rightarrow> addr \<Rightarrow> u32 \<Rightarrow> char list \<Rightarrow> file_obj" where
  "fs_file dir sib nx pv ty nm = \<lparr>f_parent = dir, f_next_sibling = sib, f_list_next = nx, f_list_prev = pv,
     f_type = ty, f_namebuf = nm, f_name = nm, file_read = file_read_of ty, file_write = file_write_of ty\<rparr>"

definition padded :: "char list \<Rightarrow> char list" where
  "padded t = t @ replicate (16 - length t) NUL"

lemma copy_name_padded:
  "NUL \<notin> set t \<Longrightarrow> length pre + length t \<le> 16 \<Longrightarrow>
    copy_name (pre @ replicate (16 - length pre) NUL) (length pre) (t @ NUL # r)
      = Some (pre @ t @ replicate (16 - length pre - length t) NUL)"
proof (induction t arbitrary: pre)
  case Nil
  then show ?case by simp
next
  case (Cons c t)
  have "(pre @ replicate (16 - length pre) NUL)[length pre := c]
      = (pre @ [c]) @ replicate (16 - length (pre @ [c])) NUL"
    using Cons.prems by (cases "16 - length pre") (auto simp: list_update_append Suc_diff_Suc)
  moreover have "c \<noteq> NUL" using Cons.prems by auto
  ultimately show ?case using Cons.prems Cons.IH [of "pre @ [c]"] by simp
qed

lemma copy_name_ok:
  "NUL \<notin> set t \<Longrightarrow> length t \<le> 16 \<Longrightarrow> copy_name (replicate NAME_BUF_SIZE NUL) 0 (cstr t @ r) = Some (padded t)"
  using copy_name_padded [of t "[]" r] by (simp add: padded_def cstr_def)

lemma copy_name_overrun:
  "NUL \<notin> set t \<Longrightarrow> i + length t > length dest \<Longrightarrow> i \<le> length dest \<Longrightarrow> copy_name dest i (t @ r) = None"
proof (induction t arbitrary: dest i)
  case Nil
  then show ?case by simp
next
  case (Cons c t)
  then show ?case by (cases "i < length dest") auto
qed

lemma boot_names:
  "copy_name (replicate 16 NUL) 0 PATH_dev = Some (padded ''/dev'')"
  "copy_name (replicate 16 NUL) 0 PATH_ipc = Some (padded ''/ipc'')"
  "copy_name (replicate 16 NUL) 0 FILE_CONSOLE_IN = Some (padded ''/console_in'')"
  "copy_name (replicate 16 NUL) 0 FILE_CONSOLE_OUT = Some (padded ''/console_out'')"
  "copy_name (replicate 16 NUL) 0 FILE_TTY0 = Some (padded ''/tty0'')"
  "copy_name (replicate 16 NUL) 0 FILE_IPC0 = Some (padded ''/ipc0'')"
  unfolding PATH_dev_def PATH_ipc_def FILE_CONSOLE_IN_def FILE_CONSOLE_OUT_def FILE_TTY0_def FILE_IPC0_def
  by (rule copy_name_ok; simp)+

lemma boot_dirs:
  assumes "root t = NULL" "path_tree t = \<lparr>dt_ma = p, dt_ma_aval_start = r, dt_n_nodes = 0, dt_root = NULL\<rparr>"
    and "r \<noteq> NULL" "d1 \<noteq> NULL" "d2 \<noteq> NULL" "r \<noteq> d1" "r \<noteq> d2" "d1 \<noteq> d2"
    and "r + 36 = d1" "d1 + 36 = d2" "d2 + 36 = f1" 
  shows "do {
     (q, s) \<leftarrow> create_root_path junk t;
     (dev, s) \<leftarrow> create_path_node (root s) PATH_dev s;
     (ipc, s) \<leftarrow> create_path_node (root s) PATH_ipc s;
     Some (q, dev, ipc, s) } = Some (0, d1, d2, t\<lparr>root := r,
      path_tree := \<lparr>dt_ma = p, dt_ma_aval_start = f1, dt_n_nodes = 0, dt_root = NULL\<rparr>,
      dir_heap := (dir_heap t)(r \<mapsto> root_obj junk d1, d2 \<mapsto> dir_obj r NULL NULL (padded ''/ipc''),
        d1 \<mapsto> dir_obj r d2 NULL (padded ''/dev''))\<rparr>)"
  using assms
  by (simp add: create_root_path_def create_path_node_def new_obj_def deref_def upd_objs boot_names find_end_sibling_def
      walk_end_step Let_def fun_upd_twist root_obj_def dir_obj_def)

lemma boot_files:
  assumes "root t \<noteq> NULL" "file_list_head t = NULL"
    and "path_tree t = \<lparr>dt_ma = p, dt_ma_aval_start = f1, dt_n_nodes = 0, dt_root = NULL\<rparr>"
    and "dir_heap t d1 = Some (dir_obj r d2 NULL (padded ''/dev''))"
      "dir_heap t d2 = Some (dir_obj r NULL NULL (padded ''/ipc''))"
    and "d1 \<noteq> NULL" "d2 \<noteq> NULL" "d1 \<noteq> d2" 
    and "f1 \<noteq> NULL" "f2 \<noteq> NULL" "f3 \<noteq> NULL" "f4 \<noteq> NULL" "f1 \<noteq> f2" "f1 \<noteq> f3" "f1 \<noteq> f4" "f2 \<noteq> f3" "f2 \<noteq> f4" "f3 \<noteq> f4"
    and "f1 + 48 = f2" "f2 + 48 = f3" "f3 + 48 = f4" 
  shows "do {
     (_, s) \<leftarrow> create_file_under_node d1 FILE_CONSOLE_IN CONSOLE_IN_TYPE t;
     (_, s) \<leftarrow> create_file_under_node d1 FILE_CONSOLE_OUT CONSOLE_OUT_TYPE s;
     (_, s) \<leftarrow> create_file_under_node d1 FILE_TTY0 TTY0_TYPE s;
     (_, s) \<leftarrow> create_file_under_node d2 FILE_IPC0 IPC_TYPE s;
     Some s } = Some (t\<lparr>path_tree := \<lparr>dt_ma = p, dt_ma_aval_start = f4 + 48, dt_n_nodes = 0, dt_root = NULL\<rparr>,
      dir_heap := (dir_heap t)(d1 \<mapsto> dir_obj r d2 f1 (padded ''/dev''), d2 \<mapsto> dir_obj r NULL f4 (padded ''/ipc'')),
      file_heap := (file_heap t)(f1 \<mapsto> fs_file d1 f2 f2 NULL CONSOLE_IN_TYPE (padded ''/console_in''),
        f2 \<mapsto> fs_file d1 f3 f3 f1 CONSOLE_OUT_TYPE (padded ''/console_out''),
        f3 \<mapsto> fs_file d1 NULL f4 f2 TTY0_TYPE (padded ''/tty0''),
        f4 \<mapsto> fs_file d2 NULL NULL f3 IPC_TYPE (padded ''/ipc0'')),
      file_list_head := f1\<rparr>)"
  using assms
  by (simp add: create_file_under_node_def new_obj_def deref_def upd_objs boot_names find_end_filesibling_def file_list_push_def
      walk_end_step Let_def fs_file_def dir_obj_def fun_upd_twist)

lemma text_of_padded: "NUL \<notin> set t \<Longrightarrow> length t < 16 \<Longrightarrow> text_of (padded t) = t \<and> NUL \<in> set (padded t)"
  by (cases "16 - length t") (auto simp: text_of_def padded_def takeWhile_append)

lemma bind3_SomeD:
  "do { (q, s) \<leftarrow> m; (a, s) \<leftarrow> f s; (b, s) \<leftarrow> g s; Some (q, a, b, s) } = Some (x, y, z, u) \<Longrightarrow>
    \<exists>s1 s2. m = Some (x, s1) \<and> f s1 = Some (y, s2) \<and> g s2 = Some (z, u)"
  by (auto simp: bind_eq_Some_conv)

lemma bind4_SomeD:
  "do { (_, s) \<leftarrow> m; (_, s) \<leftarrow> f s; (_, s) \<leftarrow> g s; (_, s) \<leftarrow> h s; Some s } = Some u \<Longrightarrow>
    \<exists>a b c d s1 s2 s3. m = Some (a, s1) \<and> f s1 = Some (b, s2) \<and> g s2 = Some (c, s3) \<and> h s3 = Some (d, u)"
  by (auto simp: bind_eq_Some_conv)

lemma kblk_pool_cong: "blk_heap t = blk_heap s \<Longrightarrow> kpage t = kpage s \<Longrightarrow> kblk_pool t = kblk_pool s"
  by (intro ext) (simp add: kblk_pool_def kblks_ok_def)

lemma ipc_buf_alloc_ok:
  assumes "kblk_pool s (a # c # ks) ka" and "valid_range a 16384"
  shows "\<exists>s'. ipc_buf_alloc s = Some (0, s') \<and> ipc_holds s' [] \<and> ipc_cap s' = 128
    \<and> kblk_pool s' (c # ks) (ka @ [a]) \<and> dir_heap s' = dir_heap s \<and> file_heap s' = file_heap s
    \<and> root s' = root s \<and> file_list_head s' = file_list_head s
    \<and> page_heap s' = page_heap s \<and> free_page_head s' = free_page_head s \<and> inuse_page_head s' = inuse_page_head s
    \<and> s' = s\<lparr>ipc_q := ipc_q s', bytes := bytes s', kpage := kpage s', blk_heap := blk_heap s'\<rparr>
    \<and> links b_start (blk_heap s') = links b_start (blk_heap s) \<and> (\<forall>bs. kblks_ok s bs \<longrightarrow> kblks_ok s' (tl bs))
    \<and> kblk_list_base s' = kblk_list_base s \<and> pgstart (kpage s') = pgstart (kpage s)"
proof -
  obtain q' t where t: "kq_init 128 (ipc_q s) s = Some (0, q', t)" "queue_rel q' t []" "q_size q' = 128"
    "kblk_pool t (c # ks) (ka @ [a])"
    using kq_init_ok [OF assms(1), of 128 "ipc_q s"] assms(2) by auto
  obtain b d bs where b: "kblks_ok s (b # d # bs)" "links b_start (blk_heap s) b = Some a"
    using assms(1) by (auto simp: kblk_pool_def Cons_eq_map_conv)
  obtain u where u: "kblk_alloc FOR_QUEUE s = Some (a, u)" "kblks_ok u (d # bs)"
    "links b_start (blk_heap u) = links b_start (blk_heap s)"
    "u = s\<lparr>kpage := (kpage s)\<lparr>blk_list_head := d\<rparr>, blk_heap := blk_heap u\<rparr>"
    using kblk_alloc_starts [OF b(1), of FOR_QUEUE] b(2) by auto
  obtain m where m: "t = u\<lparr>bytes := m\<rparr>"
  proof -
    have "\<exists>m. mem_set a 0 (word_of_int 128) u = Some (u\<lparr>bytes := m\<rparr>)"
      using mem_set_ok [of a "word_of_int 128" 0 u] assms(2) by (auto simp: valid_range_def)
    then show ?thesis using that t(1) u(1) assms(2) by (auto simp: kq_init_def valid_range_def)
  qed
  define s' where "s' = s\<lparr>kpage := (kpage s)\<lparr>blk_list_head := d\<rparr>, blk_heap := blk_heap u, bytes := m, ipc_q := q'\<rparr>"
  have eq: "u\<lparr>bytes := m, ipc_q := q'\<rparr> = s'" by (subst u(4)) (simp add: s'_def)
  have heap: "blk_heap s' = blk_heap u" "kpage s' = kpage u" by (simp_all flip: eq)
  have run: "ipc_buf_alloc s = Some (0, s')" using t(1) m eq by (simp add: ipc_buf_alloc_def)
  have "queue_rel q' s' []" "kblk_pool s' (c # ks) (ka @ [a])" "kblks_ok s' (d # bs)"
    using t(2,4) u(2) by (simp_all add: m queue_rel_def kblk_pool_def kblks_ok_def flip: eq)
  moreover have "kblks_ok s' (tl cs)" if "kblks_ok s cs" for cs
  proof -
    have "cs = b # d # bs" using that b(1) chain_unique [of "links b_next (blk_heap s)"] unfolding kblks_ok_def by blast
    then show ?thesis using \<open>kblks_ok s' (d # bs)\<close> by simp
  qed
  ultimately have "ipc_holds s' []" "ipc_cap s' = 128" "kblk_pool s' (c # ks) (ka @ [a])" "\<forall>cs. kblks_ok s cs \<longrightarrow> kblks_ok s' (tl cs)"
    using t(3) by (simp_all add: ipc_holds_def ipc_cap_def s'_def)
  moreover have "s' = s\<lparr>ipc_q := ipc_q s', bytes := bytes s', kpage := kpage s', blk_heap := blk_heap s'\<rparr>" by (simp add: s'_def)
  ultimately show ?thesis using run u(3) by (intro exI [of _ s']) (simp add: s'_def)
qed

text \<open>The addresses at which the seven objects are carved.\<close>

definition fs_addrs :: "addr \<Rightarrow> addr \<Rightarrow> addr \<Rightarrow> addr \<Rightarrow> addr \<Rightarrow> addr \<Rightarrow> addr \<Rightarrow> bool" where
  "fs_addrs r d1 d2 f1 f2 f3 f4 \<longleftrightarrow> d1 = r + 36 \<and> d2 = d1 + 36 \<and> f1 = d2 + 36 \<and> f2 = f1 + 48
     \<and> f3 = f2 + 48 \<and> f4 = f3 + 48"

lemma fs_addrs_distinct:
  assumes "fs_addrs r d1 d2 f1 f2 f3 f4"
  shows "r \<noteq> d1" "r \<noteq> d2" "d1 \<noteq> d2" "f1 \<noteq> f2" "f1 \<noteq> f3" "f1 \<noteq> f4" "f2 \<noteq> f3" "f2 \<noteq> f4" "f3 \<noteq> f4"
  using assms by (simp_all add: fs_addrs_def)

lemma fs_addrs_non_NULL:
  assumes "fs_addrs r d1 d2 f1 f2 f3 f4" and "valid_range r 300"
  shows "r \<noteq> NULL" "d1 \<noteq> NULL" "d2 \<noteq> NULL" "f1 \<noteq> NULL" "f2 \<noteq> NULL" "f3 \<noteq> NULL" "f4 \<noteq> NULL"
proof -
  have at: "d1 = r + of_nat 36" "d2 = r + of_nat 72" "f1 = r + of_nat 108" "f2 = r + of_nat 156"
    "f3 = r + of_nat 204" "f4 = r + of_nat 252"
    using assms(1) by (simp_all add: fs_addrs_def)
  show "r \<noteq> NULL" using assms(2) by (simp add: valid_range_def)
  show "d1 \<noteq> NULL" "d2 \<noteq> NULL" "f1 \<noteq> NULL" "f2 \<noteq> NULL" "f3 \<noteq> NULL" "f4 \<noteq> NULL"
    unfolding at by (rule valid_range_at(1) [OF assms(2)], simp)+
qed

lemma fs_build:
  assumes init: "path_tree_init s = Some (0, t)" "root t = NULL" "file_list_head t = NULL"
      "path_tree t = \<lparr>dt_ma = p, dt_ma_aval_start = r, dt_n_nodes = 0, dt_root = NULL\<rparr>"
    and ad: "fs_addrs r d1 d2 f1 f2 f3 f4" "valid_range r 300"
  shows "\<exists>w. (\<forall>s'. ipc_buf_alloc w = Some (0, s') \<longrightarrow> file_in_ram_init junk s = Some (0, s'))
    \<and> root w = r \<and> file_list_head w = f1 \<and> blk_heap w = blk_heap t \<and> kpage w = kpage t
    \<and> dir_heap w = (dir_heap t)(r \<mapsto> root_obj junk d1, d1 \<mapsto> dir_obj r d2 f1 (padded ''/dev''),
        d2 \<mapsto> dir_obj r NULL f4 (padded ''/ipc''))
    \<and> file_heap w = (file_heap t)(f1 \<mapsto> fs_file d1 f2 f2 NULL CONSOLE_IN_TYPE (padded ''/console_in''),
        f2 \<mapsto> fs_file d1 f3 f3 f1 CONSOLE_OUT_TYPE (padded ''/console_out''),
        f3 \<mapsto> fs_file d1 NULL f4 f2 TTY0_TYPE (padded ''/tty0''),
        f4 \<mapsto> fs_file d2 NULL NULL f3 IPC_TYPE (padded ''/ipc0''))
    \<and> w = t\<lparr>path_tree := path_tree w, root := r, dir_heap := dir_heap w, file_heap := file_heap w, file_list_head := f1\<rparr>"
proof -
  note nn = fs_addrs_non_NULL [OF ad] and ne = fs_addrs_distinct [OF ad(1)]
  note ads = ad(1) [unfolded fs_addrs_def]
  define u where "u = t\<lparr>root := r,
      path_tree := \<lparr>dt_ma = p, dt_ma_aval_start = f1, dt_n_nodes = 0, dt_root = NULL\<rparr>,
      dir_heap := (dir_heap t)(r \<mapsto> root_obj junk d1, d2 \<mapsto> dir_obj r NULL NULL (padded ''/ipc''),
        d1 \<mapsto> dir_obj r d2 NULL (padded ''/dev''))\<rparr>"
  have "r + 36 = d1" "d1 + 36 = d2" "d2 + 36 = f1" using ads by metis+
  note B = boot_dirs [OF init(2,4) nn(1-3) ne(1-3) this, of junk, folded u_def]
  define w where "w = u\<lparr>path_tree := \<lparr>dt_ma = p, dt_ma_aval_start = f4 + 48, dt_n_nodes = 0, dt_root = NULL\<rparr>,
      dir_heap := (dir_heap u)(d1 \<mapsto> dir_obj r d2 f1 (padded ''/dev''), d2 \<mapsto> dir_obj r NULL f4 (padded ''/ipc'')),
      file_heap := (file_heap u)(f1 \<mapsto> fs_file d1 f2 f2 NULL CONSOLE_IN_TYPE (padded ''/console_in''),
        f2 \<mapsto> fs_file d1 f3 f3 f1 CONSOLE_OUT_TYPE (padded ''/console_out''),
        f3 \<mapsto> fs_file d1 NULL f4 f2 TTY0_TYPE (padded ''/tty0''),
        f4 \<mapsto> fs_file d2 NULL NULL f3 IPC_TYPE (padded ''/ipc0'')),
      file_list_head := f1\<rparr>"
  have u: "root u \<noteq> NULL" "file_list_head u = NULL"
    "path_tree u = \<lparr>dt_ma = p, dt_ma_aval_start = f1, dt_n_nodes = 0, dt_root = NULL\<rparr>"
    "dir_heap u d1 = Some (dir_obj r d2 NULL (padded ''/dev''))"
    "dir_heap u d2 = Some (dir_obj r NULL NULL (padded ''/ipc''))"
    using nn(1) ne(3) init(3) by (simp_all add: u_def)
  have "f1 + 48 = f2" "f2 + 48 = f3" "f3 + 48 = f4" using ads by metis+
  note F = boot_files [OF u nn(2,3) ne(3) nn(4-7) ne(4-9) this, folded w_def]
  obtain u1 u2 where B': "create_root_path junk t = Some (0, u1)"
    "create_path_node (root u1) PATH_dev u1 = Some (d1, u2)" "create_path_node (root u2) PATH_ipc u2 = Some (d2, u)"
    using bind3_SomeD [OF B] by blast
  obtain a1 a2 a3 a4 w1 w2 w3 where F': "create_file_under_node d1 FILE_CONSOLE_IN CONSOLE_IN_TYPE u = Some (a1, w1)"
    "create_file_under_node d1 FILE_CONSOLE_OUT CONSOLE_OUT_TYPE w1 = Some (a2, w2)"
    "create_file_under_node d1 FILE_TTY0 TTY0_TYPE w2 = Some (a3, w3)"
    "create_file_under_node d2 FILE_IPC0 IPC_TYPE w3 = Some (a4, w)"
    using bind4_SomeD [OF F] by blast
  have "file_in_ram_init junk s = Some (0, s')" if "ipc_buf_alloc w = Some (0, s')" for s'
    using that init(1) B' F' nn(2,3) by (simp add: file_in_ram_init_def)
  moreover have "dir_heap w = (dir_heap t)(r \<mapsto> root_obj junk d1, d1 \<mapsto> dir_obj r d2 f1 (padded ''/dev''),
        d2 \<mapsto> dir_obj r NULL f4 (padded ''/ipc''))"
    using ne(3) by (simp add: w_def u_def fun_upd_twist)
  ultimately show ?thesis
    by (intro exI [of _ w]) (simp add: w_def u_def)
qed

text \<open>The parts of the state that the file system occupies.\<close>

definition no_files :: "kstate \<Rightarrow> kstate" where
  "no_files s = (no_pages s)\<lparr>path_tree := \<lparr>dt_ma = 0, dt_ma_aval_start = 0, dt_n_nodes = 0, dt_root = 0\<rparr>, root := NULL,
     dir_heap := Map.empty, file_heap := Map.empty, file_list_head := NULL,
     ipc_q := \<lparr>q_size = 0, q_head = 0, q_end = 0, q_n_data = 0, q_data = 0\<rparr>, bytes := \<lambda>_. 0, kpage := zero_page, blk_heap := Map.empty\<rparr>"

lemma file_in_ram_init_ok:
  assumes "pages_ok s (p # q # fs) us" and "page_heap s p = Some v" and "root s = NULL" and "file_list_head s = NULL"
    and "kblk_pool s (a # c # ks) ka" and "valid_range a 16384" and "valid_range (pgstart v) 300"
    and ad: "fs_addrs (pgstart v) d1 d2 f1 f2 f3 f4"
  shows "\<exists>s'. file_in_ram_init junk s = Some (0, s') \<and> root s' = pgstart v \<and> file_list_head s' = f1
    \<and> dir_heap s' = (dir_heap s)(pgstart v \<mapsto> root_obj junk d1, d1 \<mapsto> dir_obj (pgstart v) d2 f1 (padded ''/dev''),
        d2 \<mapsto> dir_obj (pgstart v) NULL f4 (padded ''/ipc''))
    \<and> file_heap s' = (file_heap s)(f1 \<mapsto> fs_file d1 f2 f2 NULL CONSOLE_IN_TYPE (padded ''/console_in''),
        f2 \<mapsto> fs_file d1 f3 f3 f1 CONSOLE_OUT_TYPE (padded ''/console_out''),
        f3 \<mapsto> fs_file d1 NULL f4 f2 TTY0_TYPE (padded ''/tty0''),
        f4 \<mapsto> fs_file d2 NULL NULL f3 IPC_TYPE (padded ''/ipc0''))
    \<and> ipc_holds s' [] \<and> ipc_cap s' = 128
    \<and> pages_ok s' (q # fs) (us @ [p]) \<and> links pg_fixed (page_heap s') = links pg_fixed (page_heap s)
    \<and> links b_start (blk_heap s') = links b_start (blk_heap s) \<and> (\<forall>bs. kblks_ok s bs \<longrightarrow> kblks_ok s' (tl bs))
    \<and> no_files s' = no_files s"
proof -
  have vr: "valid_range (pgstart v) 300" using assms(7) .
  obtain t where t: "path_tree_init s = Some (0, t)" "root t = NULL" "file_list_head t = NULL"
    "path_tree t = \<lparr>dt_ma = p, dt_ma_aval_start = pgstart v, dt_n_nodes = 0, dt_root = NULL\<rparr>"
    "blk_heap t = blk_heap s" "kpage t = kpage s" "dir_heap t = dir_heap s" "file_heap t = file_heap s"
    "pages_ok t (q # fs) (us @ [p])" "links pg_fixed (page_heap t) = links pg_fixed (page_heap s)"
    "no_pages t = (no_pages s)\<lparr>path_tree := path_tree t\<rparr>"
    using path_tree_init_ok [OF assms(1,2)] assms(3,4) by auto
  obtain w where w: "\<And>s'. ipc_buf_alloc w = Some (0, s') \<Longrightarrow> file_in_ram_init junk s = Some (0, s')"
    "root w = pgstart v" "file_list_head w = f1" "blk_heap w = blk_heap t" "kpage w = kpage t"
    "dir_heap w = (dir_heap t)(pgstart v \<mapsto> root_obj junk d1, d1 \<mapsto> dir_obj (pgstart v) d2 f1 (padded ''/dev''),
        d2 \<mapsto> dir_obj (pgstart v) NULL f4 (padded ''/ipc''))"
    "file_heap w = (file_heap t)(f1 \<mapsto> fs_file d1 f2 f2 NULL CONSOLE_IN_TYPE (padded ''/console_in''),
        f2 \<mapsto> fs_file d1 f3 f3 f1 CONSOLE_OUT_TYPE (padded ''/console_out''),
        f3 \<mapsto> fs_file d1 NULL f4 f2 TTY0_TYPE (padded ''/tty0''),
        f4 \<mapsto> fs_file d2 NULL NULL f3 IPC_TYPE (padded ''/ipc0''))"
    "w = t\<lparr>path_tree := path_tree w, root := pgstart v, dir_heap := dir_heap w, file_heap := file_heap w, file_list_head := f1\<rparr>"
    using fs_build [OF t(1-4) ad vr, of junk] by blast
  have wpool: "kblk_pool w (a # c # ks) ka"
    using kblk_pool_cong [of w s] w(4,5) t(5,6) assms(5) by simp
  obtain s' where s': "ipc_buf_alloc w = Some (0, s')" "ipc_holds s' []" "ipc_cap s' = 128"
    "dir_heap s' = dir_heap w" "file_heap s' = file_heap w" "root s' = pgstart v" "file_list_head s' = f1"
    "page_heap s' = page_heap w" "free_page_head s' = free_page_head w" "inuse_page_head s' = inuse_page_head w"
    "s' = w\<lparr>ipc_q := ipc_q s', bytes := bytes s', kpage := kpage s', blk_heap := blk_heap s'\<rparr>"
    "links b_start (blk_heap s') = links b_start (blk_heap w)" "\<forall>bs. kblks_ok w bs \<longrightarrow> kblks_ok s' (tl bs)"
    using ipc_buf_alloc_ok [OF wpool assms(6)] unfolding w(2,3) by blast
  have pw: "page_heap w = page_heap t" "free_page_head w = free_page_head t" "inuse_page_head w = inuse_page_head t"
    by (subst w(8), simp)+
  have "no_files s' = no_files w" by (subst s'(11)) (simp add: no_files_def no_pages_def)
  also have "\<dots> = no_files t" by (subst w(8)) (simp add: no_files_def no_pages_def)
  also have "\<dots> = no_files s" by (simp add: no_files_def t(11))
  finally have "no_files s' = no_files s" .
  moreover have "pages_ok s' (q # fs) (us @ [p])" using t(9) by (simp add: pages_ok_def s'(8-10) pw)
  moreover have "kblks_ok w bs = kblks_ok s bs" for bs by (simp add: kblks_ok_def w(4,5) t(5,6))
  ultimately show ?thesis
    using w(1) [OF s'(1)] s'(2-7,12,13) w(4,6,7) t(5,7,8,10) s'(8) pw by (intro exI [of _ s']) simp
qed

section \<open>Properties\<close>

text \<open>
  C19: \<open>file_in_ram_init\<close> builds, in the first free page, the root with the directories /dev and
  /ipc, the files /console_in, /console_out and /tty0 under /dev and /ipc0 under /ipc, each with
  the read and write functions of its type and all on the list of files, and an empty IPC channel
  of 128 bytes. The contents of the page beforehand do not matter, except for the root's name
  buffer.
\<close>

theorem file_system_boot:
  assumes "pages_ok s (p # q # fs) us" and "page_heap s p = Some v" and "root s = NULL" and "file_list_head s = NULL"
    and "kblk_pool s (a # c # ks) ka" and "valid_range a 16384" and "valid_range (pgstart v) 300"
  shows "\<exists>s' d1 d2 f1 f2 f3 f4. file_in_ram_init junk s = Some (0, s')
    \<and> root s' = pgstart v \<and> dir_heap s' (pgstart v) = Some (root_obj junk d1)
    \<and> chain (links d_next_sibling (dir_heap s')) d1 [d1, d2]
    \<and> map (dir_text s') [d1, d2] = map Some [''/dev'', ''/ipc'']
    \<and> map (links d_parent (dir_heap s')) [d1, d2] = [Some (pgstart v), Some (pgstart v)]
    \<and> map (links d_firstfile (dir_heap s')) [d1, d2] = [Some f1, Some f4]
    \<and> chain (links f_next_sibling (file_heap s')) f1 [f1, f2, f3]
    \<and> chain (links f_next_sibling (file_heap s')) f4 [f4]
    \<and> dll (links f_list_next (file_heap s')) (links f_list_prev (file_heap s')) (file_list_head s') [f1, f2, f3, f4]
    \<and> map (file_text s') [f1, f2, f3, f4] = map Some [''/console_in'', ''/console_out'', ''/tty0'', ''/ipc0'']
    \<and> map (links file_read (file_heap s')) [f1, f2, f3, f4]
        = map Some [Fn_console_read, Fn_NULL, Fn_console_read, Fn_ipc_read]
    \<and> map (links file_write (file_heap s')) [f1, f2, f3, f4]
        = map Some [Fn_NULL, Fn_console_write, Fn_console_write, Fn_ipc_write]
    \<and> ipc_holds s' [] \<and> ipc_cap s' = 128"
proof -
  define r where "r = pgstart v"
  obtain d1 d2 f1 f2 f3 f4 where ad: "fs_addrs r d1 d2 f1 f2 f3 f4" by (simp add: fs_addrs_def)
  have vr: "valid_range r 300" using assms(7) by (simp add: r_def)
  note nn = fs_addrs_non_NULL [OF ad vr] and ne = fs_addrs_distinct [OF ad]
  obtain s' where s': "file_in_ram_init junk s = Some (0, s')" "root s' = r" "file_list_head s' = f1"
    "dir_heap s' = (dir_heap s)(r \<mapsto> root_obj junk d1, d1 \<mapsto> dir_obj r d2 f1 (padded ''/dev''), d2 \<mapsto> dir_obj r NULL f4 (padded ''/ipc''))"
    "file_heap s' = (file_heap s)(f1 \<mapsto> fs_file d1 f2 f2 NULL CONSOLE_IN_TYPE (padded ''/console_in''),
        f2 \<mapsto> fs_file d1 f3 f3 f1 CONSOLE_OUT_TYPE (padded ''/console_out''),
        f3 \<mapsto> fs_file d1 NULL f4 f2 TTY0_TYPE (padded ''/tty0''),
        f4 \<mapsto> fs_file d2 NULL NULL f3 IPC_TYPE (padded ''/ipc0''))"
    "ipc_holds s' []" "ipc_cap s' = 128"
    using file_in_ram_init_ok [OF assms ad [unfolded r_def], of junk] unfolding r_def by blast
  have dirs: "dir_heap s' r = Some (root_obj junk d1)" "dir_heap s' d1 = Some (dir_obj r d2 f1 (padded ''/dev''))"
    "dir_heap s' d2 = Some (dir_obj r NULL f4 (padded ''/ipc''))"
    using s'(4) ne(1-3) by simp_all
  have files: "file_heap s' f1 = Some (fs_file d1 f2 f2 NULL CONSOLE_IN_TYPE (padded ''/console_in''))"
    "file_heap s' f2 = Some (fs_file d1 f3 f3 f1 CONSOLE_OUT_TYPE (padded ''/console_out''))"
    "file_heap s' f3 = Some (fs_file d1 NULL f4 f2 TTY0_TYPE (padded ''/tty0''))"
    "file_heap s' f4 = Some (fs_file d2 NULL NULL f3 IPC_TYPE (padded ''/ipc0''))"
    using s'(5) ne(4-9) by simp_all
  have names: "text_of (padded t) = t" if "t \<in> {''/dev'', ''/ipc'', ''/console_in'', ''/console_out'', ''/tty0'', ''/ipc0''}" for t
    using that text_of_padded by auto
  show ?thesis
    unfolding r_def [symmetric]
    by (rule exI [of _ s'], rule exI [of _ d1], rule exI [of _ d2], rule exI [of _ f1], rule exI [of _ f2],
        rule exI [of _ f3], rule exI [of _ f4], intro conjI)
      (use s'(1) dirs files nn names s'(2,3,6,7) in
        \<open>simp_all add: root_obj_def dir_obj_def fs_file_def dir_text_def file_text_def
          dll_def file_read_of_def file_write_of_def\<close>)
qed

text \<open>The demonstration pages and two kernel blocks.\<close>

definition demo_boot :: kstate where
  "demo_boot = demo_pages\<lparr>kpage := kpage demo_kblks, blk_heap := blk_heap demo_kblks\<rparr>"

lemma demo_boot_ok:
  "pages_ok demo_boot [0x100, 0x200] [0x300, 0x400]"
  "page_heap demo_boot 0x100 = Some (demo_page 0x200 0 FOR_TASK 0x82100000)"
  "root demo_boot = NULL" "file_list_head demo_boot = NULL"
  "kblk_pool demo_boot [0x820a0000, 0x820a4000] []"
proof -
  show "pages_ok demo_boot [0x100, 0x200] [0x300, 0x400]"
    using demo_pages_ok by (simp add: demo_boot_def pages_ok_def)
  show "page_heap demo_boot 0x100 = Some (demo_page 0x200 0 FOR_TASK 0x82100000)"
    "root demo_boot = NULL" "file_list_head demo_boot = NULL"
    by (simp_all add: demo_boot_def demo_pages_def zero_state_def)
  have "kblk_pool demo_kblks [0x820a0000, 0x820a4000] []"
    unfolding kblk_pool_def
    by (intro conjI exI [of _ "[0x82027860, 0x8202787c]"] demo_kblks_ok(1))
      (simp_all add: demo_kblks_def init_blk_def)
  then show "kblk_pool demo_boot [0x820a0000, 0x820a4000] []"
    using kblk_pool_cong [of demo_boot demo_kblks] by (simp add: demo_boot_def)
qed

theorem file_system_boot_witness:
  "\<exists>s' d1 d2 f1. file_in_ram_init (replicate 16 (CHR ''?'')) demo_boot = Some (0, s') \<and> root s' = 0x82100000
    \<and> map (dir_text s') [d1, d2] = map Some [''/dev'', ''/ipc''] \<and> file_text s' f1 = Some ''/console_in''
    \<and> ipc_cap s' = 128"
  using file_system_boot [OF demo_boot_ok, of "replicate 16 (CHR ''?'')"]
  by (fastforce simp: demo_page_def valid_range_def)

lemma file_open_missing:
  "find_file filename s = Some NULL \<Longrightarrow> file_open filename task s = Some (-1, s)"
  by (simp add: file_open_def)

lemma file_open_full:
  assumes "find_file filename s = Some p" and "p \<noteq> NULL" and "task \<noteq> NULL" and "task_heap s task = Some tk"
    and "free_fd (openfiles tk) [0..<8] = -1"
  shows "file_open filename task s = Some (-1, s)"
  using assms by (simp add: file_open_def deref_def del: upt_rec_numeral)

lemma file_open_slot:
  assumes "find_file filename s = Some p" and "p \<noteq> NULL" and "task \<noteq> NULL" and "task_heap s task = Some tk"
    and "free_fd (openfiles tk) [0..<8] = int i"
  shows "file_open filename task s
    = Some (int i, s\<lparr>task_heap := (task_heap s)(task \<mapsto> tk\<lparr>openfiles := (openfiles tk)[i := p]\<rparr>)\<rparr>)"
  using assms by (simp add: file_open_def deref_def upd_objs Let_def del: upt_rec_numeral)

text \<open>
  C30: \<open>file_open\<close> finds the file by its full name and takes the lowest free descriptor, never 2;
  it returns -1 and changes nothing when no file has that name or no descriptor is free.
\<close>

theorem file_open_correct:
  assumes "str_at filename t s" and "chain (links f_list_next (file_heap s)) (file_list_head s) fs" and "fs \<noteq> []"
    and "terminated_files s fs" and "task \<noteq> NULL" and "task_heap s task = Some tk"
  shows "\<exists>fd s'. file_open filename task s = Some (fd, s') \<and>
    (if (\<forall>p \<in> set fs. file_text s p \<noteq> Some t) \<or> (\<forall>i < 8. openfiles tk ! i \<noteq> NULL \<or> i = 2)
     then fd = -1 \<and> s' = s
     else \<exists>i p. fd = int i \<and> i < 8 \<and> i \<noteq> 2 \<and> openfiles tk ! i = NULL \<and> (\<forall>j < i. openfiles tk ! j \<noteq> NULL \<or> j = 2)
       \<and> p \<in> set fs \<and> file_text s p = Some t
       \<and> s' = s\<lparr>task_heap := (task_heap s)(task \<mapsto> tk\<lparr>openfiles := (openfiles tk)[i := p]\<rparr>)\<rparr>)"
proof -
  let ?p = "first_or_NULL (\<lambda>p. file_text s p = Some t) fs"
  let ?none = "\<forall>p \<in> set fs. file_text s p \<noteq> Some t" and ?full = "\<forall>i < 8. openfiles tk ! i \<noteq> NULL \<or> i = 2"
  have find: "find_file filename s = Some ?p"
    unfolding find_file_def by (rule find_file_ok [OF assms(1-4)])
  have nn: "NULL \<notin> set fs" using assms(2) by simp
  have c: "?p = NULL \<and> ?none \<or> ?p \<in> set fs \<and> file_text s ?p = Some t \<and> ?p \<noteq> NULL"
    using first_or_NULL_cases [OF nn, of "\<lambda>p. file_text s p = Some t"] nn by metis
  have f: "free_fd (openfiles tk) [0..<8] = -1 \<Longrightarrow> ?full"
    using free_fd_none [of "openfiles tk" "[0..<8]"] by (simp del: upt_rec_numeral)
  consider (none) "?p = NULL" ?none
    | (full) "?p \<noteq> NULL" "free_fd (openfiles tk) [0..<8] = -1"
    | (slot) i where "?p \<in> set fs" "file_text s ?p = Some t" "?p \<noteq> NULL" "i < 8"
        "free_fd (openfiles tk) [0..<8] = int i" "openfiles tk ! i = NULL" "i \<noteq> 2"
        "\<forall>j < i. openfiles tk ! j \<noteq> NULL \<or> j = 2"
    using c free_fd_upt by metis
  then show ?thesis
  proof cases
    case none
    then show ?thesis using find file_open_missing by metis
  next
    case full
    then show ?thesis using file_open_full [OF find full(1) assms(5,6) full(2)] f by metis
  next
    case slot
    then have "\<not> (?none \<or> ?full)" by blast
    then show ?thesis using file_open_slot [OF find slot(3) assms(5,6) slot(5)] slot by metis
  qed
qed

definition demo_files :: kstate where
  "demo_files = zero_state\<lparr>
     file_heap := [0x500 \<mapsto> fs_file 0x100 NULL 0x600 NULL CONSOLE_IN_TYPE (padded ''/console_in''),
                   0x600 \<mapsto> fs_file 0x100 NULL NULL 0x500 TTY0_TYPE (padded ''/tty0'')],
     file_list_head := 0x500,
     task_heap := [0x900 \<mapsto> \<lparr>next_ptr = 0, prev_ptr = 0, stk_bottom = 0, stk_top = 0, taskCallBack = 0,
        task_id = 0, task_status = TASK_READY, task_context_ptr = 0, priority = 0,
        openfiles = [0x500, 0x500, 0, 0, 0, 0, 0, 0], cwdn = 0, pgtbase = 0\<rparr>]\<rparr>"

theorem file_open_correct_witness:
  "\<exists>s'. file_open (Cells (cstr ''/tty0'')) 0x900 demo_files = Some (3, s')"
proof -
  let ?tk = "\<lparr>next_ptr = 0, prev_ptr = 0, stk_bottom = 0, stk_top = 0, taskCallBack = 0,
        task_id = 0, task_status = TASK_READY, task_context_ptr = 0, priority = 0,
        openfiles = [0x500, 0x500, 0, 0, 0, 0, 0, 0], cwdn = 0, pgtbase = 0\<rparr>"
  have names: "text_of (padded ''/console_in'') = ''/console_in''" "text_of (padded ''/tty0'') = ''/tty0''"
    "NUL \<in> set (padded ''/console_in'')" "NUL \<in> set (padded ''/tty0'')"
    using text_of_padded [of "''/console_in''"] text_of_padded [of "''/tty0''"] by simp_all
  have tk: "task_heap demo_files 0x900 = Some ?tk" by (simp add: demo_files_def)
  have ch: "chain (links f_list_next (file_heap demo_files)) (file_list_head demo_files) [0x500, 0x600]"
    by (simp add: demo_files_def fs_file_def)
  have tf: "terminated_files demo_files [0x500, 0x600]"
    using names by (simp add: terminated_files_def demo_files_def fs_file_def)
  have ft: "file_text demo_files 0x600 = Some ''/tty0''" using names by (simp add: file_text_def demo_files_def fs_file_def)
  obtain fd s' where r: "file_open (Cells (cstr ''/tty0'')) 0x900 demo_files = Some (fd, s')"
    "if (\<forall>p \<in> set [0x500, 0x600]. file_text demo_files p \<noteq> Some ''/tty0'') \<or> (\<forall>i < 8. openfiles ?tk ! i \<noteq> NULL \<or> i = 2)
     then fd = -1 \<and> s' = demo_files
     else \<exists>i p. fd = int i \<and> i < 8 \<and> i \<noteq> 2 \<and> openfiles ?tk ! i = NULL \<and> (\<forall>j < i. openfiles ?tk ! j \<noteq> NULL \<or> j = 2)
       \<and> p \<in> set [0x500, 0x600] \<and> file_text demo_files p = Some ''/tty0''
       \<and> s' = demo_files\<lparr>task_heap := (task_heap demo_files)(0x900 \<mapsto> ?tk\<lparr>openfiles := (openfiles ?tk)[i := p]\<rparr>)\<rparr>"
    using file_open_correct [of "Cells (cstr ''/tty0'')" "''/tty0''" demo_files "[0x500, 0x600]" "0x900" ?tk] ch tf tk by auto
  have free: "openfiles ?tk ! 3 = NULL" by simp
  have "\<not> (\<forall>i < 8. openfiles ?tk ! i \<noteq> NULL \<or> i = 2)" using free by (metis numeral_eq_iff numeral_less_iff semiring_norm(76,78,81,88))
  then obtain i where i: "fd = int i" "i < 8" "i \<noteq> 2" "openfiles ?tk ! i = NULL" "\<forall>j < i. openfiles ?tk ! j \<noteq> NULL \<or> j = 2"
    using r(2) ft by (simp split: if_splits) blast
  have "\<not> 3 < i" using i(5) free by (metis numeral_eq_iff semiring_norm(88))
  moreover have "i \<noteq> 0" by (rule notI) (use i(4) in simp)
  moreover have "i \<noteq> 1" by (rule notI) (use i(4) in simp)
  ultimately have "i = 3" using i(3) by linarith
  then show ?thesis using r(1) i(1) by auto
qed

text \<open>
  A \<open>chdir\<close> target is the parent for the name "..", else the first subdirectory with exactly
  that name; \<open>NULL\<close> stands for no such directory, which is also what ".." gives at the root.
\<close>

theorem find_target_subdir_correct:
  assumes "cur \<noteq> NULL" and "dir_heap s cur = Some d" and "str_at name t s"
    and "chain (links d_next_sibling (dir_heap s)) (d_firstchild d) ds" and "terminated_dirs s ds"
  shows "\<exists>p. find_target_subdir cur name s = Some p \<and>
    (if t = ''..'' then p = d_parent d
     else if \<exists>q \<in> set ds. dir_text s q = Some t then p \<in> set ds \<and> dir_text s p = Some t
     else p = NULL)"
  using find_target_subdir_ok [OF assms(2,1,3,4,5)] first_or_NULL_cases [of ds "\<lambda>p. dir_text s p = Some t"] assms(4)
  by auto

definition demo_dirs :: kstate where
  "demo_dirs = zero_state\<lparr>dir_heap := [0x100 \<mapsto> root_obj [] 0x200, 0x200 \<mapsto> dir_obj 0x100 0x300 0 (padded ''/dev''),
     0x300 \<mapsto> dir_obj 0x100 0 0 (padded ''/ipc'')]\<rparr>"

theorem find_target_subdir_correct_witness:
  "find_target_subdir 0x100 (Cells (cstr ''/etc'')) demo_dirs = Some NULL"
proof -
  have names: "text_of (padded ''/dev'') = ''/dev''" "text_of (padded ''/ipc'') = ''/ipc''"
    "NUL \<in> set (padded ''/dev'')" "NUL \<in> set (padded ''/ipc'')"
    using text_of_padded [of "''/dev''"] text_of_padded [of "''/ipc''"] by simp_all
  show ?thesis
    using find_target_subdir_correct [of "0x100" demo_dirs "root_obj [] 0x200" "Cells (cstr ''/etc'')" "''/etc''" "[0x200, 0x300]"] names
    by (simp add: demo_dirs_def dir_obj_def root_obj_def terminated_dirs_def dir_text_def)
qed

end
