(* ===== verification/Devices.thy ===== *)
theory Devices
  imports Printk
begin

text \<open>
  The device drivers: \<^verbatim>\<open>src/src/driver/timer.c\<close>, \<^verbatim>\<open>usr_led.c\<close>, the initialisation in
  \<^verbatim>\<open>uart.c\<close>, and the interrupt-controller half of \<^verbatim>\<open>src/src/kernel/interrupt.c\<close>.
  A register is its address.
  \<open>wr32\<close> and \<open>wr8\<close> are the stores through \<^verbatim>\<open>volatile uint32_t *\<close> and
  \<^verbatim>\<open>volatile uint8_t *\<close>; both are logged.
  A register the hardware itself writes is read from \<open>dev_in\<close>; when the list is used up, the
  hardware has not answered and a polling loop has not ended (\<open>None\<close>).
  Delay loops and barriers have no effect on the state and are left out.
\<close>

unbundle bit_operations_syntax

section \<open>Registers\<close>

definition rd32 :: "addr \<Rightarrow> kstate \<Rightarrow> u32" where
  "rd32 a s = dev_reg s a"

definition wr32 :: "addr \<Rightarrow> u32 \<Rightarrow> kstate \<Rightarrow> kstate" where
  "wr32 a v s = s\<lparr>dev_reg := (dev_reg s)(a := v), dev_log := dev_log s @ [Wr32 a v]\<rparr>"

text \<open>A byte store changes one lane of the word register it falls in.\<close>

definition lane :: "addr \<Rightarrow> nat" where
  "lane a = 8 * unat (a AND 3)"

definition rd8 :: "addr \<Rightarrow> kstate \<Rightarrow> u8" where
  "rd8 a s = ucast (drop_bit (lane a) (dev_reg s (a AND NOT 3)))"

definition wr8 :: "addr \<Rightarrow> u8 \<Rightarrow> kstate \<Rightarrow> kstate" where
  "wr8 a v s =
     (let w = a AND NOT 3;
          old = dev_reg s w AND NOT (push_bit (lane a) 0xFF)
      in s\<lparr>dev_reg := (dev_reg s)(w := old OR push_bit (lane a) (ucast v)), dev_log := dev_log s @ [Wr8 a v]\<rparr>)"

fun poll_values :: "u32 \<Rightarrow> u32 list \<Rightarrow> u32 list option" where
  "poll_values msk [] = None"
| "poll_values msk (v # vs) = (if v AND msk \<noteq> 0 then poll_values msk vs else Some vs)"

text \<open>\<^verbatim>\<open>while (REG & msk) ;\<close>\<close>

definition poll :: "addr \<Rightarrow> u32 \<Rightarrow> kstate \<Rightarrow> kstate option" where
  "poll a msk s = map_option (\<lambda>vs. s\<lparr>dev_in := (dev_in s)(a := vs)\<rparr>) (poll_values msk (dev_in s a))"

section \<open>Timers\<close>

abbreviation (input) DMTIMER0_BASE :: addr where "DMTIMER0_BASE \<equiv> 0x44E05000"
abbreviation (input) DMTIMER2_BASE :: addr where "DMTIMER2_BASE \<equiv> 0x48040000"
abbreviation (input) IRQSTATUS :: addr where "IRQSTATUS \<equiv> 0x28"
abbreviation (input) IRQENABLE_SET :: addr where "IRQENABLE_SET \<equiv> 0x2c"
abbreviation (input) IRQENABLE_CLR :: addr where "IRQENABLE_CLR \<equiv> 0x30"
abbreviation (input) TCLR :: addr where "TCLR \<equiv> 0x38"
abbreviation (input) TCRR :: addr where "TCRR \<equiv> 0x3c"
abbreviation (input) TLDR :: addr where "TLDR \<equiv> 0x40"
abbreviation (input) CM_PER_TIMER2_CLKCTRL :: addr where "CM_PER_TIMER2_CLKCTRL \<equiv> 0x44e00080"
abbreviation (input) CM_PER_GPIO1_CLKCTRL :: addr where "CM_PER_GPIO1_CLKCTRL \<equiv> 0x44e000ac"

text \<open>\<^verbatim>\<open>~0 - (32768 * msecs / 1000)\<close>, in unsigned arithmetic.\<close>

definition timer_load :: "u32 \<Rightarrow> u32" where
  "timer_load msecs = NOT 0 - 32768 * msecs div 1000"

definition timer_init :: "addr \<Rightarrow> u32 \<Rightarrow> kstate \<Rightarrow> kstate" where
  "timer_init tmr msecs s =
     (let s = wr32 CM_PER_TIMER2_CLKCTRL (rd32 CM_PER_TIMER2_CLKCTRL s OR push_bit 1 1) s;
          s = wr32 (tmr + IRQENABLE_SET) (push_bit 1 1) s;
          s = wr32 (tmr + TCLR) (push_bit 1 1) s;
          s = wr32 (tmr + TLDR) (timer_load msecs) s;
          s = wr32 (tmr + TCRR) (timer_load msecs) s
      in wr32 (tmr + TCLR) (rd32 (tmr + TCLR) s OR push_bit 0 1) s)"

definition timer_start :: "addr \<Rightarrow> kstate \<Rightarrow> kstate" where
  "timer_start tmr s = wr32 (tmr + TCLR) (rd32 (tmr + TCLR) s OR push_bit 0 1) s"

definition timer_disable :: "addr \<Rightarrow> kstate \<Rightarrow> kstate" where
  "timer_disable tmr s =
     (let s = wr32 (tmr + TCLR) 0 s;
          s = wr32 (tmr + TLDR) 0 s
      in wr32 (tmr + IRQENABLE_CLR) (push_bit 1 1) s)"

definition ostick_init :: "addr \<Rightarrow> kstate \<Rightarrow> kstate" where
  "ostick_init tmr s =
     (let s = wr32 (tmr + IRQENABLE_SET) (push_bit 1 1) s;
          s = wr32 (tmr + TCLR) (push_bit 1 1) s;
          s = wr32 (tmr + TLDR) (NOT 0 - 32768 * 100 div 1000) s
      in wr32 (tmr + TCLR) (rd32 (tmr + TCLR) s OR push_bit 0 1) s)"

definition reload_ostick :: "u32 \<Rightarrow> kstate \<Rightarrow> kstate" where
  "reload_ostick msecs s = wr32 (DMTIMER0_BASE + TCRR) (timer_load msecs) s"

section \<open>Watchdog\<close>

abbreviation (input) WATCHDOG_BASE :: addr where "WATCHDOG_BASE \<equiv> 0x44E35000"
abbreviation (input) WDT_WCRR :: addr where "WDT_WCRR \<equiv> 0x28"
abbreviation (input) WDT_WLDR :: addr where "WDT_WLDR \<equiv> 0x2c"
abbreviation (input) WDT_WWPS :: addr where "WDT_WWPS \<equiv> 0x34"
abbreviation (input) WDT_WSPR :: addr where "WDT_WSPR \<equiv> 0x48"
abbreviation (input) W_PEND_WCRR :: u32 where "W_PEND_WCRR \<equiv> 2"
abbreviation (input) W_PEND_WLDR :: u32 where "W_PEND_WLDR \<equiv> 4"
abbreviation (input) W_PEND_WSPR :: u32 where "W_PEND_WSPR \<equiv> 16"

definition reload_watchdog :: "addr \<Rightarrow> kstate \<Rightarrow> kstate option" where
  "reload_watchdog base s = poll (base + WDT_WWPS) W_PEND_WLDR (wr32 (base + WDT_WLDR) 1 s)"

definition disable_watchdog :: "addr \<Rightarrow> kstate \<Rightarrow> kstate option" where
  "disable_watchdog base s = do {
     s \<leftarrow> poll (base + WDT_WWPS) W_PEND_WSPR (wr32 (base + WDT_WSPR) 0xAAAA s);
     poll (base + WDT_WWPS) W_PEND_WSPR (wr32 (base + WDT_WSPR) 0x5555 s)
   }"

definition enable_watchdog :: "addr \<Rightarrow> kstate \<Rightarrow> kstate option" where
  "enable_watchdog base s = do {
     s \<leftarrow> poll (base + WDT_WWPS) W_PEND_WSPR (wr32 (base + WDT_WSPR) 0xBBBB s);
     poll (base + WDT_WWPS) W_PEND_WSPR (wr32 (base + WDT_WSPR) 0x4444 s)
   }"

definition set_wdt_count :: "addr \<Rightarrow> u32 \<Rightarrow> kstate \<Rightarrow> kstate option" where
  "set_wdt_count base countVal s = poll (base + WDT_WWPS) W_PEND_WCRR (wr32 (base + WDT_WCRR) countVal s)"

section \<open>LEDs and UART setup\<close>

abbreviation (input) GPIO_OE :: addr where "GPIO_OE \<equiv> 0x4804C134"
abbreviation (input) GPIO_DATAOUT :: addr where "GPIO_DATAOUT \<equiv> 0x4804C13C"
abbreviation (input) GPIO_CLEARDATAOUT :: addr where "GPIO_CLEARDATAOUT \<equiv> 0x4804C190"
abbreviation (input) GPIO_SETDATAOUT :: addr where "GPIO_SETDATAOUT \<equiv> 0x4804C194"

definition init_usrled_asm :: "kstate \<Rightarrow> kstate" where
  "init_usrled_asm s =
     (let s = wr32 CM_PER_GPIO1_CLKCTRL (push_bit 18 1 OR 2) s
      in wr32 GPIO_OE (rd32 GPIO_OE s AND NOT (push_bit 21 15)) s)"

definition blink_usrled_asm :: "kstate \<Rightarrow> kstate" where
  "blink_usrled_asm s = wr32 GPIO_CLEARDATAOUT (push_bit 21 15) (wr32 GPIO_SETDATAOUT (push_bit 21 15) s)"

definition usrled_init :: "kstate \<Rightarrow> kstate" where
  "usrled_init s =
     (let s = wr32 CM_PER_GPIO1_CLKCTRL 0x40002 s
      in wr32 GPIO_OE (rd32 GPIO_OE s AND NOT (push_bit 21 15)) s)"

definition usrled_blink :: "kstate \<Rightarrow> kstate" where
  "usrled_blink s = wr32 GPIO_CLEARDATAOUT (push_bit 21 15) (wr32 GPIO_SETDATAOUT (push_bit 21 15) s)"

definition toggle_usrled :: "u32 \<Rightarrow> kstate \<Rightarrow> kstate" where
  "toggle_usrled usr_led_num s =
     wr32 GPIO_DATAOUT (rd32 GPIO_DATAOUT s XOR push_bit (21 + unat usr_led_num) 1) s"

section \<open>Interrupt controller\<close>

text \<open>
  \<^verbatim>\<open>INTC_BASE_PTR\<close> is a \<^verbatim>\<open>volatile uint8_t *\<close>, so every store below is a byte store and what it
  stores is cut to eight bits.
\<close>

abbreviation (input) INTC_BASE :: addr where "INTC_BASE \<equiv> 0x48200000"
abbreviation (input) INTC_SIR_IRQ :: addr where "INTC_SIR_IRQ \<equiv> 0x40"
abbreviation (input) INTC_CONTROL :: addr where "INTC_CONTROL \<equiv> 0x48"
abbreviation (input) INTC_MIR_CLEAR0 :: addr where "INTC_MIR_CLEAR0 \<equiv> 0x88"
abbreviation (input) INTC_MIR_SET0 :: addr where "INTC_MIR_SET0 \<equiv> 0x8c"
abbreviation (input) INTC_ILR_n_BASE :: addr where "INTC_ILR_n_BASE \<equiv> 0x100"
abbreviation (input) NEW_IRQ_AGREE :: u8 where "NEW_IRQ_AGREE \<equiv> 1"

definition int_unmask :: "u32 \<Rightarrow> kstate \<Rightarrow> kstate" where
  "int_unmask irq_id s =
     (let interrupt_group = signed_drop_bit 5 irq_id
      in wr8 (INTC_BASE + INTC_MIR_CLEAR0 + 0x20 * interrupt_group) (ucast (push_bit (unat (irq_id AND 0x1F)) (1 :: u32))) s)"

definition int_mask :: "u32 \<Rightarrow> kstate \<Rightarrow> kstate" where
  "int_mask irq_id s =
     (let interrupt_group = signed_drop_bit 5 irq_id
      in wr8 (INTC_BASE + INTC_MIR_SET0 + 0x20 * interrupt_group) (ucast (push_bit (unat (irq_id AND 0x1F)) (1 :: u32))) s)"

definition get_act_irqnum :: "kstate \<Rightarrow> (u32 \<times> kstate) option" where
  "get_act_irqnum s =
     (case dev_in s (INTC_BASE + INTC_SIR_IRQ) of
        [] \<Rightarrow> None
      | v # vs \<Rightarrow> Some (ucast (ucast v :: u8) AND 127, s\<lparr>dev_in := (dev_in s)(INTC_BASE + INTC_SIR_IRQ := vs)\<rparr>))"

definition set_irq_route_prio :: "u32 \<Rightarrow> u32 \<Rightarrow> u32 \<Rightarrow> kstate \<Rightarrow> kstate" where
  "set_irq_route_prio irq_id pr route s =
     wr8 (INTC_BASE + INTC_ILR_n_BASE + irq_id * 4) (ucast ((push_bit 2 pr AND 0xfc) OR route)) s"

definition set_irq_route :: "u32 \<Rightarrow> u32 \<Rightarrow> kstate \<Rightarrow> kstate" where
  "set_irq_route irq_id route s =
     (let a = INTC_BASE + INTC_ILR_n_BASE + irq_id * 4 in wr8 a (ucast (ucast (rd8 a s) OR route)) s)"

definition set_new_irq_agr :: "kstate \<Rightarrow> kstate" where
  "set_new_irq_agr s =
     (let a = INTC_BASE + INTC_CONTROL in wr8 a (rd8 a s OR NEW_IRQ_AGREE) s)"

text \<open>The four cases of the \<^verbatim>\<open>switch\<close>; for \<open>irq_id\<close> above 127 none applies.\<close>

definition irq_line_write :: "addr \<Rightarrow> u8 \<Rightarrow> kstate \<Rightarrow> kstate" where
  "irq_line_write reg0 irq_id s =
     (let v = ucast (push_bit (unat (irq_id AND 31)) (1 :: u32));
          g = unat (drop_bit 5 irq_id)
      in if g = 0 then wr8 (INTC_BASE + reg0) v s
         else if g = 1 then wr8 (INTC_BASE + (reg0 + 0x20)) v s
         else if g = 2 then wr8 (INTC_BASE + (reg0 + 0x40)) v s
         else if g = 3 then wr8 (INTC_BASE + (reg0 + 0x60)) v s
         else s)"

definition enable_irq_id :: "u8 \<Rightarrow> kstate \<Rightarrow> kstate" where
  "enable_irq_id irq_id s = irq_line_write INTC_MIR_CLEAR0 irq_id s"

definition disable_irq_id :: "u8 \<Rightarrow> kstate \<Rightarrow> kstate" where
  "disable_irq_id irq_id s = irq_line_write INTC_MIR_SET0 irq_id s"

definition irq_handler_array_init :: "kstate \<Rightarrow> kstate" where
  "irq_handler_array_init s = s\<lparr>irq_handler_array := replicate 128 NULL\<rparr>"

definition irq_init :: "kstate \<Rightarrow> kstate" where
  "irq_init s = irq_handler_array_init s"

text \<open>The index is a \<^verbatim>\<open>uint8_t\<close> and the array has 128 entries.\<close>

definition irq_isr_bind :: "u8 \<Rightarrow> addr \<Rightarrow> kstate \<Rightarrow> kstate option" where
  "irq_isr_bind irq_id handler s =
     (if unat irq_id < 128
      then Some (wr8 (INTC_BASE + INTC_ILR_n_BASE + ucast irq_id) 0
                   (s\<lparr>irq_handler_array := (irq_handler_array s)[unat irq_id := handler]\<rparr>))
      else None)"

definition irq_isr_unbind :: "u8 \<Rightarrow> kstate \<Rightarrow> kstate option" where
  "irq_isr_unbind irq_id s =
     (let s = wr8 (INTC_BASE + INTC_ILR_n_BASE + ucast irq_id) 0 s
      in if unat irq_id < 128 then Some (s\<lparr>irq_handler_array := (irq_handler_array s)[unat irq_id := NULL]\<rparr>)
         else None)"

definition enable_timer_bind_isr :: "u32 \<Rightarrow> addr \<Rightarrow> kstate \<Rightarrow> kstate option" where
  "enable_timer_bind_isr irq_id handler s = do {
     s \<leftarrow> irq_isr_bind (ucast irq_id) handler s;
     Some (enable_irq_id (ucast irq_id) s)
   }"

definition disable_timer_unbind_isr :: "u32 \<Rightarrow> kstate \<Rightarrow> kstate option" where
  "disable_timer_unbind_isr irq_id s = irq_isr_unbind (ucast irq_id) (disable_irq_id (ucast irq_id) s)"

definition enable_ostick :: "u8 \<Rightarrow> kstate \<Rightarrow> kstate" where
  "enable_ostick irq_id s = enable_irq_id irq_id (wr8 (INTC_BASE + INTC_ILR_n_BASE + ucast irq_id) 0 s)"

section \<open>What the writes mean\<close>

text \<open>
  The documented reading of the AM335x mask registers: writing a one to a bit of
  \<^verbatim>\<open>INTC_MIR_CLEARn\<close> unmasks that line, to a bit of \<^verbatim>\<open>INTC_MIR_SETn\<close> masks it; a byte
  store reaches the lines of its lane.
\<close>

definition lines_of_byte :: "addr \<Rightarrow> dev_write \<Rightarrow> nat set" where
  "lines_of_byte reg0 w = (case w of
       Wr8 a v \<Rightarrow> {32 * n + 8 * l + b | n l b. n < 4 \<and> l < 4 \<and> b < 8
                     \<and> a = INTC_BASE + reg0 + 0x20 * of_nat n + of_nat l \<and> bit v b}
     | Wr32 a v \<Rightarrow> {32 * n + b | n b. n < 4 \<and> b < 32 \<and> a = INTC_BASE + reg0 + 0x20 * of_nat n \<and> bit v b})"

lemma irq_line_cases:
  assumes "unat irq_id = 32 * n + k" "n < 4" "k < 32"
  shows "irq_line_write reg0 irq_id s = wr8 (0x48200000 + (reg0 + 0x20 * of_nat n)) (ucast (push_bit k (1::u32))) s"
proof -
  have "irq_id AND 31 = take_bit 5 irq_id" by (simp add: take_bit_eq_mask mask_eq_exp_minus_1)
  then have k: "unat (irq_id AND 31) = k" using assms by (simp add: unsigned_take_bit_eq take_bit_eq_mod unat_mod)
  have g: "unat (drop_bit 5 irq_id) = n" using assms by (simp add: drop_bit_eq_div unat_div)
  consider "n = 0" | "n = 1" | "n = 2" | "n = 3" using assms(2) by linarith
  then show ?thesis using g k by cases (simp_all add: irq_line_write_def)
qed

lemma irq_line_none: "\<not> unat irq_id < 128 \<Longrightarrow> irq_line_write reg0 irq_id s = s"
  using unat_div [of irq_id 32] by (simp add: irq_line_write_def drop_bit_eq_div Let_def)

lemma bit_byte: "bit (ucast (push_bit k (1::u32)) :: u8) b \<longleftrightarrow> k < 8 \<and> b = k"
  by (auto simp: bit_unsigned_iff bit_push_bit_iff bit_1_iff simp del: push_bit_of_1)

lemma of_nat32_eq: "x < 2 ^ 32 \<Longrightarrow> y < 2 ^ 32 \<Longrightarrow> (of_nat x :: u32) = of_nat y \<longleftrightarrow> x = y"
  using unat_of_nat32 by metis

lemma shift_eq: "c + (r + a) = c + r + a' + b \<longleftrightarrow> a = a' + b" for c :: "'a::ab_group_add"
  by (simp add: add.assoc)

lemma reg_byte_eq:
  assumes "n < 4" "n' < 4" "l < 4"
  shows "(0x48200000 + (reg0 + 0x20 * of_nat n) = (0x48200000 + reg0 + 0x20 * of_nat n' + of_nat l :: u32)) \<longleftrightarrow> n' = n \<and> l = 0"
proof -
  have "(0x48200000 + (reg0 + 0x20 * of_nat n) = (0x48200000 + reg0 + 0x20 * of_nat n' + of_nat l :: u32))
      \<longleftrightarrow> (of_nat (32 * n) :: u32) = of_nat (32 * n' + l)" using shift_eq [of "0x48200000" reg0 "0x20 * of_nat n" "0x20 * of_nat n'" "of_nat l"] by simp
  also have "\<dots> \<longleftrightarrow> 32 * n = 32 * n' + l" by (rule of_nat32_eq) (use assms in simp_all)
  also have "\<dots> \<longleftrightarrow> n' = n \<and> l = 0"
  proof
    assume eq: "32 * n = 32 * n' + l"
    have "(32 * n' + l) mod 32 = l" using assms(3) by simp
    then have "l = 0" using eq [symmetric] by simp
    then show "n' = n \<and> l = 0" using eq by simp
  qed simp
  finally show ?thesis .
qed

lemma byte_lines:
  assumes "n < 4"
  shows "lines_of_byte reg0 (Wr8 (0x48200000 + (reg0 + 0x20 * of_nat n)) (ucast (push_bit k (1::u32))))
    = (if k < 8 then {32 * n + k} else {})"
proof -
  have "lines_of_byte reg0 (Wr8 (0x48200000 + (reg0 + 0x20 * of_nat n)) (ucast (push_bit k (1::u32))))
    = {32 * n' + 8 * l + b | n' l b. n' < 4 \<and> l < 4 \<and> b < 8 \<and> n' = n \<and> l = 0 \<and> k < 8 \<and> b = k}"
    unfolding lines_of_byte_def dev_write.case bit_byte
    by (intro Collect_cong ex_cong1) (use reg_byte_eq [OF assms] in blast)
  also have "\<dots> = (if k < 8 then {32 * n + k} else {})" using assms by auto
  finally show ?thesis .
qed

lemma timer_load_ticks:
  assumes "unat msecs < 131072"
  shows "2 ^ 32 - unat (timer_load msecs) = 32768 * unat msecs div 1000 + 1"
proof -
  have "32768 * unat msecs < 2 ^ 32" using assms by simp
  then have "unat (32768 * msecs) = 32768 * unat msecs" by (simp add: unat_mult_lem [THEN iffD1] unat_word_ariths)
  then have d: "unat (32768 * msecs div 1000) = 32768 * unat msecs div 1000" by (simp add: unat_div)
  moreover have "unat (NOT 0 - x) = 2 ^ 32 - 1 - unat x" for x :: u32
    using unat_sub [of x "- 1"] by (simp add: unsigned_minus_1_eq_mask mask_eq_exp_minus_1)
  ultimately have "unat (timer_load msecs) = 2 ^ 32 - 1 - 32768 * unat msecs div 1000" by (simp only: timer_load_def)
  moreover have "32768 * unat msecs div 1000 < 2 ^ 32 - 1" using assms by simp
  ultimately show ?thesis by simp
qed

lemma poll_values_done: "\<forall>v \<in> set ws. v AND msk \<noteq> 0 \<Longrightarrow> v AND msk = 0 \<Longrightarrow> poll_values msk (ws @ v # vs) = Some vs"
  by (induction ws) simp_all

text \<open>
  C36: enabling interrupt \<open>irq_id\<close> unmasks exactly that line when its number within its group of 32
  is below 8, and otherwise nothing at all: the mask is computed in 32 bits but stored through a byte
  pointer. A number above 127 writes no register.
\<close>
theorem enable_irq_id_unmasks:
  "\<exists>ws. dev_log (enable_irq_id irq_id s) = dev_log s @ ws
    \<and> (\<Union>w \<in> set ws. lines_of_byte 0x88 w) = (if unat irq_id < 128 \<and> unat irq_id mod 32 < 8 then {unat irq_id} else {})"
proof (cases "unat irq_id < 128")
  case True
  define n k where "n = unat irq_id div 32" and "k = unat irq_id mod 32"
  have nk: "unat irq_id = 32 * n + k" "n < 4" "k < 32" using True by (auto simp: n_def k_def)
  have "enable_irq_id irq_id s = wr8 (0x48200000 + (0x88 + 0x20 * of_nat n)) (ucast (push_bit k (1::u32))) s"
    using irq_line_cases [OF nk] by (simp add: enable_irq_id_def)
  then show ?thesis using byte_lines [OF nk(2), of "0x88" k] True nk
    by (intro exI [of _ "[Wr8 (0x48200000 + (0x88 + 0x20 * of_nat n)) (ucast (push_bit k (1::u32)))]"])
       (simp add: wr8_def Let_def k_def [symmetric])
next
  case False
  then show ?thesis using irq_line_none [of irq_id "0x88" s] by (simp add: enable_irq_id_def)
qed

text \<open>
  C37: after \<open>reload_ostick\<close> the 32768 Hz counter overflows strictly later than the requested
  milliseconds and at most one tick too late, for every period below 131072 ms (where the product
  in the load value would wrap).
\<close>

theorem ostick_period:
  assumes "unat msecs < 131072"
  shows "let ticks = 2 ^ 32 - unat (dev_reg (reload_ostick msecs s) (0x44E05000 + 0x3c))
    in 32768 * unat msecs < 1000 * ticks \<and> 1000 * ticks \<le> 32768 * unat msecs + 1000"
  using timer_load_ticks [OF assms] by (simp add: reload_ostick_def wr32_def Let_def)

theorem ostick_period_witness:
  "let ticks = 2 ^ 32 - unat (dev_reg (reload_ostick 5 zero_state) (0x44E05000 + 0x3c))
    in 32768 * 5 < 1000 * ticks \<and> 1000 * ticks \<le> 32768 * 5 + 1000"
  using ostick_period [of 5 zero_state] by simp
end
