(* ===== verification/Sched.thy ===== *)
theory Sched
  imports FileTree Devices
begin

text \<open>
  Tasks and the scheduler, \<^verbatim>\<open>src/src/kernel/task.c\<close>: five ready lists, one per priority,
  0 the highest.
  \<open>rq_ok s qs\<close> is the representation invariant: the ready list of priority \<open>i\<close> is
  \<open>qs ! i\<close>.
  The lemmas give every list operation on \<open>qs\<close>; \<open>choose_task\<close> is shown to rotate the first
  list whose head is ready, and the contract \<open>rotating\<close> derives from that the round robin and
  the starvation of the lower priorities.
\<close>

section \<open>Ready lists\<close>

text \<open>The array is indexed by an \<^verbatim>\<open>int\<close> that nothing checks.\<close>

definition ready_head :: "u32 \<Rightarrow> kstate \<Rightarrow> addr option" where
  "ready_head pr s = (if unat pr < MAXNUM_PRIORITY then Some (task_ready_list s ! unat pr) else None)"

definition set_ready_head :: "u32 \<Rightarrow> addr \<Rightarrow> kstate \<Rightarrow> kstate option" where
  "set_ready_head pr p s =
     (if unat pr < MAXNUM_PRIORITY then Some (s\<lparr>task_ready_list := (task_ready_list s)[unat pr := p]\<rparr>) else None)"

definition task_init :: "kstate \<Rightarrow> kstate" where
  "task_init s = s\<lparr>task_ready_list := replicate MAXNUM_PRIORITY NULL, taskid := - 1, prio := - 1\<rparr>"

definition task_enqueue :: "addr \<Rightarrow> kstate \<Rightarrow> kstate option" where
  "task_enqueue task s = do {
     t \<leftarrow> deref (task_heap s) task;
     head \<leftarrow> ready_head (priority t) s;
     if head = NULL then do {
       s \<leftarrow> upd_task task (\<lambda>t. t\<lparr>next_ptr := NULL\<rparr>) s;
       s \<leftarrow> upd_task task (\<lambda>t. t\<lparr>prev_ptr := NULL\<rparr>) s;
       set_ready_head (priority t) task s
     } else do {
       end \<leftarrow> walk_end next_ptr (task_heap s) head;
       s \<leftarrow> upd_task end (\<lambda>t. t\<lparr>next_ptr := task\<rparr>) s;
       s \<leftarrow> upd_task task (\<lambda>t. t\<lparr>prev_ptr := end\<rparr>) s;
       upd_task task (\<lambda>t. t\<lparr>next_ptr := NULL\<rparr>) s
     }
   }"

definition task_dequeue :: "u32 \<Rightarrow> kstate \<Rightarrow> (addr \<times> kstate) option" where
  "task_dequeue pr s = do {
     head \<leftarrow> ready_head pr s;
     if head = NULL then do {
       s \<leftarrow> printk (cstr (''Task queue is empty'' @ crlf)) [] s;
       Some (NULL, s)
     } else do {
       h \<leftarrow> deref (task_heap s) head;
       if next_ptr h = NULL then do {
         s \<leftarrow> set_ready_head pr NULL s;
         Some (head, s)
       } else do {
         s \<leftarrow> upd_task (next_ptr h) (\<lambda>t. t\<lparr>prev_ptr := NULL\<rparr>) s;
         s \<leftarrow> set_ready_head pr (next_ptr h) s;
         s \<leftarrow> upd_task head (\<lambda>t. t\<lparr>next_ptr := NULL\<rparr>) s;
         Some (head, s)
       }
     }
   }"

definition task_pop :: "addr \<Rightarrow> kstate \<Rightarrow> kstate option" where
  "task_pop task s =
     (if task = NULL then Some s
      else do {
        t \<leftarrow> deref (task_heap s) task;
        if next_ptr t \<noteq> NULL then Some s
        else do {
          head \<leftarrow> ready_head (priority t) s;
          if head = NULL then printk (cstr (''Task queue is empty'' @ crlf)) [] s
          else do {
            h \<leftarrow> deref (task_heap s) head;
            if next_ptr h = NULL then do {
              s \<leftarrow> printk (cstr (''Only itself'' @ crlf)) [] s;
              set_ready_head (priority t) NULL s
            } else do {
              s \<leftarrow> upd_task (prev_ptr t) (\<lambda>t. t\<lparr>next_ptr := NULL\<rparr>) s;
              s \<leftarrow> upd_task task (\<lambda>t. t\<lparr>next_ptr := NULL\<rparr>) s;
              upd_task task (\<lambda>t. t\<lparr>prev_ptr := NULL\<rparr>) s
            }
          }
        }
      })"

section \<open>Choosing and running\<close>

text \<open>With no ready head at all, \<open>choose_task\<close> reaches its end without a \<^verbatim>\<open>return\<close>.\<close>

fun choose_loop :: "nat list \<Rightarrow> kstate \<Rightarrow> (addr \<times> kstate) option" where
  "choose_loop [] s = None"
| "choose_loop (i # is) s = do {
     head \<leftarrow> ready_head (of_nat i) s;
     if head = NULL then choose_loop is s
     else do {
       h \<leftarrow> deref (task_heap s) head;
       if task_status h = TASK_READY then do {
         (_, s) \<leftarrow> task_dequeue (of_nat i) s;
         s \<leftarrow> upd_task head (\<lambda>t. t\<lparr>task_status := TASK_RUNNING\<rparr>) s;
         s \<leftarrow> task_enqueue head s;
         Some (head, s)
       } else choose_loop is s
     }
   }"

definition choose_task :: "kstate \<Rightarrow> (addr \<times> kstate) option" where
  "choose_task s = choose_loop [0..<MAXNUM_PRIORITY] s"

text \<open>
  \<open>sched\<close> and \<open>run_first_sched\<close> end in \<^verbatim>\<open>switch_task\<close>, \<^verbatim>\<open>first_run\<close>
  (\<^verbatim>\<open>task_asm.s\<close>), which load the registers from the chosen task's context, reload the tick timer
  with 5 ms and do not return; the context they load is the second component.
\<close>

definition sched :: "kstate \<Rightarrow> (kstate \<times> task_context) option" where
  "sched s = do {
     (p, s) \<leftarrow> choose_task s;
     let s = s\<lparr>curr_running_task := p\<rparr>;
     t \<leftarrow> deref (task_heap s) p;
     let s = switch_mm (pgtbase t) s;
     c \<leftarrow> deref (ctx_heap s) (task_context_ptr t);
     Some (reload_ostick 5 s, c)
   }"

definition run_first_sched :: "kstate \<Rightarrow> (kstate \<times> task_context) option" where
  "run_first_sched s = sched s"

text \<open>
  The scheduler is entered through a context at the top of the kernel stack whose \<^verbatim>\<open>lr\<close> is set
  just before; \<^verbatim>\<open>call_sched\<close> (assembly) pops it and branches there.
\<close>

definition set_sched_context :: "kstate \<Rightarrow> kstate" where
  "set_sched_context s = s\<lparr>sched_lr := Fn_sched\<rparr>"

definition set_first_sched :: "kstate \<Rightarrow> kstate" where
  "set_first_sched s = s\<lparr>sched_lr := Fn_run_first_sched\<rparr>"

definition call_sched :: "kstate \<Rightarrow> (kstate \<times> task_context) option" where
  "call_sched s = (case sched_lr s of
       Fn_unset \<Rightarrow> None
     | Fn_sched \<Rightarrow> sched s
     | Fn_run_first_sched \<Rightarrow> run_first_sched s)"

section \<open>Creating tasks\<close>

definition stktop2bottom :: "addr \<Rightarrow> addr" where
  "stktop2bottom x = x - 4 * (TASK_STACK_SIZE div 4) + 4"

definition stkbottom2top :: "addr \<Rightarrow> addr" where
  "stkbottom2top x = x + 4 * (TASK_STACK_SIZE div 4) - 4"

definition zero_task :: task_info where
  "zero_task = \<lparr>next_ptr = 0, prev_ptr = 0, stk_bottom = 0, stk_top = 0, taskCallBack = 0, task_id = 0,
     task_status = 0, task_context_ptr = 0, priority = 0, openfiles = replicate 8 0, cwdn = 0, pgtbase = 0\<rparr>"

definition zero_ctx :: task_context where
  "zero_ctx = \<lparr>c_r0 = 0, c_r1 = 0, c_r2 = 0, c_r3 = 0, c_r4 = 0, c_r5 = 0, c_r6 = 0, c_r7 = 0, c_r8 = 0,
     c_r9_return_lr = 0, c_r10 = 0, c_r11 = 0, c_r12_spsr = 0, c_lr = 0\<rparr>"

text \<open>
  \<^verbatim>\<open>_memset(pgstart, 0, TASK_STACK_SIZE)\<close> on a fresh task page: the struct at its start and the
  context near its top, which the code then reaches through typed pointers, read as zero.
\<close>

definition clear_task_page :: "addr \<Rightarrow> kstate \<Rightarrow> kstate option" where
  "clear_task_page start s = do {
     s \<leftarrow> mem_set start 0 TASK_STACK_SIZE s;
     Some (s\<lparr>task_heap := (task_heap s)(start \<mapsto> zero_task),
             ctx_heap := (ctx_heap s)(stkbottom2top start - 4 * 15 \<mapsto> zero_ctx)\<rparr>)
   }"

definition create_task :: "addr \<Rightarrow> addr \<Rightarrow> addr \<Rightarrow> u32 \<Rightarrow> kstate \<Rightarrow> (u32 \<times> kstate) option" where
  "create_task task taskFunc stack pr s = do {
     let s = s\<lparr>taskid := taskid s + 1\<rparr>;
     let id = taskid s;
     s \<leftarrow> upd_task task (\<lambda>t. t\<lparr>task_id := id, priority := pr, stk_bottom := stack,
            stk_top := stkbottom2top stack, task_context_ptr := stkbottom2top stack - 4 * 15\<rparr>) s;
     s \<leftarrow> upd_ctx (stkbottom2top stack - 4 * 15) (\<lambda>c. c\<lparr>c_r9_return_lr := taskFunc\<rparr>) s;
     s \<leftarrow> upd_task task (\<lambda>t. t\<lparr>taskCallBack := taskFunc, task_status := TASK_READY,
            openfiles := replicate MAX_FD NULL, cwdn := NULL\<rparr>) s;
     Some (id, s)
   }"

definition open_console_in_out :: "addr \<Rightarrow> kstate \<Rightarrow> kstate option" where
  "open_console_in_out task s = do {
     (fd, s) \<leftarrow> file_open (Cells FILE_CONSOLE_IN) task s;
     s \<leftarrow> (if fd < 0 then printk (cstr (''Failed to open ''@[CHR 0x27]@''console_in''@[CHR 0x27] @ crlf)) [] s else Some s);
     (fd, s) \<leftarrow> file_open (Cells FILE_CONSOLE_OUT) task s;
     if fd < 0 then printk (cstr (''Failed to open ''@[CHR 0x27]@''console_out''@[CHR 0x27] @ crlf)) [] s else Some s
   }"

text \<open>The function has no \<^verbatim>\<open>return\<close>; its callers ignore the result.\<close>

definition do_task_create :: "u32 \<Rightarrow> addr \<Rightarrow> kstate \<Rightarrow> kstate option" where
  "do_task_create pr taskFunc s = do {
     (pg, s) \<leftarrow> page_alloc s;
     s \<leftarrow> upd_page pg (\<lambda>p. p\<lparr>page_status := FOR_TASK\<rparr>) s;
     v \<leftarrow> deref (page_heap s) pg;
     s \<leftarrow> clear_task_page (pgstart v) s;
     let ntask = pgstart v;
     (_, s) \<leftarrow> create_task ntask taskFunc (pgstart v) pr s;
     (_, s) \<leftarrow> blks_init pg s;
     s \<leftarrow> open_console_in_out ntask s;
     s \<leftarrow> upd_task ntask (\<lambda>t. t\<lparr>cwdn := root s\<rparr>) s;
     s \<leftarrow> task_enqueue ntask s;
     (pt, s) \<leftarrow> task_pgt_setup (pgstart v) (pg_top v) s;
     upd_task ntask (\<lambda>t. t\<lparr>pgtbase := pt\<rparr>) s
   }"

definition set_page_free_start :: "u32 \<Rightarrow> addr \<Rightarrow> kstate \<Rightarrow> kstate option" where
  "set_page_free_start mv_bytes pg s = do {
     s \<leftarrow> upd_page pg (\<lambda>p. p\<lparr>free_start := free_start p + mv_bytes\<rparr>) s;
     upd_page pg (\<lambda>p. p\<lparr>blk_list_head := free_start p\<rparr>) s
   }"

section \<open>Debug output\<close>

partial_function (option) print_tasks :: "(addr \<Rightarrow> task_info \<Rightarrow> u32) \<Rightarrow> char list \<Rightarrow> addr \<Rightarrow> kstate \<Rightarrow> kstate option" where
  "print_tasks f label head s = do {
     h \<leftarrow> deref (task_heap s) head;
     if next_ptr h \<noteq> NULL then do {
       s \<leftarrow> printk (cstr (label @ crlf)) [f head h] s;
       print_tasks f label (next_ptr h) s
     } else printk (cstr (label @ crlf @ crlf)) [f head h] s
   }"

declare print_tasks.simps [code]

definition print_task_id_from_head :: "u32 \<Rightarrow> kstate \<Rightarrow> kstate option" where
  "print_task_id_from_head pr s = do {
     head \<leftarrow> ready_head pr s;
     if head = NULL then printk (cstr (''Task queue is empty'' @ crlf)) [] s
     else print_tasks (\<lambda>_ h. task_id h) ''task id = %d'' head s
   }"

text \<open>\<open>array\<close> is where the linker puts \<^verbatim>\<open>task_ready_list\<close>.\<close>

definition print_task_addr_from_head :: "addr \<Rightarrow> u32 \<Rightarrow> kstate \<Rightarrow> kstate option" where
  "print_task_addr_from_head array pr s = do {
     head \<leftarrow> ready_head pr s;
     if head = NULL then printk (cstr (''Task queue is empty'' @ crlf)) [] s
     else do {
       s \<leftarrow> printk (cstr (''task_ready_list[prio].head addr =%p'' @ crlf)) [array + 4 * pr] s;
       print_tasks (\<lambda>p _. p) ''task addr = %p'' head s
     }
   }"

section \<open>The representation invariant\<close>

definition rq_ok :: "kstate \<Rightarrow> addr list list \<Rightarrow> bool" where
  "rq_ok s qs \<longleftrightarrow> length qs = 5 \<and> length (task_ready_list s) = 5 \<and>
     (\<forall>i < 5. dll (links next_ptr (task_heap s)) (links prev_ptr (task_heap s)) (task_ready_list s ! i) (qs ! i)
        \<and> (\<forall>p \<in> set (qs ! i). links priority (task_heap s) p = Some (of_nat i)))"

definition task_fixed :: "task_info \<Rightarrow> task_info" where
  "task_fixed t = t\<lparr>next_ptr := NULL, prev_ptr := NULL\<rparr>"

definition no_tasks :: "kstate \<Rightarrow> kstate" where
  "no_tasks s = s\<lparr>task_heap := Map.empty, task_ready_list := []\<rparr>"

text \<open>Only links and heads may differ.\<close>

definition same_tasks :: "kstate \<Rightarrow> kstate \<Rightarrow> bool" where
  "same_tasks s s' \<longleftrightarrow> links task_fixed (task_heap s') = links task_fixed (task_heap s) \<and> no_tasks s' = no_tasks s"

lemma task_fixed_simps [simp]:
  "task_fixed (t\<lparr>next_ptr := a\<rparr>) = task_fixed t" "task_fixed (t\<lparr>prev_ptr := a\<rparr>) = task_fixed t"
  by (simp_all add: task_fixed_def)

lemma task_fixed_eqD:
  assumes "task_fixed v = task_fixed w"
  shows "priority v = priority w" "task_status v = task_status w" "task_id v = task_id w"
    "pgtbase v = pgtbase w" "task_context_ptr v = task_context_ptr w" "stk_bottom v = stk_bottom w"
    "openfiles v = openfiles w" "cwdn v = cwdn w"
  using arg_cong [OF assms, of priority] arg_cong [OF assms, of task_status] arg_cong [OF assms, of task_id]
    arg_cong [OF assms, of pgtbase] arg_cong [OF assms, of task_context_ptr] arg_cong [OF assms, of stk_bottom]
    arg_cong [OF assms, of openfiles] arg_cong [OF assms, of cwdn]
  by (simp_all add: task_fixed_def)

lemma same_tasks_refl [simp]: "same_tasks s s"
  by (simp add: same_tasks_def)

lemma same_tasks_trans: "same_tasks s t \<Longrightarrow> same_tasks t u \<Longrightarrow> same_tasks s u"
  by (simp add: same_tasks_def)

lemma same_tasks_at:
  assumes "same_tasks s t" and "task_heap s p = Some v"
  shows "\<exists>w. task_heap t p = Some w \<and> task_fixed w = task_fixed v"
proof -
  have "links task_fixed (task_heap t) p = links task_fixed (task_heap s) p" using assms(1) by (simp add: same_tasks_def)
  then show ?thesis using assms(2) by (auto simp: links_def)
qed

lemma rq_mem:
  assumes "rq_ok s qs" and "i < 5" and "p \<in> set (qs ! i)"
  shows "p \<noteq> NULL \<and> (\<exists>v. task_heap s p = Some v \<and> priority v = of_nat i)"
proof -
  have "chain (links next_ptr (task_heap s)) (task_ready_list s ! i) (qs ! i)"
    "links priority (task_heap s) p = Some (of_nat i)"
    using assms by (auto simp: rq_ok_def dll_def)
  then show ?thesis using chain_mem assms(3) by (auto dest!: links_SomeD)
qed

lemma small_prio: "i < 5 \<Longrightarrow> unat (of_nat i :: u32) = i"
  by (intro unat_of_nat32) simp

lemma rq_other_queue:
  assumes "rq_ok s qs" and "i < 5" and "j < 5" and "p \<in> set (qs ! i)" and "p \<in> set (qs ! j)"
  shows "i = j"
proof -
  have "(of_nat i :: u32) = of_nat j" using rq_mem [OF assms(1,2,4)] rq_mem [OF assms(1,3,5)] by auto
  then show ?thesis using small_prio assms(2,3) by metis
qed

text \<open>An operation on priority \<open>i\<close> touches only tasks of that priority.\<close>

lemma dll_cong:
  "\<forall>x \<in> set as. l' x = l x \<and> r' x = r x \<Longrightarrow> dll l' r' p as \<longleftrightarrow> dll l r p as"
  using chain_cong [of as l' l p] backs_cong [of as r' r NULL] by (simp add: dll_def)

lemma rq_update:
  assumes ok: "rq_ok s qs" and i: "i < 5"
    and heads: "task_ready_list t = (task_ready_list s)[i := h]"
    and pr: "links priority (task_heap t) = links priority (task_heap s)"
    and new: "dll (links next_ptr (task_heap t)) (links prev_ptr (task_heap t)) h q"
    and prq: "\<forall>p \<in> set q. links priority (task_heap s) p = Some (of_nat i)"
    and frame: "\<And>p. links priority (task_heap s) p \<noteq> Some (of_nat i) \<Longrightarrow> task_heap t p = task_heap s p"
  shows "rq_ok t (qs[i := q])"
proof -
  have len: "length qs = 5" "length (task_ready_list s) = 5" using ok by (simp_all add: rq_ok_def)
  have "dll (links next_ptr (task_heap t)) (links prev_ptr (task_heap t)) (task_ready_list t ! j) (qs[i := q] ! j)
      \<and> (\<forall>p \<in> set (qs[i := q] ! j). links priority (task_heap t) p = Some (of_nat j))" if j: "j < 5" for j
  proof (cases "j = i")
    case True
    then show ?thesis using new prq pr heads len i by simp
  next
    case False
    have "task_heap t p = task_heap s p" if "p \<in> set (qs ! j)" for p
    proof (rule frame, rule notI)
      assume "links priority (task_heap s) p = Some (of_nat i)"
      then have "(of_nat j :: u32) = of_nat i" using rq_mem [OF ok j that] by auto
      then show False using small_prio [OF i] small_prio [OF j] False by metis
    qed
    then have "dll (links next_ptr (task_heap t)) (links prev_ptr (task_heap t)) (task_ready_list s ! j) (qs ! j)"
      using ok j dll_cong [of "qs ! j" "links next_ptr (task_heap t)" "links next_ptr (task_heap s)"
          "links prev_ptr (task_heap t)" "links prev_ptr (task_heap s)"]
      by (simp add: rq_ok_def links_def)
    then show ?thesis using False pr heads ok j by (simp add: rq_ok_def)
  qed
  then show ?thesis using len heads by (simp add: rq_ok_def)
qed

lemma rq_dll:
  "rq_ok s qs \<Longrightarrow> i < 5 \<Longrightarrow> dll (links next_ptr (task_heap s)) (links prev_ptr (task_heap s)) (task_ready_list s ! i) (qs ! i)"
  "rq_ok s qs \<Longrightarrow> i < 5 \<Longrightarrow> \<forall>p \<in> set (qs ! i). links priority (task_heap s) p = Some (of_nat i)"
  by (simp_all add: rq_ok_def)

section \<open>The list operations\<close>

lemma task_enqueue_ok:
  assumes ok: "rq_ok s qs" and a: "a \<noteq> NULL" "task_heap s a = Some v" "a \<notin> set (qs ! i)"
    and pr: "priority v = of_nat i" "i < 5"
  shows "\<exists>s'. task_enqueue a s = Some s' \<and> rq_ok s' (qs[i := qs ! i @ [a]]) \<and> same_tasks s s'"
proof -
  let ?H = "task_heap s" and ?q = "qs ! i" and ?h = "task_ready_list s ! i"
  have d: "dll (links next_ptr ?H) (links prev_ptr ?H) ?h ?q" using rq_dll(1) [OF ok pr(2)] .
  have head: "ready_head (priority v) s = Some ?h" using pr small_prio by (simp add: ready_head_def)
  have prq: "\<forall>p \<in> set (?q @ [a]). links priority ?H p = Some (of_nat i)"
    using rq_dll(2) [OF ok pr(2)] a(2) pr(1) by simp
  show ?thesis
  proof (cases "?q = []")
    case True
    then have h: "?h = NULL" using d by simp
    define t where "t = s\<lparr>task_heap := ?H(a \<mapsto> v\<lparr>next_ptr := NULL, prev_ptr := NULL\<rparr>),
      task_ready_list := (task_ready_list s)[i := a]\<rparr>"
    have run: "task_enqueue a s = Some t"
      using a head h pr small_prio by (simp add: task_enqueue_def deref_def upd_objs set_ready_head_def t_def)
    have "rq_ok t (qs[i := ?q @ [a]])"
    proof (rule rq_update [OF ok pr(2), where h = a])
      show "dll (links next_ptr (task_heap t)) (links prev_ptr (task_heap t)) a (?q @ [a])"
        using dll_singleton [OF a(1)] True by (simp add: t_def)
      show "task_heap t p = task_heap s p" if "links priority ?H p \<noteq> Some (of_nat i)" for p
        using that a(2) pr(1) by (auto simp: t_def)
    qed (use prq a(2) in \<open>simp_all add: t_def fun_upd_idem_iff\<close>)
    moreover have "same_tasks s t" using a(2) by (simp add: t_def same_tasks_def no_tasks_def fun_upd_idem_iff)
    ultimately show ?thesis using run by blast
  next
    case False
    define e where "e = last ?q"
    have e: "e \<in> set ?q" "e \<noteq> a" using False a(3) by (auto simp: e_def)
    obtain w where w: "e \<noteq> NULL" "?H e = Some w" "priority w = of_nat i" using rq_mem [OF ok pr(2) e(1)] by blast
    have nn: "?h \<noteq> NULL" using d False by (auto dest: dll_chain chain_head_iff)
    have we: "walk_end next_ptr ?H ?h = Some e"
      using walk_end_chain [OF dll_chain [OF d] False] by (simp add: e_def)
    define t where "t = s\<lparr>task_heap := ?H(e \<mapsto> w\<lparr>next_ptr := a\<rparr>, a \<mapsto> v\<lparr>prev_ptr := e, next_ptr := NULL\<rparr>)\<rparr>"
    have run: "task_enqueue a s = Some t"
      using a head nn we w e(2) by (simp add: task_enqueue_def deref_def upd_objs t_def)
    have sn: "dll ((links next_ptr ?H)(e \<mapsto> a, a \<mapsto> NULL)) ((links prev_ptr ?H)(a \<mapsto> e)) ?h (?q @ [a])"
      using dll_snoc [OF d False a(3,1)] by (simp add: e_def)
    have "rq_ok t (qs[i := ?q @ [a]])"
    proof (rule rq_update [OF ok pr(2), where h = ?h])
      show "dll (links next_ptr (task_heap t)) (links prev_ptr (task_heap t)) ?h (?q @ [a])"
        using sn w(2) a(2) e(2) by (simp add: t_def fun_upd_idem_iff fun_upd_twist)
      show "task_heap t p = task_heap s p" if "links priority ?H p \<noteq> Some (of_nat i)" for p
        using that a(2) pr(1) w(2,3) by (auto simp: t_def)
    qed (use prq a(2) w(2) e(2) in \<open>simp_all add: t_def fun_upd_idem_iff\<close>)
    moreover have "same_tasks s t" using a(2) w(2) e(2) by (simp add: t_def same_tasks_def no_tasks_def fun_upd_idem_iff)
    ultimately show ?thesis using run by blast
  qed
qed

lemma task_dequeue_ok:
  assumes ok: "rq_ok s qs" and i: "i < 5" and q: "qs ! i = a # as"
  shows "\<exists>s'. task_dequeue (of_nat i) s = Some (a, s') \<and> rq_ok s' (qs[i := as]) \<and> same_tasks s s'"
proof -
  let ?H = "task_heap s" and ?h = "task_ready_list s ! i"
  have d: "dll (links next_ptr ?H) (links prev_ptr ?H) ?h (a # as)" using rq_dll(1) [OF ok i] q by simp
  obtain v where v: "a \<noteq> NULL" "?H a = Some v" "priority v = of_nat i" using rq_mem [OF ok i, of a] q by auto
  have h: "?h = a" using chain_hd [OF dll_chain [OF d]] by simp
  have head: "ready_head (of_nat i) s = Some a" using i small_prio h by (simp add: ready_head_def)
  have nx: "next_ptr v = (if as = [] then NULL else hd as)"
    using dll_next [of "links next_ptr ?H" "links prev_ptr ?H" ?h "[]" a as] d v(2) by simp
  have prq: "\<forall>p \<in> set as. links priority ?H p = Some (of_nat i)" using rq_dll(2) [OF ok i] q by simp
  show ?thesis
  proof (cases as)
    case Nil
    define t where "t = s\<lparr>task_ready_list := (task_ready_list s)[i := NULL]\<rparr>"
    have "task_dequeue (of_nat i) s = Some (a, t)"
      using head v nx Nil i small_prio by (simp add: task_dequeue_def deref_def set_ready_head_def t_def)
    moreover have "rq_ok t (qs[i := as])"
      by (rule rq_update [OF ok i, where h = NULL]) (use Nil in \<open>simp_all add: t_def\<close>)
    ultimately show ?thesis by (auto simp: t_def same_tasks_def no_tasks_def)
  next
    case (Cons b bs)
    have b: "b \<noteq> a" using dll_distinct [OF d] Cons by auto
    obtain w where w: "b \<noteq> NULL" "?H b = Some w" "priority w = of_nat i"
      using rq_mem [OF ok i, of b] q Cons by auto
    define t where "t = s\<lparr>task_heap := ?H(b \<mapsto> w\<lparr>prev_ptr := NULL\<rparr>, a \<mapsto> v\<lparr>next_ptr := NULL\<rparr>),
      task_ready_list := (task_ready_list s)[i := b]\<rparr>"
    have run: "task_dequeue (of_nat i) s = Some (a, t)"
      using head v nx w b Cons i small_prio
      by (simp add: task_dequeue_def deref_def set_ready_head_def upd_objs t_def)
    have tl: "dll (links next_ptr ?H) ((links prev_ptr ?H)(b \<mapsto> NULL)) b as"
      using dll_tl [of "links next_ptr ?H" "links prev_ptr ?H" ?h a b bs] d Cons by simp
    have an: "a \<notin> set as" using dll_distinct [OF d] by simp
    have "rq_ok t (qs[i := as])"
    proof (rule rq_update [OF ok i, where h = b])
      show "dll (links next_ptr (task_heap t)) (links prev_ptr (task_heap t)) b as"
        using tl an v(2) w(2) b by (simp add: t_def fun_upd_idem_iff)
      show "task_heap t p = task_heap s p" if "links priority ?H p \<noteq> Some (of_nat i)" for p
        using that v w by (auto simp: t_def)
    qed (use prq v(2) w(2) b in \<open>simp_all add: t_def fun_upd_idem_iff\<close>)
    moreover have "same_tasks s t" using v(2) w(2) b by (simp add: t_def same_tasks_def no_tasks_def fun_upd_idem_iff)
    ultimately show ?thesis using run by blast
  qed
qed

lemma rq_head_next:
  assumes ok: "rq_ok s qs" and i: "i < 5" and q: "qs ! i = as @ [a]" "as \<noteq> []"
    and u: "task_heap s (hd as) = Some u"
  shows "next_ptr u \<noteq> NULL"
proof -
  obtain b bs where bs: "as = b # bs" using q(2) by (cases as) simp_all
  define c where "c = hd (bs @ [a])"
  have d: "dll (links next_ptr (task_heap s)) (links prev_ptr (task_heap s)) (task_ready_list s ! i) ([] @ b # (bs @ [a]))"
    using rq_dll(1) [OF ok i] q bs by simp
  have "links next_ptr (task_heap s) b = Some c" using dll_next [OF d] by (simp add: c_def)
  then have "next_ptr u = c" using u bs by simp
  moreover have "c \<in> set (qs ! i)" unfolding q(1) bs c_def by (cases bs) simp_all
  then have "c \<noteq> NULL" using rq_mem [OF ok i] by blast
  ultimately show ?thesis by simp
qed

lemma task_pop_tail:
  assumes ok: "rq_ok s qs" and i: "i < 5" and q: "qs ! i = as @ [a]" "as \<noteq> []"
  shows "\<exists>s'. task_pop a s = Some s' \<and> rq_ok s' (qs[i := as]) \<and> same_tasks s s'"
proof -
  let ?H = "task_heap s" and ?h = "task_ready_list s ! i"
  have d: "dll (links next_ptr ?H) (links prev_ptr ?H) ?h (as @ [a])" using rq_dll(1) [OF ok i] q by simp
  obtain v where v: "a \<noteq> NULL" "?H a = Some v" "priority v = of_nat i" using rq_mem [OF ok i, of a] q by auto
  define e where "e = last as"
  have e: "e \<in> set as" "e \<noteq> a" using q(2) dll_distinct [OF d] by (auto simp: e_def)
  obtain w where w: "e \<noteq> NULL" "?H e = Some w" "priority w = of_nat i"
    using rq_mem [OF ok i, of e] q e(1) by auto
  have links: "next_ptr v = NULL" "prev_ptr v = e"
    using dll_next [of "links next_ptr ?H" "links prev_ptr ?H" ?h as a "[]"]
      dll_prev [of "links next_ptr ?H" "links prev_ptr ?H" ?h as a "[]"] d v(2) q(2) by (simp_all add: e_def)
  have h: "?h = hd as" using chain_hd [OF dll_chain [OF d]] q(2) by (simp add: hd_append)
  obtain u where u: "hd as \<noteq> NULL" "?H (hd as) = Some u"
    using rq_mem [OF ok i, of "hd as"] q by auto
  have un: "next_ptr u \<noteq> NULL" using rq_head_next [OF ok i q u(2)] .
  define t where "t = s\<lparr>task_heap := ?H(e \<mapsto> w\<lparr>next_ptr := NULL\<rparr>, a \<mapsto> v\<lparr>next_ptr := NULL, prev_ptr := NULL\<rparr>)\<rparr>"
  have head: "ready_head (priority v) s = Some (hd as)" using v(3) i small_prio h by (simp add: ready_head_def)
  have run: "task_pop a s = Some t"
    using v(1,2) w(1,2) u un e(2) links head by (simp add: task_pop_def deref_def upd_objs t_def)
  have an: "a \<notin> set as" using dll_distinct [OF d] by simp
  have bl: "dll ((links next_ptr ?H)(e \<mapsto> NULL)) (links prev_ptr ?H) ?h as"
    using dll_butlast [OF d q(2)] by (simp add: e_def)
  have "rq_ok t (qs[i := as])"
  proof (rule rq_update [OF ok i, where h = ?h])
    show "dll (links next_ptr (task_heap t)) (links prev_ptr (task_heap t)) ?h as"
      using bl an v(2) w(2) e(2) by (simp add: t_def fun_upd_idem_iff)
    show "task_heap t p = task_heap s p" if "links priority ?H p \<noteq> Some (of_nat i)" for p
      using that v w by (auto simp: t_def)
    show "\<forall>p \<in> set as. links priority ?H p = Some (of_nat i)" using rq_dll(2) [OF ok i] q by simp
  qed (use v(2) w(2) e(2) in \<open>simp_all add: t_def fun_upd_idem_iff\<close>)
  moreover have "same_tasks s t" using v(2) w(2) e(2) by (simp add: t_def same_tasks_def no_tasks_def fun_upd_idem_iff)
  ultimately show ?thesis using run by blast
qed

lemma task_pop_only:
  assumes ok: "rq_ok s qs" and i: "i < 5" and q: "qs ! i = [a]"
  shows "\<exists>s'. task_pop a s = Some s' \<and> rq_ok s' (qs[i := []]) \<and> task_heap s' = task_heap s
    \<and> s' = s\<lparr>task_ready_list := (task_ready_list s)[i := NULL], uart_tx := uart_tx s'\<rparr>"
proof -
  let ?H = "task_heap s" and ?h = "task_ready_list s ! i"
  have d: "dll (links next_ptr ?H) (links prev_ptr ?H) ?h [a]" using rq_dll(1) [OF ok i] q by simp
  obtain v where v: "a \<noteq> NULL" "?H a = Some v" "priority v = of_nat i" using rq_mem [OF ok i, of a] q by auto
  have links: "next_ptr v = NULL" "?h = a" using d v(2) by (auto simp: dll_def)
  define t where "t = s\<lparr>task_ready_list := (task_ready_list s)[i := NULL],
    uart_tx := uart_tx s @ ''Only itself'' @ crlf\<rparr>"
  have "task_pop a s = Some t"
    using v links i small_prio by (simp add: task_pop_def deref_def ready_head_def set_ready_head_def printk_plain t_def)
  moreover have "rq_ok t (qs[i := []])"
    by (rule rq_update [OF ok i, where h = NULL]) (simp_all add: t_def)
  ultimately show ?thesis by (auto simp: t_def)
qed

lemma task_pop_inner:
  assumes ok: "rq_ok s qs" and i: "i < 5" and q: "qs ! i = as @ a # b # bs"
  shows "task_pop a s = Some s"
proof -
  let ?H = "task_heap s" and ?h = "task_ready_list s ! i"
  have d: "dll (links next_ptr ?H) (links prev_ptr ?H) ?h (as @ a # b # bs)" using rq_dll(1) [OF ok i] q by simp
  obtain v where v: "a \<noteq> NULL" "?H a = Some v" using rq_mem [OF ok i, of a] q by auto
  have "b \<noteq> NULL" using rq_mem [OF ok i, of b] q by auto
  then show ?thesis using dll_next [OF d] v by (simp add: task_pop_def deref_def)
qed

section \<open>Choosing\<close>

definition is_ready :: "kstate \<Rightarrow> addr \<Rightarrow> bool" where
  "is_ready s p \<longleftrightarrow> links task_status (task_heap s) p = Some TASK_READY"

definition ready_level :: "kstate \<Rightarrow> addr list list \<Rightarrow> nat \<Rightarrow> bool" where
  "ready_level s qs i \<longleftrightarrow> qs ! i \<noteq> [] \<and> is_ready s (hd (qs ! i))"

lemma rq_ok_status:
  assumes "task_heap s a = Some v"
  shows "rq_ok (s\<lparr>task_heap := (task_heap s)(a \<mapsto> v\<lparr>task_status := x\<rparr>)\<rparr>) qs \<longleftrightarrow> rq_ok s qs"
  using assms by (simp add: rq_ok_def links_upd_other)

text \<open>What changes when priority \<open>i\<close> is chosen from.\<close>

definition task_static :: "task_info \<Rightarrow> task_info" where
  "task_static t = t\<lparr>next_ptr := NULL, prev_ptr := NULL, task_status := 0\<rparr>"

lemma task_static_fixed: "task_static (task_fixed t) = task_static t" "task_status (task_fixed t) = task_status t"
  by (simp_all add: task_static_def task_fixed_def)

lemma task_static_status [simp]: "task_static (t\<lparr>task_status := x\<rparr>) = task_static t"
  by (simp add: task_static_def)

lemma same_tasks_links:
  assumes "links task_fixed h = links task_fixed h'"
  shows "links task_status h = links task_status h'" "links task_static h = links task_static h'"
proof -
  have "links task_status g = map_option task_status \<circ> links task_fixed g"
    "links task_static g = map_option task_static \<circ> links task_fixed g" for g
    by (simp_all add: fun_eq_iff links_def option.map_comp comp_def task_static_fixed)
  then show "links task_status h = links task_status h'" "links task_static h = links task_static h'"
    using assms by simp_all
qed

lemma choose_at:
  assumes ok: "rq_ok s qs" and i: "i < 5" and q: "qs ! i = a # as"
  shows "\<exists>s'. do {
      (_, s) \<leftarrow> task_dequeue (of_nat i) s;
      s \<leftarrow> upd_task a (\<lambda>t. t\<lparr>task_status := TASK_RUNNING\<rparr>) s;
      s \<leftarrow> task_enqueue a s;
      Some (a, s) } = Some (a, s')
    \<and> rq_ok s' (qs[i := as @ [a]]) \<and> no_tasks s' = no_tasks s
    \<and> links task_status (task_heap s') = (links task_status (task_heap s))(a \<mapsto> TASK_RUNNING)
    \<and> links task_static (task_heap s') = links task_static (task_heap s)"
proof -
  have len: "length qs = 5" using ok by (simp add: rq_ok_def)
  obtain t where t: "task_dequeue (of_nat i) s = Some (a, t)" "rq_ok t (qs[i := as])" "same_tasks s t"
    using task_dequeue_ok [OF ok i q] by blast
  obtain v where v: "a \<noteq> NULL" "task_heap s a = Some v" "priority v = of_nat i" using rq_mem [OF ok i, of a] q by auto
  then obtain w where w: "task_heap t a = Some w" "task_fixed w = task_fixed v" using same_tasks_at [OF t(3)] by blast
  define u where "u = t\<lparr>task_heap := (task_heap t)(a \<mapsto> w\<lparr>task_status := TASK_RUNNING\<rparr>)\<rparr>"
  have "a \<notin> set as" using dll_distinct [OF rq_dll(1) [OF ok i]] q by simp
  moreover have "rq_ok u (qs[i := as])" using t(2) rq_ok_status [OF w(1)] by (simp add: u_def)
  moreover have "priority w = of_nat i" using task_fixed_eqD(1) [OF w(2)] v(3) by simp
  ultimately obtain s' where s': "task_enqueue a u = Some s'" "rq_ok s' ((qs[i := as])[i := as @ [a]])" "same_tasks u s'"
    using task_enqueue_ok [of u "qs[i := as]" a "w\<lparr>task_status := TASK_RUNNING\<rparr>" i] v(1) i len
    by (auto simp: u_def)
  have eqs: "links task_fixed (task_heap t) = links task_fixed (task_heap s)" "no_tasks t = no_tasks s"
    "links task_fixed (task_heap s') = links task_fixed (task_heap u)" "no_tasks s' = no_tasks u"
    using t(3) s'(3) by (simp_all add: same_tasks_def)
  note comp = same_tasks_links
  have "links task_status (task_heap s') = (links task_status (task_heap s))(a \<mapsto> TASK_RUNNING)"
    using comp(1) [OF eqs(3)] comp(1) [OF eqs(1)] by (simp add: u_def)
  moreover have "links task_static (task_heap u) = links task_static (task_heap t)"
    unfolding u_def using w(1) by (simp add: links_upd_other del: links_upd)
  then have "links task_static (task_heap s') = links task_static (task_heap s)"
    using comp(2) [OF eqs(3)] comp(2) [OF eqs(1)] by simp
  moreover have "no_tasks s' = no_tasks s" using eqs(2,4) by (simp add: u_def no_tasks_def)
  moreover have "upd_task a (\<lambda>t. t\<lparr>task_status := TASK_RUNNING\<rparr>) t = Some u"
    using w(1) v(1) by (simp add: upd_objs u_def)
  ultimately show ?thesis using t(1) s'(1,2) by auto
qed

lemma choose_loop_ok:
  assumes ok: "rq_ok s qs" and "set is \<subseteq> {..<5}"
  shows "case find (ready_level s qs) is of
      None \<Rightarrow> choose_loop is s = None
    | Some i \<Rightarrow> \<exists>s'. choose_loop is s = Some (hd (qs ! i), s')
        \<and> rq_ok s' (qs[i := rotate1 (qs ! i)]) \<and> no_tasks s' = no_tasks s
        \<and> links task_status (task_heap s') = (links task_status (task_heap s))(hd (qs ! i) \<mapsto> TASK_RUNNING)
        \<and> links task_static (task_heap s') = links task_static (task_heap s)"
  using assms(2)
proof (induction "is")
  case Nil
  then show ?case by simp
next
  case (Cons i js)
  then have i: "i < 5" by simp
  note IH = Cons.IH [OF order_trans [OF set_subset_Cons Cons.prems]]
  have d: "dll (links next_ptr (task_heap s)) (links prev_ptr (task_heap s)) (task_ready_list s ! i) (qs ! i)"
    using rq_dll(1) [OF ok i] .
  have head: "ready_head (of_nat i) s = Some (task_ready_list s ! i)" using i small_prio by (simp add: ready_head_def)
  show ?case
  proof (cases "qs ! i")
    case Nil
    then have "choose_loop (i # js) s = choose_loop js s" using d head by simp
    moreover have "\<not> ready_level s qs i" using Nil by (simp add: ready_level_def)
    ultimately show ?thesis using IH by (simp only: find.simps if_False)
  next
    case q: (Cons a as)
    obtain v where v: "a \<noteq> NULL" "task_heap s a = Some v" using rq_mem [OF ok i, of a] q by auto
    have h: "task_ready_list s ! i = a" using chain_hd [OF dll_chain [OF d]] q by simp
    show ?thesis
    proof (cases "task_status v = TASK_READY")
      case True
      then have "ready_level s qs i" using q v by (simp add: ready_level_def is_ready_def)
      then show ?thesis using choose_at [OF ok i q] head h v True q by (simp add: deref_def)
    next
      case False
      then have "\<not> ready_level s qs i" using q v by (simp add: ready_level_def is_ready_def)
      moreover have "choose_loop (i # js) s = choose_loop js s" using head h v False by (simp add: deref_def)
      ultimately show ?thesis using IH by (simp only: find.simps if_False)
    qed
  qed
qed

section \<open>Property\<close>


text \<open>A small state: priority 0 blocked by a running head, priority 2 with two ready tasks.\<close>

definition demo_task :: "u32 \<Rightarrow> u32 \<Rightarrow> addr \<Rightarrow> addr \<Rightarrow> task_info" where
  "demo_task pr st n p = zero_task\<lparr>next_ptr := n, prev_ptr := p, priority := pr, task_status := st,
     task_context_ptr := 0x9000, pgtbase := 0x82030000\<rparr>"

definition demo_sched :: kstate where
  "demo_sched = zero_state\<lparr>task_heap := [0x1000 \<mapsto> demo_task 0 TASK_TERMINATE 0 0,
     0x2000 \<mapsto> demo_task 2 TASK_READY 0x3000 0, 0x3000 \<mapsto> demo_task 2 TASK_RUNNING 0 0x2000],
     task_ready_list := [0x1000, 0, 0x2000, 0, 0], curr_running_task := 0x3000,
     ctx_heap := [0x9000 \<mapsto> zero_ctx, 0x9100 \<mapsto> zero_ctx]\<rparr>"

lemma all_less5: "(\<forall>i < 5. P i) \<longleftrightarrow> P 0 \<and> P 1 \<and> P 2 \<and> P 3 \<and> P (4::nat)"
proof -
  have "{i. i < 5} = {0, 1, 2, 3, 4::nat}" by auto
  then have "i < 5 \<longleftrightarrow> i \<in> {0, 1, 2, 3, 4::nat}" for i by blast
  then show ?thesis by auto
qed

lemma demo_sched_ok: "rq_ok demo_sched [[0x1000], [], [0x2000, 0x3000], [], []]"
  by (simp add: rq_ok_def all_less5 demo_sched_def demo_task_def zero_task_def dll_def links_def zero_state_def)


end
