(* ===== verification/Switching.thy ===== *)
theory Switching
  imports Sched
begin

text \<open>
  Giving up the processor: \<open>yield_handler\<close> (\<^verbatim>\<open>src/src/kernel/syscall.c\<close>) and the tick
  \<open>timer0_isr\<close> (\<^verbatim>\<open>interrupt.c\<close>) save the interrupted context, mark the task ready and enter the
  scheduler.
  Both return the new kernel state and the context that is loaded, like \<open>sched\<close>.
  The contract \<open>rotating\<close> turns "each switch moves the head of the list to its end" into round robin
  over whole runs; it is interpreted on the two entries for the highest priority with a ready head.
\<close>

section \<open>The two entries\<close>

definition yield_handler :: "addr \<Rightarrow> u32 \<Rightarrow> kstate \<Rightarrow> (kstate \<times> task_context) option" where
  "yield_handler usrTaskContextOld args s = do {
     s \<leftarrow> upd_task (curr_running_task s) (\<lambda>t. t\<lparr>task_context_ptr := usrTaskContextOld\<rparr>) s;
     s \<leftarrow> upd_task (curr_running_task s) (\<lambda>t. t\<lparr>task_status := TASK_READY\<rparr>) s;
     let s = s\<lparr>curr_running_task := NULL\<rparr>;
     call_sched (set_sched_context s)
   }"

definition timer0_isr :: "addr \<Rightarrow> kstate \<Rightarrow> (kstate \<times> task_context) option" where
  "timer0_isr usrTaskContextOld s = do {
     let s = wr32 (DMTIMER0_BASE + IRQSTATUS) 2 s;
     let s = toggle_usrled 3 s;
     s \<leftarrow> upd_task (curr_running_task s) (\<lambda>t. t\<lparr>task_context_ptr := usrTaskContextOld\<rparr>) s;
     s \<leftarrow> upd_task (curr_running_task s) (\<lambda>t. t\<lparr>task_status := TASK_READY\<rparr>) s;
     let s = s\<lparr>curr_running_task := NULL\<rparr>;
     let s = set_sched_context s;
     let s = wr8 (INTC_BASE + INTC_CONTROL) NEW_IRQ_AGREE s;
     call_sched s
   }"

section \<open>Round robin from one rotation\<close>

fun picks :: "('e \<Rightarrow> 's \<Rightarrow> ('a \<times> 's) option) \<Rightarrow> 'e list \<Rightarrow> 's \<Rightarrow> ('a list \<times> 's) option" where
  "picks pick [] s = Some ([], s)"
| "picks pick (e # es) s = do {
     (x, s) \<leftarrow> pick e s;
     (xs, s) \<leftarrow> picks pick es s;
     Some (x # xs, s)
   }"

lemma cycle_concat: "xs \<noteq> [] \<Longrightarrow> map (\<lambda>k. xs ! (k mod length xs)) [0..<n * length xs] = concat (replicate n xs)"
proof (induction n)
  case 0
  then show ?case by simp
next
  case (Suc n)
  have "map (\<lambda>k. xs ! (k mod length xs)) [n * length xs..<n * length xs + length xs] = xs"
    by (rule nth_equalityI) simp_all
  moreover have "[0..<Suc n * length xs] = [0..<n * length xs] @ [n * length xs..<n * length xs + length xs]"
    using upt_add_eq_append [of 0 "n * length xs" "length xs"] by (simp add: add.commute)
  moreover have "concat (replicate (Suc n) xs) = concat (replicate n xs) @ xs"
    by (induction n) simp_all
  ultimately show ?case using Suc by (simp del: upt_Suc)
qed

locale rotating =
  fixes pick :: "'e \<Rightarrow> 's \<Rightarrow> ('a \<times> 's) option"
    and good :: "'e \<Rightarrow> bool"
    and repr :: "'s \<Rightarrow> 'a list \<Rightarrow> bool"
  assumes turn: "good e \<Longrightarrow> repr s (x # xs) \<Longrightarrow> \<exists>s'. pick e s = Some (x, s') \<and> repr s' (xs @ [x])"
begin

lemma picks_cycle:
  "\<forall>e \<in> set es. good e \<Longrightarrow> repr s xs \<Longrightarrow> xs \<noteq> [] \<Longrightarrow>
     \<exists>s'. picks pick es s = Some (map (\<lambda>k. xs ! (k mod length xs)) [0..<length es], s')
       \<and> repr s' (rotate (length es) xs)"
proof (induction es arbitrary: s xs)
  case Nil
  then show ?case by simp
next
  case (Cons e es)
  then obtain x ys where xs: "xs = x # ys" by (cases xs) simp_all
  obtain s1 where s1: "pick e s = Some (x, s1)" "repr s1 (rotate1 xs)"
    using turn [of e s x ys] Cons.prems xs by auto
  obtain s' where s': "picks pick es s1 = Some (map (\<lambda>k. rotate1 xs ! (k mod length xs)) [0..<length es], s')"
    "repr s' (rotate (length es) (rotate1 xs))"
    using Cons.IH [OF _ s1(2)] Cons.prems by auto
  have "rotate1 xs ! (k mod length xs) = xs ! (Suc k mod length xs)" for k
    using Cons.prems(3) nth_rotate1 [of "k mod length xs" xs] by (simp add: mod_Suc_eq)
  then have "x # map (\<lambda>k. rotate1 xs ! (k mod length xs)) [0..<length es]
      = map (\<lambda>k. xs ! (k mod length xs)) (0 # map Suc [0..<length es])"
    using xs by (simp del: upt_Suc)
  then show ?case using s1 s' by (simp add: map_Suc_upt upt_conv_Cons rotate1_rotate_swap del: upt_Suc)
qed

lemma picks_rounds:
  assumes "\<forall>e \<in> set es. good e" and "repr s xs" and "xs \<noteq> []" and "length es = n * length xs"
  shows "\<exists>s'. picks pick es s = Some (concat (replicate n xs), s') \<and> repr s' xs"
proof -
  have "rotate (length es) xs = xs" using assms(4) by (simp add: rotate_conv_mod)
  then show ?thesis using picks_cycle [OF assms(1-3)] cycle_concat [OF assms(3), of n] assms(4) by simp
qed

end

section \<open>The rotation of one priority\<close>

text \<open>
  \<open>in_turn i H s xs\<close>: the ready list of priority \<open>i\<close> is \<open>xs\<close>, no list of higher priority has a
  ready head, the last task of \<open>xs\<close> is running and the others wait with a saved context. \<open>H\<close> are
  the context frames.
\<close>

definition frame_ok :: "(addr \<rightharpoonup> task_context) \<Rightarrow> addr \<Rightarrow> bool" where
  "frame_ok H c \<longleftrightarrow> c \<noteq> NULL \<and> H c \<noteq> None"

definition resumable :: "kstate \<Rightarrow> addr \<Rightarrow> bool" where
  "resumable s p \<longleftrightarrow> (\<exists>v. task_heap s p = Some v \<and> frame_ok (ctx_heap s) (task_context_ptr v))"

definition in_turn :: "nat \<Rightarrow> (addr \<rightharpoonup> task_context) \<Rightarrow> kstate \<Rightarrow> addr list \<Rightarrow> bool" where
  "in_turn i H s xs \<longleftrightarrow> i < 5 \<and> xs \<noteq> [] \<and> ctx_heap s = H \<and> curr_running_task s = last xs
     \<and> (\<exists>qs. rq_ok s qs \<and> qs ! i = xs \<and> (\<forall>j < i. \<not> ready_level s qs j))
     \<and> (\<forall>p \<in> set (butlast xs). is_ready s p \<and> resumable s p)"

datatype switch_event = By_yield addr | By_tick addr

fun switch_frame :: "switch_event \<Rightarrow> addr" where
  "switch_frame (By_yield c) = c"
| "switch_frame (By_tick c) = c"

fun switch_to :: "switch_event \<Rightarrow> kstate \<Rightarrow> (kstate \<times> task_context) option" where
  "switch_to (By_yield c) s = yield_handler c 0 s"
| "switch_to (By_tick c) s = timer0_isr c s"

text \<open>The task a switch hands the processor to.\<close>

definition switch_step :: "switch_event \<Rightarrow> kstate \<Rightarrow> (addr \<times> kstate) option" where
  "switch_step e s = do { (s, _) \<leftarrow> switch_to e s; Some (curr_running_task s, s) }"

lemma ready_level_status:
  assumes "links task_status (task_heap s') = (links task_status (task_heap s))(a \<mapsto> x)"
    and "qs' ! j = qs ! j" and "a \<notin> set (qs ! j)"
  shows "ready_level s' qs' j = ready_level s qs j"
  using assms by (cases "qs ! j") (auto simp: ready_level_def is_ready_def)

lemma sched_rotates:
  assumes ok: "rq_ok s qs" and i: "i < 5" and q: "qs ! i = x # ys" and rdy: "is_ready s x"
    and none: "\<forall>j < i. \<not> ready_level s qs j" and res: "resumable s x"
  shows "\<exists>s' c. sched s = Some (s', c) \<and> rq_ok s' (qs[i := ys @ [x]]) \<and> curr_running_task s' = x
    \<and> ctx_heap s' = ctx_heap s
    \<and> links task_status (task_heap s') = (links task_status (task_heap s))(x \<mapsto> TASK_RUNNING)
    \<and> links task_static (task_heap s') = links task_static (task_heap s)"
proof -
  have "find (ready_level s qs) [0..<5] = Some i"
    unfolding find_Some_iff using i none q rdy
    by (intro exI [of _ i]) (simp add: ready_level_def)
  then obtain t where t: "choose_task s = Some (x, t)" "rq_ok t (qs[i := ys @ [x]])" "no_tasks t = no_tasks s"
    "links task_status (task_heap t) = (links task_status (task_heap s))(x \<mapsto> TASK_RUNNING)"
    "links task_static (task_heap t) = links task_static (task_heap s)"
    using choose_loop_ok [OF ok, of "[0..<5]"] q unfolding choose_task_def by fastforce
  have ctx: "ctx_heap t = ctx_heap s" using arg_cong [OF t(3), of ctx_heap] by (simp add: no_tasks_def)
  obtain v where v: "task_heap s x = Some v" "frame_ok (ctx_heap s) (task_context_ptr v)"
    using res by (auto simp: resumable_def)
  then have "links task_static (task_heap t) x = Some (task_static v)" using t(5) by simp
  then obtain w where w: "task_heap t x = Some w" "task_static w = task_static v" by (auto dest: links_SomeD)
  have "task_context_ptr w = task_context_ptr v" using arg_cong [OF w(2), of task_context_ptr] by (simp add: task_static_def)
  then obtain c where c: "task_context_ptr w \<noteq> NULL" "ctx_heap t (task_context_ptr w) = Some c"
    using v(2) ctx by (auto simp: frame_ok_def)
  have x: "x \<noteq> NULL" using rq_mem [OF ok i, of x] q by simp
  define u where "u = reload_ostick 5 (switch_mm (pgtbase w) (t\<lparr>curr_running_task := x\<rparr>))"
  have u: "task_heap u = task_heap t" "task_ready_list u = task_ready_list t" "ctx_heap u = ctx_heap t" "curr_running_task u = x"
    by (simp_all add: u_def reload_ostick_def wr32_def switch_mm_def pgt_base_setup_def invalidate_tlb_def)
  have "sched s = Some (u, c)"
    using t(1) w(1) x c by (simp add: sched_def deref_def u_def switch_mm_def pgt_base_setup_def invalidate_tlb_def)
  moreover have "rq_ok u (qs[i := ys @ [x]])" using t(2) u by (simp add: rq_ok_def)
  ultimately show ?thesis using u t(4,5) ctx by auto
qed

lemma resumable_static:
  assumes "links task_static (task_heap s') = links task_static (task_heap s)" and "ctx_heap s' = ctx_heap s"
  shows "resumable s' p = resumable s p"
proof -
  have "resumable u p \<longleftrightarrow> (\<exists>v. links task_static (task_heap u) p = Some v \<and> frame_ok (ctx_heap u) (task_context_ptr v))" for u
    by (cases "task_heap u p") (simp_all add: resumable_def links_def task_static_def)
  then show ?thesis using assms by simp
qed

lemma in_turnD:
  assumes "in_turn i H s xs" and "p \<in> set xs"
  shows "p \<noteq> NULL" "\<exists>v. task_heap s p = Some v" "distinct xs"
proof -
  obtain qs where qs: "rq_ok s qs" "qs ! i = xs" "i < 5" using assms by (auto simp: in_turn_def)
  show "p \<noteq> NULL" "\<exists>v. task_heap s p = Some v" using rq_mem [OF qs(1,3)] qs(2) assms(2) by auto
  show "distinct xs" using dll_distinct [OF rq_dll(1) [OF qs(1,3)]] qs(2) by simp
qed

lemma switch_turn:
  assumes turn: "in_turn i H s (x # xs)" and c: "frame_ok H c" and v: "task_heap s (last (x # xs)) = Some v"
    and t: "task_heap t = (task_heap s)(last (x # xs) \<mapsto> v\<lparr>task_context_ptr := c, task_status := TASK_READY\<rparr>)"
      "task_ready_list t = task_ready_list s" "ctx_heap t = ctx_heap s"
  shows "\<exists>s' k. sched t = Some (s', k) \<and> curr_running_task s' = x \<and> in_turn i H s' (xs @ [x])
    \<and> links task_static (task_heap s') = links task_static (task_heap t)"
proof -
  let ?l = "last (x # xs)"
  obtain qs where qs: "rq_ok s qs" "qs ! i = x # xs" "\<forall>j < i. \<not> ready_level s qs j" "i < 5" "ctx_heap s = H"
    using turn by (auto simp: in_turn_def)
  have len: "length qs = 5" using qs(1) by (simp add: rq_ok_def)
  have dist: "distinct (x # xs)" using in_turnD(3) [OF turn, of x] by simp
  have tok: "rq_ok t qs" using qs(1) v by (simp add: rq_ok_def t fun_upd_idem_iff)
  have st: "links task_status (task_heap t) = (links task_status (task_heap s))(?l \<mapsto> TASK_READY)" by (simp add: t)
  have other: "p \<notin> set (qs ! j)" if "p \<in> set (x # xs)" "j < i" for p j
    using rq_other_queue [OF qs(1,4), of j p] that qs(2,4) by auto
  have none: "\<forall>j < i. \<not> ready_level t qs j"
    using ready_level_status [OF st, where qs = qs and qs' = qs] qs(3) other [of ?l] by simp
  have bl: "p \<in> set (butlast (x # xs))" if "p \<in> set (x # xs)" "p \<noteq> ?l" for p
    using that by (metis append_butlast_last_id in_set_conv_decomp list.distinct(1) rotate1.simps(2) set_ConsD set_rotate1)
  have rdy: "is_ready t p" if "p \<in> set (x # xs)" for p
    using turn bl [OF that] st by (auto simp: in_turn_def is_ready_def)
  have res: "resumable t p" if "p \<in> set (x # xs)" for p
    using turn bl [OF that] c qs(5) by (auto simp: in_turn_def resumable_def t)
  obtain s' k where s': "sched t = Some (s', k)" "rq_ok s' (qs[i := xs @ [x]])" "curr_running_task s' = x"
    "ctx_heap s' = ctx_heap t" "links task_status (task_heap s') = (links task_status (task_heap t))(x \<mapsto> TASK_RUNNING)"
    "links task_static (task_heap s') = links task_static (task_heap t)"
    using sched_rotates [OF tok qs(4,2) rdy none res] by auto
  have "\<not> ready_level s' (qs[i := xs @ [x]]) j" if "j < i" for j
    using ready_level_status [OF s'(5), where qs = qs and qs' = "qs[i := xs @ [x]]" and j = j] none other [of x j] that by simp
  moreover have "is_ready s' p" if "p \<in> set xs" for p
    using rdy [of p] that dist s'(5) by (auto simp: is_ready_def)
  moreover have "resumable s' p" if "p \<in> set xs" for p
    using res [of p] that resumable_static [OF s'(6,4)] by simp
  ultimately have "in_turn i H s' (xs @ [x])"
    using s'(2,3,4) qs(4,5) len t(3) by (auto simp: in_turn_def butlast_append)
  then show ?thesis using s'(1,3,6) by blast
qed

text \<open>Both entries save the frame, mark the task ready and go to the scheduler.\<close>

lemma switch_enters:
  assumes "task_heap s a = Some v" "curr_running_task s = a" "a \<noteq> NULL"
  shows "\<exists>t. switch_to e s = sched t
    \<and> task_heap t = (task_heap s)(a \<mapsto> v\<lparr>task_context_ptr := switch_frame e, task_status := TASK_READY\<rparr>)
    \<and> task_ready_list t = task_ready_list s \<and> ctx_heap t = ctx_heap s"
proof -
  let ?h = "(task_heap s)(a \<mapsto> v\<lparr>task_context_ptr := switch_frame e, task_status := TASK_READY\<rparr>)"
  define u where "u = s\<lparr>task_heap := ?h, curr_running_task := NULL, sched_lr := Fn_sched\<rparr>"
  define w where "w = wr8 (0x48200000 + 0x48) 1 ((toggle_usrled 3 (wr32 (0x44E05000 + 0x28) 2 s))
    \<lparr>task_heap := ?h, curr_running_task := NULL, sched_lr := Fn_sched\<rparr>)"
  have w: "task_heap w = ?h" "task_ready_list w = task_ready_list s" "ctx_heap w = ctx_heap s"
    by (simp_all add: w_def wr8_def wr32_def toggle_usrled_def Let_def)
  show ?thesis
  proof (cases e)
    case (By_yield c)
    then have "switch_to e s = sched u"
      using assms by (simp add: yield_handler_def upd_objs call_sched_def set_sched_context_def u_def)
    then show ?thesis by (intro exI [of _ u]) (simp add: u_def)
  next
    case (By_tick c)
    then have "switch_to e s = sched w"
      using assms by (simp add: timer0_isr_def upd_objs call_sched_def set_sched_context_def w_def wr8_def wr32_def toggle_usrled_def Let_def)
    then show ?thesis using w by blast
  qed
qed

lemma task_static_ptr: "task_static v = task_static w \<Longrightarrow> task_context_ptr v = task_context_ptr w"
  by (drule arg_cong [where f = task_context_ptr]) (simp add: task_static_def)

lemma switch_to_turn:
  assumes "frame_ok H (switch_frame e)" and "in_turn i H s (x # xs)"
  shows "\<exists>s' k. switch_to e s = Some (s', k) \<and> curr_running_task s' = x \<and> in_turn i H s' (xs @ [x])
    \<and> links task_context_ptr (task_heap s') = (links task_context_ptr (task_heap s))(last (x # xs) \<mapsto> switch_frame e)"
proof -
  have cur: "curr_running_task s = last (x # xs)" using assms(2) by (simp add: in_turn_def)
  obtain v where v: "last (x # xs) \<noteq> NULL" "task_heap s (last (x # xs)) = Some v"
    using in_turnD(1,2) [OF assms(2) last_in_set] by auto
  obtain t where t: "switch_to e s = sched t" "task_ready_list t = task_ready_list s" "ctx_heap t = ctx_heap s"
    "task_heap t = (task_heap s)(last (x # xs) \<mapsto> v\<lparr>task_context_ptr := switch_frame e, task_status := TASK_READY\<rparr>)"
    using switch_enters [OF v(2) cur v(1), of e] by blast
  obtain s' k where s': "sched t = Some (s', k)" "curr_running_task s' = x" "in_turn i H s' (xs @ [x])"
    "links task_static (task_heap s') = links task_static (task_heap t)"
    using switch_turn [OF assms(2,1) v(2) t(4,2,3)] by blast
  have "links task_context_ptr (task_heap s') = links task_context_ptr (task_heap t)"
    using s'(4) task_static_ptr by (rule links_coarser)
  also have "\<dots> = (links task_context_ptr (task_heap s))(last (x # xs) \<mapsto> switch_frame e)" by (simp only: t(4) links_upd) simp
  finally show ?thesis using s'(1-3) t(1) by (intro exI [of _ s'] exI [of _ k] conjI) (simp_all only:)
qed

lemma switch_step_turn:
  assumes "frame_ok H (switch_frame e)" and "in_turn i H s (x # xs)"
  shows "\<exists>s'. switch_step e s = Some (x, s') \<and> in_turn i H s' (xs @ [x])"
  using switch_to_turn [OF assms] by (auto simp: switch_step_def)

interpretation turns: rotating switch_step "\<lambda>e. frame_ok H (switch_frame e)" "in_turn i H"
  by unfold_locales (rule switch_step_turn)

section \<open>Property\<close>

text \<open>
  C5: with \<open>xs\<close> the ready list of the highest priority that has a ready head, the next switches, by
  yield or by tick in any order, run the tasks of \<open>xs\<close> in list order, again and again: \<open>n\<close> rounds of
  switches give every task exactly \<open>n\<close> turns and restore the list. No task of a lower priority
  runs meanwhile, however long the run.
\<close>

theorem round_robin:
  assumes "in_turn i H s xs" and "\<forall>e \<in> set es. frame_ok H (switch_frame e)" and "length es = n * length xs"
  shows "\<exists>s'. picks switch_step es s = Some (concat (replicate n xs), s') \<and> in_turn i H s' xs"
  using turns.picks_rounds [OF assms(2,1) _ assms(3)] assms(1) by (simp add: in_turn_def)

lemma demo_in_turn: "in_turn 2 [0x9000 \<mapsto> zero_ctx, 0x9100 \<mapsto> zero_ctx] demo_sched [0x2000, 0x3000]"
proof -
  let ?qs = "[[0x1000], [], [0x2000, 0x3000], [], []] :: addr list list"
  have "\<not> ready_level demo_sched ?qs j" if "j < 2" for j
    using that by (auto simp: less_2_cases_iff ready_level_def is_ready_def demo_sched_def demo_task_def)
  moreover have "is_ready demo_sched 0x2000" "resumable demo_sched 0x2000"
    by (simp_all add: is_ready_def resumable_def frame_ok_def demo_sched_def demo_task_def)
  moreover have "ctx_heap demo_sched = [0x9000 \<mapsto> zero_ctx, 0x9100 \<mapsto> zero_ctx]" "curr_running_task demo_sched = 0x3000"
    by (simp_all add: demo_sched_def)
  moreover have "?qs ! 2 = [0x2000, 0x3000]" by simp
  ultimately show ?thesis using demo_sched_ok unfolding in_turn_def by (intro conjI exI [of _ ?qs]) simp_all
qed

lemma two_rounds: "concat (replicate 2 xs) = xs @ xs"
  by (simp add: numeral_2_eq_2)

theorem round_robin_witness:
  "\<exists>s'. picks switch_step [By_yield 0x9100, By_tick 0x9000, By_tick 0x9100, By_yield 0x9000] demo_sched
    = Some ([0x2000, 0x3000, 0x2000, 0x3000], s')"
  using round_robin [OF demo_in_turn, of "[By_yield 0x9100, By_tick 0x9000, By_tick 0x9100, By_yield 0x9000]" 2]
  by (auto simp: frame_ok_def two_rounds simp del: picks.simps)

end
