(* ===== verification/Syscall.thy ===== *)
theory Syscall
  imports Switching
begin

text \<open>
  The system calls, \<^verbatim>\<open>src/src/kernel/syscall.c\<close>: one definition per handler and the dispatcher
  \<open>syscall_handler\<close>, which runs them on the kernel's page table and returns to the caller's.
  A handler gets the address of the caller's saved context and the caller's argument word; argument
  structs lie in the caller's RAM and are read word by word.
  The handlers that return a value put it in the saved \<^verbatim>\<open>r0\<close>.
\<close>

section \<open>Argument structs\<close>

text \<open>\<^verbatim>\<open>struct TASK_ARGS\<close>, \<^verbatim>\<open>FILE_RDWR_ARGS\<close>, \<^verbatim>\<open>BUF_AND_SZ_ARG\<close>: words at offsets 0, 4 and 8.\<close>

definition load32 :: "addr \<Rightarrow> kstate \<Rightarrow> u32 option" where
  "load32 a s = do {
     b0 \<leftarrow> load8 a s;
     b1 \<leftarrow> load8 (a + 1) s;
     b2 \<leftarrow> load8 (a + 2) s;
     b3 \<leftarrow> load8 (a + 3) s;
     Some (ucast b0 OR push_bit 8 (ucast b1) OR push_bit 16 (ucast b2) OR push_bit 24 (ucast b3))
   }"

definition store32 :: "addr \<Rightarrow> u32 \<Rightarrow> kstate \<Rightarrow> kstate option" where
  "store32 a v s = do {
     s \<leftarrow> store8 a (ucast v) s;
     s \<leftarrow> store8 (a + 1) (ucast (drop_bit 8 v)) s;
     s \<leftarrow> store8 (a + 2) (ucast (drop_bit 16 v)) s;
     store8 (a + 3) (ucast (drop_bit 24 v)) s
   }"

text \<open>A word in RAM is its four bytes, lowest first.\<close>

definition put32 :: "addr \<Rightarrow> u32 \<Rightarrow> (addr \<Rightarrow> u8) \<Rightarrow> addr \<Rightarrow> u8" where
  "put32 a v m = m(a := ucast v, a + 1 := ucast (drop_bit 8 v), a + 2 := ucast (drop_bit 16 v), a + 3 := ucast (drop_bit 24 v))"

lemma word_offsets:
  assumes "valid_range a n" and "4 \<le> n"
  shows "a \<noteq> NULL" "a + 1 \<noteq> NULL" "a + 2 \<noteq> NULL" "a + 3 \<noteq> NULL"
  using valid_range_at(1) [OF assms(1), of 0] valid_range_at(1) [OF assms(1), of 1] valid_range_at(1) [OF assms(1), of 2]
    valid_range_at(1) [OF assms(1), of 3] assms(2) by simp_all

lemma store32_at: "valid_range a n \<Longrightarrow> 4 \<le> n \<Longrightarrow> store32 a v s = Some (s\<lparr>bytes := put32 a v (bytes s)\<rparr>)"
  using word_offsets [of a n] by (simp add: store32_def store8_def put32_def)

lemma load32_put:
  assumes "valid_range a n" and "4 \<le> n" and "bytes s = put32 a v m"
  shows "load32 a s = Some v"
proof -
  have "ucast (ucast v :: u8) OR push_bit 8 (ucast (ucast (drop_bit 8 v) :: u8)) OR
      push_bit 16 (ucast (ucast (drop_bit 16 v) :: u8)) OR push_bit 24 (ucast (ucast (drop_bit 24 v) :: u8)) = v"
  proof (rule bit_word_eqI)
    fix n :: nat assume "n < LENGTH(32)"
    then consider "n < 8" | "8 \<le> n" "n < 16" | "16 \<le> n" "n < 24" | "24 \<le> n" "n < 32" by fastforce
    then show "bit (ucast (ucast v :: u8) OR push_bit 8 (ucast (ucast (drop_bit 8 v) :: u8)) OR
      push_bit 16 (ucast (ucast (drop_bit 16 v) :: u8)) OR push_bit 24 (ucast (ucast (drop_bit 24 v) :: u8)) :: u32) n = bit v n"
      by cases (auto simp: bit_simps)
  qed
  then show ?thesis using word_offsets [OF assms(1,2)] assms(3) by (simp add: load32_def load8_def put32_def)
qed

lemma put32_other: "\<not> in_range a 4 x \<Longrightarrow> valid_range a n \<Longrightarrow> 4 \<le> n \<Longrightarrow> put32 a v m x = m x"
proof -
  assume r: "valid_range a n" "4 \<le> n" "\<not> in_range a 4 x"
  have "valid_range a 4" using r(1,2) by (simp add: valid_range_def)
  then have "x \<noteq> a + of_nat i" if "i < 4" for i using valid_range_at(3) [of a 4 i] that r(3) by auto
  from this [of 0] this [of 1] this [of 2] this [of 3] show ?thesis by (simp add: put32_def)
qed

lemma load32_cong: "\<forall>x. in_range a 4 x \<longrightarrow> bytes s' x = bytes s x \<Longrightarrow> valid_range a 4 \<Longrightarrow> load32 a s' = load32 a s"
  using valid_range_at(3) [of a 4 0] valid_range_at(3) [of a 4 1] valid_range_at(3) [of a 4 2] valid_range_at(3) [of a 4 3]
  by (simp add: load32_def load8_def)

lemma sub_range:
  assumes "valid_range a n" and "k + l \<le> n" and "0 < l"
  shows "valid_range (a + of_nat k) l" and "unat (a + of_nat k) = unat a + k"
proof -
  have k: "k < n" using assms(2,3) by simp
  show u: "unat (a + of_nat k) = unat a + k" by (rule valid_range_at(2) [OF assms(1) k])
  show "valid_range (a + of_nat k) l" using valid_range_at(1) [OF assms(1) k] assms u by (simp add: valid_range_def)
qed

definition set_r0 :: "addr \<Rightarrow> u32 \<Rightarrow> kstate \<Rightarrow> kstate option" where
  "set_r0 ctx v s = upd_ctx ctx (\<lambda>c. c\<lparr>c_r0 := v\<rparr>) s"

definition current :: "kstate \<Rightarrow> task_info option" where
  "current s = deref (task_heap s) (curr_running_task s)"

section \<open>Tasks\<close>

definition print_hello_handler :: "addr \<Rightarrow> u32 \<Rightarrow> kstate \<Rightarrow> kstate option" where
  "print_hello_handler ctx args s =
     printk (cstr (''Hello! This is my first system call,Input value =%d'' @ crlf)) [args] s"

definition get_tid_handler :: "addr \<Rightarrow> u32 \<Rightarrow> kstate \<Rightarrow> kstate option" where
  "get_tid_handler ctx args s = do {
     t \<leftarrow> current s;
     set_r0 ctx (task_id t) s
   }"

definition exit_handler :: "addr \<Rightarrow> u32 \<Rightarrow> kstate \<Rightarrow> kstate option" where
  "exit_handler ctx args s = do {
     t \<leftarrow> current s;
     s \<leftarrow> printk (cstr (''task id=%d exit'' @ crlf)) [task_id t] s;
     s \<leftarrow> upd_task (curr_running_task s) (\<lambda>t. t\<lparr>task_status := TASK_TERMINATE\<rparr>) s;
     curr_ma \<leftarrow> which_page (stk_bottom t) s;
     s \<leftarrow> task_pop (curr_running_task s) s;
     s \<leftarrow> page_free curr_ma s;
     t \<leftarrow> current s;
     free_pgt (pgtbase t) s
   }"

text \<open>
  \<^verbatim>\<open>_memcpy(new, old, TASK_STACK_SIZE)\<close> of a task page: the bytes, and the task struct and the
  context frames among them, which keep their offset. A frame cut off by the end of the range is not
  a frame any more.
\<close>

definition copy_objs :: "u32 \<Rightarrow> addr \<Rightarrow> addr \<Rightarrow> (addr \<rightharpoonup> 'a) \<Rightarrow> addr \<rightharpoonup> 'a" where
  "copy_objs sz new old h = (\<lambda>a.
     if a - new < TASK_STACK_SIZE
     then if a - new + sz \<le> TASK_STACK_SIZE then h (a - new + old) else None
     else h a)"

definition copy_task_page :: "addr \<Rightarrow> addr \<Rightarrow> kstate \<Rightarrow> kstate option" where
  "copy_task_page new old s = do {
     s \<leftarrow> mem_cpy new old TASK_STACK_SIZE s;
     Some (s\<lparr>task_heap := copy_objs 76 new old (task_heap s), ctx_heap := copy_objs 56 new old (ctx_heap s)\<rparr>)
   }"

text \<open>\<^verbatim>\<open>_memcpy(ntask, curr_running_task, sizeof(struct TASK_INFO))\<close>\<close>

definition copy_task_info :: "addr \<Rightarrow> addr \<Rightarrow> kstate \<Rightarrow> kstate option" where
  "copy_task_info new old s = do {
     t \<leftarrow> deref (task_heap s) old;
     s \<leftarrow> mem_cpy new old 76 s;
     Some (s\<lparr>task_heap := (task_heap s)(new \<mapsto> t)\<rparr>)
   }"

text \<open>Subtracting two \<^verbatim>\<open>uint32_t *\<close> counts words.\<close>

definition ptr_words :: "addr \<Rightarrow> addr \<Rightarrow> u32" where
  "ptr_words p q = signed_drop_bit 2 (p - q)"

definition fork_handler :: "addr \<Rightarrow> u32 \<Rightarrow> kstate \<Rightarrow> kstate option" where
  "fork_handler ctx args s = do {
     (n_pg, s) \<leftarrow> page_alloc s;
     s \<leftarrow> upd_page n_pg (\<lambda>p. p\<lparr>page_status := FOR_TASK\<rparr>) s;
     nv \<leftarrow> deref (page_heap s) n_pg;
     s \<leftarrow> clear_task_page (pgstart nv) s;
     let ntask = pgstart nv;
     t \<leftarrow> current s;
     curr_pg \<leftarrow> which_page (stk_bottom t) s;
     cv \<leftarrow> deref (page_heap s) curr_pg;
     s \<leftarrow> copy_task_page (pgstart nv) (pgstart cv) s;
     s \<leftarrow> copy_task_info ntask (curr_running_task s) s;
     t \<leftarrow> current s;
     let nctx = task_stk_top nv - 4 * ptr_words (stk_top t) ctx;
     s \<leftarrow> upd_task ntask (\<lambda>n. n\<lparr>stk_bottom := stktop2bottom (task_stk_top nv), stk_top := task_stk_top nv,
            task_context_ptr := nctx\<rparr>) s;
     t \<leftarrow> current s;
     s \<leftarrow> upd_task ntask (\<lambda>n. n\<lparr>next_ptr := NULL, prev_ptr := NULL, task_status := TASK_READY,
            taskCallBack := taskCallBack t, priority := priority t\<rparr>) s;
     let s = s\<lparr>taskid := taskid s + 1\<rparr>;
     let id = taskid s;
     s \<leftarrow> upd_task ntask (\<lambda>n. n\<lparr>task_id := id\<rparr>) s;
     (_, s) \<leftarrow> blks_init n_pg s;
     s \<leftarrow> task_enqueue ntask s;
     s \<leftarrow> set_r0 nctx 0 s;
     n \<leftarrow> deref (task_heap s) ntask;
     s \<leftarrow> set_r0 ctx (task_id n) s;
     (pt, s) \<leftarrow> task_pgt_setup (pgstart nv) (pg_top nv) s;
     s \<leftarrow> upd_task ntask (\<lambda>n. n\<lparr>pgtbase := pt\<rparr>) s;
     set_pte (pgstart cv) (pg_top cv) pt s
   }"

definition task_create_handler :: "addr \<Rightarrow> u32 \<Rightarrow> kstate \<Rightarrow> kstate option" where
  "task_create_handler ctx arg s = do {
     (pg, s) \<leftarrow> page_alloc s;
     s \<leftarrow> upd_page pg (\<lambda>p. p\<lparr>page_status := FOR_TASK\<rparr>) s;
     v \<leftarrow> deref (page_heap s) pg;
     s \<leftarrow> clear_task_page (pgstart v) s;
     let ntask = pgstart v;
     callback \<leftarrow> load32 arg s;
     pr \<leftarrow> load32 (arg + 4) s;
     (id, s) \<leftarrow> create_task ntask callback (stktop2bottom (task_stk_top v)) pr s;
     s \<leftarrow> set_r0 ctx id s;
     (_, s) \<leftarrow> blks_init pg s;
     s \<leftarrow> open_console_in_out ntask s;
     t \<leftarrow> current s;
     s \<leftarrow> upd_task ntask (\<lambda>n. n\<lparr>cwdn := cwdn t\<rparr>) s;
     s \<leftarrow> task_enqueue ntask s;
     (pt, s) \<leftarrow> task_pgt_setup (pgstart v) (pg_top v) s;
     upd_task ntask (\<lambda>n. n\<lparr>pgtbase := pt\<rparr>) s
   }"

definition get_task_priority_handler :: "addr \<Rightarrow> u32 \<Rightarrow> kstate \<Rightarrow> kstate option" where
  "get_task_priority_handler ctx args s = do {
     t \<leftarrow> current s;
     set_r0 ctx (priority t) s
   }"

section \<open>Blocks\<close>

definition malloc_blk_handler :: "addr \<Rightarrow> u32 \<Rightarrow> kstate \<Rightarrow> kstate option" where
  "malloc_blk_handler ctx args s = do {
     t \<leftarrow> current s;
     curr_pg \<leftarrow> which_page (stk_bottom t) s;
     (a, s) \<leftarrow> blk_alloc curr_pg s;
     set_r0 ctx a s
   }"

definition malloc_mfree_blk_handler :: "addr \<Rightarrow> u32 \<Rightarrow> kstate \<Rightarrow> kstate option" where
  "malloc_mfree_blk_handler ctx args s = free_blk args s"

partial_function (option) print_blks :: "addr \<Rightarrow> kstate \<Rightarrow> kstate option" where
  "print_blks head s = do {
     b \<leftarrow> deref (blk_heap s) head;
     s \<leftarrow> printk (cstr (''blk addr =%p ,start =%x'' @ crlf)) [head, b_start b] s;
     if b_next b \<noteq> NULL then print_blks (b_next b) s else Some s
   }"

declare print_blks.simps [code]

definition get_mblk_list_handler :: "addr \<Rightarrow> u32 \<Rightarrow> kstate \<Rightarrow> kstate option" where
  "get_mblk_list_handler ctx args s = do {
     t \<leftarrow> current s;
     curr_pg \<leftarrow> which_page (stk_bottom t) s;
     v \<leftarrow> deref (page_heap s) curr_pg;
     print_blks (blk_list_head v) s
   }"

section \<open>Files\<close>

text \<open>
  A call through \<^verbatim>\<open>file_read\<close> or \<^verbatim>\<open>file_write\<close>; the pointer may be \<open>NULL\<close>. A descriptor that is
  no index of \<^verbatim>\<open>openfiles\<close> reads past the array.
\<close>

fun call_file_fn :: "file_fn \<Rightarrow> addr \<Rightarrow> u32 \<Rightarrow> kstate \<Rightarrow> (u32 \<times> kstate) option" where
  "call_file_fn Fn_NULL buf n s = None"
| "call_file_fn Fn_console_read buf n s = console_read_func buf n s"
| "call_file_fn Fn_console_write buf n s = console_write_func buf n s"
| "call_file_fn Fn_ipc_read buf n s = ipc_read_func buf n s"
| "call_file_fn Fn_ipc_write buf n s = ipc_write_func buf n s"

definition open_file :: "u32 \<Rightarrow> kstate \<Rightarrow> file_obj option" where
  "open_file fd s = do {
     t \<leftarrow> current s;
     if unat fd < MAX_FD then deref (file_heap s) (openfiles t ! unat fd) else None
   }"

definition write_handler :: "addr \<Rightarrow> u32 \<Rightarrow> kstate \<Rightarrow> kstate option" where
  "write_handler ctx args s = do {
     fd \<leftarrow> load32 args s;
     wrbuf \<leftarrow> load32 (args + 4) s;
     n_bytes \<leftarrow> load32 (args + 8) s;
     f \<leftarrow> open_file fd s;
     (ret, s) \<leftarrow> call_file_fn (file_write f) wrbuf n_bytes s;
     set_r0 ctx ret s
   }"

definition read_handler :: "addr \<Rightarrow> u32 \<Rightarrow> kstate \<Rightarrow> kstate option" where
  "read_handler ctx args s = do {
     fd \<leftarrow> load32 args s;
     rdbuf \<leftarrow> load32 (args + 4) s;
     n_bytes \<leftarrow> load32 (args + 8) s;
     f \<leftarrow> open_file fd s;
     (ret, s) \<leftarrow> call_file_fn (file_read f) rdbuf n_bytes s;
     set_r0 ctx ret s
   }"

definition open_handler :: "addr \<Rightarrow> u32 \<Rightarrow> kstate \<Rightarrow> kstate option" where
  "open_handler ctx args s = do {
     (fd, s) \<leftarrow> file_open (Ram args) (curr_running_task s) s;
     s \<leftarrow> (if fd < 0 then printk (cstr (''Error :Can'' @ [CHR 0x27] @ ''t open file.'' @ crlf)) [] s else Some s);
     set_r0 ctx (of_int fd) s
   }"

definition close_handler :: "addr \<Rightarrow> u32 \<Rightarrow> kstate \<Rightarrow> kstate option" where
  "close_handler ctx args s = file_close args (curr_running_task s) s"

section \<open>Directories\<close>

definition cwd_node :: "kstate \<Rightarrow> dir_node option" where
  "cwd_node s = do {
     t \<leftarrow> current s;
     deref (dir_heap s) (cwdn t)
   }"

text \<open>The length test reads \<^verbatim>\<open>namebuf\<close>, the copy \<^verbatim>\<open>name\<close>; a \<open>NULL\<close> buffer is then written to.\<close>

definition getcwd_handler :: "addr \<Rightarrow> u32 \<Rightarrow> kstate \<Rightarrow> kstate option" where
  "getcwd_handler ctx args s = do {
     d \<leftarrow> cwd_node s;
     n \<leftarrow> str_len (Cells (d_namebuf d)) s;
     n_size \<leftarrow> load32 (args + 4) s;
     s \<leftarrow> (if of_nat n > n_size then store32 args NULL s else Some s);
     buf \<leftarrow> load32 args s;
     d \<leftarrow> cwd_node s;
     str_cat buf (Cells (d_name d)) s
   }"

definition delim :: "char list" where
  "delim = cstr '';;'' @ [NUL]"

text \<open>
  The loops of \<^verbatim>\<open>getsubdir\<close> and \<^verbatim>\<open>getfdir\<close>. \<^verbatim>\<open>sizeof(delim)\<close> is the size of a pointer, and makes
  the comparison unsigned.
\<close>

definition no_room :: "u32 \<Rightarrow> nat \<Rightarrow> nat \<Rightarrow> bool" where
  "no_room sz_buf used n \<longleftrightarrow> sz_buf - of_nat used < of_nat n + (4 :: u32)"

partial_function (option) subdir_loop :: "addr \<Rightarrow> u32 \<Rightarrow> addr \<Rightarrow> kstate \<Rightarrow> kstate option" where
  "subdir_loop buf sz_buf en s =
     (if en \<noteq> NULL then do {
        d \<leftarrow> deref (dir_heap s) en;
        used \<leftarrow> str_len (Ram buf) s;
        n \<leftarrow> str_len (Cells (d_name d)) s;
        if no_room sz_buf used n then Some s
        else do {
          s \<leftarrow> str_cat buf (Cells (d_name d)) s;
          s \<leftarrow> str_cat buf (Cells delim) s;
          subdir_loop buf sz_buf (d_next_sibling d) s
        }
      } else Some s)"

partial_function (option) fdir_loop :: "addr \<Rightarrow> u32 \<Rightarrow> addr \<Rightarrow> kstate \<Rightarrow> kstate option" where
  "fdir_loop buf sz_buf f s =
     (if f \<noteq> NULL then do {
        v \<leftarrow> deref (file_heap s) f;
        used \<leftarrow> str_len (Ram buf) s;
        n \<leftarrow> str_len (Cells (f_name v)) s;
        if no_room sz_buf used n then Some s
        else do {
          s \<leftarrow> str_cat buf (Cells (f_name v)) s;
          s \<leftarrow> str_cat buf (Cells delim) s;
          fdir_loop buf sz_buf (f_next_sibling v) s
        }
      } else Some s)"

declare subdir_loop.simps [code] fdir_loop.simps [code]

definition getsubdir_handler :: "addr \<Rightarrow> u32 \<Rightarrow> kstate \<Rightarrow> kstate option" where
  "getsubdir_handler ctx args s = do {
     buf \<leftarrow> load32 args s;
     sz_buf \<leftarrow> load32 (args + 4) s;
     s \<leftarrow> mem_set buf 0 sz_buf s;
     d \<leftarrow> cwd_node s;
     subdir_loop buf sz_buf (d_firstchild d) s
   }"

definition getfdir_handler :: "addr \<Rightarrow> u32 \<Rightarrow> kstate \<Rightarrow> kstate option" where
  "getfdir_handler ctx args s = do {
     buf \<leftarrow> load32 args s;
     sz_buf \<leftarrow> load32 (args + 4) s;
     s \<leftarrow> mem_set buf 0 sz_buf s;
     d \<leftarrow> cwd_node s;
     fdir_loop buf sz_buf (d_firstfile d) s
   }"

definition chdir_handler :: "addr \<Rightarrow> u32 \<Rightarrow> kstate \<Rightarrow> kstate option" where
  "chdir_handler ctx args s = do {
     t \<leftarrow> current s;
     target \<leftarrow> find_target_subdir (cwdn t) (Ram args) s;
     if target \<noteq> NULL then do {
       s \<leftarrow> upd_task (curr_running_task s) (\<lambda>t. t\<lparr>cwdn := target\<rparr>) s;
       set_r0 ctx 0 s
     } else set_r0 ctx (- 1) s
   }"

text \<open>\<^verbatim>\<open>dirwk\<close>, the way up to the root, has 16 entries.\<close>

fun dirs_up :: "nat \<Rightarrow> addr \<Rightarrow> kstate \<Rightarrow> addr list option" where
  "dirs_up 0 curdir s = (if curdir = NULL then Some [] else None)"
| "dirs_up (Suc n) curdir s =
     (if curdir = NULL then Some []
      else do {
        d \<leftarrow> deref (dir_heap s) curdir;
        ds \<leftarrow> dirs_up n (d_parent d) s;
        Some (curdir # ds)
      })"

fun path_loop :: "addr \<Rightarrow> u32 \<Rightarrow> addr list \<Rightarrow> kstate \<Rightarrow> kstate option" where
  "path_loop buf n_size [] s = Some s"
| "path_loop buf n_size (p # ps) s = do {
     d \<leftarrow> deref (dir_heap s) p;
     used \<leftarrow> str_len (Ram buf) s;
     n \<leftarrow> str_len (Cells (d_name d)) s;
     s \<leftarrow> (if sint (n_size - of_nat used) < int n then printk (cstr (''Buf not enough'' @ crlf)) [] s else Some s);
     s \<leftarrow> str_cat buf (Cells (d_name d)) s;
     path_loop buf n_size ps s
   }"

definition getfullpath_handler :: "addr \<Rightarrow> u32 \<Rightarrow> kstate \<Rightarrow> kstate option" where
  "getfullpath_handler ctx args s = do {
     buf \<leftarrow> load32 args s;
     n_size \<leftarrow> load32 (args + 4) s;
     t \<leftarrow> current s;
     ds \<leftarrow> dirs_up 16 (cwdn t) s;
     path_loop buf n_size (rev ds) s
   }"

section \<open>Restart and dispatch\<close>

definition restart_handler :: "addr \<Rightarrow> u32 \<Rightarrow> kstate \<Rightarrow> kstate option" where
  "restart_handler ctx args s = do {
     s \<leftarrow> set_wdt_count WATCHDOG_BASE 0xfffffff0 s;
     enable_watchdog WATCHDOG_BASE s
   }"

text \<open>
  A system call comes back to its caller, or, for \<^verbatim>\<open>yield\<close>, switches to the context that the
  scheduler loads.
\<close>

datatype outcome = Returned kstate | Switched kstate task_context

definition plain :: "(addr \<Rightarrow> u32 \<Rightarrow> kstate \<Rightarrow> kstate option) \<Rightarrow> addr \<Rightarrow> u32 \<Rightarrow> kstate \<Rightarrow> outcome option" where
  "plain h ctx args s = map_option Returned (h ctx args s)"

definition syscall_table :: "(addr \<Rightarrow> u32 \<Rightarrow> kstate \<Rightarrow> outcome option) list" where
  "syscall_table =
    [plain print_hello_handler,
     \<lambda>ctx args s. map_option (\<lambda>(s, c). Switched s c) (yield_handler ctx args s),
     plain get_tid_handler,
     plain exit_handler,
     plain fork_handler,
     plain task_create_handler,
     plain malloc_blk_handler,
     plain malloc_mfree_blk_handler,
     plain get_mblk_list_handler,
     plain get_task_priority_handler,
     plain write_handler,
     plain read_handler,
     plain open_handler,
     plain getcwd_handler,
     plain getsubdir_handler,
     plain getfdir_handler,
     plain chdir_handler,
     plain getfullpath_handler,
     plain restart_handler,
     plain close_handler]"

text \<open>Nothing checks the number of the call against the size of the table.\<close>

definition syscall_handler :: "u32 \<Rightarrow> addr \<Rightarrow> u32 \<Rightarrow> kstate \<Rightarrow> outcome option" where
  "syscall_handler syscall_id ctx args s = do {
     let s = switch_mm (KERN_PADDR s) s;
     r \<leftarrow> (if unat syscall_id < 20 then (syscall_table ! unat syscall_id) ctx args s else None);
     case r of
       Switched s c \<Rightarrow> Some (Switched s c)
     | Returned s \<Rightarrow> do {
         t \<leftarrow> current s;
         Some (Returned (switch_mm (pgtbase t) s))
       }
   }"

end
