(* ===== verification/Interrupt.thy ===== *)
theory Interrupt
  imports Syscall
begin

text \<open>
  The rest of \<^verbatim>\<open>src/src/kernel/interrupt.c\<close>: the dispatcher \<open>irqs_handler\<close> over the table of
  bound routines, the second timer, the exception vectors and the two abort handlers.
  The routine bound to a line is an address; \<open>isr\<close>, the effect of calling that address, is a
  parameter. The abort handlers spin after their report: their value is the state they spin in.
\<close>

unbundle bit_operations_syntax

section \<open>Processor state\<close>

text \<open>The inline assembly reads the CPSR, changes one mask bit and writes the control byte back.\<close>

definition cpsr_enable_irq :: "u32 \<Rightarrow> u32" where
  "cpsr_enable_irq cpsr = cpsr AND NOT 0x80"

definition cpsr_disable_irq :: "u32 \<Rightarrow> u32" where
  "cpsr_disable_irq cpsr = cpsr OR 0x80"

definition cpsr_disable_fiq :: "u32 \<Rightarrow> u32" where
  "cpsr_disable_fiq cpsr = cpsr OR 0x40"

definition cpsr_enable_fiq :: "u32 \<Rightarrow> u32" where
  "cpsr_enable_fiq cpsr = cpsr AND NOT 0x40"

definition disable_sys_irq :: "u32 \<Rightarrow> u32" where
  "disable_sys_irq cpsr = cpsr_disable_irq cpsr"

text \<open>\<^verbatim>\<open>vbar\<close> is CP15 register c12; bit 13 of the control register selects the high vectors.\<close>

definition get_ivt_base :: "u32 \<Rightarrow> kstate \<Rightarrow> u32" where
  "get_ivt_base vbar s = (if sctlr s AND push_bit 13 1 \<noteq> 0 then 0xFFFF0000 else vbar)"

section \<open>Dispatch\<close>

definition irqs_handler :: "(addr \<Rightarrow> kstate \<Rightarrow> kstate option) \<Rightarrow> kstate \<Rightarrow> kstate option" where
  "irqs_handler isr s = do {
     (n, s) \<leftarrow> get_act_irqnum s;
     let irq_id = (ucast n :: u8);
     let handler = irq_handler_array s ! unat irq_id;
     if handler \<noteq> NULL then do {
       s \<leftarrow> isr handler s;
       Some (wr8 (INTC_BASE + INTC_CONTROL) NEW_IRQ_AGREE s)
     } else Some s
   }"

definition timer2_isr :: "kstate \<Rightarrow> kstate" where
  "timer2_isr s = wr32 (DMTIMER2_BASE + IRQSTATUS) 2 (toggle_usrled 0 (toggle_usrled 1 (toggle_usrled 2 s)))"

text \<open>The seven words after the reset vector.\<close>

definition set_exception_entry :: "addr \<Rightarrow> kstate \<Rightarrow> kstate option" where
  "set_exception_entry exept_vec_base s =
     for_each (\<lambda>i. store32 (exept_vec_base + 4 * (1 + of_nat i)) 0xe59ff014) [0..<7] s"

lemma load_store32:
  assumes "valid_range a 4" and "store32 a v s = Some t"
  shows "load32 a t = Some v" and "valid_range b 4 \<Longrightarrow> \<forall>x. in_range b 4 x \<longrightarrow> \<not> in_range a 4 x \<Longrightarrow> load32 b t = load32 b s"
proof -
  have t: "bytes t = put32 a v (bytes s)" using store32_at [OF assms(1), of v s] assms(2) by auto
  show "load32 a t = Some v" using load32_put [OF assms(1) _ t] by simp
  show "valid_range b 4 \<Longrightarrow> \<forall>x. in_range b 4 x \<longrightarrow> \<not> in_range a 4 x \<Longrightarrow> load32 b t = load32 b s"
    by (rule load32_cong) (simp_all add: t put32_other [OF _ assms(1)])
qed

text \<open>What the start code relies on: each vector but reset gets the instruction \<^verbatim>\<open>ldr pc, [pc, #0x14]\<close>.\<close>

lemma set_exception_entry_writes:
  assumes "valid_range base 32"
  shows "\<exists>t. set_exception_entry base s = Some t \<and> (\<forall>i \<in> {1..7}. load32 (base + 4 * of_nat i) t = Some 0xe59ff014)"
proof -
  have r: "valid_range (base + 4 * (1 + of_nat n)) 4" "unat (base + 4 * (1 + of_nat n)) = unat base + 4 * (n + 1)" if "n < 7" for n
    using sub_range [OF assms, of "4 * (n + 1)" 4] that by simp_all
  have "\<exists>t. set_exception_entry base s = Some t \<and> (\<forall>i < 7. load32 (base + 4 * (1 + of_nat i)) t = Some 0xe59ff014)"
    unfolding set_exception_entry_def
  proof (rule for_each_upt)
    show "\<forall>i < 0. load32 (base + 4 * (1 + of_nat i)) s = Some 0xe59ff014" by simp
  next
    fix n u assume n: "n < 7" and I: "\<forall>i < n. load32 (base + 4 * (1 + of_nat i)) u = Some 0xe59ff014"
    obtain w where w: "store32 (base + 4 * (1 + of_nat n)) 0xe59ff014 u = Some w" using store32_at [OF r(1) [OF n]] by simp
    note ls = load_store32 [OF r(1) [OF n] w]
    have "load32 (base + 4 * (1 + of_nat i)) w = load32 (base + 4 * (1 + of_nat i)) u" if i: "i < n" for i
    proof -
      have "i < 7" using i n by simp
      then show ?thesis using ls(2) [OF r(1)] r(2) r(2) [OF n] i by (simp add: in_range_def)
    qed
    then show "\<exists>u'. store32 (base + 4 * (1 + of_nat n)) 0xe59ff014 u = Some u' \<and> (\<forall>i < Suc n. load32 (base + 4 * (1 + of_nat i)) u' = Some 0xe59ff014)"
      using w ls(1) I by (auto simp: less_Suc_eq)
  qed
  then obtain t where t: "set_exception_entry base s = Some t" "\<forall>i < 7. load32 (base + 4 * (1 + of_nat i)) t = Some 0xe59ff014" by blast
  have "load32 (base + 4 * of_nat i) t = Some 0xe59ff014" if "i \<in> {1..7}" for i
  proof -
    have "i - 1 < 7" "1 \<le> i" using that by auto
    then show ?thesis using t(2) [rule_format, of "i - 1"] by (simp add: of_nat_diff)
  qed
  then show ?thesis using t(1) by blast
qed

section \<open>Aborts\<close>

definition abort_report :: "char list \<Rightarrow> u32 \<Rightarrow> kstate \<Rightarrow> kstate option" where
  "abort_report title r0 s = do {
     s \<leftarrow> printk (cstr title) [] s;
     s \<leftarrow> printk (cstr (''task_info addr :%p'' @ crlf)) [curr_running_task s] s;
     t \<leftarrow> current s;
     s \<leftarrow> printk (cstr (''pgt base addr :%p'' @ crlf)) [pgtbase t] s;
     s \<leftarrow> printk (cstr (''lr_abort :%x'' @ crlf @ crlf)) [r0] s;
     ctx \<leftarrow> deref (ctx_heap s) (task_context_ptr t);
     s \<leftarrow> printk (cstr (''task_context sp :%p'' @ crlf)) [c_r0 ctx] s;
     s \<leftarrow> printk (cstr (''r0 :%x   r1 :%x   r2 :%x   r3 :%x'' @ crlf)) [c_r0 ctx, c_r1 ctx, c_r2 ctx, c_r3 ctx] s;
     s \<leftarrow> printk (cstr (''r4 :%x   r5 :%x   r7 :%x   r7 :%x'' @ crlf)) [c_r4 ctx, c_r5 ctx, c_r6 ctx, c_r7 ctx] s;
     s \<leftarrow> printk (cstr (''r8 :%x   r9 :%x   r10 :%x   r11 :%x'' @ crlf))
            [c_r8 ctx, c_r9_return_lr ctx, c_r10 ctx, c_r11 ctx] s;
     s \<leftarrow> printk (cstr (''r12 :%x   r14 :%x'' @ crlf)) [c_r12_spsr ctx, c_lr ctx] s;
     s \<leftarrow> set_wdt_count WATCHDOG_BASE 0xfffffff0 s;
     enable_watchdog WATCHDOG_BASE s
   }"

definition prefetch_abort_handler :: "u32 \<Rightarrow> kstate \<Rightarrow> kstate option" where
  "prefetch_abort_handler r0 s = abort_report (''In prefetch_abort_handler'' @ crlf) r0 s"

definition data_abort_handler :: "u32 \<Rightarrow> kstate \<Rightarrow> kstate option" where
  "data_abort_handler r0 s = abort_report (''In data_abort_handler'' @ crlf @ crlf) r0 s"

section \<open>The table as a map from lines to routines\<close>

datatype irq_op = Irq_bind u8 addr | Irq_unbind u8

fun irq_op_run :: "irq_op \<Rightarrow> kstate \<Rightarrow> kstate option" where
  "irq_op_run (Irq_bind i h) s = irq_isr_bind i h s"
| "irq_op_run (Irq_unbind i) s = irq_isr_unbind i s"

fun irq_op_line :: "irq_op \<Rightarrow> u8" where
  "irq_op_line (Irq_bind i h) = i"
| "irq_op_line (Irq_unbind i) = i"

fun irq_op_spec :: "irq_op \<Rightarrow> (nat \<rightharpoonup> addr) \<Rightarrow> (nat \<rightharpoonup> addr)" where
  "irq_op_spec (Irq_bind i h) m = (if h = NULL then m(unat i := None) else m(unat i \<mapsto> h))"
| "irq_op_spec (Irq_unbind i) m = m(unat i := None)"

definition irq_table :: "kstate \<Rightarrow> (nat \<rightharpoonup> addr) \<Rightarrow> bool" where
  "irq_table s m \<longleftrightarrow> length (irq_handler_array s) = 128 \<and>
     (\<forall>i < 128. m i = (if irq_handler_array s ! i = NULL then None else Some (irq_handler_array s ! i)))"

lemma wr8_keeps: "irq_handler_array (wr8 a v s) = irq_handler_array s" "dev_in (wr8 a v s) = dev_in s"
  by (simp_all add: wr8_def Let_def)

lemma irq_table_set:
  "irq_table s m \<Longrightarrow> irq_handler_array t = (irq_handler_array s)[i := h] \<Longrightarrow>
    irq_table t (if h = NULL then m(i := None) else m(i \<mapsto> h))"
  by (auto simp: irq_table_def nth_list_update)

lemma irq_op_ok:
  assumes "irq_table s m" and "unat (irq_op_line x) < 128"
  shows "\<exists>t. irq_op_run x s = Some t \<and> irq_table t (irq_op_spec x m) \<and> dev_in t = dev_in s"
proof (cases x)
  case (Irq_bind i h)
  then show ?thesis using assms irq_table_set [OF assms(1), of _ "unat i" h]
    by (simp add: irq_isr_bind_def wr8_keeps)
next
  case (Irq_unbind i)
  then show ?thesis using assms irq_table_set [OF assms(1), of _ "unat i" NULL]
    by (simp add: irq_isr_unbind_def wr8_keeps Let_def)
qed

lemma irq_ops_ok:
  "irq_table s m \<Longrightarrow> \<forall>x \<in> set xs. unat (irq_op_line x) < 128
    \<Longrightarrow> \<exists>t. for_each irq_op_run xs s = Some t \<and> irq_table t (fold irq_op_spec xs m) \<and> dev_in t = dev_in s"
proof (induction xs arbitrary: s m)
  case (Cons x xs)
  then obtain t where "irq_op_run x s = Some t" "irq_table t (irq_op_spec x m)" "dev_in t = dev_in s"
    using irq_op_ok [of s m x] by auto
  then show ?case using Cons.IH [of t "irq_op_spec x m"] Cons.prems(2) by simp
qed simp

lemma act_irqnum: "dev_in s 0x48200040 = v # vs \<Longrightarrow>
    get_act_irqnum s = Some (v AND 127, s\<lparr>dev_in := (dev_in s)(0x48200040 := vs)\<rparr>)"
proof -
  have "ucast (ucast v :: u8) AND 127 = v AND (127 :: u32)"
  proof -
    have m: "(127 :: u32) = mask 7" by (simp add: mask_eq_exp_minus_1)
    show ?thesis unfolding m by (rule bit_word_eqI) (auto simp: bit_simps)
  qed
  then show "dev_in s 0x48200040 = v # vs \<Longrightarrow> ?thesis" by (simp add: get_act_irqnum_def)
qed


text \<open>
  C33: the dispatcher sees the table as a map. After \<open>irq_init\<close> and any run of binds and unbinds, an
  interrupt on line \<open>n\<close> (the low seven bits of the active number) runs the routine bound last to that
  line and then agrees to the next interrupt. On a line without a routine nothing at all is written:
  the interrupt is not acknowledged, and the controller sends no further one.
\<close>

theorem irqs_handler_dispatch:
  assumes "\<forall>x \<in> set ops. unat (irq_op_line x) < 128" and "dev_in s 0x48200040 = v # vs"
  shows "\<exists>t. for_each irq_op_run ops (irq_init s) = Some t
    \<and> irqs_handler isr t =
        (let t' = t\<lparr>dev_in := (dev_in t)(0x48200040 := vs)\<rparr>
         in case fold irq_op_spec ops Map.empty (unat (v AND 127)) of
              None \<Rightarrow> Some t'
            | Some h \<Rightarrow> map_option (wr8 0x48200048 1) (isr h t'))"
proof -
  have z: "irq_table (irq_init s) Map.empty" by (simp add: irq_table_def irq_init_def irq_handler_array_init_def)
  obtain t where t: "for_each irq_op_run ops (irq_init s) = Some t" "irq_table t (fold irq_op_spec ops Map.empty)" "dev_in t = dev_in s"
    using irq_ops_ok [OF z assms(1)] by (auto simp: irq_init_def irq_handler_array_init_def)
  let ?i = "unat (v AND 127)"
  have "v AND 127 \<le> 127" by (simp add: word_and_le1)
  then have i: "?i < 128" by (simp add: word_le_nat_alt)
  then have u: "unat (ucast (v AND 127) :: u8) = ?i" by (simp add: unsigned_ucast_eq unsigned_take_bit_eq take_bit_nat_eq_self)
  have "fold irq_op_spec ops Map.empty ?i =
      (if irq_handler_array t ! ?i = NULL then None else Some (irq_handler_array t ! ?i))" using t(2) i by (simp add: irq_table_def)
  moreover have "get_act_irqnum t = Some (v AND 127, t\<lparr>dev_in := (dev_in t)(0x48200040 := vs)\<rparr>)"
    using assms(2) t(3) by (simp add: act_irqnum)
  ultimately show ?thesis using t(1) u
    by (simp add: irqs_handler_def Let_def map_option_case split: option.splits)
qed

theorem irqs_handler_dispatch_witness:
  "\<exists>t. for_each irq_op_run [Irq_bind 68 0x82001000, Irq_bind 72 0x82002000, Irq_unbind 72]
        (irq_init (zero_state\<lparr>dev_in := (\<lambda>_. [])(0x48200040 := [0x80000044])\<rparr>)) = Some t
    \<and> irqs_handler (\<lambda>h s. if h = 0x82001000 then Some (timer2_isr s) else None) t \<noteq> None"
  using irqs_handler_dispatch [of "[Irq_bind 68 0x82001000, Irq_bind 72 0x82002000, Irq_unbind 72]"
      "zero_state\<lparr>dev_in := (\<lambda>_. [])(0x48200040 := [0x80000044])\<rparr>" "0x80000044" "[]"
      "\<lambda>h s. if h = 0x82001000 then Some (timer2_isr s) else None"]
  by (auto simp: Let_def)

end
