(* ===== verification/SysPath.thy ===== *)
theory SysPath
  imports Syscall
begin

text \<open>
  What the directory calls \<open>getfullpath\<close>, \<open>getsubdir\<close> and \<open>getfdir\<close> leave in the caller's buffer.
\<close>

lemma str_at_bytes: "bytes s' = bytes s \<Longrightarrow> str_at p t s' \<longleftrightarrow> str_at p t s"
proof -
  assume "bytes s' = bytes s"
  then have "getc p i s' = getc p i s" for i by (cases p) (simp_all add: load8_def)
  then show ?thesis by (simp add: str_at_def)
qed

lemma in_range_tail: "valid_range buf (k + n) \<Longrightarrow> in_range (buf + of_nat k) n a \<Longrightarrow> in_range buf (k + n) a"
  using unat_plus_range [of buf "k + n" k] by (cases "n = 0") (auto simp: in_range_def valid_range_def)

lemma in_range_mono: "in_range b n a \<Longrightarrow> n \<le> k \<Longrightarrow> in_range b k a"
  by (auto simp: in_range_def)

lemma valid_range_mono: "valid_range b k \<Longrightarrow> n \<le> k \<Longrightarrow> valid_range b n"
  by (auto simp: valid_range_def)

text \<open>Appending a terminated name that lies in a kernel object.\<close>

lemma cat_cells:
  assumes "str_at (Ram buf) u s" and "NUL \<in> set cells" and "valid_range buf (Suc (length u + length (text_of cells)))"
  shows "\<exists>m. str_cat buf (Cells cells) s = Some (s\<lparr>bytes := m\<rparr>) \<and> str_at (Ram buf) (u @ text_of cells) (s\<lparr>bytes := m\<rparr>)
    \<and> (\<forall>a. \<not> in_range buf (Suc (length u + length (text_of cells))) a \<longrightarrow> m a = bytes s a)"
proof -
  have v: "valid_range buf (length u + Suc (length (text_of cells)))" using assms(3) by simp
  show ?thesis
    using str_cat_ok [OF assms(1) str_at_text_of [OF assms(2)] v] in_range_tail [OF v] by fastforce
qed

section \<open>The full path\<close>

lemma dirs_up_chain:
  "chain (links d_parent (dir_heap s)) p ds \<Longrightarrow> dirs_up n p s = (if length ds \<le> n then Some ds else None)"
proof (induction n arbitrary: p ds)
  case 0
  then show ?case by (cases ds) auto
next
  case (Suc n)
  show ?case
  proof (cases ds)
    case Nil
    then show ?thesis using Suc.prems by simp
  next
    case (Cons q qs)
    then obtain d where d: "p = q" "p \<noteq> NULL" "dir_heap s p = Some d" "chain (links d_parent (dir_heap s)) (d_parent d) qs"
      using Suc.prems by (auto split: option.splits dest!: links_SomeD)
    then show ?thesis using Suc.IH [OF d(4)] Cons by (simp add: deref_def)
  qed
qed

definition names_text :: "kstate \<Rightarrow> addr list \<Rightarrow> char list" where
  "names_text s ps = concat (map (\<lambda>p. the (dir_text s p)) ps)"

lemma names_text_simps [simp]:
  "names_text s [] = []"
  "dir_heap s p = Some d \<Longrightarrow> names_text s (p # ps) = text_of (d_name d) @ names_text s ps"
  by (simp_all add: names_text_def dir_text_def)

lemma names_text_bytes: "dir_heap s' = dir_heap s \<Longrightarrow> names_text s' ps = names_text s ps"
  by (simp add: names_text_def dir_text_def)

lemma path_loop_ok:
  "str_at (Ram buf) u s \<Longrightarrow> terminated_dirs s ps \<Longrightarrow> NULL \<notin> set ps \<Longrightarrow>
     valid_range buf (Suc (length u + length (names_text s ps))) \<Longrightarrow>
     \<exists>m out. path_loop buf n_size ps s = Some (s\<lparr>bytes := m, uart_tx := uart_tx s @ out\<rparr>)
       \<and> str_at (Ram buf) (u @ names_text s ps) (s\<lparr>bytes := m\<rparr>)
       \<and> (\<forall>a. \<not> in_range buf (Suc (length u + length (names_text s ps))) a \<longrightarrow> m a = bytes s a)"
proof (induction ps arbitrary: u s)
  case Nil
  then show ?case by (intro exI [of _ "bytes s"] exI [of _ "[]"]) simp
next
  case (Cons p ps)
  obtain d where d: "p \<noteq> NULL" "dir_heap s p = Some d" "NUL \<in> set (d_name d)" "terminated_dirs s ps"
    using Cons.prems(2,3) by (auto simp: terminated_dirs_def)
  let ?t = "text_of (d_name d)"
  have len: "str_len (Ram buf) s = Some (length u)" "str_len (Cells (d_name d)) s = Some (length ?t)"
    using str_len_ok [OF Cons.prems(1)] str_len_ok [OF str_at_text_of [OF d(3)]] by auto
  define o1 where "o1 = (if sint (n_size - of_nat (length u)) < int (length ?t) then ''Buf not enough'' @ crlf else [])"
  define s1 where "s1 = s\<lparr>uart_tx := uart_tx s @ o1\<rparr>"
  have pr: "(if sint (n_size - of_nat (length u)) < int (length ?t) then printk (cstr (''Buf not enough'' @ crlf)) [] s else Some s) = Some s1"
    by (simp add: s1_def o1_def printk_plain)
  have sub: "valid_range buf (Suc (length u + length ?t))" using Cons.prems(4) d(2) by (simp add: valid_range_def)
  have "str_at (Ram buf) u s1" using Cons.prems(1) str_at_bytes [of s1 s] by (simp add: s1_def)
  then obtain m1 where m1: "str_cat buf (Cells (d_name d)) s1 = Some (s1\<lparr>bytes := m1\<rparr>)"
    "str_at (Ram buf) (u @ ?t) (s1\<lparr>bytes := m1\<rparr>)" "\<forall>a. \<not> in_range buf (Suc (length u + length ?t)) a \<longrightarrow> m1 a = bytes s1 a"
    using cat_cells [OF _ d(3) sub, of s1] by blast
  let ?s2 = "s1\<lparr>bytes := m1\<rparr>"
  have nt: "names_text ?s2 ps = names_text s ps" by (rule names_text_bytes) (simp add: s1_def)
  have "terminated_dirs ?s2 ps" using d(4) by (simp add: terminated_dirs_def s1_def)
  then obtain m out where m: "path_loop buf n_size ps ?s2 = Some (?s2\<lparr>bytes := m, uart_tx := uart_tx ?s2 @ out\<rparr>)"
    "str_at (Ram buf) ((u @ ?t) @ names_text s ps) (?s2\<lparr>bytes := m\<rparr>)"
    "\<forall>a. \<not> in_range buf (Suc (length (u @ ?t) + length (names_text s ps))) a \<longrightarrow> m a = bytes ?s2 a"
    using Cons.IH [OF m1(2)] Cons.prems(3,4) d(2) nt by (auto simp: add.assoc)
  have fr: "m a = bytes s a" if "\<not> in_range buf (Suc (length u + length (names_text s (p # ps)))) a" for a
    using that m(3) m1(3) d(2) in_range_mono [of buf "Suc (length u + length ?t)" a "Suc (length (u @ ?t) + length (names_text s ps))"]
    by (auto simp: s1_def add.assoc)
  have "path_loop buf n_size (p # ps) s = Some (s\<lparr>bytes := m, uart_tx := uart_tx s @ (o1 @ out)\<rparr>)"
    using d len pr m1(1) m(1) by (simp add: deref_def s1_def)
  moreover have "str_at (Ram buf) (u @ names_text s (p # ps)) (s\<lparr>bytes := m\<rparr>)"
    using m(2) d(2) str_at_bytes [of "s\<lparr>bytes := m\<rparr>" "?s2\<lparr>bytes := m\<rparr>"] by simp
  ultimately show ?case using fr by blast
qed


text \<open>
  C20: \<open>getfullpath\<close> appends to the text in the caller's buffer the names from the root down to the
  current directory, whatever size the caller gave: a size that is too small is only reported. At
  most 16 levels fit the handler's array; with more it writes past the array.
\<close>

theorem getfullpath_correct:
  assumes "load32 args s = Some buf" and "load32 (args + 4) s = Some n_size" and "current s = Some t"
    and "chain (links d_parent (dir_heap s)) (cwdn t) ds" and "terminated_dirs s ds"
    and "str_at (Ram buf) u s" and "valid_range buf (Suc (length u + length (names_text s (rev ds))))"
  shows "if length ds \<le> 16
    then \<exists>s'. getfullpath_handler ctx args s = Some s' \<and> str_at (Ram buf) (u @ names_text s (rev ds)) s'
      \<and> (\<forall>a. \<not> in_range buf (Suc (length u + length (names_text s (rev ds)))) a \<longrightarrow> bytes s' a = bytes s a)
    else getfullpath_handler ctx args s = None"
proof (cases "length ds \<le> 16")
  case True
  have "NULL \<notin> set (rev ds)" using chain_mem [OF assms(4)] by auto
  moreover have "terminated_dirs s (rev ds)" using assms(5) by (simp add: terminated_dirs_def)
  ultimately obtain m out where m: "path_loop buf n_size (rev ds) s = Some (s\<lparr>bytes := m, uart_tx := uart_tx s @ out\<rparr>)"
    "str_at (Ram buf) (u @ names_text s (rev ds)) (s\<lparr>bytes := m\<rparr>)"
    "\<forall>a. \<not> in_range buf (Suc (length u + length (names_text s (rev ds)))) a \<longrightarrow> m a = bytes s a"
    using path_loop_ok [OF assms(6) _ _ assms(7)] by blast
  then have "getfullpath_handler ctx args s = Some (s\<lparr>bytes := m, uart_tx := uart_tx s @ out\<rparr>)"
    using assms(1-3) dirs_up_chain [OF assms(4), of 16] True by (simp add: getfullpath_handler_def)
  then show ?thesis using m(2,3) True str_at_bytes [of "s\<lparr>bytes := m, uart_tx := uart_tx s @ out\<rparr>" "s\<lparr>bytes := m\<rparr>"] by auto
next
  case False
  then show ?thesis using assms(1-3) dirs_up_chain [OF assms(4), of 16] by (simp add: getfullpath_handler_def)
qed

section \<open>Listings\<close>

text \<open>
  The names that go into a buffer of \<open>sz\<close> bytes of which \<open>used\<close> are taken: as long as name,
  separator and two more bytes fit.
\<close>

fun fitting :: "nat \<Rightarrow> nat \<Rightarrow> char list list \<Rightarrow> char list list" where
  "fitting sz used [] = []"
| "fitting sz used (n # ns) =
     (if sz < used + length n + 4 then [] else n # fitting sz (used + length n + 2) ns)"

definition listing :: "char list list \<Rightarrow> char list" where
  "listing ns = concat (map (\<lambda>n. n @ '';;'') ns)"

lemma listing_simps [simp]: "listing [] = []" "listing (n # ns) = n @ '';;'' @ listing ns"
  by (simp_all add: listing_def)

lemma fitting_bound: "used < sz \<Longrightarrow> used + length (listing (fitting sz used ns)) < sz"
proof (induction ns arbitrary: used)
  case (Cons n ns)
  then show ?case using Cons.IH [of "used + length n + 2"] by auto
qed simp

lemma no_room_iff:
  assumes "used < unat sz" and "n + 4 < 2 ^ 32"
  shows "no_room sz used n \<longleftrightarrow> unat sz < used + n + 4"
proof -
  have sz: "unat sz < 2 ^ 32" using unsigned_less [of sz] by simp
  have u: "unat (of_nat used :: u32) = used" using assms(1) sz by (intro unat_of_nat32) simp
  then have "unat (sz - of_nat used) = unat sz - used" using assms(1) by (simp add: unat_sub word_le_nat_alt)
  moreover have "unat (of_nat n + (4 :: u32)) = n + 4"
    using unat_of_nat32 [of "n + 4"] assms(2) by simp
  ultimately show ?thesis using assms(1) by (auto simp: no_room_def word_less_nat_alt)
qed

lemma cat_cells_within:
  assumes "str_at (Ram buf) u s" and "NUL \<in> set cells" and "valid_range buf k" and "length u + length (text_of cells) < k"
  shows "\<exists>m. str_cat buf (Cells cells) s = Some (s\<lparr>bytes := m\<rparr>) \<and> str_at (Ram buf) (u @ text_of cells) (s\<lparr>bytes := m\<rparr>)
    \<and> (\<forall>a. \<not> in_range buf k a \<longrightarrow> m a = bytes s a)"
  using cat_cells [OF assms(1,2) valid_range_mono [OF assms(3)]] assms(4) in_range_mono [where k = k]
  by (metis Suc_leI)

definition texts :: "(addr \<Rightarrow> char list option) \<Rightarrow> addr list \<Rightarrow> char list list" where
  "texts cells ps = map (\<lambda>q. text_of (the (cells q))) ps"

definition named_nodes :: "(addr \<Rightarrow> char list option) \<Rightarrow> addr list \<Rightarrow> bool" where
  "named_nodes cells ps \<longleftrightarrow> (\<forall>q \<in> set ps. \<exists>cs. cells q = Some cs \<and> NUL \<in> set cs \<and> length cs < 0x10000)"

text \<open>
  The two listing loops share this contract: they walk a list of named nodes that no byte store
  changes.
\<close>

locale name_listing =
  fixes loop :: "addr \<Rightarrow> u32 \<Rightarrow> addr \<Rightarrow> kstate \<Rightarrow> kstate option"
    and nxt :: "kstate \<Rightarrow> addr \<Rightarrow> addr option"
    and cells :: "kstate \<Rightarrow> addr \<Rightarrow> char list option"
  assumes at_end: "loop buf sz NULL s = Some s"
    and at_node: "p \<noteq> NULL \<Longrightarrow> nxt s p = Some q \<Longrightarrow> cells s p = Some cs \<Longrightarrow>
      loop buf sz p s = do {
        used \<leftarrow> str_len (Ram buf) s;
        n \<leftarrow> str_len (Cells cs) s;
        if no_room sz used n then Some s
        else do {
          s \<leftarrow> str_cat buf (Cells cs) s;
          s \<leftarrow> str_cat buf (Cells delim) s;
          loop buf sz q s
        }
      }"
    and frame: "nxt (s\<lparr>bytes := m\<rparr>) = nxt s" "cells (s\<lparr>bytes := m\<rparr>) = cells s"
begin

lemma loop_ok:
  "chain (nxt s) p ps \<Longrightarrow> named_nodes (cells s) ps \<Longrightarrow>
   str_at (Ram buf) u s \<Longrightarrow> length u < unat sz \<Longrightarrow> valid_range buf (unat sz) \<Longrightarrow>
   \<exists>m. loop buf sz p s = Some (s\<lparr>bytes := m\<rparr>)
     \<and> str_at (Ram buf) (u @ listing (fitting (unat sz) (length u) (texts (cells s) ps))) (s\<lparr>bytes := m\<rparr>)
     \<and> (\<forall>a. \<not> in_range buf (unat sz) a \<longrightarrow> m a = bytes s a)"
proof (induction ps arbitrary: p u s)
  case Nil
  then show ?case by (intro exI [of _ "bytes s"]) (simp add: at_end texts_def)
next
  case (Cons a ps)
  obtain q cs where node: "p = a" "p \<noteq> NULL" "nxt s p = Some q" "chain (nxt s) q ps" "cells s p = Some cs" "NUL \<in> set cs" "length cs < 0x10000"
    using Cons.prems(1,2) by (auto simp: named_nodes_def split: option.splits)
  let ?t = "text_of cs" and ?sz = "unat sz"
  have tl: "length ?t < 0x10000" using node(7) length_takeWhile_le [of "\<lambda>c. c \<noteq> NUL" cs] by (simp add: text_of_def)
  have len: "str_len (Ram buf) s = Some (length u)" "str_len (Cells cs) s = Some (length ?t)"
    using str_len_ok [OF Cons.prems(3)] str_len_ok [OF str_at_text_of [OF node(6)]] by auto
  have room: "no_room sz (length u) (length ?t) \<longleftrightarrow> ?sz < length u + length ?t + 4"
    using no_room_iff [OF Cons.prems(4)] tl by simp
  have tx: "texts (cells s) (a # ps) = ?t # texts (cells s) ps" using node by (simp add: texts_def)
  show ?case
  proof (cases "?sz < length u + length ?t + 4")
    case True
    then have "loop buf sz p s = Some s" using at_node [OF node(2,3,5)] len room by simp
    then show ?thesis using True Cons.prems(3) tx by (intro exI [of _ "bytes s"]) simp
  next
    case False
    have del: "text_of delim = '';;''" "NUL \<in> set delim" by (simp_all add: delim_def cstr_def text_of_def)
    obtain m1 where m1: "str_cat buf (Cells cs) s = Some (s\<lparr>bytes := m1\<rparr>)" "str_at (Ram buf) (u @ ?t) (s\<lparr>bytes := m1\<rparr>)"
      "\<forall>a. \<not> in_range buf ?sz a \<longrightarrow> m1 a = bytes s a"
      using cat_cells_within [OF Cons.prems(3) node(6) Cons.prems(5)] False by auto
    obtain m2 where m2: "str_cat buf (Cells delim) (s\<lparr>bytes := m1\<rparr>) = Some (s\<lparr>bytes := m2\<rparr>)"
      "str_at (Ram buf) (u @ ?t @ '';;'') (s\<lparr>bytes := m2\<rparr>)" "\<forall>a. \<not> in_range buf ?sz a \<longrightarrow> m2 a = m1 a"
      using cat_cells_within [OF m1(2) del(2) Cons.prems(5)] False del(1) by auto
    obtain m where m: "loop buf sz q (s\<lparr>bytes := m2\<rparr>) = Some (s\<lparr>bytes := m\<rparr>)"
      "str_at (Ram buf) ((u @ ?t @ '';;'') @ listing (fitting ?sz (length (u @ ?t @ '';;'')) (texts (cells s) ps))) (s\<lparr>bytes := m\<rparr>)"
      "\<forall>a. \<not> in_range buf ?sz a \<longrightarrow> m a = m2 a"
      using Cons.IH [of "s\<lparr>bytes := m2\<rparr>" q "u @ ?t @ '';;''"] node(4) Cons.prems(2,5) m2(2) False
      by (auto simp: frame texts_def named_nodes_def)
    have "loop buf sz p s = Some (s\<lparr>bytes := m\<rparr>)"
      using at_node [OF node(2,3,5)] len room False m1(1) m2(1) m(1) by simp
    then show ?thesis using m m1(3) m2(3) tx False by auto
  qed
qed

end

interpretation subdirs: name_listing subdir_loop "\<lambda>s. links d_next_sibling (dir_heap s)" "\<lambda>s. links d_name (dir_heap s)"
proof unfold_locales
  show "subdir_loop buf sz NULL s = Some s" for buf sz s
    by (subst subdir_loop.simps) simp
  show "subdir_loop buf sz p s = do {
        used \<leftarrow> str_len (Ram buf) s;
        n \<leftarrow> str_len (Cells cs) s;
        if no_room sz used n then Some s
        else do {
          s \<leftarrow> str_cat buf (Cells cs) s;
          s \<leftarrow> str_cat buf (Cells delim) s;
          subdir_loop buf sz q s
        }
      }" if "p \<noteq> NULL" "links d_next_sibling (dir_heap s) p = Some q" "links d_name (dir_heap s) p = Some cs" for buf sz p q cs s
    using that by (subst subdir_loop.simps) (auto simp: deref_def dest!: links_SomeD)
qed simp_all

interpretation files: name_listing fdir_loop "\<lambda>s. links f_next_sibling (file_heap s)" "\<lambda>s. links f_name (file_heap s)"
proof unfold_locales
  show "fdir_loop buf sz NULL s = Some s" for buf sz s
    by (subst fdir_loop.simps) simp
  show "fdir_loop buf sz p s = do {
        used \<leftarrow> str_len (Ram buf) s;
        n \<leftarrow> str_len (Cells cs) s;
        if no_room sz used n then Some s
        else do {
          s \<leftarrow> str_cat buf (Cells cs) s;
          s \<leftarrow> str_cat buf (Cells delim) s;
          fdir_loop buf sz q s
        }
      }" if "p \<noteq> NULL" "links f_next_sibling (file_heap s) p = Some q" "links f_name (file_heap s) p = Some cs" for buf sz p q cs s
    using that by (subst fdir_loop.simps) (auto simp: deref_def dest!: links_SomeD)
qed simp_all

lemma cleared_text:
  assumes "valid_range buf (unat sz)" and "sz \<noteq> 0"
  shows "\<exists>m. mem_set buf 0 sz s = Some (s\<lparr>bytes := m\<rparr>) \<and> str_at (Ram buf) [] (s\<lparr>bytes := m\<rparr>)
    \<and> (\<forall>a. \<not> in_range buf (unat sz) a \<longrightarrow> m a = bytes s a)"
proof -
  have "0 < unat sz" using assms(2) by (simp add: unat_gt_0)
  moreover obtain m where m: "mem_set buf 0 sz s = Some (s\<lparr>bytes := m\<rparr>)" "\<forall>i < unat sz. m (buf + of_nat i) = 0"
    "\<forall>a. \<not> in_range buf (unat sz) a \<longrightarrow> m a = bytes s a"
    using mem_set_ok [OF assms(1), of 0 s] by blast
  ultimately have "m buf = 0" by force
  then have "str_at (Ram buf) [] (s\<lparr>bytes := m\<rparr>)" using assms(1) by (simp add: str_at_def load8_def valid_range_def)
  then show ?thesis using m by blast
qed

text \<open>
  C29: \<open>getsubdir\<close> fills the caller's buffer with the names of the current directory's
  subdirectories, each followed by the separator, in order, as many as fit, and writes no byte
  outside the buffer. A listing that had to be cut off looks like a complete one: the handler only
  sets its own copy of the buffer pointer to NULL.
\<close>

theorem getsubdir_correct:
  assumes "load32 args s = Some buf" and "load32 (args + 4) s = Some sz" and "cwd_node s = Some d"
    and "chain (links d_next_sibling (dir_heap s)) (d_firstchild d) ps" and "named_nodes (links d_name (dir_heap s)) ps"
    and "valid_range buf (unat sz)" and "sz \<noteq> 0"
  shows "\<exists>s'. getsubdir_handler ctx args s = Some s'
    \<and> str_at (Ram buf) (listing (fitting (unat sz) 0 (texts (links d_name (dir_heap s)) ps))) s'
    \<and> (\<forall>a. \<not> in_range buf (unat sz) a \<longrightarrow> bytes s' a = bytes s a)"
proof -
  obtain m where m: "mem_set buf 0 sz s = Some (s\<lparr>bytes := m\<rparr>)" "str_at (Ram buf) [] (s\<lparr>bytes := m\<rparr>)"
    "\<forall>a. \<not> in_range buf (unat sz) a \<longrightarrow> m a = bytes s a"
    using cleared_text [OF assms(6,7)] by blast
  have "cwd_node (s\<lparr>bytes := m\<rparr>) = Some d" using assms(3) by (simp add: cwd_node_def current_def)
  moreover obtain m' where "subdir_loop buf sz (d_firstchild d) (s\<lparr>bytes := m\<rparr>) = Some (s\<lparr>bytes := m'\<rparr>)"
    "str_at (Ram buf) (listing (fitting (unat sz) 0 (texts (links d_name (dir_heap s)) ps))) (s\<lparr>bytes := m'\<rparr>)"
    "\<forall>a. \<not> in_range buf (unat sz) a \<longrightarrow> m' a = m a"
    using subdirs.loop_ok [of "s\<lparr>bytes := m\<rparr>" "d_firstchild d" ps buf "[]" sz] assms(4-7) m(2) by (auto simp: unat_gt_0)
  ultimately show ?thesis using assms(1,2) m(1,3) by (simp add: getsubdir_handler_def)
qed

text \<open>
  \<open>getfdir\<close> does the same with the names of the files in the current directory.
\<close>

theorem getfdir_correct:
  assumes "load32 args s = Some buf" and "load32 (args + 4) s = Some sz" and "cwd_node s = Some d"
    and "chain (links f_next_sibling (file_heap s)) (d_firstfile d) ps" and "named_nodes (links f_name (file_heap s)) ps"
    and "valid_range buf (unat sz)" and "sz \<noteq> 0"
  shows "\<exists>s'. getfdir_handler ctx args s = Some s'
    \<and> str_at (Ram buf) (listing (fitting (unat sz) 0 (texts (links f_name (file_heap s)) ps))) s'
    \<and> (\<forall>a. \<not> in_range buf (unat sz) a \<longrightarrow> bytes s' a = bytes s a)"
proof -
  obtain m where m: "mem_set buf 0 sz s = Some (s\<lparr>bytes := m\<rparr>)" "str_at (Ram buf) [] (s\<lparr>bytes := m\<rparr>)"
    "\<forall>a. \<not> in_range buf (unat sz) a \<longrightarrow> m a = bytes s a"
    using cleared_text [OF assms(6,7)] by blast
  have "cwd_node (s\<lparr>bytes := m\<rparr>) = Some d" using assms(3) by (simp add: cwd_node_def current_def)
  moreover obtain m' where "fdir_loop buf sz (d_firstfile d) (s\<lparr>bytes := m\<rparr>) = Some (s\<lparr>bytes := m'\<rparr>)"
    "str_at (Ram buf) (listing (fitting (unat sz) 0 (texts (links f_name (file_heap s)) ps))) (s\<lparr>bytes := m'\<rparr>)"
    "\<forall>a. \<not> in_range buf (unat sz) a \<longrightarrow> m' a = m a"
    using files.loop_ok [of "s\<lparr>bytes := m\<rparr>" "d_firstfile d" ps buf "[]" sz] assms(4-7) m(2) by (auto simp: unat_gt_0)
  ultimately show ?thesis using assms(1,2) m(1,3) by (simp add: getfdir_handler_def)
qed

section \<open>Example\<close>

text \<open>
  A task in directory \<open>c\<close> of a tree with a root at 0x5000 that holds the directories /dev and /ipc and
  the file /motd, and the argument struct (0x8000, 64) at 0x7000.
\<close>

definition demo_dir :: "addr \<Rightarrow> addr \<Rightarrow> addr \<Rightarrow> addr \<Rightarrow> char list \<Rightarrow> dir_node" where
  "demo_dir child up sib f nm = \<lparr>d_firstchild = child, d_parent = up, d_next_sibling = sib, d_firstfile = f,
     d_namebuf = cstr nm, d_name = cstr nm\<rparr>"

definition demo_sys :: "addr \<Rightarrow> kstate" where
  "demo_sys c = zero_state\<lparr>task_heap := [0x1000 \<mapsto> zero_task\<lparr>cwdn := c\<rparr>], curr_running_task := 0x1000,
     ctx_heap := [0x9000 \<mapsto> zero_ctx],
     dir_heap := [0x5000 \<mapsto> demo_dir 0x5100 0 0 0x6000 ''/root'', 0x5100 \<mapsto> demo_dir 0 0x5000 0x5200 0 ''/dev'',
       0x5200 \<mapsto> demo_dir 0 0x5000 0 0 ''/ipc''],
     file_heap := [0x6000 \<mapsto> fs_file 0x5000 0 0 0 4 (cstr ''/motd'')],
     bytes := (\<lambda>_. 0)(0x7001 := 0x80, 0x7004 := 64)\<rparr>"

lemma demo_args: "load32 0x7000 (demo_sys c) = Some 0x8000" "load32 (0x7000 + 4) (demo_sys c) = Some 64"
  by (simp_all add: load32_def load8_def demo_sys_def)

lemma demo_names_at: "str_at (Ram 0x8000) [] (demo_sys c)"
  by (simp add: str_at_def load8_def demo_sys_def)

lemma demo_cwd: "cwd_node (demo_sys 0x5000) = Some (demo_dir 0x5100 0 0 0x6000 ''/root'')"
  by (simp add: cwd_node_def current_def demo_sys_def deref_def)

lemma demo_buf: "valid_range 0x8000 (unat (64 :: u32))"
  by (simp add: valid_range_def)

theorem getfullpath_correct_witness:
  "\<exists>s'. getfullpath_handler 0x9000 0x7000 (demo_sys 0x5100) = Some s' \<and> str_at (Ram 0x8000) ''/root/dev'' s'"
proof -
  let ?s = "demo_sys 0x5100"
  have cur: "current ?s = Some (zero_task\<lparr>cwdn := 0x5100\<rparr>)" by (simp add: current_def demo_sys_def deref_def)
  have up: "chain (links d_parent (dir_heap ?s)) (cwdn (zero_task\<lparr>cwdn := 0x5100\<rparr>)) [0x5100, 0x5000]"
    "terminated_dirs ?s [0x5100, 0x5000]"
    by (simp_all add: demo_sys_def demo_dir_def terminated_dirs_def cstr_def)
  have tx: "names_text ?s (rev [0x5100, 0x5000]) = ''/root/dev''"
    by (simp add: names_text_def dir_text_def demo_sys_def demo_dir_def)
  show ?thesis
    using getfullpath_correct [OF demo_args cur up demo_names_at, of "0x9000"] unfolding tx
    by (auto simp: valid_range_def)
qed

theorem getsubdir_correct_witness:
  "\<exists>s'. getsubdir_handler 0x9000 0x7000 (demo_sys 0x5000) = Some s' \<and> str_at (Ram 0x8000) ''/dev;;/ipc;;'' s'"
proof -
  let ?s = "demo_sys 0x5000" and ?d = "demo_dir 0x5100 0 0 0x6000 ''/root''"
  have l: "chain (links d_next_sibling (dir_heap ?s)) (d_firstchild ?d) [0x5100, 0x5200]"
    "named_nodes (links d_name (dir_heap ?s)) [0x5100, 0x5200]"
    by (simp_all add: demo_sys_def demo_dir_def named_nodes_def cstr_def)
  have tx: "listing (fitting (unat (64 :: u32)) 0 (texts (links d_name (dir_heap ?s)) [0x5100, 0x5200])) = ''/dev;;/ipc;;''"
    by (simp add: texts_def demo_sys_def demo_dir_def)
  show ?thesis
    using getsubdir_correct [OF demo_args demo_cwd l demo_buf, of "0x9000"] unfolding tx by auto
qed

theorem getfdir_correct_witness:
  "\<exists>s'. getfdir_handler 0x9000 0x7000 (demo_sys 0x5000) = Some s' \<and> str_at (Ram 0x8000) ''/motd;;'' s'"
proof -
  let ?s = "demo_sys 0x5000" and ?d = "demo_dir 0x5100 0 0 0x6000 ''/root''"
  have l: "chain (links f_next_sibling (file_heap ?s)) (d_firstfile ?d) [0x6000]"
    "named_nodes (links f_name (file_heap ?s)) [0x6000]"
    by (simp_all add: demo_sys_def demo_dir_def fs_file_def named_nodes_def cstr_def)
  have tx: "listing (fitting (unat (64 :: u32)) 0 (texts (links f_name (file_heap ?s)) [0x6000])) = ''/motd;;''"
    by (simp add: texts_def demo_sys_def demo_dir_def fs_file_def)
  show ?thesis
    using getfdir_correct [OF demo_args demo_cwd l demo_buf, of "0x9000"] unfolding tx by auto
qed

end
