(* ===== verification/SysTask.thy ===== *)
theory SysTask
  imports SysPath
begin

text \<open>
  The system calls that end and start tasks, and the dispatcher: \<open>exit\<close> with the ready lists, the
  page lists and the kernel blocks together; what every system call leaves for the next task to run.
\<close>

section \<open>Frames\<close>

lemma rq_ok_cong:
  "task_heap s' = task_heap s \<Longrightarrow> task_ready_list s' = task_ready_list s \<Longrightarrow> rq_ok s' qs \<longleftrightarrow> rq_ok s qs"
  by (simp add: rq_ok_def)

lemma pages_ok_cong:
  "page_heap s' = page_heap s \<Longrightarrow> free_page_head s' = free_page_head s \<Longrightarrow> inuse_page_head s' = inuse_page_head s
    \<Longrightarrow> pages_ok s' fs us \<longleftrightarrow> pages_ok s fs us"
  by (simp add: pages_ok_def)

lemma kblks_ok_cong:
  "blk_heap s' = blk_heap s \<Longrightarrow> kpage s' = kpage s \<Longrightarrow> kblks_ok s' bs \<longleftrightarrow> kblks_ok s bs"
  by (simp add: kblks_ok_def)

lemma kblk_array_cong:
  "blk_heap s' = blk_heap s \<Longrightarrow> kblk_list_base s' = kblk_list_base s \<Longrightarrow> kblk_array s' \<longleftrightarrow> kblk_array s"
  by (simp add: kblk_array_def)

lemma same_pages_keeps:
  assumes "same_pages s s'"
  shows "task_heap s' = task_heap s" "task_ready_list s' = task_ready_list s" "curr_running_task s' = curr_running_task s"
    "blk_heap s' = blk_heap s" "kpage s' = kpage s" "kblk_list_base s' = kblk_list_base s" "ctx_heap s' = ctx_heap s"
    "taskid s' = taskid s" "bytes s' = bytes s" "ptes s' = ptes s" "file_heap s' = file_heap s" "dir_heap s' = dir_heap s"
    "file_list_head s' = file_list_head s" "root s' = root s"
proof -
  have eq: "no_pages s' = no_pages s" using assms by (simp add: same_pages_def)
  show "task_heap s' = task_heap s" using arg_cong [OF eq, of task_heap] by (simp add: no_pages_def)
  show "task_ready_list s' = task_ready_list s" using arg_cong [OF eq, of task_ready_list] by (simp add: no_pages_def)
  show "curr_running_task s' = curr_running_task s" using arg_cong [OF eq, of curr_running_task] by (simp add: no_pages_def)
  show "blk_heap s' = blk_heap s" using arg_cong [OF eq, of blk_heap] by (simp add: no_pages_def)
  show "kpage s' = kpage s" using arg_cong [OF eq, of kpage] by (simp add: no_pages_def)
  show "kblk_list_base s' = kblk_list_base s" using arg_cong [OF eq, of kblk_list_base] by (simp add: no_pages_def)
  show "ctx_heap s' = ctx_heap s" using arg_cong [OF eq, of ctx_heap] by (simp add: no_pages_def)
  show "taskid s' = taskid s" using arg_cong [OF eq, of taskid] by (simp add: no_pages_def)
  show "bytes s' = bytes s" using arg_cong [OF eq, of bytes] by (simp add: no_pages_def)
  show "ptes s' = ptes s" using arg_cong [OF eq, of ptes] by (simp add: no_pages_def)
  show "file_heap s' = file_heap s" using arg_cong [OF eq, of file_heap] by (simp add: no_pages_def)
  show "dir_heap s' = dir_heap s" using arg_cong [OF eq, of dir_heap] by (simp add: no_pages_def)
  show "file_list_head s' = file_list_head s" using arg_cong [OF eq, of file_list_head] by (simp add: no_pages_def)
  show "root s' = root s" using arg_cong [OF eq, of root] by (simp add: no_pages_def)
qed

lemma no_tasks_keeps:
  assumes eq: "no_tasks s' = no_tasks s"
  shows "page_heap s' = page_heap s" "free_page_head s' = free_page_head s" "inuse_page_head s' = inuse_page_head s"
    "curr_running_task s' = curr_running_task s"
    "blk_heap s' = blk_heap s" "kpage s' = kpage s" "kblk_list_base s' = kblk_list_base s"
    "ctx_heap s' = ctx_heap s" "taskid s' = taskid s" "bytes s' = bytes s" "ptes s' = ptes s"
proof -
  show "page_heap s' = page_heap s" using arg_cong [OF eq, of page_heap] by (simp add: no_tasks_def)
  show "free_page_head s' = free_page_head s" using arg_cong [OF eq, of free_page_head] by (simp add: no_tasks_def)
  show "inuse_page_head s' = inuse_page_head s" using arg_cong [OF eq, of inuse_page_head] by (simp add: no_tasks_def)
  show "curr_running_task s' = curr_running_task s" using arg_cong [OF eq, of curr_running_task] by (simp add: no_tasks_def)
  show "blk_heap s' = blk_heap s" using arg_cong [OF eq, of blk_heap] by (simp add: no_tasks_def)
  show "kpage s' = kpage s" using arg_cong [OF eq, of kpage] by (simp add: no_tasks_def)
  show "kblk_list_base s' = kblk_list_base s" using arg_cong [OF eq, of kblk_list_base] by (simp add: no_tasks_def)
  show "ctx_heap s' = ctx_heap s" using arg_cong [OF eq, of ctx_heap] by (simp add: no_tasks_def)
  show "taskid s' = taskid s" using arg_cong [OF eq, of taskid] by (simp add: no_tasks_def)
  show "bytes s' = bytes s" using arg_cong [OF eq, of bytes] by (simp add: no_tasks_def)
  show "ptes s' = ptes s" using arg_cong [OF eq, of ptes] by (simp add: no_tasks_def)
qed

lemma no_tasks_uart: "no_tasks (s\<lparr>uart_tx := x\<rparr>) = (no_tasks s)\<lparr>uart_tx := x\<rparr>"
  by (simp add: no_tasks_def)

lemma upd_blk_frame: "upd_blk p f s = Some s' \<Longrightarrow> \<exists>h. s' = s\<lparr>blk_heap := h\<rparr>"
  by (auto simp: upd_blk_def)

lemma kblk_free_frame:
  assumes "kblk_free a s = Some s'"
  shows "\<exists>h. s' = s\<lparr>blk_heap := h\<rparr>"
  using assms by (auto simp: kblk_free_def bind_eq_Some_conv dest!: upd_blk_frame)

lemma task_id_print:
  "\<exists>out. printk (cstr (''task id=%d exit'' @ crlf)) [v] s = Some (s\<lparr>uart_tx := uart_tx s @ out\<rparr>)"
proof -
  have "\<exists>out. kprint (cstr (''task id=%d exit'' @ crlf)) [v] = Some out" by (simp add: cstr_def)
  then show ?thesis using printk_Some by blast
qed

section \<open>Exit\<close>

text \<open>\<open>task_pop\<close> on a member of a ready list: it leaves the list only as its last element.\<close>

lemma task_pop_member:
  assumes ok: "rq_ok s qs" and i: "i < 5" and q: "qs ! i = bs @ a # cs"
  shows "\<exists>s'. task_pop a s = Some s' \<and> rq_ok s' (qs[i := if cs = [] then bs else bs @ a # cs])
    \<and> links task_fixed (task_heap s') = links task_fixed (task_heap s)
    \<and> no_tasks (s'\<lparr>uart_tx := []\<rparr>) = no_tasks (s\<lparr>uart_tx := []\<rparr>)"
proof (cases cs)
  case (Cons c cs')
  have "qs[i := qs ! i] = qs" by simp
  then show ?thesis using task_pop_inner [OF ok i, of bs a c cs'] q Cons ok by simp
next
  case Nil
  have uart_only: "no_tasks (t\<lparr>uart_tx := []\<rparr>) = no_tasks (s\<lparr>uart_tx := []\<rparr>)"
    if "t = s\<lparr>task_ready_list := x, uart_tx := y\<rparr>" for t x y
    unfolding that by (simp add: no_tasks_def)
  show ?thesis
  proof (cases "bs = []")
    case True
    then obtain s' where "task_pop a s = Some s'" "rq_ok s' (qs[i := []])" "task_heap s' = task_heap s"
      "s' = s\<lparr>task_ready_list := (task_ready_list s)[i := NULL], uart_tx := uart_tx s'\<rparr>"
      using task_pop_only [OF ok i] q Nil by auto
    moreover from this(4) have "no_tasks (s'\<lparr>uart_tx := []\<rparr>) = no_tasks (s\<lparr>uart_tx := []\<rparr>)"
      by (rule uart_only)
    ultimately show ?thesis using True Nil by auto
  next
    case False
    obtain s' where "task_pop a s = Some s'" "rq_ok s' (qs[i := bs])" "same_tasks s s'"
      using task_pop_tail [OF ok i _ False, of a] q Nil by auto
    moreover from this(3) have "no_tasks (s'\<lparr>uart_tx := []\<rparr>) = no_tasks (s\<lparr>uart_tx := []\<rparr>)"
      by (simp add: same_tasks_def no_tasks_uart)
    ultimately show ?thesis using Nil by (auto simp: same_tasks_def)
  qed
qed

lemma exit_tasks:
  assumes ok: "rq_ok s qs" and i: "i < 5" and q: "qs ! i = bs @ a # cs" and a: "curr_running_task s = a"
    and v: "task_heap s a = Some v"
  shows "\<exists>t out. printk (cstr (''task id=%d exit'' @ crlf)) [task_id v] s = Some (s\<lparr>uart_tx := out\<rparr>)
    \<and> (\<exists>u. upd_task a (\<lambda>t. t\<lparr>task_status := TASK_TERMINATE\<rparr>) (s\<lparr>uart_tx := out\<rparr>) = Some u
         \<and> task_pop a u = Some t \<and> no_tasks (u\<lparr>uart_tx := []\<rparr>) = no_tasks (s\<lparr>uart_tx := []\<rparr>))
    \<and> rq_ok t (qs[i := if cs = [] then bs else bs @ a # cs])
    \<and> (\<exists>w. task_heap t a = Some w \<and> task_status w = TASK_TERMINATE \<and> pgtbase w = pgtbase v)
    \<and> no_tasks (t\<lparr>uart_tx := []\<rparr>) = no_tasks (s\<lparr>uart_tx := []\<rparr>)
    \<and> links task_fixed (task_heap t) = (links task_fixed (task_heap s))(a \<mapsto> task_fixed (v\<lparr>task_status := TASK_TERMINATE\<rparr>))"
proof -
  have an: "a \<noteq> NULL" using rq_mem [OF ok i, of a] q by simp
  obtain out where out: "printk (cstr (''task id=%d exit'' @ crlf)) [task_id v] s = Some (s\<lparr>uart_tx := out\<rparr>)"
    using task_id_print by blast
  define u where "u = s\<lparr>uart_tx := out, task_heap := (task_heap s)(a \<mapsto> v\<lparr>task_status := TASK_TERMINATE\<rparr>)\<rparr>"
  have run: "upd_task a (\<lambda>t. t\<lparr>task_status := TASK_TERMINATE\<rparr>) (s\<lparr>uart_tx := out\<rparr>) = Some u"
    using an v by (simp add: upd_objs u_def)
  have uok: "rq_ok u qs" using rq_ok_status [OF v, of TASK_TERMINATE qs] ok by (simp add: u_def rq_ok_def)
  have un: "no_tasks (u\<lparr>uart_tx := []\<rparr>) = no_tasks (s\<lparr>uart_tx := []\<rparr>)" by (simp add: u_def no_tasks_def)
  obtain t where t: "task_pop a u = Some t" "rq_ok t (qs[i := if cs = [] then bs else bs @ a # cs])"
    "links task_fixed (task_heap t) = links task_fixed (task_heap u)"
    "no_tasks (t\<lparr>uart_tx := []\<rparr>) = no_tasks (u\<lparr>uart_tx := []\<rparr>)"
    using task_pop_member [OF uok i q] by blast
  have "links task_fixed (task_heap t) a = Some (task_fixed (v\<lparr>task_status := TASK_TERMINATE\<rparr>))" using t(3) by (simp add: u_def)
  then obtain w where "task_heap t a = Some w" "task_fixed w = task_fixed (v\<lparr>task_status := TASK_TERMINATE\<rparr>)" by (auto dest: links_SomeD)
  then have "\<exists>w. task_heap t a = Some w \<and> task_status w = TASK_TERMINATE \<and> pgtbase w = pgtbase v"
    using task_fixed_eqD(2,4) [of w "v\<lparr>task_status := TASK_TERMINATE\<rparr>"] by auto
  moreover have "links task_fixed (task_heap t) = (links task_fixed (task_heap s))(a \<mapsto> task_fixed (v\<lparr>task_status := TASK_TERMINATE\<rparr>))"
    using t(3) by (simp add: u_def)
  ultimately show ?thesis using out run un t by metis
qed

text \<open>What \<open>exit\<close> may change.\<close>

definition no_exit :: "kstate \<Rightarrow> kstate" where
  "no_exit s = no_tasks ((no_pages s)\<lparr>blk_heap := Map.empty, uart_tx := []\<rparr>)"

lemma no_exit_pages: "no_pages s' = no_pages s \<Longrightarrow> no_exit s' = no_exit s"
  by (simp add: no_exit_def)

lemma no_exit_tasks: "no_tasks (s'\<lparr>uart_tx := []\<rparr>) = no_tasks (s\<lparr>uart_tx := []\<rparr>) \<Longrightarrow> no_exit s' = no_exit s"
proof -
  have "no_exit s = (no_tasks (s\<lparr>uart_tx := []\<rparr>))\<lparr>page_heap := Map.empty, free_page_head := NULL, inuse_page_head := NULL, blk_heap := Map.empty\<rparr>" for s
    by (simp add: no_exit_def no_tasks_def no_pages_def)
  then show "no_tasks (s'\<lparr>uart_tx := []\<rparr>) = no_tasks (s\<lparr>uart_tx := []\<rparr>) \<Longrightarrow> no_exit s' = no_exit s" by metis
qed

lemma exit_handler_ok:
  assumes tasks: "rq_ok s qs" "i < 5" "qs ! i = bs @ a # cs" "curr_running_task s = a" "task_heap s a = Some v"
    and pages: "pages_ok s fs (as @ p # ps)" "as @ ps \<noteq> []" "page_heap s p = Some w" "page_status w \<noteq> FREE"
      "inj_on (links pgstart (page_heap s)) (set (as @ p # ps))" "pgstart w = ROUNDDOWN (stk_bottom v) PAGE_SIZE"
    and blks: "kblks_ok s ks" "ks \<noteq> []" "kblk_array s" "k < 64" "pgtbase v = block_start 0x82000000 KBLK_SIZE k"
      "blk_at (kblk_list_base s) k \<notin> set ks"
  shows "\<exists>s'. exit_handler ctx args s = Some s'
    \<and> rq_ok s' (qs[i := if cs = [] then bs else bs @ a # cs])
    \<and> links task_status (task_heap s') a = Some TASK_TERMINATE
    \<and> pages_ok s' (fs @ [p]) (as @ ps)
    \<and> kblks_ok s' (ks @ [blk_at (kblk_list_base s) k])
    \<and> links task_fixed (task_heap s') = (links task_fixed (task_heap s))(a \<mapsto> task_fixed (v\<lparr>task_status := TASK_TERMINATE\<rparr>))
    \<and> no_exit s' = no_exit s"
proof -
  obtain out u t x where t: "printk (cstr (''task id=%d exit'' @ crlf)) [task_id v] s = Some (s\<lparr>uart_tx := out\<rparr>)"
    "upd_task a (\<lambda>t. t\<lparr>task_status := TASK_TERMINATE\<rparr>) (s\<lparr>uart_tx := out\<rparr>) = Some u"
    "task_pop a u = Some t" "no_tasks (u\<lparr>uart_tx := []\<rparr>) = no_tasks (s\<lparr>uart_tx := []\<rparr>)"
    "rq_ok t (qs[i := if cs = [] then bs else bs @ a # cs])"
    "task_heap t a = Some x" "task_status x = TASK_TERMINATE" "pgtbase x = pgtbase v"
    "no_tasks (t\<lparr>uart_tx := []\<rparr>) = no_tasks (s\<lparr>uart_tx := []\<rparr>)"
    "links task_fixed (task_heap t) = (links task_fixed (task_heap s))(a \<mapsto> task_fixed (v\<lparr>task_status := TASK_TERMINATE\<rparr>))"
    using exit_tasks [OF tasks] by blast
  have an: "a \<noteq> NULL" using rq_mem [OF tasks(1,2), of a] tasks(3) by simp
  note ku = no_tasks_keeps [OF t(4), simplified] and kt = no_tasks_keeps [OF t(9), simplified]
  have "pages_ok u fs (as @ p # ps)" using pages(1) ku by (simp add: pages_ok_def)
  then have wp: "which_page (stk_bottom v) u = Some p"
    using which_page_hit [of u fs "as @ p # ps" p "stk_bottom v"] pages(3,5,6) ku(1) by simp
  have "pages_ok t fs (as @ p # ps)" "page_heap t p = Some w" using pages(1,3) kt by (simp_all add: pages_ok_def)
  then obtain r where r: "page_free p t = Some r" "pages_ok r (fs @ [p]) (as @ ps)" "same_pages t r"
    using page_free_ok [of t fs as p ps w] pages(2,4) by blast
  note kr = same_pages_keeps [OF r(3)]
  have "kblks_ok r ks" "kblk_array r" "kblk_list_base r = kblk_list_base s"
    using blks(1,3) kt kr by (simp_all add: kblks_ok_def kblk_array_def)
  then obtain s' where s': "kblk_free (pgtbase v) r = Some s'" "kblks_ok s' (ks @ [blk_at (kblk_list_base s) k])"
    using kblk_free_ok [of r ks k] blks(2,4,5,6) by auto
  obtain h where h: "s' = r\<lparr>blk_heap := h\<rparr>" using kblk_free_frame [OF s'(1)] by blast
  have curr: "curr_running_task (s\<lparr>uart_tx := out\<rparr>) = a" "curr_running_task u = a" "curr_running_task r = a"
    using tasks(4) ku(4) kt(4) kr(3) by simp_all
  have "exit_handler ctx args s = Some s'"
    using tasks(4,5) an t(1,2,3,6,8) wp r(1) s'(1) curr kr(1) by (simp add: exit_handler_def current_def deref_def free_pgt_def)
  moreover have "rq_ok s' (qs[i := if cs = [] then bs else bs @ a # cs])"
    using t(5) kr(1,2) by (simp add: h rq_ok_def)
  moreover have "links task_status (task_heap s') a = Some TASK_TERMINATE" using t(6,7) kr(1) by (simp add: h)
  moreover have "pages_ok s' (fs @ [p]) (as @ ps)" using r(2) by (simp add: h pages_ok_def)
  moreover have "links task_fixed (task_heap s') = (links task_fixed (task_heap s))(a \<mapsto> task_fixed (v\<lparr>task_status := TASK_TERMINATE\<rparr>))"
    using t(10) kr(1) by (simp add: h)
  moreover have "no_exit s' = no_exit s"
    using no_exit_tasks [OF t(9)] no_exit_pages [of r t] r(3) by (simp add: h same_pages_def) (simp add: no_exit_def no_pages_def no_tasks_def)
  ultimately show ?thesis using s'(2) by blast
qed

text \<open>
  C11: \<open>exit\<close> marks the caller terminated and gives its page and its page table back to their pools,
  but unlinks it only when it is the last of its ready list, unlike the handler's comment, which removes it in any case.
  A task with another one behind it, such as one that has started a task of its own priority since it was
  last chosen, stays in the list, with its page already free. Nothing else of tasks, files and queues changes.
\<close>

theorem exit_releases:
  assumes tasks: "rq_ok s qs" "i < 5" "qs ! i = bs @ a # cs" "curr_running_task s = a" "task_heap s a = Some v"
    and pages: "pages_ok s fs (as @ p # ps)" "as @ ps \<noteq> []" "page_heap s p = Some w" "page_status w \<noteq> FREE"
      "inj_on (links pgstart (page_heap s)) (set (as @ p # ps))" "pgstart w = ROUNDDOWN (stk_bottom v) PAGE_SIZE"
    and blks: "kblks_ok s ks" "ks \<noteq> []" "kblk_array s" "k < 64" "pgtbase v = block_start 0x82000000 KBLK_SIZE k"
      "blk_at (kblk_list_base s) k \<notin> set ks"
  shows "\<exists>s'. exit_handler ctx args s = Some s'
    \<and> rq_ok s' (qs[i := if cs = [] then bs else bs @ a # cs])
    \<and> links task_status (task_heap s') a = Some TASK_TERMINATE
    \<and> pages_ok s' (fs @ [p]) (as @ ps)
    \<and> kblks_ok s' (ks @ [blk_at (kblk_list_base s) k])
    \<and> links task_fixed (task_heap s') = (links task_fixed (task_heap s))(a \<mapsto> task_fixed (v\<lparr>task_status := TASK_TERMINATE\<rparr>))
    \<and> no_exit s' = no_exit s"
  by (rule exit_handler_ok [OF assms])

text \<open>Two tasks of priority 0 in the in-use pages of \<open>demo_pages\<close>; the first one is running.\<close>

definition demo_exit :: "kstate \<Rightarrow> kstate" where
  "demo_exit s0 = s0\<lparr>
     task_heap := [0x82300000 \<mapsto> (demo_task 0 TASK_RUNNING 0x82400000 0)\<lparr>stk_bottom := 0x82300000, pgtbase := 0x8209c000\<rparr>,
                   0x82400000 \<mapsto> demo_task 0 TASK_READY 0 0x82300000],
     task_ready_list := [0x82300000, 0, 0, 0, 0], curr_running_task := 0x82300000,
     page_heap := page_heap demo_pages, free_page_head := 0x100, inuse_page_head := 0x300\<rparr>"

lemma demo_exit_ok:
  "rq_ok (demo_exit s0) [[0x82300000, 0x82400000], [], [], [], []]"
  "pages_ok (demo_exit s0) [0x100, 0x200] [0x300, 0x400]"
  "inj_on (links pgstart (page_heap (demo_exit s0))) (set [0x300, 0x400])"
proof -
  show "rq_ok (demo_exit s0) [[0x82300000, 0x82400000], [], [], [], []]"
    by (simp add: rq_ok_def all_less5 demo_exit_def demo_task_def zero_task_def dll_def links_def)
  show "pages_ok (demo_exit s0) [0x100, 0x200] [0x300, 0x400]"
    using demo_pages_ok by (simp add: pages_ok_def demo_exit_def demo_pages_def)
  show "inj_on (links pgstart (page_heap (demo_exit s0))) (set [0x300, 0x400])"
    by (simp add: demo_exit_def demo_pages_def demo_page_def links_def)
qed

text \<open>The same with the second, the last of the list, running.\<close>

definition demo_exit_last :: "kstate \<Rightarrow> kstate" where
  "demo_exit_last s0 = (demo_exit s0)\<lparr>
     task_heap := [0x82300000 \<mapsto> demo_task 0 TASK_READY 0x82400000 0,
                   0x82400000 \<mapsto> (demo_task 0 TASK_RUNNING 0 0x82300000)\<lparr>stk_bottom := 0x82400000, pgtbase := 0x8209c000\<rparr>],
     curr_running_task := 0x82400000\<rparr>"

lemma demo_exit_last_ok:
  "rq_ok (demo_exit_last s0) [[0x82300000, 0x82400000], [], [], [], []]"
  "pages_ok (demo_exit_last s0) [0x100, 0x200] [0x300, 0x400]"
  "inj_on (links pgstart (page_heap (demo_exit_last s0))) (set [0x300, 0x400])"
proof -
  show "rq_ok (demo_exit_last s0) [[0x82300000, 0x82400000], [], [], [], []]"
    by (simp add: rq_ok_def all_less5 demo_exit_def demo_exit_last_def demo_task_def zero_task_def dll_def links_def)
  show "pages_ok (demo_exit_last s0) [0x100, 0x200] [0x300, 0x400]" "inj_on (links pgstart (page_heap (demo_exit_last s0))) (set [0x300, 0x400])"
    using demo_exit_ok(2,3) [of s0] by (simp_all add: pages_ok_def demo_exit_last_def)
qed

lemma demo_block_taken: "blk_at 0x82027400 39 \<notin> set (map (blk_at 0x82027400) [40..<64])"
proof
  let ?at = "blk_at 0x82027400"
  assume "?at 39 \<in> set (map ?at [40..<64])"
  then obtain j where "?at 39 = ?at j" "40 \<le> j" "j < 64" by (auto simp: image_iff simp del: upt_rec_numeral)
  then show False using blk_at_inj [of "0x82027400" 39 j] by simp
qed

theorem exit_releases_witness:
  "\<exists>s0 s' s''. kpage_blks_init 0 demo_kpage = Some s0
    \<and> exit_handler 0x9000 0 (demo_exit s0) = Some s'
    \<and> rq_ok s' [[0x82300000, 0x82400000], [], [], [], []] \<and> pages_ok s' [0x100, 0x200, 0x300] [0x400]
    \<and> exit_handler 0x9000 0 (demo_exit_last s0) = Some s''
    \<and> rq_ok s'' [[0x82300000], [], [], [], []] \<and> pages_ok s'' [0x100, 0x200, 0x400] [0x300]"
proof -
  obtain s0 h where s0: "kpage_blks_init 0 demo_kpage = Some s0" "kblks_ok s0 (map (blk_at 0x82027400) [40..<64])" "kblk_array s0"
    "s0 = demo_kpage\<lparr>blk_heap := h, kblk_list_base := 0x82027400, kpage := (kpage demo_kpage)\<lparr>
         blk_list_head := blk_at 0x82027400 40, free_start := 0x82028000\<rparr>\<rparr>"
    using demo_kpage_boot by blast
  let ?s = "demo_exit s0" and ?u = "demo_exit_last s0" and ?at = "blk_at 0x82027400"
    and ?v = "(demo_task 0 TASK_RUNNING 0x82400000 0)\<lparr>stk_bottom := 0x82300000, pgtbase := 0x8209c000\<rparr>"
    and ?w = "(demo_task 0 TASK_RUNNING 0 0x82300000)\<lparr>stk_bottom := 0x82400000, pgtbase := 0x8209c000\<rparr>"
  have b: "kblk_list_base ?s = 0x82027400" "kblk_list_base ?u = 0x82027400" by (simp_all add: s0(4) demo_exit_def demo_exit_last_def)
  have k: "kblks_ok ?s (map ?at [40..<64])" "kblk_array ?s" "kblks_ok ?u (map ?at [40..<64])" "kblk_array ?u"
    using s0(2,3) by (simp_all add: kblks_ok_def kblk_array_def demo_exit_def demo_exit_last_def)
  have new: "blk_at (kblk_list_base ?s) 39 \<notin> set (map ?at [40..<64])" "blk_at (kblk_list_base ?u) 39 \<notin> set (map ?at [40..<64])"
    unfolding b by (rule demo_block_taken)+
  note facts = k new demo_exit_ok [of s0] demo_exit_last_ok [of s0]
  have "\<exists>s'. exit_handler 0x9000 0 ?s = Some s'
    \<and> rq_ok s' ([[0x82300000, 0x82400000], [], [], [], []][0 := if [0x82400000 :: addr] = [] then [] else [] @ 0x82300000 # [0x82400000]])
    \<and> links task_status (task_heap s') 0x82300000 = Some TASK_TERMINATE
    \<and> pages_ok s' ([0x100, 0x200] @ [0x300]) ([] @ [0x400])
    \<and> kblks_ok s' (map ?at [40..<64] @ [blk_at (kblk_list_base ?s) 39])
    \<and> links task_fixed (task_heap s') = (links task_fixed (task_heap ?s))(0x82300000 \<mapsto> task_fixed (?v\<lparr>task_status := TASK_TERMINATE\<rparr>))
    \<and> no_exit s' = no_exit ?s"
    by (rule exit_releases, unfold append_Nil)
      ((rule facts | simp add: demo_exit_def demo_task_def demo_pages_def demo_page_def zero_page_def ROUNDDOWN_def
          block_start_def del: upt_rec_numeral)+)
  moreover have "\<exists>s''. exit_handler 0x9000 0 ?u = Some s''
    \<and> rq_ok s'' ([[0x82300000, 0x82400000], [], [], [], []][0 := if ([] :: addr list) = [] then [0x82300000] else [0x82300000] @ 0x82400000 # []])
    \<and> links task_status (task_heap s'') 0x82400000 = Some TASK_TERMINATE
    \<and> pages_ok s'' ([0x100, 0x200] @ [0x400]) ([0x300] @ [])
    \<and> kblks_ok s'' (map ?at [40..<64] @ [blk_at (kblk_list_base ?u) 39])
    \<and> links task_fixed (task_heap s'') = (links task_fixed (task_heap ?u))(0x82400000 \<mapsto> task_fixed (?w\<lparr>task_status := TASK_TERMINATE\<rparr>))
    \<and> no_exit s'' = no_exit ?u"
    by (rule exit_releases, unfold append_Nil append_Cons)
      ((rule facts | simp add: demo_exit_def demo_exit_last_def demo_task_def demo_pages_def demo_page_def zero_page_def ROUNDDOWN_def
          block_start_def del: upt_rec_numeral)+)
  ultimately show ?thesis using s0(1) by auto
qed

section \<open>Dispatch\<close>

lemma sched_switches:
  assumes "sched s = Some (s', c)"
  shows "\<exists>t. current s' = Some t \<and> ttbr0 s' = pgtbase t \<and> tlb s' = Map.empty
    \<and> deref (ctx_heap s') (task_context_ptr t) = Some c"
proof -
  obtain p u t where u: "choose_task s = Some (p, u)" "deref (task_heap u) p = Some t"
    "deref (ctx_heap u) (task_context_ptr t) = Some c"
    "s' = reload_ostick 5 (switch_mm (pgtbase t) (u\<lparr>curr_running_task := p\<rparr>))"
    using assms by (auto simp: sched_def Let_def bind_eq_Some_conv switch_mm_def pgt_base_setup_def invalidate_tlb_def)
  have "current s' = Some t" "ttbr0 s' = pgtbase t" "tlb s' = Map.empty" "ctx_heap s' = ctx_heap u"
    using u(2) by (simp_all add: u(4) current_def reload_ostick_def wr32_def switch_mm_def pgt_base_setup_def invalidate_tlb_def)
  then show ?thesis using u(3) by simp
qed

lemma syscall_table_plain:
  assumes "n < 20" and "n \<noteq> 1"
  shows "\<exists>h. syscall_table ! n = plain h"
proof -
  define hs where "hs = [get_tid_handler, exit_handler, fork_handler, task_create_handler, malloc_blk_handler,
    malloc_mfree_blk_handler, get_mblk_list_handler, get_task_priority_handler, write_handler, read_handler, open_handler,
    getcwd_handler, getsubdir_handler, getfdir_handler, chdir_handler, getfullpath_handler, restart_handler, close_handler]"
  have t: "syscall_table = [syscall_table ! 0, syscall_table ! 1] @ map plain hs" by (simp add: syscall_table_def hs_def)
  have z: "syscall_table ! 0 = plain print_hello_handler" by (simp add: syscall_table_def)
  consider "n = 0" | "2 \<le> n" using assms(2) by linarith
  then show ?thesis
  proof cases
    case 1
    then show ?thesis using z by blast
  next
    case 2
    have "n - 2 < length hs" using assms(1) by (simp add: hs_def)
    moreover have "syscall_table ! n = map plain hs ! (n - 2)" using 2 by (subst t) (simp add: nth_append numeral_2_eq_2)
    ultimately show ?thesis by auto
  qed
qed

text \<open>
  C26: whatever the call does, when it ends the active page table is that of the task that runs next,
  the TLB holds nothing older, and a call that switches tasks loads the context saved for that task.
  Only \<open>yield\<close> switches.
\<close>

theorem syscall_leaves_task_mapped:
  assumes "syscall_handler syscall_id ctx args s = Some r"
  shows "case r of
      Returned s' \<Rightarrow> \<exists>t. current s' = Some t \<and> ttbr0 s' = pgtbase t \<and> tlb s' = Map.empty
    | Switched s' c \<Rightarrow> syscall_id = 1 \<and> (\<exists>t. current s' = Some t \<and> ttbr0 s' = pgtbase t \<and> tlb s' = Map.empty
        \<and> deref (ctx_heap s') (task_context_ptr t) = Some c)"
proof -
  let ?s = "switch_mm (KERN_PADDR s) s"
  have lt: "unat syscall_id < 20" using assms by (auto simp: syscall_handler_def Let_def split: if_splits)
  then obtain q where q: "(syscall_table ! unat syscall_id) ctx args ?s = Some q"
    "(case q of Switched s c \<Rightarrow> Some (Switched s c)
      | Returned s \<Rightarrow> do { t \<leftarrow> current s; Some (Returned (switch_mm (pgtbase t) s)) }) = Some r"
    using assms by (auto simp: syscall_handler_def Let_def bind_eq_Some_conv)
  show ?thesis
  proof (cases q)
    case (Returned u)
    then show ?thesis using q(2)
      by (auto simp: bind_eq_Some_conv switch_mm_def pgt_base_setup_def invalidate_tlb_def current_def)
  next
    case (Switched u c)
    have id: "syscall_id = 1"
    proof (rule ccontr)
      assume "syscall_id \<noteq> 1"
      then have "unat syscall_id \<noteq> 1" by (metis unat_1 word_unat_eq_iff)
      then show False using syscall_table_plain [OF lt] q(1) Switched by (auto simp: plain_def)
    qed
    then have "yield_handler ctx args ?s = Some (u, c)" using q(1) Switched by (auto simp: syscall_table_def)
    then have "\<exists>v. sched v = Some (u, c)"
      by (auto simp: yield_handler_def bind_eq_Some_conv Let_def call_sched_def set_sched_context_def)
    then show ?thesis using sched_switches id Switched q(2) by auto
  qed
qed

theorem syscall_leaves_task_mapped_witness:
  "\<exists>s'. syscall_handler 2 0x9000 0 (demo_sys 0x5000) = Some (Returned s') \<and> tlb s' = Map.empty"
proof -
  have "\<exists>s'. syscall_handler 2 0x9000 0 (demo_sys 0x5000) = Some (Returned s')"
    by (simp add: syscall_handler_def syscall_table_def plain_def get_tid_handler_def current_def set_r0_def upd_objs
        demo_sys_def deref_def switch_mm_def pgt_base_setup_def invalidate_tlb_def)
  then obtain s' where s': "syscall_handler 2 0x9000 0 (demo_sys 0x5000) = Some (Returned s')" by blast
  then show ?thesis using syscall_leaves_task_mapped [OF s'] by auto
qed

section \<open>Restart\<close>

lemma poll_write:
  assumes "dev_in s st = ws @ v # vs" and "\<forall>w \<in> set ws. w AND msk \<noteq> 0" and "v AND msk = 0"
  shows "poll st msk (wr32 a x s) = Some ((wr32 a x s)\<lparr>dev_in := (dev_in s)(st := vs)\<rparr>)"
  using poll_values_done [OF assms(2,3)] assms(1) by (simp add: poll_def wr32_def)

text \<open>
  When the watchdog eventually clears its pending flags, \<open>restart\<close> writes the counter and then
  the two start codes, in this order, waiting for each write to be taken before the next.
\<close>

theorem restart_sequence:
  assumes "dev_in s (0x44E35000 + 0x34) = w1 @ a1 # w2 @ a2 # w3 @ a3 # rest"
    and "\<forall>w \<in> set w1. w AND 2 \<noteq> 0" and "a1 AND 2 = 0"
    and "\<forall>w \<in> set (w2 @ w3). w AND 16 \<noteq> 0" and "a2 AND 16 = 0" and "a3 AND 16 = 0"
  shows "\<exists>s'. restart_handler ctx args s = Some s' \<and> dev_in s' (0x44E35000 + 0x34) = rest
    \<and> dev_log s' = dev_log s @ [Wr32 (0x44E35000 + 0x28) 0xfffffff0, Wr32 (0x44E35000 + 0x48) 0xBBBB,
         Wr32 (0x44E35000 + 0x48) 0x4444]"
proof -
  let ?st = "0x44E35000 + 0x34 :: u32"
  define s1 where "s1 = (wr32 (0x44E35000 + 0x28) 0xfffffff0 s)\<lparr>dev_in := (dev_in s)(?st := w2 @ a2 # w3 @ a3 # rest)\<rparr>"
  define s2 where "s2 = (wr32 (0x44E35000 + 0x48) 0xBBBB s1)\<lparr>dev_in := (dev_in s1)(?st := w3 @ a3 # rest)\<rparr>"
  define s3 where "s3 = (wr32 (0x44E35000 + 0x48) 0x4444 s2)\<lparr>dev_in := (dev_in s2)(?st := rest)\<rparr>"
  have "poll ?st 2 (wr32 (0x44E35000 + 0x28) 0xfffffff0 s) = Some s1"
    unfolding s1_def by (rule poll_write [OF assms(1-3)])
  moreover have "poll ?st 16 (wr32 (0x44E35000 + 0x48) 0xBBBB s1) = Some s2"
    unfolding s2_def by (rule poll_write [of _ _ w2 a2]) (use assms in \<open>simp_all add: s1_def\<close>)
  moreover have "poll ?st 16 (wr32 (0x44E35000 + 0x48) 0x4444 s2) = Some s3"
    unfolding s3_def by (rule poll_write [of _ _ w3 a3]) (use assms in \<open>simp_all add: s2_def\<close>)
  ultimately have "restart_handler ctx args s = Some s3"
    unfolding restart_handler_def set_wdt_count_def enable_watchdog_def by simp
  then show ?thesis by (simp add: s3_def s2_def s1_def wr32_def)
qed

theorem restart_sequence_witness:
  "\<exists>s'. restart_handler 0 0 (zero_state\<lparr>dev_in := (\<lambda>_. [2, 0, 16, 16, 0, 0])\<rparr>) = Some s'
    \<and> dev_log s' = [Wr32 0x44E35028 0xfffffff0, Wr32 0x44E35048 0xBBBB, Wr32 0x44E35048 0x4444]"
  using restart_sequence [of "zero_state\<lparr>dev_in := (\<lambda>_. [2, 0, 16, 16, 0, 0])\<rparr>" "[2]" 0 "[16, 16]" 0 "[]" 0 "[]" 0 0]
  by (auto simp: zero_state_def)

end
