(* ===== verification/SysFork.thy ===== *)
theory SysFork
  imports SysTask
begin

text \<open>
  Starting tasks: \<open>fork\<close> and \<open>task_create\<close> take a page, a page table and a place in a ready list at
  once.
  The lemmas follow the handlers stage by stage over the invariants of the page lists, the ready
  lists and the kernel blocks.
\<close>

section \<open>Frames of tasks\<close>

lemma unat_section_of: "k < 4096 \<Longrightarrow> unat (section_of k) = k * 0x100000"
proof -
  assume k: "k < 4096"
  then have "k * 0x100000 < 2 ^ 32" by simp
  then show ?thesis using unat_of_nat32 [of "k * 0x100000"] by (simp add: section_of_def)
qed

lemma unat_in_section: "k < 4096 \<Longrightarrow> unat off < 0x100000 \<Longrightarrow> unat (section_of k + off) = k * 0x100000 + unat off"
proof -
  assume k: "k < 4096" "unat off < 0x100000"
  then have "unat (section_of k) + unat off < 2 ^ 32" using unat_section_of [of k] by simp
  then show ?thesis using unat_section_of [OF k(1)] unat_add_lem [of "section_of k" off] by simp
qed

definition frame_no :: "addr \<Rightarrow> nat" where
  "frame_no p = unat p div 0x100000"

lemma frame_no_in [simp]: "k < 4096 \<Longrightarrow> unat off < 0x100000 \<Longrightarrow> frame_no (section_of k + off) = k"
  using unat_in_section [of k off] by (simp add: frame_no_def)

lemma frame_no_section [simp]: "k < 4096 \<Longrightarrow> frame_no (section_of k) = k"
  using unat_section_of [of k] by (simp add: frame_no_def)

lemma not_in_page:
  assumes "frame_no p \<noteq> k" and "k < 4096"
  shows "\<not> p - section_of k < TASK_STACK_SIZE"
proof
  assume "p - section_of k < TASK_STACK_SIZE"
  then have "unat (p - section_of k) < 0x100000" by (simp add: word_less_nat_alt)
  then have "frame_no (section_of k + (p - section_of k)) = k" using frame_no_in [OF assms(2)] by blast
  then show False using assms(1) by simp
qed

lemma copy_objs_apart: "frame_no p \<noteq> k \<Longrightarrow> k < 4096 \<Longrightarrow> copy_objs sz (section_of k) old h p = h p"
  using not_in_page [of p k] by (simp add: copy_objs_def)

lemma copy_objs_at: "off < TASK_STACK_SIZE \<Longrightarrow> off + sz \<le> TASK_STACK_SIZE \<Longrightarrow> copy_objs sz new old h (new + off) = h (old + off)"
  by (simp add: copy_objs_def add.commute)

lemma task_page_range: "k < 4096 \<Longrightarrow> 0 < k \<Longrightarrow> n \<le> 0x100000 \<Longrightarrow> valid_range (section_of k) n"
proof -
  assume k: "k < 4096" "0 < k" "n \<le> 0x100000"
  have "section_of k \<noteq> NULL" using unat_section_of [OF k(1)] k(2) by (metis less_numeral_extra(3) mult_is_0 unat_0 zero_neq_numeral)
  then show ?thesis using unat_section_of [OF k(1)] k by (simp add: valid_range_def)
qed

lemma task_pages_disjoint:
  assumes "j < 4096" and "k < 4096" and "j \<noteq> k" and "n \<le> 0x100000" and "m \<le> 0x100000" and "in_range (section_of j) n a"
  shows "\<not> in_range (section_of k) m a"
proof
  assume r: "in_range (section_of k) m a"
  have "unat a div 0x100000 = j" using assms(4,6) unat_section_of [OF assms(1)]
    by (intro div_nat_eqI) (auto simp: in_range_def)
  moreover have "unat a div 0x100000 = k" using assms(5) r unat_section_of [OF assms(2)]
    by (intro div_nat_eqI) (auto simp: in_range_def)
  ultimately show False using assms(3) by simp
qed

text \<open>The queued tasks, and only they, decide whether the ready lists are well formed.\<close>

lemma rq_ok_agree:
  assumes "\<forall>j < 5. \<forall>p \<in> set (qs ! j). task_heap s' p = task_heap s p" and "task_ready_list s' = task_ready_list s" and "rq_ok s qs"
  shows "rq_ok s' qs"
proof -
  have "dll (links next_ptr (task_heap s')) (links prev_ptr (task_heap s')) (task_ready_list s ! j) (qs ! j)
      \<and> (\<forall>p \<in> set (qs ! j). links priority (task_heap s') p = Some (of_nat j))" if j: "j < 5" for j
  proof -
    have eq: "\<forall>p \<in> set (qs ! j). task_heap s' p = task_heap s p" using assms(1) j by blast
    then have "dll (links next_ptr (task_heap s')) (links prev_ptr (task_heap s')) (task_ready_list s ! j) (qs ! j)"
      using rq_dll(1) [OF assms(3) j] dll_cong [of "qs ! j" "links next_ptr (task_heap s')" "links next_ptr (task_heap s)"
          "links prev_ptr (task_heap s')" "links prev_ptr (task_heap s)"] by (simp add: links_def)
    then show ?thesis using rq_dll(2) [OF assms(3) j] eq by (simp add: links_def)
  qed
  then show ?thesis using assms(2,3) by (simp add: rq_ok_def)
qed

section \<open>A page for a new task\<close>

text \<open>
  What \<open>page_list_init\<close> put in the descriptor of page frame \<open>k\<close> and no list operation changes.
\<close>

definition task_frame :: "nat \<Rightarrow> page_info \<Rightarrow> bool" where
  "task_frame k v \<longleftrightarrow> pgstart v = section_of k \<and> task_stk_top v = section_of k + 0xFFC
     \<and> pg_top v = section_of k + 0xFFFFC \<and> no_free_blks v \<noteq> C_TRUE \<and> blk_not_init v \<noteq> C_FALSE"

lemma task_frame_fixed: "pg_fixed v = pg_fixed w \<Longrightarrow> task_frame k v \<longleftrightarrow> task_frame k w"
  using pg_fixed_eqD [of v w] by (simp add: task_frame_def)

lemma task_frame_status [simp]: "task_frame k (v\<lparr>page_status := x\<rparr>) \<longleftrightarrow> task_frame k v"
  by (simp add: task_frame_def)

lemma pages_ok_agree:
  assumes "links pg_next (page_heap s') = links pg_next (page_heap s)" "links pg_prev (page_heap s') = links pg_prev (page_heap s)"
    and "free_page_head s' = free_page_head s" "inuse_page_head s' = inuse_page_head s" and "pages_ok s fs us"
  shows "pages_ok s' fs us"
  using assms by (simp add: pages_ok_def)

lemma take_page:
  assumes pages: "pages_ok s (n # q # fs) us" and nv: "page_heap s n = Some nv" "task_frame k nv" and k: "k < 4096" "0 < k"
  shows "\<exists>s1 s2 s3 nv' m. page_alloc s = Some (n, s1) \<and> upd_page n (\<lambda>p. p\<lparr>page_status := FOR_TASK\<rparr>) s1 = Some s2
    \<and> page_heap s2 n = Some nv' \<and> task_frame k nv' \<and> clear_task_page (section_of k) s2 = Some s3
    \<and> n \<noteq> NULL \<and> page_heap s3 n = Some nv' \<and> pages_ok s3 (q # fs) (us @ [n])
    \<and> links pg_fixed (page_heap s3) = links pg_fixed (page_heap s)
    \<and> no_pages s3 = (no_pages s)\<lparr>bytes := m, task_heap := (task_heap s)(section_of k \<mapsto> zero_task),
         ctx_heap := (ctx_heap s)(stkbottom2top (section_of k) - 4 * 15 \<mapsto> zero_ctx)\<rparr>
    \<and> (\<forall>a. \<not> in_range (section_of k) 4096 a \<longrightarrow> m a = bytes s a)"
proof -
  obtain s1 where s1: "page_alloc s = Some (n, s1)" "pages_ok s1 (q # fs) (us @ [n])" "same_pages s s1"
    using page_alloc_ok [OF pages] by blast
  have n: "n \<noteq> NULL" using pages_ok_mem [OF pages, of n] by simp
  have "links pg_fixed (page_heap s1) n = Some (pg_fixed nv)" using s1(3) nv(1) by (simp add: same_pages_def)
  then obtain v1 where v1: "page_heap s1 n = Some v1" "pg_fixed v1 = pg_fixed nv" by (auto dest: links_SomeD)
  define nv' where "nv' = v1\<lparr>page_status := FOR_TASK\<rparr>"
  define s2 where "s2 = s1\<lparr>page_heap := (page_heap s1)(n \<mapsto> nv')\<rparr>"
  have r2: "upd_page n (\<lambda>p. p\<lparr>page_status := FOR_TASK\<rparr>) s1 = Some s2"
    using n v1 by (simp add: upd_objs s2_def nv'_def)
  have fr: "task_frame k nv'" using task_frame_fixed [OF v1(2), of k] nv(2) by (simp add: nv'_def)
  obtain m where m: "mem_set (section_of k) 0 TASK_STACK_SIZE s2 = Some (s2\<lparr>bytes := m\<rparr>)"
    "\<forall>a. \<not> in_range (section_of k) 4096 a \<longrightarrow> m a = bytes s2 a"
    using mem_set_ok [of "section_of k" TASK_STACK_SIZE 0 s2] task_page_range [OF k, of 4096] by auto
  define s3 where "s3 = s2\<lparr>bytes := m, task_heap := (task_heap s2)(section_of k \<mapsto> zero_task),
    ctx_heap := (ctx_heap s2)(stkbottom2top (section_of k) - 4 * 15 \<mapsto> zero_ctx)\<rparr>"
  have r3: "clear_task_page (section_of k) s2 = Some s3" using m(1) by (simp add: clear_task_page_def s3_def)
  note keep = same_pages_keeps [OF s1(3)]
  have same: "links pg_next (page_heap s3) = links pg_next (page_heap s1)" "links pg_prev (page_heap s3) = links pg_prev (page_heap s1)"
    "links pg_fixed (page_heap s3) = links pg_fixed (page_heap s1)"
    using v1(1) by (simp_all add: s3_def s2_def nv'_def links_upd_other del: links_upd)
  have p3: "pages_ok s3 (q # fs) (us @ [n])" by (rule pages_ok_agree [OF same(1,2) _ _ s1(2)]) (simp_all add: s3_def s2_def)
  have fx: "links pg_fixed (page_heap s3) = links pg_fixed (page_heap s)" using same(3) s1(3) by (simp add: same_pages_def)
  have "no_pages s2 = no_pages s1" by (simp add: s2_def no_pages_def)
  then have "no_pages s2 = no_pages s" using s1(3) by (simp add: same_pages_def)
  moreover have "no_pages s3 = (no_pages s2)\<lparr>bytes := m, task_heap := (task_heap s)(section_of k \<mapsto> zero_task),
         ctx_heap := (ctx_heap s)(stkbottom2top (section_of k) - 4 * 15 \<mapsto> zero_ctx)\<rparr>"
    using keep by (simp add: s3_def s2_def no_pages_def)
  moreover have "bytes s2 = bytes s" using keep by (simp add: s2_def)
  moreover have "page_heap s2 n = Some nv'" "page_heap s3 n = Some nv'" by (simp_all add: s3_def s2_def)
  ultimately show ?thesis using s1(1) r2 r3 fr n p3 fx m(2) by auto
qed


lemma same_but_pages:
  assumes eq: "no_pages s' = (no_pages s)\<lparr>bytes := m, task_heap := h, ctx_heap := g\<rparr>"
  shows "bytes s' = m" "task_heap s' = h" "ctx_heap s' = g" "task_ready_list s' = task_ready_list s" "curr_running_task s' = curr_running_task s"
    "blk_heap s' = blk_heap s" "kpage s' = kpage s" "taskid s' = taskid s" "ptes s' = ptes s"
proof -
  show "bytes s' = m" using arg_cong [OF eq, of bytes] by (simp add: no_pages_def)
  show "task_heap s' = h" using arg_cong [OF eq, of task_heap] by (simp add: no_pages_def)
  show "ctx_heap s' = g" using arg_cong [OF eq, of ctx_heap] by (simp add: no_pages_def)
  show "task_ready_list s' = task_ready_list s" using arg_cong [OF eq, of task_ready_list] by (simp add: no_pages_def)
  show "curr_running_task s' = curr_running_task s" using arg_cong [OF eq, of curr_running_task] by (simp add: no_pages_def)
  show "blk_heap s' = blk_heap s" using arg_cong [OF eq, of blk_heap] by (simp add: no_pages_def)
  show "kpage s' = kpage s" using arg_cong [OF eq, of kpage] by (simp add: no_pages_def)
  show "taskid s' = taskid s" using arg_cong [OF eq, of taskid] by (simp add: no_pages_def)
  show "ptes s' = ptes s" using arg_cong [OF eq, of ptes] by (simp add: no_pages_def)
qed

section \<open>Copying the parent\<close>

lemma copy_pages:
  assumes k: "k < 4096" "0 < k" and p: "p < 4096" "0 < p" and kp: "k \<noteq> p" and n: "unat n \<le> 0x100000"
  shows "\<exists>m. mem_cpy (section_of k) (section_of p) n s = Some (s\<lparr>bytes := m\<rparr>)
    \<and> (\<forall>i < unat n. m (section_of k + of_nat i) = bytes s (section_of p + of_nat i))
    \<and> (\<forall>a. \<not> in_range (section_of k) (unat n) a \<longrightarrow> m a = bytes s a)"
  by (rule mem_cpy_ok [OF task_page_range [OF k n] task_page_range [OF p n]])
    (rule task_pages_disjoint [OF k(1) p(1) kp n n])

lemma copy_parent:
  assumes k: "k < 4096" "0 < k" and p: "p < 4096" "0 < p" and kp: "k \<noteq> p"
  shows "\<exists>m. copy_task_page (section_of k) (section_of p) s =
      Some (s\<lparr>bytes := m, task_heap := copy_objs 76 (section_of k) (section_of p) (task_heap s),
              ctx_heap := copy_objs 56 (section_of k) (section_of p) (ctx_heap s)\<rparr>)
    \<and> (\<forall>i < 4096. m (section_of k + of_nat i) = bytes s (section_of p + of_nat i))
    \<and> (\<forall>a. \<not> in_range (section_of k) 4096 a \<longrightarrow> m a = bytes s a)"
proof -
  obtain m where "mem_cpy (section_of k) (section_of p) TASK_STACK_SIZE s = Some (s\<lparr>bytes := m\<rparr>)"
    "\<forall>i < unat TASK_STACK_SIZE. m (section_of k + of_nat i) = bytes s (section_of p + of_nat i)"
    "\<forall>a. \<not> in_range (section_of k) (unat TASK_STACK_SIZE) a \<longrightarrow> m a = bytes s a"
    using copy_pages [OF k p kp, of TASK_STACK_SIZE s] by auto
  then show ?thesis by (auto simp: copy_task_page_def)
qed

lemma copy_parent_info:
  assumes k: "k < 4096" "0 < k" and p: "p < 4096" "0 < p" and kp: "k \<noteq> p" and t: "task_heap s (section_of p) = Some t"
    and same: "\<forall>i < 4096. bytes s (section_of k + of_nat i) = bytes s (section_of p + of_nat i)"
  shows "copy_task_info (section_of k) (section_of p) s = Some (s\<lparr>task_heap := (task_heap s)(section_of k \<mapsto> t)\<rparr>)"
proof -
  have nn: "section_of p \<noteq> NULL" using task_page_range [OF p, of 1] by (simp add: valid_range_def)
  obtain m where m: "mem_cpy (section_of k) (section_of p) 76 s = Some (s\<lparr>bytes := m\<rparr>)"
    "\<forall>i < unat (76 :: u32). m (section_of k + of_nat i) = bytes s (section_of p + of_nat i)"
    "\<forall>a. \<not> in_range (section_of k) (unat (76 :: u32)) a \<longrightarrow> m a = bytes s a"
    using copy_pages [OF k p kp, of 76 s] by auto
  have "m a = bytes s a" for a
  proof (cases "in_range (section_of k) 76 a")
    case True
    then obtain i where "i < 76" "a = section_of k + of_nat i" using in_rangeE [OF _ task_page_range [OF k, of 76]] by auto
    then show ?thesis using m(2) same by simp
  qed (use m(3) in simp)
  then have "m = bytes s" by (rule ext)
  then show ?thesis using m(1) t nn by (simp add: copy_task_info_def deref_non_NULL)
qed


section \<open>Blocks and page table of the child\<close>

lemma frame_no_blk_at:
  assumes "k < 4096" and "i < 256"
  shows "frame_no (blk_at (section_of k + 0x1000) i) = k"
proof -
  have off: "unat (0x1000 + of_nat i * 28 :: u32) = 0x1000 + i * 28"
    using assms(2) unat_of_nat32 [of "0x1000 + i * 28"] by simp
  have "blk_at (section_of k + 0x1000) i = section_of k + (0x1000 + of_nat i * 28)"
    by (simp add: blk_at_def add.assoc)
  then show ?thesis using frame_no_in [of k "0x1000 + of_nat i * 28"] assms off by simp
qed

lemma chain_links_agree:
  "\<forall>x \<in> set bs. h' x = h x \<Longrightarrow> chain (links f h') a bs \<longleftrightarrow> chain (links f h) a bs"
  by (rule chain_cong) (simp add: links_def)

lemma child_blocks:
  assumes pages: "pages_ok s fs us" and n: "n \<noteq> NULL" "page_heap s n = Some v" "task_frame k v" and k: "k < 4096"
    and ks: "kblks_ok s ks" "\<forall>x \<in> set ks. frame_no x \<noteq> k"
  shows "\<exists>h v'. blks_init n s = Some (n, s\<lparr>page_heap := (page_heap s)(n \<mapsto> v'), blk_heap := h\<rparr>)
    \<and> pages_ok (s\<lparr>page_heap := (page_heap s)(n \<mapsto> v'), blk_heap := h\<rparr>) fs us
    \<and> kblks_ok (s\<lparr>page_heap := (page_heap s)(n \<mapsto> v'), blk_heap := h\<rparr>) ks
    \<and> (\<forall>x. frame_no x \<noteq> k \<longrightarrow> h x = blk_heap s x) \<and> task_frame k v'
    \<and> blks_ok (s\<lparr>page_heap := (page_heap s)(n \<mapsto> v'), blk_heap := h\<rparr>) n (map (blk_at (section_of k + 0x1000)) [3..<256])"
proof -
  have fr: "pgstart v = section_of k" "blk_not_init v \<noteq> C_FALSE" "no_free_blks v \<noteq> C_TRUE"
    using n(3) by (simp_all add: task_frame_def)
  have "unat (pgstart v) + 0x100000 \<le> 2 ^ 32" using k fr(1) unat_section_of [OF k] by simp
  then obtain s' h where s': "blks_init n s = Some (n, s')"
    "s' = s\<lparr>page_heap := (page_heap s)(n \<mapsto> v\<lparr>blk_list_head := blk_at (pgstart v + 0x1000) 3\<rparr>), blk_heap := h\<rparr>"
    "\<forall>a. a \<notin> blk_at (pgstart v + 0x1000) ` {..<256} \<longrightarrow> h a = blk_heap s a"
    "blks_ok s' n (map (blk_at (pgstart v + 0x1000)) [3..<256])"
    using blks_init_ok [OF n(1,2) fr(2,3)] by blast
  have h: "\<forall>x. frame_no x \<noteq> k \<longrightarrow> h x = blk_heap s x"
  proof (intro allI impI)
    fix x assume x: "frame_no x \<noteq> k"
    have "x \<notin> blk_at (pgstart v + 0x1000) ` {..<256}" using x frame_no_blk_at [OF k] fr(1) by auto
    then show "h x = blk_heap s x" using s'(3) by blast
  qed
  have "pages_ok s' fs us" unfolding s'(2) by (subst pages_ok_frame [OF n(2)]) (simp_all add: pages)
  moreover have "kblks_ok s' ks" using ks chain_links_agree [of ks h "blk_heap s" b_next] h by (simp add: s'(2) kblks_ok_def)
  moreover have "task_frame k (v\<lparr>blk_list_head := blk_at (pgstart v + 0x1000) 3\<rparr>)" using n(3) by (simp add: task_frame_def)
  ultimately show ?thesis using s'(1,4) h unfolding s'(2) fr(1) by blast
qed

lemma child_table:
  assumes pool: "kblks_ok s (b # c # bs)" "links b_start (blk_heap s) b = Some base" "table_ok base"
    and k: "0x821 \<le> k" "k < 0xa00"
  shows "\<exists>h g m. task_pgt_setup (section_of k) (section_of k + 0xFFFFC) s = Some (base, s\<lparr>kpage := g, blk_heap := h, ptes := m\<rparr>)
    \<and> kblks_ok (s\<lparr>kpage := g, blk_heap := h, ptes := m\<rparr>) (c # bs) \<and> (\<forall>x. x \<noteq> b \<and> x \<noteq> c \<longrightarrow> h x = blk_heap s x)
    \<and> (\<forall>j < 4096. m (entry base j) = (case task_ap k j of Some ap \<Rightarrow> identity_desc j ap | None \<Rightarrow> ptes s (entry base j)))"
proof -
  obtain t m where t: "kblk_alloc FOR_KERN s = Some (base, t)" "kblks_ok t (c # bs)"
    "task_pgt_setup (section_of k) (section_of k + 0xFFFFC) s = Some (base, t\<lparr>ptes := m\<rparr>)"
    "\<forall>j < 4096. m (entry base j) = (case task_ap k j of Some ap \<Rightarrow> identity_desc j ap | None \<Rightarrow> ptes s (entry base j))"
    using task_pgt_setup_ok [OF pool k] by blast
  obtain h g where h: "t = s\<lparr>kpage := g, blk_heap := h\<rparr>" "\<forall>x. x \<noteq> b \<and> x \<noteq> c \<longrightarrow> h x = blk_heap s x"
    using kblk_alloc_ok [OF pool(1), of FOR_KERN] t(1) by fastforce
  have "kblks_ok (s\<lparr>kpage := g, blk_heap := h, ptes := m\<rparr>) (c # bs)" using t(2) by (simp add: h(1) kblks_ok_def)
  then show ?thesis using t(3,4) h by auto
qed


section \<open>The image of the child\<close>

lemma ptr_words_back:
  assumes "j \<le> 0x3FF"
  shows "a + 0xFFC - 4 * ptr_words (b + 0xFFC) (b + 4 * of_nat j) = a + 4 * of_nat j"
proof -
  have v: "b + 0xFFC - (b + 4 * of_nat j) = (4 * of_nat (0x3FF - j) :: u32)" using assms by (simp add: of_nat_diff algebra_simps)
  have u: "unat (of_nat (0x3FF - j) :: u32) = 0x3FF - j" using unat_of_nat32 [of "0x3FF - j"] assms by simp
  have "signed_drop_bit 2 (4 * of_nat (0x3FF - j) :: u32) = of_nat (0x3FF - j)"
  proof -
    have "(4 * of_nat (0x3FF - j) :: u32) = of_nat (4 * (0x3FF - j))" by simp
    moreover have "uint (of_nat (4 * (0x3FF - j)) :: u32) = int (4 * (0x3FF - j))"
      using unat_of_nat32 [of "4 * (0x3FF - j)"] by (simp only: uint_nat) simp
    ultimately have "sint (4 * of_nat (0x3FF - j) :: u32) = 4 * int (0x3FF - j)"
      by (simp only: sint_uint) (simp add: signed_take_bit_int_eq_self)
    then have "sint (signed_drop_bit 2 (4 * of_nat (0x3FF - j) :: u32)) = int (0x3FF - j)"
      by (simp add: sint_signed_drop_bit_eq drop_bit_eq_div)
    moreover have "sint (of_nat (0x3FF - j) :: u32) = int (0x3FF - j)"
      using u by (simp only: sint_uint uint_nat) (simp add: signed_take_bit_int_eq_self)
    ultimately have "sint (signed_drop_bit 2 (4 * of_nat (0x3FF - j) :: u32)) = sint (of_nat (0x3FF - j) :: u32)" by simp
    then show ?thesis by (rule signed_word_eqI)
  qed
  then show ?thesis using assms by (simp only: ptr_words_def v) (simp add: of_nat_diff)
qed


text \<open>The child's struct before it is queued.\<close>

definition child_of :: "nat \<Rightarrow> addr \<Rightarrow> u32 \<Rightarrow> task_info \<Rightarrow> task_info" where
  "child_of k ctx i t = t\<lparr>stk_bottom := section_of k, stk_top := section_of k + 0xFFC, task_context_ptr := ctx,
     next_ptr := NULL, prev_ptr := NULL, task_status := TASK_READY, task_id := i\<rparr>"

definition fork_queue :: "nat \<Rightarrow> addr \<Rightarrow> addr \<Rightarrow> addr \<Rightarrow> page_info \<Rightarrow> page_info \<Rightarrow> kstate \<Rightarrow> kstate option" where
  "fork_queue k nctx ctx n nv cv s = do {
     (_, s) \<leftarrow> blks_init n s;
     s \<leftarrow> task_enqueue (section_of k) s;
     s \<leftarrow> set_r0 nctx 0 s;
     n \<leftarrow> deref (task_heap s) (section_of k);
     s \<leftarrow> set_r0 ctx (task_id n) s;
     (pt, s) \<leftarrow> task_pgt_setup (section_of k) (pg_top nv) s;
     s \<leftarrow> upd_task (section_of k) (\<lambda>n. n\<lparr>pgtbase := pt\<rparr>) s;
     set_pte (pgstart cv) (pg_top cv) pt s
   }"

lemma frame_no_in2: "k < 4096 \<Longrightarrow> unat off < 0x100000 \<Longrightarrow> frame_no (off + section_of k) = k"
  using frame_no_in [of k off] by (simp add: add.commute)

lemma task_page_not_in:
  assumes "k < 4096" "0 < k" "p < 4096" "0 < p" "k \<noteq> p"
  shows "\<forall>i < 4096. \<not> in_range (section_of k) 4096 (section_of p + of_nat i)"
proof (intro allI impI)
  fix i :: nat assume i: "i < 4096"
  have "valid_range (section_of p) 4096" by (rule task_page_range [OF assms(3,4)]) simp
  then have r: "in_range (section_of p) 4096 (section_of p + of_nat i)" using i by (rule valid_range_at(3))
  have le: "(4096 :: nat) \<le> 0x100000" by simp
  show "\<not> in_range (section_of k) 4096 (section_of p + of_nat i)"
    by (rule task_pages_disjoint [OF assms(3,1) assms(5) [symmetric] le le r])
qed

lemma child_ctx:
  assumes "k < 4096" "0 < k" "p < 4096" "0 < p" "k \<noteq> p" and "j \<le> 1010"
  shows "copy_objs 56 (section_of k) (section_of p) (h(stkbottom2top (section_of k) - 4 * 15 \<mapsto> z)) (section_of k + 4 * of_nat j)
    = h (section_of p + 4 * of_nat j)"
proof -
  have u: "unat (4 * of_nat j :: u32) = 4 * j" using unat_of_nat32 [of "4 * j"] assms(6) by simp
  then have "frame_no (section_of p + 4 * of_nat j) = p" using assms(3,6) by simp
  moreover have "frame_no (stkbottom2top (section_of k) - 4 * 15) = k" using assms(1) by (simp add: stkbottom2top_def frame_no_in2)
  ultimately have "section_of p + 4 * of_nat j \<noteq> stkbottom2top (section_of k) - 4 * 15" using assms(5) by metis
  moreover have "4 * of_nat j < TASK_STACK_SIZE" using u assms(6) by (simp add: word_less_nat_alt)
  moreover have "4 * of_nat j + 56 \<le> TASK_STACK_SIZE" using u assms(6) unat_add_lem [of "4 * of_nat j :: u32" 56] by (simp add: word_le_nat_alt)
  ultimately show ?thesis by (simp add: copy_objs_at)
qed

lemma fork_image:
  assumes pages: "pages_ok s (n # q # fs) us" "page_heap s n = Some nv" "task_frame k nv"
      "pp \<in> set us" "page_heap s pp = Some pv" "task_frame p pv" "inj_on (links pgstart (page_heap s)) (set (us @ [n]))"
    and frames: "k < 4096" "0 < k" "p < 4096" "0 < p" "k \<noteq> p"
    and task: "curr_running_task s = section_of p" "task_heap s (section_of p) = Some t" "stk_bottom t = section_of p"
      "stk_top t = section_of p + 0xFFC" and j: "j \<le> 0x3FF"
  shows "\<exists>s' nv' pv'. fork_handler (section_of p + 4 * of_nat j) args s
      = fork_queue k (section_of k + 4 * of_nat j) (section_of p + 4 * of_nat j) n nv' pv' s'
    \<and> n \<noteq> NULL \<and> page_heap s' n = Some nv' \<and> task_frame k nv' \<and> task_frame p pv' \<and> pages_ok s' (q # fs) (us @ [n])
    \<and> blk_heap s' = blk_heap s \<and> kpage s' = kpage s \<and> task_ready_list s' = task_ready_list s \<and> ptes s' = ptes s
    \<and> taskid s' = taskid s + 1 \<and> curr_running_task s' = section_of p
    \<and> task_heap s' (section_of k) = Some (child_of k (section_of k + 4 * of_nat j) (taskid s + 1) t)
    \<and> (\<forall>x. frame_no x \<noteq> k \<longrightarrow> task_heap s' x = task_heap s x \<and> ctx_heap s' x = ctx_heap s x)
    \<and> (j \<le> 1010 \<longrightarrow> ctx_heap s' (section_of k + 4 * of_nat j) = ctx_heap s (section_of p + 4 * of_nat j))
    \<and> (\<forall>i < 4096. bytes s' (section_of k + of_nat i) = bytes s (section_of p + of_nat i))"
proof -
  let ?K = "section_of k" and ?P = "section_of p" and ?off = "4 * of_nat j :: u32"
  obtain s1 s2 s3 nv' m where s3: "page_alloc s = Some (n, s1)" "upd_page n (\<lambda>p. p\<lparr>page_status := FOR_TASK\<rparr>) s1 = Some s2"
    "page_heap s2 n = Some nv'" "task_frame k nv'" "clear_task_page ?K s2 = Some s3" "n \<noteq> NULL"
    "page_heap s3 n = Some nv'" "pages_ok s3 (q # fs) (us @ [n])" "links pg_fixed (page_heap s3) = links pg_fixed (page_heap s)"
    "no_pages s3 = (no_pages s)\<lparr>bytes := m, task_heap := (task_heap s)(?K \<mapsto> zero_task),
         ctx_heap := (ctx_heap s)(stkbottom2top ?K - 4 * 15 \<mapsto> zero_ctx)\<rparr>"
    "\<forall>a. \<not> in_range ?K 4096 a \<longrightarrow> m a = bytes s a"
    using take_page [OF pages(1-3) frames(1,2)] by blast
  note k3 = same_but_pages [OF s3(10)]
  have KP: "?P \<noteq> ?K" "?P \<noteq> NULL" "?K \<noteq> NULL"
    using frame_no_section [OF frames(1)] frame_no_section [OF frames(3)] frames(5) task_page_range [OF frames(1,2), of 1]
      task_page_range [OF frames(3,4), of 1] by (auto simp only: valid_range_def)
  have cur: "current s3 = Some t" using task(1,2) KP by (simp add: current_def k3 deref_non_NULL)
  have st: "links pgstart (page_heap s3) = links pgstart (page_heap s)"
    by (rule links_coarser [OF s3(9) pg_fixed_eqD(1)])
  obtain pv' where pv': "page_heap s3 pp = Some pv'" "pg_fixed pv' = pg_fixed pv"
    using fun_cong [OF s3(9), of pp] pages(5) by (auto simp: links_def map_option_eq_Some split: option.splits)
  have fp: "task_frame p pv'" using task_frame_fixed [OF pv'(2)] pages(6) by blast
  have starts: "pgstart nv' = ?K" "pgstart pv' = ?P" "task_stk_top nv' = ?K + 0xFFC" using s3(4) fp by (simp_all add: task_frame_def)
  have "ROUNDDOWN ?P PAGE_SIZE = ?P" using unat_section_of [OF frames(3)] by (intro ROUNDDOWN_eqI) simp_all
  then have "links pgstart (page_heap s3) pp = Some (ROUNDDOWN ?P PAGE_SIZE)" by (simp add: links_def pv'(1) starts(2))
  moreover have "inj_on (links pgstart (page_heap s3)) (set (us @ [n]))" "pp \<in> set (us @ [n])" using pages(4,7) by (simp_all only: st) simp
  ultimately have wp: "which_page ?P s3 = Some pp" by (intro which_page_hit [OF s3(8)])
  obtain m4 where s4: "copy_task_page ?K ?P s3 = Some (s3\<lparr>bytes := m4, task_heap := copy_objs 76 ?K ?P (task_heap s3),
       ctx_heap := copy_objs 56 ?K ?P (ctx_heap s3)\<rparr>)" "\<forall>i < 4096. m4 (?K + of_nat i) = bytes s3 (?P + of_nat i)"
    "\<forall>a. \<not> in_range ?K 4096 a \<longrightarrow> m4 a = bytes s3 a"
    using copy_parent [OF frames, of s3] by blast
  define s4' where "s4' = s3\<lparr>bytes := m4, task_heap := copy_objs 76 ?K ?P (task_heap s3),
       ctx_heap := copy_objs 56 ?K ?P (ctx_heap s3)\<rparr>"
  have h4: "task_heap s4' x = task_heap s x \<and> ctx_heap s4' x = ctx_heap s x" if "frame_no x \<noteq> k" for x
  proof -
    have "frame_no (stkbottom2top ?K - 4 * 15) = k" using frames(1) by (simp add: stkbottom2top_def frame_no_in2)
    then have "x \<noteq> ?K" "x \<noteq> stkbottom2top ?K - 4 * 15" using that frame_no_section [OF frames(1)] by blast+
    then show ?thesis by (simp add: s4'_def k3 copy_objs_apart [OF that frames(1)])
  qed
  have P: "task_heap s4' ?P = Some t" using h4 [of ?P] frames(3,5) task(2) by simp
  have b4: "\<forall>i < 4096. bytes s4' (?K + of_nat i) = bytes s4' (?P + of_nat i)"
    using s4(2,3) task_page_not_in [OF frames] by (simp add: s4'_def)
  define s5 where "s5 = s4'\<lparr>task_heap := (task_heap s4')(?K \<mapsto> t)\<rparr>"
  have s5: "copy_task_info ?K ?P s4' = Some s5" using copy_parent_info [OF frames P b4] by (simp add: s5_def)
  have run: "curr_running_task s4' = ?P" "curr_running_task s5 = ?P" using task(1) by (simp_all add: s4'_def s5_def k3)
  have cur5: "current s5 = Some t" using P KP by (simp add: current_def run deref_non_NULL s5_def)
  let ?id = "taskid s + 1" and ?nctx = "?K + 0xFFC - 4 * ptr_words (stk_top t) (?P + ?off)"
  have nctx: "?nctx = ?K + ?off" unfolding task(4) by (rule ptr_words_back [OF j])
  define c6 where "c6 = t\<lparr>stk_bottom := stktop2bottom (?K + 0xFFC), stk_top := ?K + 0xFFC, task_context_ptr := ?K + ?off\<rparr>"
  define c7 where "c7 = c6\<lparr>next_ptr := NULL, prev_ptr := NULL, task_status := TASK_READY, taskCallBack := taskCallBack t, priority := priority t\<rparr>"
  define s6 where "s6 = s5\<lparr>task_heap := (task_heap s5)(?K \<mapsto> c6)\<rparr>"
  define s7 where "s7 = s6\<lparr>task_heap := (task_heap s6)(?K \<mapsto> c7)\<rparr>"
  define s8 where "s8 = s7\<lparr>taskid := taskid s7 + 1, task_heap := (task_heap s7)(?K \<mapsto> c7\<lparr>task_id := taskid s7 + 1\<rparr>)\<rparr>"
  have u6: "upd_task ?K (\<lambda>n. n\<lparr>stk_bottom := stktop2bottom (?K + 0xFFC), stk_top := ?K + 0xFFC, task_context_ptr := ?K + ?off\<rparr>) s5 = Some s6"
    using KP by (simp add: s6_def s5_def c6_def upd_objs)
  have cur6: "current s6 = Some t" using P KP by (simp add: current_def run deref_non_NULL s6_def s5_def)
  have u7: "upd_task ?K (\<lambda>n. n\<lparr>next_ptr := NULL, prev_ptr := NULL, task_status := TASK_READY,
            taskCallBack := taskCallBack t, priority := priority t\<rparr>) s6 = Some s7"
    using KP by (simp add: s7_def s6_def c7_def upd_objs)
  have u8: "upd_task ?K (\<lambda>n. n\<lparr>task_id := taskid (s7\<lparr>taskid := taskid s7 + 1\<rparr>)\<rparr>) (s7\<lparr>taskid := taskid s7 + 1\<rparr>) = Some s8"
    using KP by (simp add: s8_def s7_def upd_objs)
  have d: "deref (page_heap s2) n = Some nv'" "deref (page_heap s3) pp = Some pv'"
    using s3(3,6) pv'(1) pages_ok_mem [OF s3(8), of pp] pages(4) by (simp_all add: deref_non_NULL)
  have "fork_handler (?P + ?off) args s = fork_queue k (?K + ?off) (?P + ?off) n nv' pv' s8"
    by (simp only: fork_handler_def fork_queue_def Let_def s3(1,2,5) d starts cur task(3) wp s4(1) s4'_def [symmetric] s5 run cur5
        u6 cur6 u7 u8 nctx Option.bind.simps prod.case)
  moreover have "task_heap s8 ?K = Some (child_of k (?K + ?off) ?id t)"
    by (simp add: s8_def s7_def s6_def s5_def s4'_def k3 c7_def c6_def child_of_def stktop2bottom_def)
  moreover have "task_heap s8 x = task_heap s x \<and> ctx_heap s8 x = ctx_heap s x" if "frame_no x \<noteq> k" for x
    using h4 [OF that] that frames(1) by (auto simp: s8_def s7_def s6_def s5_def)
  moreover have "ctx_heap s8 (?K + ?off) = ctx_heap s (?P + ?off)" if "j \<le> 1010"
    using child_ctx [OF frames that] by (simp add: s8_def s7_def s6_def s5_def s4'_def k3)
  moreover have "pages_ok s8 (q # fs) (us @ [n])"
    by (rule pages_ok_agree [OF _ _ _ _ s3(8)]) (simp_all add: s8_def s7_def s6_def s5_def s4'_def)
  moreover have "bytes s8 (?K + of_nat i) = bytes s (?P + of_nat i)" if "i < 4096" for i
    using that s4(2) s3(11) task_page_not_in [OF frames] by (simp add: s8_def s7_def s6_def s5_def s4'_def k3)
  ultimately show ?thesis using s3(4,6,7) fp
    by (intro exI [of _ s8] exI [of _ nv'] exI [of _ pv'])
      (simp add: s8_def s7_def s6_def s5_def s4'_def k3 task(1))
qed


section \<open>Queueing the child\<close>

lemma rq_ok_links:
  assumes "links next_ptr (task_heap s') = links next_ptr (task_heap s)" "links prev_ptr (task_heap s') = links prev_ptr (task_heap s)"
    and "links priority (task_heap s') = links priority (task_heap s)" "task_ready_list s' = task_ready_list s"
  shows "rq_ok s' qs \<longleftrightarrow> rq_ok s qs"
  using assms by (simp add: rq_ok_def)

lemma same_tasks_keeps: "same_tasks s s' \<Longrightarrow> no_tasks s' = no_tasks s"
  by (simp add: same_tasks_def)

lemma blks_ok_agree:
  assumes "page_heap s' = page_heap s" and agree: "k < 4096 \<and> (\<forall>x. frame_no x = k \<longrightarrow> blk_heap s' x = blk_heap s x)"
    and ok: "blks_ok s n (map (blk_at (section_of k + 0x1000)) [3..<256])"
  shows "blks_ok s' n (map (blk_at (section_of k + 0x1000)) [3..<256])"
proof -
  have "\<forall>x \<in> set (map (blk_at (section_of k + 0x1000)) [3..<256]). blk_heap s' x = blk_heap s x"
    using agree frame_no_blk_at [of k] by (auto simp del: upt_rec_numeral)
  from chain_links_agree [OF this] show ?thesis using ok assms(1) by (simp add: blks_ok_def del: upt_rec_numeral)
qed

text \<open>Mapping the parent's page for the child.\<close>

lemma set_pte_page:
  assumes "table_ok base" and "p < 0xa00" and "task_frame p v"
  shows "\<exists>m. set_pte (pgstart v) (pg_top v) base s = Some (s\<lparr>ptes := m\<rparr>)
    \<and> (\<forall>j < 4096. m (entry base j) = (if j = p then identity_desc j AP_USER_RW else ptes s (entry base j)))"
proof -
  have "pgstart v = section_of p" "pg_top v = section_of p + 0xFFFFC" using assms(3) by (simp_all add: task_frame_def)
  moreover obtain m where "pte_init (section_of p) (section_of p + 0xFFFFC) 3 (section_of p) base s = Some (s\<lparr>ptes := m\<rparr>)"
    "\<forall>j < 4096. m (entry base j) = (if p \<le> j \<and> j < p + 1 then identity_desc j 3 else ptes s (entry base j))"
    using pte_init_ok [OF assms(1) refl frame_pages [of p], of 3 s] assms(2) by auto
  moreover have "p \<le> j \<and> j < p + 1 \<longleftrightarrow> j = p" for j by auto
  ultimately show ?thesis by (intro exI [of _ m]) (simp add: set_pte_def)
qed

lemma fork_queue_ok:
  assumes pages: "pages_ok s fs us" "n \<noteq> NULL" "page_heap s n = Some nv" "task_frame k nv" "task_frame p cv"
    and frames: "0x821 \<le> k" "k < 0xa00" "0x821 \<le> p" "p < 0xa00" "k \<noteq> p"
    and queues: "rq_ok s qs" "i < 5" "\<forall>x \<in> set (qs ! i). frame_no x \<noteq> k"
    and child: "task_heap s (section_of k) = Some t" "priority t = of_nat i"
    and ctxs: "ctx_heap s nctx = Some w" "ctx_heap s ctx = Some w" "nctx \<noteq> NULL" "ctx \<noteq> NULL" "nctx \<noteq> ctx"
    and pool: "kblks_ok s (b # c # bs)" "\<forall>x \<in> {b, c} \<union> set bs. frame_no x \<noteq> k" "links b_start (blk_heap s) b = Some base" "table_ok base"
  shows "\<exists>s' t'. fork_queue k nctx ctx n nv cv s = Some s'
    \<and> rq_ok s' (qs[i := qs ! i @ [section_of k]]) \<and> pages_ok s' fs us \<and> kblks_ok s' (c # bs)
    \<and> blks_ok s' n (map (blk_at (section_of k + 0x1000)) [3..<256])
    \<and> taskid s' = taskid s \<and> bytes s' = bytes s
    \<and> ctx_heap s' = (ctx_heap s)(nctx \<mapsto> w\<lparr>c_r0 := 0\<rparr>, ctx \<mapsto> w\<lparr>c_r0 := task_id t\<rparr>)
    \<and> task_heap s' (section_of k) = Some t' \<and> task_fixed t' = task_fixed (t\<lparr>pgtbase := base\<rparr>)
    \<and> (\<forall>j < 4096. ptes s' (entry base j) = (if j = p then identity_desc j AP_USER_RW
         else case task_ap k j of Some ap \<Rightarrow> identity_desc j ap | None \<Rightarrow> ptes s (entry base j)))"
proof -
  let ?K = "section_of k"
  have KN: "?K \<noteq> NULL" using task_page_range [of k 1] frames by (simp add: valid_range_def)
  obtain h v' where s1: "blks_init n s = Some (n, s\<lparr>page_heap := (page_heap s)(n \<mapsto> v'), blk_heap := h\<rparr>)"
    "pages_ok (s\<lparr>page_heap := (page_heap s)(n \<mapsto> v'), blk_heap := h\<rparr>) fs us"
    "kblks_ok (s\<lparr>page_heap := (page_heap s)(n \<mapsto> v'), blk_heap := h\<rparr>) (b # c # bs)"
    "\<forall>x. frame_no x \<noteq> k \<longrightarrow> h x = blk_heap s x"
    "blks_ok (s\<lparr>page_heap := (page_heap s)(n \<mapsto> v'), blk_heap := h\<rparr>) n (map (blk_at (?K + 0x1000)) [3..<256])"
    using child_blocks [OF pages(1-4) _ pool(1)] frames(2) pool(2) by auto
  define s1' where "s1' = s\<lparr>page_heap := (page_heap s)(n \<mapsto> v'), blk_heap := h\<rparr>"
  note s1 = s1 [folded s1'_def]
  have q1: "rq_ok s1' qs" "task_heap s1' ?K = Some t" using queues(1) child(1) by (simp_all add: s1'_def rq_ok_def)
  have "?K \<notin> set (qs ! i)" using queues(3) frames(2) by auto
  then obtain s2 where s2: "task_enqueue ?K s1' = Some s2" "rq_ok s2 (qs[i := qs ! i @ [?K]])" "same_tasks s1' s2"
    using task_enqueue_ok [OF q1(1) KN q1(2) _ child(2) queues(2)] by blast
  note k2 = no_tasks_keeps [OF same_tasks_keeps [OF s2(3)]]
  obtain t2 where t2: "task_heap s2 ?K = Some t2" "task_fixed t2 = task_fixed t" using same_tasks_at [OF s2(3) q1(2)] by blast
  have id: "task_id t2 = task_id t" by (rule task_fixed_eqD(3) [OF t2(2)])
  define s3 where "s3 = s2\<lparr>ctx_heap := (ctx_heap s2)(nctx \<mapsto> w\<lparr>c_r0 := 0\<rparr>)\<rparr>"
  define s4 where "s4 = s3\<lparr>ctx_heap := (ctx_heap s3)(ctx \<mapsto> w\<lparr>c_r0 := task_id t2\<rparr>)\<rparr>"
  have r3: "set_r0 nctx 0 s2 = Some s3" "set_r0 ctx (task_id t2) s3 = Some s4" "deref (task_heap s3) ?K = Some t2"
    using ctxs t2(1) KN by (simp_all add: set_r0_def s3_def s4_def upd_objs k2 s1'_def deref_non_NULL)
  have b4: "kblks_ok s4 (b # c # bs)" "links b_start (blk_heap s4) b = Some base"
    using s1(3) s1(4) pool(2,3) by (simp_all add: s4_def s3_def k2 kblks_ok_def s1'_def links_def)
  obtain h5 g m where s5: "task_pgt_setup ?K (?K + 0xFFFFC) s4 = Some (base, s4\<lparr>kpage := g, blk_heap := h5, ptes := m\<rparr>)"
    "kblks_ok (s4\<lparr>kpage := g, blk_heap := h5, ptes := m\<rparr>) (c # bs)" "\<forall>x. x \<noteq> b \<and> x \<noteq> c \<longrightarrow> h5 x = blk_heap s4 x"
    "\<forall>j < 4096. m (entry base j) = (case task_ap k j of Some ap \<Rightarrow> identity_desc j ap | None \<Rightarrow> ptes s4 (entry base j))"
    using child_table [OF b4 pool(4) frames(1,2)] by blast
  define s5' where "s5' = s4\<lparr>kpage := g, blk_heap := h5, ptes := m\<rparr>"
  define s6 where "s6 = s5'\<lparr>task_heap := (task_heap s5')(?K \<mapsto> t2\<lparr>pgtbase := base\<rparr>)\<rparr>"
  have r6: "upd_task ?K (\<lambda>n. n\<lparr>pgtbase := base\<rparr>) s5' = Some s6"
    using t2(1) KN by (simp add: s6_def s5'_def s4_def s3_def upd_objs)
  obtain m' where r7: "set_pte (pgstart cv) (pg_top cv) base s6 = Some (s6\<lparr>ptes := m'\<rparr>)"
    "\<forall>j < 4096. m' (entry base j) = (if j = p then identity_desc j AP_USER_RW else ptes s6 (entry base j))"
    using set_pte_page [OF pool(4) frames(4) pages(5)] by blast
  have top: "pg_top nv = ?K + 0xFFFFC" using pages(4) by (simp add: task_frame_def)
  have run: "fork_queue k nctx ctx n nv cv s = Some (s6\<lparr>ptes := m'\<rparr>)"
    by (simp only: fork_queue_def s1(1) s2(1) r3 s5(1) s5'_def [symmetric] r6 r7(1) top Option.bind.simps prod.case)
  have h6: "links next_ptr (task_heap s6) = links next_ptr (task_heap s2)" "links prev_ptr (task_heap s6) = links prev_ptr (task_heap s2)"
    "links priority (task_heap s6) = links priority (task_heap s2)"
    using t2(1) by (simp_all add: s6_def s5'_def s4_def s3_def links_upd_other del: links_upd)
  have "rq_ok (s6\<lparr>ptes := m'\<rparr>) (qs[i := qs ! i @ [?K]])"
    using s2(2) by (subst rq_ok_links [where s = s2]) (simp_all add: h6, simp add: s6_def s5'_def s4_def s3_def)
  moreover have "pages_ok (s6\<lparr>ptes := m'\<rparr>) fs us" 
    by (rule pages_ok_agree [OF _ _ _ _ s1(2)]) (simp_all add: s6_def s5'_def s4_def s3_def k2)
  moreover have "kblks_ok (s6\<lparr>ptes := m'\<rparr>) (c # bs)" using s5(2) by (simp add: s6_def s5'_def kblks_ok_def)
  moreover have "blks_ok (s6\<lparr>ptes := m'\<rparr>) n (map (blk_at (?K + 0x1000)) [3..<256])"
    by (rule blks_ok_agree [OF _ _ s1(5)])
      (use frames(2) pool(2) s5(3) in \<open>auto simp: s6_def s5'_def s4_def s3_def k2\<close>)
  moreover have "taskid s6 = taskid s" "bytes s6 = bytes s" "task_heap s6 ?K = Some (t2\<lparr>pgtbase := base\<rparr>)"
    "ctx_heap s6 = (ctx_heap s)(nctx \<mapsto> w\<lparr>c_r0 := 0\<rparr>, ctx \<mapsto> w\<lparr>c_r0 := task_id t\<rparr>)"
    by (simp_all add: s6_def s5'_def s4_def s3_def k2 s1'_def id)
  moreover have "task_fixed (t2\<lparr>pgtbase := base\<rparr>) = task_fixed (t\<lparr>pgtbase := base\<rparr>)"
    using t2(2) by (cases t2; cases t) (simp add: task_fixed_def)
  moreover have "\<forall>j < 4096. m' (entry base j) = (if j = p then identity_desc j AP_USER_RW
         else case task_ap k j of Some ap \<Rightarrow> identity_desc j ap | None \<Rightarrow> ptes s (entry base j))"
  proof -
    have e: "ptes s4 = ptes s" "ptes s6 = m" by (simp_all add: s6_def s5'_def s4_def s3_def k2 s1'_def)
    show ?thesis using r7(2) s5(4) unfolding e by simp
  qed
  ultimately show ?thesis using run by (intro exI [of _ "s6\<lparr>ptes := m'\<rparr>"] exI [of _ "t2\<lparr>pgtbase := base\<rparr>"]) simp
qed


lemma fork_ok:
  assumes pages: "pages_ok s (n # q # fs) us" "page_heap s n = Some nv" "task_frame k nv"
      "pp \<in> set us" "page_heap s pp = Some pv" "task_frame p pv" "inj_on (links pgstart (page_heap s)) (set (us @ [n]))"
    and frames: "0x821 \<le> k" "k < 0xa00" "0x821 \<le> p" "p < 0xa00" "k \<noteq> p"
    and task: "curr_running_task s = section_of p" "task_heap s (section_of p) = Some t" "stk_bottom t = section_of p"
      "stk_top t = section_of p + 0xFFC" "priority t = of_nat i"
    and queues: "rq_ok s qs" "i < 5" "\<forall>x \<in> \<Union> (set (map set qs)). frame_no x \<noteq> k"
    and saved: "ctx_heap s (section_of p + 4 * of_nat j) = Some w" "j \<le> 1010"
    and pool: "kblks_ok s (b # c # bs)" "\<forall>x \<in> {b, c} \<union> set bs. frame_no x \<noteq> k" "links b_start (blk_heap s) b = Some base" "table_ok base"
  shows "\<exists>s' t'. fork_handler (section_of p + 4 * of_nat j) args s = Some s'
    \<and> rq_ok s' (qs[i := qs ! i @ [section_of k]]) \<and> pages_ok s' (q # fs) (us @ [n]) \<and> kblks_ok s' (c # bs)
    \<and> blks_ok s' n (map (blk_at (section_of k + 0x1000)) [3..<256])
    \<and> task_heap s' (section_of k) = Some t' \<and> taskid s' = taskid s + 1
    \<and> task_fixed t' = task_fixed ((child_of k (section_of k + 4 * of_nat j) (taskid s + 1) t)\<lparr>pgtbase := base\<rparr>)
    \<and> ctx_heap s' (section_of k + 4 * of_nat j) = Some (w\<lparr>c_r0 := 0\<rparr>)
    \<and> ctx_heap s' (section_of p + 4 * of_nat j) = Some (w\<lparr>c_r0 := taskid s + 1\<rparr>)
    \<and> (\<forall>a < 4096. bytes s' (section_of k + of_nat a) = bytes s (section_of p + of_nat a))
    \<and> (\<forall>x. 0x820 \<le> x \<and> x < 0xa00 \<longrightarrow> (user_writes (hw_desc (switch_mm base s') (of_nat x)) \<longleftrightarrow> x = k \<or> x = p))"
proof -
  let ?K = "section_of k" and ?P = "section_of p" and ?off = "4 * of_nat j :: u32"
  have small: "k < 4096" "0 < k" "p < 4096" "0 < p" "j \<le> 0x3FF" using frames saved(2) by simp_all
  have u: "unat ?off = 4 * j" using unat_of_nat32 [of "4 * j"] saved(2) by simp
  have off: "frame_no (?K + ?off) = k" "frame_no (?P + ?off) = p" using small u saved(2) by simp_all
  then have apart: "?K + ?off \<noteq> ?P + ?off" "?K + ?off \<noteq> NULL" "?P + ?off \<noteq> NULL"
    using frames(1,3,5) frame_no_def [of 0] by (metis, metis div_0 not_numeral_le_zero unat_0, metis div_0 not_numeral_le_zero unat_0)
  obtain s8 nv' pv' where s8: "fork_handler (?P + ?off) args s = fork_queue k (?K + ?off) (?P + ?off) n nv' pv' s8"
    "n \<noteq> NULL" "page_heap s8 n = Some nv'" "task_frame k nv'" "task_frame p pv'" "pages_ok s8 (q # fs) (us @ [n])"
    "blk_heap s8 = blk_heap s" "kpage s8 = kpage s" "task_ready_list s8 = task_ready_list s"
    "taskid s8 = taskid s + 1" "task_heap s8 ?K = Some (child_of k (?K + ?off) (taskid s + 1) t)"
    "\<forall>x. frame_no x \<noteq> k \<longrightarrow> task_heap s8 x = task_heap s x \<and> ctx_heap s8 x = ctx_heap s x"
    "ctx_heap s8 (?K + ?off) = ctx_heap s (?P + ?off)"
    "\<forall>a < 4096. bytes s8 (?K + of_nat a) = bytes s (?P + of_nat a)"
    using fork_image [OF pages small(1-4) frames(5) task(1-4) small(5), of args] saved(2) by blast
  have "frame_no x \<noteq> k" if "j < 5" "x \<in> set (qs ! j)" for j x using that queues(1,3) by (auto simp: rq_ok_def)
  then have q8: "rq_ok s8 qs" "\<forall>x \<in> set (qs ! i). frame_no x \<noteq> k"
    using queues(2) s8(12) by (auto intro!: rq_ok_agree [OF _ s8(9) queues(1)])
  have c8: "ctx_heap s8 (?K + ?off) = Some w" "ctx_heap s8 (?P + ?off) = Some w"
    using s8(12,13) off frames(5) saved(1) by simp_all
  have p8: "kblks_ok s8 (b # c # bs)" "links b_start (blk_heap s8) b = Some base"
    using pool(1,3) s8(7,8) by (simp_all add: kblks_ok_def)
  have pr: "priority (child_of k (?K + ?off) (taskid s + 1) t) = of_nat i" using task(5) by (simp add: child_of_def)
  obtain s' t' where s': "fork_queue k (?K + ?off) (?P + ?off) n nv' pv' s8 = Some s'"
    "rq_ok s' (qs[i := qs ! i @ [?K]])" "pages_ok s' (q # fs) (us @ [n])" "kblks_ok s' (c # bs)"
    "blks_ok s' n (map (blk_at (?K + 0x1000)) [3..<256])" "taskid s' = taskid s8" "bytes s' = bytes s8"
    "ctx_heap s' = (ctx_heap s8)(?K + ?off \<mapsto> w\<lparr>c_r0 := 0\<rparr>,
       ?P + ?off \<mapsto> w\<lparr>c_r0 := task_id (child_of k (?K + ?off) (taskid s + 1) t)\<rparr>)"
    "task_heap s' ?K = Some t'" "task_fixed t' = task_fixed ((child_of k (?K + ?off) (taskid s + 1) t)\<lparr>pgtbase := base\<rparr>)"
    "\<forall>j < 4096. ptes s' (entry base j) = (if j = p then identity_desc j AP_USER_RW
         else case task_ap k j of Some ap \<Rightarrow> identity_desc j ap | None \<Rightarrow> ptes s8 (entry base j))"
    using fork_queue_ok [OF s8(6,2-5) frames q8(1) queues(2) q8(2) s8(11) pr c8 apart(2,3,1) p8(1) pool(2) p8(2) pool(4)] by blast
  have "user_writes (hw_desc (switch_mm base s') (of_nat x)) \<longleftrightarrow> x = k \<or> x = p" if "0x820 \<le> x \<and> x < 0xa00" for x
    using that s'(11) hw_desc_switch [OF pool(4), of x s'] frames by (auto simp: task_ap_def identity_desc_access)
  then show ?thesis using s8(1,10,14) s' apart(1) by (simp add: child_of_def)
qed

section \<open>Properties\<close>

text \<open>
  C8: \<open>fork\<close>. The child gets a free page, a copy of the parent's first 4 KB (struct, saved context,
  stack) at the same offsets, the next task number, its own table of blocks and its own translation
  table, and is queued behind the tasks of the parent's priority. Both return from the call with the
  same registers but for \<^verbatim>\<open>r0\<close>: the child's number in the parent, 0 in the child. The child's
  table opens its own megabyte and the parent's for writing.
\<close>

theorem fork_correct:
  assumes pages: "pages_ok s (n # q # fs) us" "page_heap s n = Some nv" "task_frame k nv"
      "pp \<in> set us" "page_heap s pp = Some pv" "task_frame p pv" "inj_on (links pgstart (page_heap s)) (set (us @ [n]))"
    and frames: "0x821 \<le> k" "k < 0xa00" "0x821 \<le> p" "p < 0xa00" "k \<noteq> p"
    and task: "curr_running_task s = section_of p" "task_heap s (section_of p) = Some t" "stk_bottom t = section_of p"
      "stk_top t = section_of p + 0xFFC" "priority t = of_nat i"
    and queues: "rq_ok s qs" "i < 5" "\<forall>x \<in> \<Union> (set (map set qs)). frame_no x \<noteq> k"
    and saved: "ctx_heap s (section_of p + 4 * of_nat j) = Some w" "j \<le> 1010"
    and pool: "kblks_ok s (b # c # bs)" "\<forall>x \<in> {b, c} \<union> set bs. frame_no x \<noteq> k" "links b_start (blk_heap s) b = Some base" "table_ok base"
  shows "\<exists>s' t'. fork_handler (section_of p + 4 * of_nat j) args s = Some s'
    \<and> rq_ok s' (qs[i := qs ! i @ [section_of k]]) \<and> pages_ok s' (q # fs) (us @ [n]) \<and> kblks_ok s' (c # bs)
    \<and> blks_ok s' n (map (blk_at (section_of k + 0x1000)) [3..<256])
    \<and> task_heap s' (section_of k) = Some t' \<and> taskid s' = taskid s + 1
    \<and> task_fixed t' = task_fixed ((child_of k (section_of k + 4 * of_nat j) (taskid s + 1) t)\<lparr>pgtbase := base\<rparr>)
    \<and> ctx_heap s' (section_of k + 4 * of_nat j) = Some (w\<lparr>c_r0 := 0\<rparr>)
    \<and> ctx_heap s' (section_of p + 4 * of_nat j) = Some (w\<lparr>c_r0 := taskid s + 1\<rparr>)
    \<and> (\<forall>a < 4096. bytes s' (section_of k + of_nat a) = bytes s (section_of p + of_nat a))
    \<and> (\<forall>x. 0x820 \<le> x \<and> x < 0xa00 \<longrightarrow> (user_writes (hw_desc (switch_mm base s') (of_nat x)) \<longleftrightarrow> x = k \<or> x = p))"
  by (rule fork_ok [OF assms])


text \<open>A parent in frame 0x823, its context saved at 0x82300e00; frame 0x821 is the next free one.\<close>

definition demo_frame :: "addr \<Rightarrow> addr \<Rightarrow> nat \<Rightarrow> page_info" where
  "demo_frame nx pv k = zero_page\<lparr>pg_next := nx, pg_prev := pv, page_status := FREE, pgstart := section_of k,
     task_stk_top := section_of k + 0xFFC, pg_top := section_of k + 0xFFFFC, blk_not_init := C_TRUE\<rparr>"

definition demo_parent :: task_info where
  "demo_parent = (demo_task 0 TASK_RUNNING 0 0)\<lparr>stk_bottom := 0x82300000, stk_top := 0x82300FFC\<rparr>"

definition demo_fork :: "kstate \<Rightarrow> kstate" where
  "demo_fork s0 = s0\<lparr>
     task_heap := [0x82300000 \<mapsto> demo_parent], ctx_heap := [0x82300e00 \<mapsto> zero_ctx],
     task_ready_list := [0x82300000, 0, 0, 0, 0], curr_running_task := 0x82300000,
     page_heap := [0x100 \<mapsto> demo_frame 0x200 0 0x821, 0x200 \<mapsto> demo_frame 0 0x100 0x822, 0x300 \<mapsto> demo_frame 0 0 0x823],
     free_page_head := 0x100, inuse_page_head := 0x300\<rparr>"

lemma demo_fork_ok:
  "pages_ok (demo_fork s0) [0x100, 0x200] [0x300]"
  "page_heap (demo_fork s0) 0x100 = Some (demo_frame 0x200 0 0x821)" "task_frame 0x821 (demo_frame 0x200 0 0x821)"
  "page_heap (demo_fork s0) 0x300 = Some (demo_frame 0 0 0x823)" "task_frame 0x823 (demo_frame 0 0 0x823)"
  "inj_on (links pgstart (page_heap (demo_fork s0))) (set ([0x300] @ [0x100]))"
  "curr_running_task (demo_fork s0) = section_of 0x823" "task_heap (demo_fork s0) (section_of 0x823) = Some demo_parent"
  "stk_bottom demo_parent = section_of 0x823" "stk_top demo_parent = section_of 0x823 + 0xFFC" "priority demo_parent = of_nat 0"
  "rq_ok (demo_fork s0) [[0x82300000], [], [], [], []]"
  "\<forall>x \<in> \<Union> (set (map set [[0x82300000 :: addr], [], [], [], []])). frame_no x \<noteq> 0x821"
  "ctx_heap (demo_fork s0) (section_of 0x823 + 4 * of_nat 0x380) = Some zero_ctx"
  by (simp_all add: demo_fork_def demo_frame_def demo_parent_def demo_task_def zero_task_def zero_page_def pages_ok_def dll_def links_def
      task_frame_def section_of_def rq_ok_def all_less5 frame_no_def)

lemma demo_kpage_frames: "i < 64 \<Longrightarrow> frame_no (blk_at 0x82027400 i) = 0x820"
  using blk_at_unat [of "0x82027400" i] by (simp add: frame_no_def)

theorem fork_correct_witness:
  "\<exists>s0 s'. kpage_blks_init 0 demo_kpage = Some s0 \<and> fork_handler 0x82300e00 0 (demo_fork s0) = Some s'
    \<and> rq_ok s' [[0x82300000, 0x82100000], [], [], [], []] \<and> pages_ok s' [0x200] [0x300, 0x100]"
proof -
  let ?at = "blk_at 0x82027400"
  obtain s0 h where s0: "kpage_blks_init 0 demo_kpage = Some s0" "kblks_ok s0 (map ?at [40..<64])" "kblk_array s0"
    "s0 = demo_kpage\<lparr>blk_heap := h, kblk_list_base := 0x82027400, kpage := (kpage demo_kpage)\<lparr>
         blk_list_head := blk_at 0x82027400 40, free_start := 0x82028000\<rparr>\<rparr>"
    using demo_kpage_boot by blast
  have split: "map ?at [40..<64] = ?at 40 # ?at 41 # map ?at [42..<64]" by (simp add: upt_conv_Cons del: upt_rec_numeral)
  have ks: "kblks_ok (demo_fork s0) (?at 40 # ?at 41 # map ?at [42..<64])" using s0(2) unfolding split by (simp add: kblks_ok_def demo_fork_def)
  have fr: "\<forall>x \<in> {?at 40, ?at 41} \<union> set (map ?at [42..<64]). frame_no x \<noteq> 0x821"
    using demo_kpage_frames by (auto simp del: upt_rec_numeral)
  have st: "links b_start (blk_heap (demo_fork s0)) (?at 40) = Some 0x820a0000" "table_ok 0x820a0000"
    using s0(3,4) by (simp_all add: kblk_array_def demo_fork_def block_start_def table_ok_def mask_eq_exp_minus_1)
  obtain s' where "fork_handler (section_of 0x823 + 4 * of_nat 0x380) 0 (demo_fork s0) = Some s'"
    "rq_ok s' ([[0x82300000], [], [], [], []][0 := [[0x82300000], [], [], [], []] ! 0 @ [section_of 0x821]])"
    "pages_ok s' (0x200 # []) ([0x300] @ [0x100])"
    using fork_correct [OF demo_fork_ok(1-3) _ demo_fork_ok(4-6) _ _ _ _ _ demo_fork_ok(7-12) _ demo_fork_ok(13,14) _ ks fr st, of 0] by auto
  then show ?thesis using s0(1) by (auto simp: section_of_def)
qed

end
