(* ===== verification/Boot.thy ===== *)
theory Boot
  imports Interrupt SysFork
begin

text \<open>
  The kernel's entry, \<^verbatim>\<open>src/src/kernel/main.c\<close>, and the dumps of \<^verbatim>\<open>debug.c\<close>.
  \<open>READ_SP\<close>, \<open>READ_CPSR\<close> and the vector base register are read by assembly and are parameters, and so
  are the bounds of the bss section (from the linker) and the two local variables that the code reads
  before it sets them.
\<close>

unbundle bit_operations_syntax

section \<open>Dumps\<close>

text \<open>\<open>print_LR\<close> spins after its output.\<close>

definition print_LR :: "u32 \<Rightarrow> kstate \<Rightarrow> kstate option" where
  "print_LR data s = printk (cstr (''LR : %x'' @ crlf)) [data] s"

definition print_SP :: "u32 \<Rightarrow> kstate \<Rightarrow> kstate option" where
  "print_SP data s = printk (cstr (''SP : %x'' @ crlf)) [data] s"

definition print_here :: "kstate \<Rightarrow> kstate option" where
  "print_here s = printk (cstr (''HERE'' @ crlf)) [] s"

definition print_cpsr :: "u32 \<Rightarrow> kstate \<Rightarrow> kstate option" where
  "print_cpsr READ_CPSR s = printk (cstr (''cpsr : %x '' @ crlf)) [READ_CPSR] s"

definition stk_display :: "addr \<Rightarrow> nat \<Rightarrow> kstate \<Rightarrow> kstate option" where
  "stk_display stktop num s =
     for_each (\<lambda>i s. do {
         w \<leftarrow> load32 (stktop - 4 * of_nat i) s;
         printk (cstr (''MEM ADDR : %p --- CONTENT : %x'' @ crlf)) [stktop - 4 * of_nat i, w] s
       }) [0..<num] s"

definition get_cpsr_mode :: "u32 \<Rightarrow> kstate \<Rightarrow> (u32 \<times> kstate) option" where
  "get_cpsr_mode READ_CPSR s = do {
     let mode = READ_CPSR AND 0x1F;
     s \<leftarrow> (if mode = 0x10 then printk (cstr (''In user mode. cpsr mode bits :%x'' @ crlf)) [mode] s
           else if mode = 0x1f then printk (cstr (''In system mode. cpsr mode bits :%x'' @ crlf)) [mode] s
           else if mode = 0x12 then printk (cstr (''In irq mode. cpsr mode bits :%x'' @ crlf)) [mode] s
           else if mode = 0x13 then printk (cstr (''In kernel mode. cpsr mode bits :%x'' @ crlf)) [mode] s
           else Some s);
     Some (mode, s)
   }"

definition print_R0_R1_R2_R3 :: "u32 \<Rightarrow> u32 \<Rightarrow> u32 \<Rightarrow> u32 \<Rightarrow> kstate \<Rightarrow> kstate option" where
  "print_R0_R1_R2_R3 r0 r1 r2 r3 s = printk (cstr (''R0 : %x---R1 : %x---R2 : %x---R3 : %x'' @ crlf)) [r0, r1, r2, r3] s"

definition print_page :: "page_info \<Rightarrow> kstate \<Rightarrow> kstate option" where
  "print_page v s = do {
     s \<leftarrow> printk (cstr ''%p  '') [pgstart v] s;
     s \<leftarrow> printk (cstr ''mem page id:%d  '') [page_id v] s;
     printk (cstr (''mem page status:%d'' @ crlf)) [page_status v] s
   }"

text \<open>Ten nodes, whether the list has them or not.\<close>

fun print_pages :: "(page_info \<Rightarrow> addr) \<Rightarrow> nat \<Rightarrow> addr \<Rightarrow> kstate \<Rightarrow> kstate option" where
  "print_pages nxt 0 p s = Some s"
| "print_pages nxt (Suc n) p s = do {
     v \<leftarrow> deref (page_heap s) p;
     s \<leftarrow> print_page v s;
     print_pages nxt n (nxt v) s
   }"

definition print_free_area_list_from_head :: "kstate \<Rightarrow> kstate option" where
  "print_free_area_list_from_head s = do {
     s \<leftarrow> printk (cstr (''Print free list from head'' @ crlf)) [] s;
     print_pages pg_next 10 (free_page_head s) s
   }"

definition print_free_area_list_from_end :: "kstate \<Rightarrow> kstate option" where
  "print_free_area_list_from_end s = do {
     end \<leftarrow> walk_end pg_next (page_heap s) (free_page_head s);
     s \<leftarrow> printk (cstr (''Print free list from end'' @ crlf)) [] s;
     print_pages pg_prev 10 end s
   }"

fun print_inuse :: "nat \<Rightarrow> addr \<Rightarrow> kstate \<Rightarrow> kstate option" where
  "print_inuse 0 p s = Some s"
| "print_inuse (Suc n) p s = do {
     v \<leftarrow> deref (page_heap s) p;
     s \<leftarrow> print_page v s;
     if pg_next v = NULL then Some s else print_inuse n (pg_next v) s
   }"

definition print_inuse_area_list_from_head :: "kstate \<Rightarrow> kstate option" where
  "print_inuse_area_list_from_head s = do {
     s \<leftarrow> printk (cstr (''Print inuse list'' @ crlf)) [] s;
     print_inuse 10 (inuse_page_head s) s
   }"

partial_function (option) print_blk_chain :: "addr \<Rightarrow> kstate \<Rightarrow> kstate option" where
  "print_blk_chain blkstart s = do {
     b \<leftarrow> deref (blk_heap s) blkstart;
     s \<leftarrow> printk (cstr (''addr=%p ,content=%p'' @ crlf)) [blkstart, b_start b] s;
     if b_next b \<noteq> NULL then print_blk_chain (b_next b) s else Some s
   }"

declare print_blk_chain.simps [code]

definition print_from_blk_head :: "addr \<Rightarrow> kstate \<Rightarrow> kstate option" where
  "print_from_blk_head pg s = do {
     v \<leftarrow> deref (page_heap s) pg;
     print_blk_chain (blk_list_head v) s
   }"

section \<open>Boot\<close>

text \<open>\<^verbatim>\<open>_memset\<close> on the kernel's page table: bytes, and the descriptors among them.\<close>

definition clear_table :: "addr \<Rightarrow> u32 \<Rightarrow> kstate \<Rightarrow> kstate option" where
  "clear_table start n s = do {
     s \<leftarrow> mem_set start 0 n s;
     Some (s\<lparr>ptes := \<lambda>a. if a - start < n then 0 else ptes s a\<rparr>)
   }"

record boot_env =
  sbss :: addr
  ebss :: addr
  env_sp :: u32
  env_cpsr :: u32
  env_vbar :: u32
  junk_j :: u32
  junk_name :: "char list"
  shell_entry :: addr

text \<open>
  The scheduler does not come back; the value is the state in which the first task runs and the
  context it starts with.
\<close>

definition kernal_entry :: "boot_env \<Rightarrow> kstate \<Rightarrow> (kstate \<times> task_context) option" where
  "kernal_entry e s = do {
     s \<leftarrow> printk (cstr (crlf @ ''Kernel Init start...'' @ crlf)) [] s;
     s \<leftarrow> printk (cstr (crlf @ ''Init bss...'' @ crlf)) [] s;
     s \<leftarrow> bss_init (sbss e) (ebss e) s;
     s \<leftarrow> clear_table (KERN_PADDR s) BLK_SIZE s;
     s \<leftarrow> mmu_init s;
     s \<leftarrow> printk (cstr (''Enable MMU.'' @ crlf)) [] s;
     s \<leftarrow> printk (cstr (''sp : %x ---CPSR : %x'' @ crlf)) [env_sp e, env_cpsr e] s;
     s \<leftarrow> printk (cstr (''Exception Vector Base = %x'' @ crlf)) [get_ivt_base (env_vbar e) s] s;
     s \<leftarrow> printk (cstr (''kernel_end address :%x'' @ crlf)) [kernal_end s] s;
     let s = usrled_init s;
     s \<leftarrow> printk (cstr (CHR 0x0A # ''Initialize user leds...'' @ crlf)) [] s;
     let s = irq_init s;
     s \<leftarrow> printk (cstr (''Init interrupt.'' @ crlf)) [] s;
     let s = ostick_init DMTIMER0_BASE s;
     let s = enable_ostick 66 s;
     s \<leftarrow> printk (cstr (''Init Timer0 to switch tasks.'' @ crlf)) [] s;
     let s = kpage_struct_init s;
     s \<leftarrow> page_list_init s;
     s \<leftarrow> kpage_blks_init (junk_j e) s;
     (_, s) \<leftarrow> file_in_ram_init (junk_name e) s;
     s \<leftarrow> printk (cstr (''Init Tasks Shell...'' @ crlf)) [] s;
     let s = task_init s;
     s \<leftarrow> do_task_create 4 (shell_entry e) s;
     s \<leftarrow> printk (cstr (''Sched Starting...'' @ crlf)) [] s;
     s \<leftarrow> disable_watchdog WATCHDOG_BASE s;
     let s = set_first_sched s;
     call_sched s
   }"

end
