(* ===== verification/TaskCreate.thy ===== *)
theory TaskCreate
  imports SysFork
begin

text \<open>
  New tasks: \<open>do_task_create\<close> of \<^verbatim>\<open>src/src/kernel/task.c\<close>, with which the kernel starts the shell, and the system
  call \<open>task_create\<close>. Both end in the same steps, \<open>start_task\<close>.
\<close>

section \<open>The console descriptors\<close>

definition console_files :: "kstate \<Rightarrow> addr \<Rightarrow> addr \<Rightarrow> bool" where
  "console_files s f1 f2 \<longleftrightarrow> f1 \<noteq> NULL \<and> f2 \<noteq> NULL \<and> (\<exists>fs. fs \<noteq> [] \<and> terminated_files s fs
     \<and> chain (links f_list_next (file_heap s)) (file_list_head s) fs
     \<and> first_or_NULL (\<lambda>p. file_text s p = Some ''/console_in'') fs = f1
     \<and> first_or_NULL (\<lambda>p. file_text s p = Some ''/console_out'') fs = f2)"

lemma console_files_cong:
  "file_heap s' = file_heap s \<Longrightarrow> file_list_head s' = file_list_head s \<Longrightarrow> console_files s' f1 f2 \<longleftrightarrow> console_files s f1 f2"
  by (simp add: console_files_def terminated_files_def file_text_def)

lemma console_names:
  "str_at (Cells FILE_CONSOLE_IN) ''/console_in'' s" "str_at (Cells FILE_CONSOLE_OUT) ''/console_out'' s"
proof -
  have "NUL \<in> set FILE_CONSOLE_IN" "text_of FILE_CONSOLE_IN = ''/console_in''"
    "NUL \<in> set FILE_CONSOLE_OUT" "text_of FILE_CONSOLE_OUT = ''/console_out''"
    by (simp_all add: FILE_CONSOLE_IN_def FILE_CONSOLE_OUT_def)
  then show "str_at (Cells FILE_CONSOLE_IN) ''/console_in'' s" "str_at (Cells FILE_CONSOLE_OUT) ''/console_out'' s"
    using str_at_text_of by metis+
qed

lemma find_console:
  assumes "console_files s f1 f2"
  shows "find_file (Cells FILE_CONSOLE_IN) s = Some f1" "find_file (Cells FILE_CONSOLE_OUT) s = Some f2"
  using assms find_file_ok [OF console_names(1)] find_file_ok [OF console_names(2)]
  by (auto simp: console_files_def find_file_def)

abbreviation (input) console_fds :: "addr \<Rightarrow> addr \<Rightarrow> addr list" where
  "console_fds f1 f2 \<equiv> [f1, f2, 0, 0, 0, 0, 0, 0]"

lemma open_console_ok:
  assumes "console_files s f1 f2" and "task \<noteq> NULL" and "task_heap s task = Some t" and "openfiles t = replicate 8 0"
  shows "open_console_in_out task s = Some (s\<lparr>task_heap := (task_heap s)(task \<mapsto> t\<lparr>openfiles := console_fds f1 f2\<rparr>)\<rparr>)"
proof -
  have f: "f1 \<noteq> NULL" "f2 \<noteq> NULL" using assms(1) by (simp_all add: console_files_def)
  define u where "u = s\<lparr>task_heap := (task_heap s)(task \<mapsto> t\<lparr>openfiles := (openfiles t)[0 := f1]\<rparr>)\<rparr>"
  have fd: "free_fd (openfiles t) [0..<8] = int 0" "free_fd ((openfiles t)[0 := f1]) [0..<8] = int 1"
    using f(1) by (simp_all add: assms(4) upt_conv_Cons numeral_eq_Suc del: upt_rec_numeral)
  have "file_open (Cells FILE_CONSOLE_IN) task s = Some (int 0, u)"
    using file_open_slot [OF find_console(1) [OF assms(1)] f(1) assms(2,3) fd(1)] by (simp add: u_def)
  moreover have "console_files u f1 f2" using assms(1) console_files_cong [of u s] by (simp add: u_def)
  then have "file_open (Cells FILE_CONSOLE_OUT) task u
      = Some (int 1, u\<lparr>task_heap := (task_heap u)(task \<mapsto> t\<lparr>openfiles := ((openfiles t)[0 := f1])[1 := f2]\<rparr>)\<rparr>)"
    using file_open_slot [OF find_console(2) f(2) assms(2), of u f1 "t\<lparr>openfiles := (openfiles t)[0 := f1]\<rparr>" 1] fd(2) by (simp add: u_def)
  ultimately show ?thesis
    using assms(4) by (simp add: open_console_in_out_def u_def numeral_eq_Suc)
qed

section \<open>The struct and the first context\<close>

definition new_task :: "nat \<Rightarrow> u32 \<Rightarrow> addr \<Rightarrow> u32 \<Rightarrow> task_info" where
  "new_task k pr f i = zero_task\<lparr>stk_bottom := section_of k, stk_top := section_of k + 0xFFC, taskCallBack := f, task_id := i,
     task_status := TASK_READY, task_context_ptr := section_of k + 0xFC0, priority := pr\<rparr>"

definition first_context :: "addr \<Rightarrow> task_context" where
  "first_context f = zero_ctx\<lparr>c_r9_return_lr := f\<rparr>"

lemma first_frame: "stkbottom2top (section_of k) - 4 * 15 = section_of k + 0xFC0" "stkbottom2top (section_of k) = section_of k + 0xFFC"
  by (simp_all add: stkbottom2top_def)

lemma create_task_ok:
  assumes "task_heap s (section_of k) = Some zero_task" and "ctx_heap s (section_of k + 0xFC0) = Some zero_ctx"
    and "section_of k \<noteq> NULL" and "section_of k + 0xFC0 \<noteq> NULL"
  shows "create_task (section_of k) f (section_of k) pr s = Some (taskid s + 1, s\<lparr>taskid := taskid s + 1,
      task_heap := (task_heap s)(section_of k \<mapsto> new_task k pr f (taskid s + 1)),
      ctx_heap := (ctx_heap s)(section_of k + 0xFC0 \<mapsto> first_context f)\<rparr>)"
proof -
  define c where "c = section_of k + 0xFC0"
  show ?thesis using assms unfolding create_task_def Let_def unfolding first_frame(1) unfolding c_def [symmetric] first_frame(2)
    by (simp add: upd_objs new_task_def c_def [symmetric] first_context_def zero_task_def)
qed


section \<open>The common end\<close>

text \<open>
  Blocks, console descriptors, the working directory \<open>d\<close>, the ready list and the translation table of a task
  whose struct is made.
\<close>

definition start_task :: "nat \<Rightarrow> addr \<Rightarrow> page_info \<Rightarrow> (kstate \<Rightarrow> addr option) \<Rightarrow> kstate \<Rightarrow> kstate option" where
  "start_task k n nv d s = do {
     (_, s) \<leftarrow> blks_init n s;
     s \<leftarrow> open_console_in_out (section_of k) s;
     c \<leftarrow> d s;
     s \<leftarrow> upd_task (section_of k) (\<lambda>t. t\<lparr>cwdn := c\<rparr>) s;
     s \<leftarrow> task_enqueue (section_of k) s;
     (pt, s) \<leftarrow> task_pgt_setup (section_of k) (pg_top nv) s;
     upd_task (section_of k) (\<lambda>t. t\<lparr>pgtbase := pt\<rparr>) s
   }"

text \<open>What of the state these steps may change.\<close>

definition no_start :: "kstate \<Rightarrow> kstate" where
  "no_start s = s\<lparr>page_heap := Map.empty, blk_heap := Map.empty, kpage := zero_page, task_heap := Map.empty,
     task_ready_list := [], ptes := \<lambda>_. 0\<rparr>"

lemma no_start_tasks: "no_tasks s' = no_tasks s \<Longrightarrow> no_start s' = no_start s"
proof -
  have "no_start s = no_start (no_tasks s)" for s by (simp add: no_start_def no_tasks_def)
  then show "no_tasks s' = no_tasks s \<Longrightarrow> no_start s' = no_start s" by metis
qed

lemma task_fixed_pgtbase: "task_fixed t = task_fixed u \<Longrightarrow> task_fixed (t\<lparr>pgtbase := b\<rparr>) = task_fixed (u\<lparr>pgtbase := b\<rparr>)"
  by (cases t; cases u) (simp add: task_fixed_def)

lemma queue_and_map:
  assumes pages: "pages_ok s fs us" and frames: "0x821 \<le> k" "k < 0xa00"
    and queues: "rq_ok s qs" "i < 5" "section_of k \<notin> set (qs ! i)"
    and child: "task_heap s (section_of k) = Some t" "priority t = of_nat i"
    and pool: "kblks_ok s (b # c # bs)" "frame_no b \<noteq> k" "frame_no c \<noteq> k" "links b_start (blk_heap s) b = Some base" "table_ok base"
  shows "\<exists>s' t'. do {
        s \<leftarrow> task_enqueue (section_of k) s;
        (pt, s) \<leftarrow> task_pgt_setup (section_of k) (section_of k + 0xFFFFC) s;
        upd_task (section_of k) (\<lambda>t. t\<lparr>pgtbase := pt\<rparr>) s } = Some s'
    \<and> rq_ok s' (qs[i := qs ! i @ [section_of k]]) \<and> pages_ok s' fs us \<and> kblks_ok s' (c # bs)
    \<and> task_heap s' (section_of k) = Some t' \<and> task_fixed t' = task_fixed (t\<lparr>pgtbase := base\<rparr>)
    \<and> (\<forall>j < 4096. ptes s' (entry base j) = (case task_ap k j of Some ap \<Rightarrow> identity_desc j ap | None \<Rightarrow> ptes s (entry base j)))
    \<and> page_heap s' = page_heap s \<and> (\<forall>x. frame_no x = k \<longrightarrow> blk_heap s' x = blk_heap s x) \<and> no_start s' = no_start s"
proof -
  let ?K = "section_of k"
  have KN: "?K \<noteq> NULL" using task_page_range [of k 1] frames by (simp add: valid_range_def)
  obtain s1 where s1: "task_enqueue ?K s = Some s1" "rq_ok s1 (qs[i := qs ! i @ [?K]])" "same_tasks s s1"
    using task_enqueue_ok [OF queues(1) KN child(1) queues(3) child(2) queues(2)] by blast
  note k1 = no_tasks_keeps [OF same_tasks_keeps [OF s1(3)]]
  obtain t1 where t1: "task_heap s1 ?K = Some t1" "task_fixed t1 = task_fixed t" using same_tasks_at [OF s1(3) child(1)] by blast
  have b1: "kblks_ok s1 (b # c # bs)" "links b_start (blk_heap s1) b = Some base"
    using pool(1,4) by (simp_all add: k1 kblks_ok_def)
  obtain h g m where s2: "task_pgt_setup ?K (?K + 0xFFFFC) s1 = Some (base, s1\<lparr>kpage := g, blk_heap := h, ptes := m\<rparr>)"
    "kblks_ok (s1\<lparr>kpage := g, blk_heap := h, ptes := m\<rparr>) (c # bs)" "\<forall>x. x \<noteq> b \<and> x \<noteq> c \<longrightarrow> h x = blk_heap s1 x"
    "\<forall>j < 4096. m (entry base j) = (case task_ap k j of Some ap \<Rightarrow> identity_desc j ap | None \<Rightarrow> ptes s1 (entry base j))"
    using child_table [OF b1 pool(5) frames] by blast
  define s2' where "s2' = s1\<lparr>kpage := g, blk_heap := h, ptes := m\<rparr>"
  define s3 where "s3 = s2'\<lparr>task_heap := (task_heap s2')(?K \<mapsto> t1\<lparr>pgtbase := base\<rparr>)\<rparr>"
  have r3: "upd_task ?K (\<lambda>t. t\<lparr>pgtbase := base\<rparr>) s2' = Some s3" using t1(1) KN by (simp add: s3_def s2'_def upd_objs)
  have "rq_ok s3 (qs[i := qs ! i @ [?K]])"
    by (rule rq_ok_links [THEN iffD2, OF _ _ _ _ s1(2)])
      (use t1(1) in \<open>simp_all add: s3_def s2'_def links_upd_other del: links_upd\<close>)
  moreover have "pages_ok s3 fs us" by (rule pages_ok_agree [OF _ _ _ _ pages]) (simp_all add: s3_def s2'_def k1)
  moreover have "kblks_ok s3 (c # bs)" using s2(2) by (simp add: s3_def s2'_def kblks_ok_def)
  moreover have "task_heap s3 ?K = Some (t1\<lparr>pgtbase := base\<rparr>)" by (simp add: s3_def)
  moreover have "\<forall>j < 4096. ptes s3 (entry base j) = (case task_ap k j of Some ap \<Rightarrow> identity_desc j ap | None \<Rightarrow> ptes s (entry base j))"
    using s2(4) unfolding k1(11) by (simp add: s3_def s2'_def)
  moreover have "\<forall>x. frame_no x = k \<longrightarrow> blk_heap s3 x = blk_heap s x"
    using pool(2,3) s2(3) by (auto simp: s3_def s2'_def k1)
  moreover have "no_start s3 = no_start s1" "no_start s1 = no_start s"
    using no_start_tasks [OF same_tasks_keeps [OF s1(3)]] by (simp_all add: s3_def s2'_def no_start_def)
  moreover have "page_heap s3 = page_heap s" by (simp add: s3_def s2'_def k1)
  ultimately show ?thesis using task_fixed_pgtbase [OF t1(2), of base] s1(1) s2(1) r3 [unfolded s2'_def]
    by (intro exI [of _ s3] exI [of _ "t1\<lparr>pgtbase := base\<rparr>"]) simp
qed

lemma start_task_ok:
  assumes pages: "pages_ok s fs us" "n \<noteq> NULL" "page_heap s n = Some nv" "task_frame k nv"
    and frames: "0x821 \<le> k" "k < 0xa00"
    and queues: "rq_ok s qs" "i < 5" "\<forall>x \<in> set (qs ! i). frame_no x \<noteq> k"
    and child: "task_heap s (section_of k) = Some t" "priority t = of_nat i" "openfiles t = replicate 8 0"
    and files: "console_files s f1 f2"
    and dir: "\<forall>s'. no_start s' = no_start s \<and> (\<forall>x. x \<noteq> section_of k \<longrightarrow> task_heap s' x = task_heap s x) \<longrightarrow> d s' = Some c"
    and pool: "kblks_ok s (b # c' # bs)" "\<forall>x \<in> {b, c'} \<union> set bs. frame_no x \<noteq> k" "links b_start (blk_heap s) b = Some base" "table_ok base"
  shows "\<exists>s' t'. start_task k n nv d s = Some s'
    \<and> rq_ok s' (qs[i := qs ! i @ [section_of k]]) \<and> pages_ok s' fs us \<and> kblks_ok s' (c' # bs)
    \<and> blks_ok s' n (map (blk_at (section_of k + 0x1000)) [3..<256])
    \<and> task_heap s' (section_of k) = Some t' \<and> task_fixed t' = task_fixed (t\<lparr>openfiles := console_fds f1 f2, cwdn := c, pgtbase := base\<rparr>)
    \<and> (\<forall>j < 4096. ptes s' (entry base j) = (case task_ap k j of Some ap \<Rightarrow> identity_desc j ap | None \<Rightarrow> ptes s (entry base j)))
    \<and> no_start s' = no_start s"
proof -
  let ?K = "section_of k" and ?bl = "map (blk_at (section_of k + 0x1000)) [3..<256]"
  have KN: "?K \<noteq> NULL" using task_page_range [of k 1] frames by (simp add: valid_range_def)
  obtain h v' where s1: "blks_init n s = Some (n, s\<lparr>page_heap := (page_heap s)(n \<mapsto> v'), blk_heap := h\<rparr>)"
    "pages_ok (s\<lparr>page_heap := (page_heap s)(n \<mapsto> v'), blk_heap := h\<rparr>) fs us"
    "kblks_ok (s\<lparr>page_heap := (page_heap s)(n \<mapsto> v'), blk_heap := h\<rparr>) (b # c' # bs)"
    "\<forall>x. frame_no x \<noteq> k \<longrightarrow> h x = blk_heap s x"
    "blks_ok (s\<lparr>page_heap := (page_heap s)(n \<mapsto> v'), blk_heap := h\<rparr>) n ?bl"
    using child_blocks [OF pages(1-4) _ pool(1)] frames(2) pool(2) by auto
  define s1' where "s1' = s\<lparr>page_heap := (page_heap s)(n \<mapsto> v'), blk_heap := h\<rparr>"
  note s1 = s1 [folded s1'_def]
  define t1 where "t1 = t\<lparr>openfiles := console_fds f1 f2\<rparr>"
  define s2 where "s2 = s1'\<lparr>task_heap := (task_heap s1')(?K \<mapsto> t1)\<rparr>"
  have r2: "open_console_in_out ?K s1' = Some s2"
    using open_console_ok [of s1' f1 f2 ?K t] files child(1,3) KN console_files_cong [of s1' s] by (simp add: s1'_def s2_def t1_def)
  have dir2: "d s2 = Some c" by (rule dir [rule_format]) (simp add: s2_def s1'_def no_start_def)
  define s3 where "s3 = s2\<lparr>task_heap := (task_heap s2)(?K \<mapsto> t1\<lparr>cwdn := c\<rparr>)\<rparr>"
  have r3: "upd_task ?K (\<lambda>t. t\<lparr>cwdn := c\<rparr>) s2 = Some s3" using KN by (simp add: s3_def s2_def upd_objs)
  have q3: "rq_ok s3 qs"
    by (rule rq_ok_links [THEN iffD2, OF _ _ _ _ queues(1)])
      (use child(1) in \<open>simp_all add: s3_def s2_def s1'_def t1_def links_upd_other del: links_upd\<close>)
  have p3: "pages_ok s3 fs us" "kblks_ok s3 (b # c' # bs)" "links b_start (blk_heap s3) b = Some base"
    "task_heap s3 ?K = Some (t1\<lparr>cwdn := c\<rparr>)" "priority (t1\<lparr>cwdn := c\<rparr>) = of_nat i" "?K \<notin> set (qs ! i)"
    using s1(2,3,4) pool(2,3) child(2) queues(3) frames(2)
    by (auto simp: s3_def s2_def s1'_def t1_def kblks_ok_def links_def pages_ok_def)
  obtain s4 t4 where s4: "do {
        s \<leftarrow> task_enqueue ?K s3;
        (pt, s) \<leftarrow> task_pgt_setup ?K (?K + 0xFFFFC) s;
        upd_task ?K (\<lambda>t. t\<lparr>pgtbase := pt\<rparr>) s } = Some s4"
    "rq_ok s4 (qs[i := qs ! i @ [?K]])" "pages_ok s4 fs us" "kblks_ok s4 (c' # bs)"
    "task_heap s4 ?K = Some t4" "task_fixed t4 = task_fixed (t1\<lparr>cwdn := c, pgtbase := base\<rparr>)"
    "\<forall>j < 4096. ptes s4 (entry base j) = (case task_ap k j of Some ap \<Rightarrow> identity_desc j ap | None \<Rightarrow> ptes s3 (entry base j))"
    "page_heap s4 = page_heap s3" "\<forall>x. frame_no x = k \<longrightarrow> blk_heap s4 x = blk_heap s3 x" "no_start s4 = no_start s3"
    using queue_and_map [OF p3(1) frames q3 queues(2) p3(6,4,5,2) _ _ p3(3) pool(4)] pool(2) by blast
  have top: "pg_top nv = ?K + 0xFFFFC" using pages(4) by (simp add: task_frame_def)
  have run: "start_task k n nv d s = Some s4"
    by (simp only: start_task_def s1(1) r2 dir2 r3 top s4(1) Option.bind.simps prod.case)
  have "blks_ok s4 n ?bl"
    by (rule blks_ok_agree [OF _ _ s1(5)]) (use frames(2) s4(8,9) in \<open>auto simp: s3_def s2_def\<close>)
  moreover have pt: "ptes s3 = ptes s" "no_start s3 = no_start s" by (simp_all add: s3_def s2_def s1'_def no_start_def)
  ultimately show ?thesis using run s4(2-6,10) s4(7) [unfolded pt] unfolding t1_def
    by (intro exI [of _ s4] exI [of _ t4]) (simp del: upt_rec_numeral)
qed


section \<open>The page and the struct\<close>

definition no_fresh :: "kstate \<Rightarrow> kstate" where
  "no_fresh s = (no_pages s)\<lparr>bytes := \<lambda>_. 0, task_heap := Map.empty, ctx_heap := Map.empty, taskid := 0\<rparr>"

lemma no_fresh_keeps:
  assumes eq: "no_fresh s' = no_fresh s"
  shows "blk_heap s' = blk_heap s" "kpage s' = kpage s" "ptes s' = ptes s" "task_ready_list s' = task_ready_list s"
    "curr_running_task s' = curr_running_task s" "file_heap s' = file_heap s" "file_list_head s' = file_list_head s" "root s' = root s"
proof -
  show "blk_heap s' = blk_heap s" using arg_cong [OF eq, of blk_heap] by (simp add: no_fresh_def no_pages_def)
  show "kpage s' = kpage s" using arg_cong [OF eq, of kpage] by (simp add: no_fresh_def no_pages_def)
  show "ptes s' = ptes s" using arg_cong [OF eq, of ptes] by (simp add: no_fresh_def no_pages_def)
  show "task_ready_list s' = task_ready_list s" using arg_cong [OF eq, of task_ready_list] by (simp add: no_fresh_def no_pages_def)
  show "curr_running_task s' = curr_running_task s" using arg_cong [OF eq, of curr_running_task] by (simp add: no_fresh_def no_pages_def)
  show "file_heap s' = file_heap s" using arg_cong [OF eq, of file_heap] by (simp add: no_fresh_def no_pages_def)
  show "file_list_head s' = file_list_head s" using arg_cong [OF eq, of file_list_head] by (simp add: no_fresh_def no_pages_def)
  show "root s' = root s" using arg_cong [OF eq, of root] by (simp add: no_fresh_def no_pages_def)
qed

lemma page_frame_no: "k < 4096 \<Longrightarrow> in_range (section_of k) 4096 a \<Longrightarrow> frame_no a = k"
  unfolding frame_no_def using unat_section_of [of k] by (intro div_nat_eqI) (auto simp: in_range_def)

lemma fresh_task:
  assumes pages: "pages_ok s (n # q # fs) us" "page_heap s n = Some nv" "task_frame k nv"
    and frames: "0x821 \<le> k" "k < 0xa00"
    and queues: "rq_ok s qs" "\<forall>x \<in> \<Union> (set (map set qs)). frame_no x \<noteq> k"
  shows "\<exists>s1 s2 s3 s4 nv'. page_alloc s = Some (n, s1) \<and> upd_page n (\<lambda>p. p\<lparr>page_status := FOR_TASK\<rparr>) s1 = Some s2
    \<and> page_heap s2 n = Some nv' \<and> clear_task_page (section_of k) s2 = Some s3
    \<and> create_task (section_of k) f (section_of k) pr s3 = Some (taskid s + 1, s4)
    \<and> task_frame k nv' \<and> n \<noteq> NULL \<and> page_heap s4 n = Some nv' \<and> pages_ok s4 (q # fs) (us @ [n]) \<and> rq_ok s4 qs
    \<and> links pg_fixed (page_heap s4) = links pg_fixed (page_heap s)
    \<and> task_heap s4 = (task_heap s)(section_of k \<mapsto> new_task k pr f (taskid s + 1))
    \<and> ctx_heap s4 = (ctx_heap s)(section_of k + 0xFC0 \<mapsto> first_context f)
    \<and> taskid s4 = taskid s + 1 \<and> bytes s4 = bytes s3 \<and> (\<forall>a. frame_no a \<noteq> k \<longrightarrow> bytes s4 a = bytes s a)
    \<and> no_fresh s4 = no_fresh s"
proof -
  let ?K = "section_of k"
  have k: "k < 4096" "0 < k" using frames by simp_all
  have "frame_no (?K + 0xFC0) = k" "frame_no ?K = k" using k by simp_all
  then have nn: "?K \<noteq> NULL" "?K + 0xFC0 \<noteq> NULL"
    using k(2) frame_no_def [of 0] by (metis div_0 less_numeral_extra(3) unat_0)+
  obtain s1 s2 s3 nv' m where s3: "page_alloc s = Some (n, s1)" "upd_page n (\<lambda>p. p\<lparr>page_status := FOR_TASK\<rparr>) s1 = Some s2"
    "page_heap s2 n = Some nv'" "task_frame k nv'" "clear_task_page ?K s2 = Some s3"
    "n \<noteq> NULL" "page_heap s3 n = Some nv'" "pages_ok s3 (q # fs) (us @ [n])"
    "links pg_fixed (page_heap s3) = links pg_fixed (page_heap s)"
    "no_pages s3 = (no_pages s)\<lparr>bytes := m, task_heap := (task_heap s)(?K \<mapsto> zero_task),
         ctx_heap := (ctx_heap s)(stkbottom2top ?K - 4 * 15 \<mapsto> zero_ctx)\<rparr>"
    "\<forall>a. \<not> in_range ?K 4096 a \<longrightarrow> m a = bytes s a"
    using take_page [OF pages k] by blast
  note k3 = same_but_pages [OF s3(10), unfolded first_frame(1)]
  define s4 where "s4 = s3\<lparr>taskid := taskid s3 + 1, task_heap := (task_heap s3)(?K \<mapsto> new_task k pr f (taskid s3 + 1)),
      ctx_heap := (ctx_heap s3)(?K + 0xFC0 \<mapsto> first_context f)\<rparr>"
  have r4: "create_task ?K f ?K pr s3 = Some (taskid s + 1, s4)"
    using create_task_ok [OF _ _ nn, of s3 f pr] by (simp add: k3 s4_def)
  have h4: "task_heap s4 = (task_heap s)(?K \<mapsto> new_task k pr f (taskid s + 1))"
    "ctx_heap s4 = (ctx_heap s)(?K + 0xFC0 \<mapsto> first_context f)" by (simp_all add: s4_def k3)
  have out: "frame_no x \<noteq> k" if "j < 5" "x \<in> set (qs ! j)" for j x using that queues by (auto simp: rq_ok_def)
  then have "x \<noteq> ?K" if "j < 5" "x \<in> set (qs ! j)" for j x using that frame_no_section [OF k(1)] by blast
  then have "\<forall>j < 5. \<forall>x \<in> set (qs ! j). task_heap s4 x = task_heap s x" by (simp add: h4)
  then have "rq_ok s4 qs" by (rule rq_ok_agree [OF _ _ queues(1)]) (simp add: s4_def k3)
  moreover have "pages_ok s4 (q # fs) (us @ [n])" using s3(8) by (simp add: s4_def pages_ok_def)
  moreover have "\<forall>a. frame_no a \<noteq> k \<longrightarrow> bytes s4 a = bytes s a"
    using s3(11) page_frame_no [OF k(1)] by (auto simp: s4_def k3)
  moreover have "no_fresh s4 = no_fresh s"
  proof -
    have "no_fresh s4 = no_fresh s3" by (simp add: s4_def no_fresh_def no_pages_def)
    also have "\<dots> = no_fresh s" by (simp add: no_fresh_def s3(10)) 
    finally show ?thesis .
  qed
  moreover have "taskid s4 = taskid s + 1" "bytes s4 = bytes s3" "page_heap s4 = page_heap s3" by (simp_all add: s4_def k3)
  ultimately show ?thesis using s3 r4 h4 by (intro exI [of _ s1] exI [of _ s2] exI [of _ s3] exI [of _ s4] exI [of _ nv']) simp
qed

text \<open>The struct of a task that is started, but for its place in the ready list.\<close>

definition started :: "nat \<Rightarrow> u32 \<Rightarrow> addr \<Rightarrow> u32 \<Rightarrow> addr list \<Rightarrow> addr \<Rightarrow> addr \<Rightarrow> task_info" where
  "started k pr f i fds dir base = (new_task k pr f i)\<lparr>openfiles := fds, cwdn := dir, pgtbase := base\<rparr>"

lemma isolated_writes:
  assumes "\<forall>j < 4096. ptes s (entry base j) = (case task_ap k j of Some ap \<Rightarrow> identity_desc j ap | None \<Rightarrow> m (entry base j))"
    and "table_ok base" and "0x821 \<le> k" and "k < 0xa00" and "0x820 \<le> x" and "x < 0xa00"
  shows "user_writes (hw_desc (switch_mm base s) (of_nat x)) \<longleftrightarrow> x = k"
  using assms hw_desc_switch [OF assms(2), of x s] by (auto simp: task_ap_def identity_desc_access)

lemma do_task_create_ok:
  assumes pages: "pages_ok s (n # q # fs) us" "page_heap s n = Some nv" "task_frame k nv"
    and frames: "0x821 \<le> k" "k < 0xa00"
    and queues: "rq_ok s qs" "i < 5" "\<forall>x \<in> \<Union> (set (map set qs)). frame_no x \<noteq> k"
    and files: "console_files s f1 f2"
    and pool: "kblks_ok s (b # c # bs)" "\<forall>x \<in> {b, c} \<union> set bs. frame_no x \<noteq> k" "links b_start (blk_heap s) b = Some base" "table_ok base"
  shows "\<exists>s' t'. do_task_create (of_nat i) f s = Some s'
    \<and> rq_ok s' (qs[i := qs ! i @ [section_of k]]) \<and> pages_ok s' (q # fs) (us @ [n]) \<and> kblks_ok s' (c # bs)
    \<and> blks_ok s' n (map (blk_at (section_of k + 0x1000)) [3..<256])
    \<and> task_heap s' (section_of k) = Some t' \<and> taskid s' = taskid s + 1
    \<and> task_fixed t' = task_fixed (started k (of_nat i) f (taskid s + 1) (console_fds f1 f2) (root s) base)
    \<and> ctx_heap s' = (ctx_heap s)(section_of k + 0xFC0 \<mapsto> first_context f)
    \<and> (\<forall>a. frame_no a \<noteq> k \<longrightarrow> bytes s' a = bytes s a)
    \<and> (\<forall>j < 4096. ptes s' (entry base j) = (case task_ap k j of Some ap \<Rightarrow> identity_desc j ap | None \<Rightarrow> ptes s (entry base j)))
    \<and> no_fresh (no_start s') = no_fresh (no_start s)"
proof -
  let ?K = "section_of k"
  obtain s1 s2 s3 s4 nv' where s4: "page_alloc s = Some (n, s1)" "upd_page n (\<lambda>p. p\<lparr>page_status := FOR_TASK\<rparr>) s1 = Some s2"
    "page_heap s2 n = Some nv'" "clear_task_page ?K s2 = Some s3" "create_task ?K f ?K (of_nat i) s3 = Some (taskid s + 1, s4)"
    "task_frame k nv'" "n \<noteq> NULL" "page_heap s4 n = Some nv'" "pages_ok s4 (q # fs) (us @ [n])" "rq_ok s4 qs"
    "task_heap s4 = (task_heap s)(?K \<mapsto> new_task k (of_nat i) f (taskid s + 1))"
    "ctx_heap s4 = (ctx_heap s)(?K + 0xFC0 \<mapsto> first_context f)" "taskid s4 = taskid s + 1"
    "\<forall>a. frame_no a \<noteq> k \<longrightarrow> bytes s4 a = bytes s a" "no_fresh s4 = no_fresh s"
    using fresh_task [OF pages frames queues(1,3), of f "of_nat i"] by blast
  note k4 = no_fresh_keeps [OF s4(15)]
  have st: "pgstart nv' = ?K" "pg_top nv' = ?K + 0xFFFFC" using s4(6) by (simp_all add: task_frame_def)
  have out: "\<forall>x \<in> set (qs ! i). frame_no x \<noteq> k" using queues by (auto simp: rq_ok_def)
  have new: "task_heap s4 ?K = Some (new_task k (of_nat i) f (taskid s + 1))"
    "priority (new_task k (of_nat i) f (taskid s + 1)) = of_nat i" "openfiles (new_task k (of_nat i) f (taskid s + 1)) = replicate 8 0"
    by (simp_all add: s4(11) new_task_def zero_task_def)
  have f4: "console_files s4 f1 f2" using console_files_cong [of s4 s] files k4 by simp
  have p4: "kblks_ok s4 (b # c # bs)" "links b_start (blk_heap s4) b = Some base"
    using pool(1,3) by (simp_all add: kblks_ok_def k4)
  have "root s' = root s" if "no_start s' = no_start s4" for s'
    using arg_cong [OF that, of root] k4(8) by (simp add: no_start_def)
  then have rt: "\<forall>s'. no_start s' = no_start s4 \<and> (\<forall>x. x \<noteq> ?K \<longrightarrow> task_heap s' x = task_heap s4 x) \<longrightarrow> Some (root s') = Some (root s)" by blast
  obtain s' t' where s': "start_task k n nv' (\<lambda>s. Some (root s)) s4 = Some s'"
    "rq_ok s' (qs[i := qs ! i @ [?K]])" "pages_ok s' (q # fs) (us @ [n])" "kblks_ok s' (c # bs)"
    "blks_ok s' n (map (blk_at (?K + 0x1000)) [3..<256])" "task_heap s' ?K = Some t'"
    "task_fixed t' = task_fixed ((new_task k (of_nat i) f (taskid s + 1))\<lparr>openfiles := console_fds f1 f2, cwdn := root s, pgtbase := base\<rparr>)"
    "\<forall>j < 4096. ptes s' (entry base j) = (case task_ap k j of Some ap \<Rightarrow> identity_desc j ap | None \<Rightarrow> ptes s4 (entry base j))"
    "no_start s' = no_start s4"
    using start_task_ok [OF s4(9,7,8,6) frames s4(10) queues(2) out new f4 rt p4(1) pool(2) p4(2) pool(4)] by blast
  have "do_task_create (of_nat i) f s = start_task k n nv' (\<lambda>s. Some (root s)) s4"
    using s4(7) by (simp add: do_task_create_def s4(1-5) st deref_non_NULL Let_def start_task_def)
  moreover have "taskid s' = taskid s4" "ctx_heap s' = ctx_heap s4" "bytes s' = bytes s4"
    using arg_cong [OF s'(9), of taskid] arg_cong [OF s'(9), of ctx_heap] arg_cong [OF s'(9), of bytes] by (simp_all add: no_start_def)
  moreover have "no_fresh (no_start u) = no_start (no_fresh u)" for u by (simp add: no_fresh_def no_start_def no_pages_def)
  then have "no_fresh (no_start s') = no_fresh (no_start s)" using s'(9) s4(15) by simp
  ultimately show ?thesis using s'(1-7) s'(8) [unfolded k4(3)] s4(12-14)
    by (intro exI [of _ s'] exI [of _ t']) (simp add: started_def del: upt_rec_numeral)
qed


section \<open>Property\<close>

lemma load32_same_bytes:
  assumes "\<forall>j < 4. bytes s' (a + of_nat j) = bytes s (a + of_nat j)"
  shows "load32 a s' = load32 a s"
proof -
  have "bytes s' a = bytes s a" "bytes s' (a + 1) = bytes s (a + 1)" "bytes s' (a + 2) = bytes s (a + 2)" "bytes s' (a + 3) = bytes s (a + 3)"
    using assms [rule_format, of 0] assms [rule_format, of 1] assms [rule_format, of 2] assms [rule_format, of 3] by simp_all
  then show ?thesis by (simp add: load32_def load8_def)
qed

lemma map_option_bind_right: "map_option f m \<bind> g = m \<bind> (\<lambda>t. g (f t))"
  by (cases m) simp_all

text \<open>\<open>task_create\<close> up to the common end, in the state \<open>s5\<close>.\<close>

lemma task_create_stages:
  assumes pages: "pages_ok s (n # q # fs) us" "page_heap s n = Some nv" "task_frame k nv"
    and frames: "0x821 \<le> k" "k < 0xa00"
    and args: "load32 arg s = Some f" "load32 (arg + 4) s = Some (of_nat i)" "\<forall>j < 8. frame_no (arg + of_nat j) \<noteq> k"
    and queues: "rq_ok s qs" "i < 5" "\<forall>x \<in> \<Union> (set (map set qs)). frame_no x \<noteq> k"
    and caller: "current s = Some t" "frame_no (curr_running_task s) \<noteq> k"
    and saved: "ctx_heap s ctx = Some w" "ctx \<noteq> NULL" "frame_no ctx \<noteq> k"
  shows "\<exists>s5 nv'. task_create_handler ctx arg s = start_task k n nv' (\<lambda>s. map_option cwdn (current s)) s5
    \<and> pages_ok s5 (q # fs) (us @ [n]) \<and> n \<noteq> NULL \<and> page_heap s5 n = Some nv' \<and> task_frame k nv' \<and> rq_ok s5 qs
    \<and> task_heap s5 (section_of k) = Some (new_task k (of_nat i) f (taskid s + 1))
    \<and> (\<forall>s'. no_start s' = no_start s5 \<and> (\<forall>x. x \<noteq> section_of k \<longrightarrow> task_heap s' x = task_heap s5 x)
        \<longrightarrow> map_option cwdn (current s') = Some (cwdn t))
    \<and> ctx_heap s5 = (ctx_heap s)(section_of k + 0xFC0 \<mapsto> first_context f, ctx \<mapsto> w\<lparr>c_r0 := taskid s + 1\<rparr>)
    \<and> taskid s5 = taskid s + 1 \<and> no_fresh s5 = no_fresh s"
proof -
  let ?K = "section_of k"
  obtain s1 s2 s3 s4 nv' where s4: "page_alloc s = Some (n, s1)" "upd_page n (\<lambda>p. p\<lparr>page_status := FOR_TASK\<rparr>) s1 = Some s2"
    "page_heap s2 n = Some nv'" "clear_task_page ?K s2 = Some s3" "create_task ?K f ?K (of_nat i) s3 = Some (taskid s + 1, s4)"
    "task_frame k nv'" "n \<noteq> NULL" "page_heap s4 n = Some nv'" "pages_ok s4 (q # fs) (us @ [n])" "rq_ok s4 qs"
    "task_heap s4 = (task_heap s)(?K \<mapsto> new_task k (of_nat i) f (taskid s + 1))"
    "ctx_heap s4 = (ctx_heap s)(?K + 0xFC0 \<mapsto> first_context f)" "taskid s4 = taskid s + 1"
    "bytes s4 = bytes s3" "\<forall>a. frame_no a \<noteq> k \<longrightarrow> bytes s4 a = bytes s a" "no_fresh s4 = no_fresh s"
    using fresh_task [OF pages frames queues(1,3), of f "of_nat i"] by blast
  note k4 = no_fresh_keeps [OF s4(16)]
  have st: "pgstart nv' = ?K" "pg_top nv' = ?K + 0xFFFFC" "stktop2bottom (task_stk_top nv') = ?K"
    using s4(6) by (simp_all add: task_frame_def stktop2bottom_def)
  have same: "\<forall>j < 8. bytes s3 (arg + of_nat j) = bytes s (arg + of_nat j)" using s4(14,15) args(3) by simp
  have "bytes s3 (arg + 4 + of_nat j) = bytes s (arg + 4 + of_nat j)" if "j < 4" for j
    using same [rule_format, of "4 + j"] that by (simp add: add.assoc)
  then have ld: "load32 arg s3 = Some f" "load32 (arg + 4) s3 = Some (of_nat i)"
    using args(1,2) same load32_same_bytes [of s3 arg s] load32_same_bytes [of s3 "arg + 4" s] by simp_all
  have k: "k < 4096" "frame_no (?K + 0xFC0) = k" using frames by simp_all
  have apart: "ctx \<noteq> ?K + 0xFC0" "curr_running_task s \<noteq> ?K" using saved(3) caller(2) k frame_no_section [OF k(1)] by metis+
  define s5 where "s5 = s4\<lparr>ctx_heap := (ctx_heap s4)(ctx \<mapsto> w\<lparr>c_r0 := taskid s + 1\<rparr>)\<rparr>"
  have r5: "set_r0 ctx (taskid s + 1) s4 = Some s5" using saved(1,2) apart(1) by (simp add: set_r0_def upd_objs s5_def s4(12))
  have p5: "pages_ok s5 (q # fs) (us @ [n])" "page_heap s5 n = Some nv'" "rq_ok s5 qs" "no_fresh s5 = no_fresh s"
    using s4(8-10,16) by (simp_all add: s5_def pages_ok_def rq_ok_def no_fresh_def no_pages_def)
  have dir: "\<forall>s'. no_start s' = no_start s5 \<and> (\<forall>x. x \<noteq> ?K \<longrightarrow> task_heap s' x = task_heap s5 x)
      \<longrightarrow> map_option cwdn (current s') = Some (cwdn t)"
  proof (intro allI impI)
    fix s' assume s': "no_start s' = no_start s5 \<and> (\<forall>x. x \<noteq> ?K \<longrightarrow> task_heap s' x = task_heap s5 x)"
    have "curr_running_task s' = curr_running_task s"
      using arg_cong [OF conjunct1 [OF s'], of curr_running_task] by (simp add: no_start_def s5_def k4)
    moreover have "task_heap s' (curr_running_task s) = task_heap s (curr_running_task s)"
      using s' apart(2) by (simp add: s5_def s4(11))
    ultimately show "map_option cwdn (current s') = Some (cwdn t)" using caller(1) by (simp add: current_def deref_def split: if_splits)
  qed
  have "task_create_handler ctx arg s = start_task k n nv' (\<lambda>s. map_option cwdn (current s)) s5"
    using s4(7) ld r5 by (simp add: task_create_handler_def s4(1-5) st deref_non_NULL Let_def start_task_def map_option_bind_right)
  then show ?thesis using p5 dir s4(6,7) apart(1)
    by (intro exI [of _ s5] exI [of _ nv']) (simp add: s5_def s4(11-13) fun_upd_twist)
qed

text \<open>
  C9: \<open>task_create\<close>. The new task gets a free page with a cleared struct and an empty context whose return
  address is the task function, the next task number (which the caller gets back), the console as its
  descriptors 0 and 1, the caller's working directory, its own table of blocks and a translation table that opens
  no other page for writing, and is queued behind the tasks of the given priority.
\<close>

theorem task_create_correct:
  assumes pages: "pages_ok s (n # q # fs) us" "page_heap s n = Some nv" "task_frame k nv"
    and frames: "0x821 \<le> k" "k < 0xa00"
    and args: "load32 arg s = Some f" "load32 (arg + 4) s = Some (of_nat i)" "\<forall>j < 8. frame_no (arg + of_nat j) \<noteq> k"
    and queues: "rq_ok s qs" "i < 5" "\<forall>x \<in> \<Union> (set (map set qs)). frame_no x \<noteq> k"
    and caller: "current s = Some t" "frame_no (curr_running_task s) \<noteq> k"
    and saved: "ctx_heap s ctx = Some w" "ctx \<noteq> NULL" "frame_no ctx \<noteq> k"
    and files: "console_files s f1 f2"
    and pool: "kblks_ok s (b # c # bs)" "\<forall>x \<in> {b, c} \<union> set bs. frame_no x \<noteq> k" "links b_start (blk_heap s) b = Some base" "table_ok base"
  shows "\<exists>s' t'. task_create_handler ctx arg s = Some s'
    \<and> rq_ok s' (qs[i := qs ! i @ [section_of k]]) \<and> pages_ok s' (q # fs) (us @ [n]) \<and> kblks_ok s' (c # bs)
    \<and> blks_ok s' n (map (blk_at (section_of k + 0x1000)) [3..<256])
    \<and> task_heap s' (section_of k) = Some t' \<and> taskid s' = taskid s + 1
    \<and> task_fixed t' = task_fixed (started k (of_nat i) f (taskid s + 1) (console_fds f1 f2) (cwdn t) base)
    \<and> ctx_heap s' (section_of k + 0xFC0) = Some (first_context f)
    \<and> ctx_heap s' ctx = Some (w\<lparr>c_r0 := taskid s + 1\<rparr>)
    \<and> (\<forall>x. 0x820 \<le> x \<and> x < 0xa00 \<longrightarrow> (user_writes (hw_desc (switch_mm base s') (of_nat x)) \<longleftrightarrow> x = k))"
proof -
  let ?K = "section_of k" and ?new = "new_task k (of_nat i) f (taskid s + 1)"
  obtain s5 nv' where s5: "task_create_handler ctx arg s = start_task k n nv' (\<lambda>s. map_option cwdn (current s)) s5"
    "pages_ok s5 (q # fs) (us @ [n])" "n \<noteq> NULL" "page_heap s5 n = Some nv'" "task_frame k nv'" "rq_ok s5 qs" "task_heap s5 ?K = Some ?new"
    "\<forall>s'. no_start s' = no_start s5 \<and> (\<forall>x. x \<noteq> ?K \<longrightarrow> task_heap s' x = task_heap s5 x) \<longrightarrow> map_option cwdn (current s') = Some (cwdn t)"
    "ctx_heap s5 = (ctx_heap s)(?K + 0xFC0 \<mapsto> first_context f, ctx \<mapsto> w\<lparr>c_r0 := taskid s + 1\<rparr>)"
    "taskid s5 = taskid s + 1" "no_fresh s5 = no_fresh s"
    using task_create_stages [OF pages frames args queues caller saved] by blast
  note k5 = no_fresh_keeps [OF s5(11)]
  have p5: "kblks_ok s5 (b # c # bs)" "links b_start (blk_heap s5) b = Some base" "console_files s5 f1 f2"
    using pool(1,3) files console_files_cong [of s5 s] by (simp_all add: kblks_ok_def k5)
  have new: "priority ?new = of_nat i" "openfiles ?new = replicate 8 0" by (simp_all add: new_task_def zero_task_def)
  have out: "\<forall>x \<in> set (qs ! i). frame_no x \<noteq> k" using queues by (auto simp: rq_ok_def)
  obtain s' t' where s': "start_task k n nv' (\<lambda>s. map_option cwdn (current s)) s5 = Some s'"
    "rq_ok s' (qs[i := qs ! i @ [?K]])" "pages_ok s' (q # fs) (us @ [n])" "kblks_ok s' (c # bs)"
    "blks_ok s' n (map (blk_at (?K + 0x1000)) [3..<256])" "task_heap s' ?K = Some t'"
    "task_fixed t' = task_fixed (?new\<lparr>openfiles := console_fds f1 f2, cwdn := cwdn t, pgtbase := base\<rparr>)"
    "\<forall>j < 4096. ptes s' (entry base j) = (case task_ap k j of Some ap \<Rightarrow> identity_desc j ap | None \<Rightarrow> ptes s5 (entry base j))"
    "no_start s' = no_start s5"
    using start_task_ok [OF s5(2-5) frames s5(6) queues(2) out s5(7) new p5(3) s5(8) p5(1) pool(2) p5(2) pool(4)] by blast
  have "taskid s' = taskid s + 1" "ctx_heap s' = ctx_heap s5"
    using arg_cong [OF s'(9), of taskid] arg_cong [OF s'(9), of ctx_heap] by (simp_all add: no_start_def s5(10))
  moreover have "ctx \<noteq> ?K + 0xFC0" using saved(3) frames frame_no_in [of k "0xFC0"] by auto
  ultimately show ?thesis using s5(1) s'(1-7) isolated_writes [OF s'(8) pool(4) frames]
    by (intro exI [of _ s'] exI [of _ t']) (simp add: started_def s5(9) del: upt_rec_numeral)
qed


text \<open>The parent of \<open>demo_fork\<close>, with the two consoles open to it and the arguments at 0x82300800.\<close>

definition demo_create :: "kstate \<Rightarrow> kstate" where
  "demo_create s0 = (demo_fork s0)\<lparr>
     file_heap := [0x500 \<mapsto> fs_file 0x100 NULL 0x600 NULL CONSOLE_IN_TYPE (padded ''/console_in''),
                   0x600 \<mapsto> fs_file 0x100 NULL NULL 0x500 CONSOLE_OUT_TYPE (padded ''/console_out'')],
     file_list_head := 0x500, bytes := (\<lambda>_. 0)(0x82300803 := 0x82, 0x82300804 := 2)\<rparr>"

lemma demo_create_files: "console_files (demo_create s0) 0x500 0x600"
proof -
  have names: "text_of (padded ''/console_in'') = ''/console_in''" "text_of (padded ''/console_out'') = ''/console_out''"
    "NUL \<in> set (padded ''/console_in'')" "NUL \<in> set (padded ''/console_out'')"
    using text_of_padded [of "''/console_in''"] text_of_padded [of "''/console_out''"] by simp_all
  then show ?thesis
    unfolding console_files_def
    by (intro conjI exI [of _ "[0x500, 0x600]"])
      (simp_all add: terminated_files_def file_text_def first_or_NULL_def demo_create_def fs_file_def)
qed

lemma demo_create_ok:
  "pages_ok (demo_create s0) [0x100, 0x200] [0x300]"
  "page_heap (demo_create s0) 0x100 = Some (demo_frame 0x200 0 0x821)"
  "rq_ok (demo_create s0) [[0x82300000], [], [], [], []]"
  "load32 0x82300800 (demo_create s0) = Some 0x82000000" "load32 (0x82300800 + 4) (demo_create s0) = Some (of_nat 2)"
  "current (demo_create s0) = Some demo_parent" "curr_running_task (demo_create s0) = 0x82300000"
  "ctx_heap (demo_create s0) 0x82300e00 = Some zero_ctx"
  using demo_fork_ok(1,2,12) [of s0]
  by (simp_all add: demo_create_def pages_ok_def rq_ok_def load32_def load8_def current_def demo_fork_def deref_def)

lemma demo_arg_frames: "\<forall>j < 8. frame_no (0x82300800 + of_nat j) \<noteq> 0x821"
proof (intro allI impI)
  fix j :: nat assume "j < 8"
  then have "unat (0x800 + of_nat j :: u32) = 0x800 + j" using unat_of_nat32 [of "0x800 + j"] by simp
  then have "frame_no (section_of 0x823 + (0x800 + of_nat j)) = 0x823" using \<open>j < 8\<close> by (intro frame_no_in) simp_all
  then show "frame_no (0x82300800 + of_nat j) \<noteq> 0x821" by (simp add: section_of_def add.assoc [symmetric])
qed

theorem task_create_correct_witness:
  "\<exists>s0 s'. kpage_blks_init 0 demo_kpage = Some s0 \<and> task_create_handler 0x82300e00 0x82300800 (demo_create s0) = Some s'
    \<and> rq_ok s' [[0x82300000], [], [0x82100000], [], []] \<and> ctx_heap s' 0x82100FC0 = Some (first_context 0x82000000)"
proof -
  let ?at = "blk_at 0x82027400"
  obtain s0 h where s0: "kpage_blks_init 0 demo_kpage = Some s0" "kblks_ok s0 (map ?at [40..<64])" "kblk_array s0"
    "s0 = demo_kpage\<lparr>blk_heap := h, kblk_list_base := 0x82027400, kpage := (kpage demo_kpage)\<lparr>
         blk_list_head := blk_at 0x82027400 40, free_start := 0x82028000\<rparr>\<rparr>"
    using demo_kpage_boot by blast
  have split: "map ?at [40..<64] = ?at 40 # ?at 41 # map ?at [42..<64]" by (simp add: upt_conv_Cons del: upt_rec_numeral)
  have ks: "kblks_ok (demo_create s0) (?at 40 # ?at 41 # map ?at [42..<64])"
    using s0(2) unfolding split by (simp add: kblks_ok_def demo_create_def demo_fork_def)
  have fr: "\<forall>x \<in> {?at 40, ?at 41} \<union> set (map ?at [42..<64]). frame_no x \<noteq> 0x821"
    using demo_kpage_frames by (auto simp del: upt_rec_numeral)
  have st: "links b_start (blk_heap (demo_create s0)) (?at 40) = Some 0x820a0000" "table_ok 0x820a0000"
    using s0(3,4) by (simp_all add: kblk_array_def demo_create_def demo_fork_def block_start_def table_ok_def mask_eq_exp_minus_1)
  have fn: "frame_no (curr_running_task (demo_create s0)) \<noteq> 0x821" "frame_no 0x82300e00 \<noteq> 0x821"
    by (simp_all add: demo_create_ok frame_no_def)
  obtain s' where "task_create_handler 0x82300e00 0x82300800 (demo_create s0) = Some s'"
    "rq_ok s' ([[0x82300000], [], [], [], []][2 := [[0x82300000], [], [], [], []] ! 2 @ [section_of 0x821]])"
    "ctx_heap s' (section_of 0x821 + 0xFC0) = Some (first_context 0x82000000)"
    using task_create_correct [OF demo_create_ok(1,2) demo_fork_ok(3) _ _ demo_create_ok(4,5) demo_arg_frames demo_create_ok(3) _
        demo_fork_ok(13) demo_create_ok(6) fn(1) demo_create_ok(8) _ fn(2) demo_create_files ks fr st] by auto
  then show ?thesis using s0(1) by (auto simp: section_of_def)
qed

end
