(* ===== verification/Startup.thy ===== *)
theory Startup
  imports Boot TaskCreate
begin

text \<open>
  From \<open>kernal_entry\<close> to the first instruction of the shell: the initialisers composed in the order of
  \<^verbatim>\<open>src/src/kernel/main.c\<close>, each used through what its own theory shows of it.
\<close>

unbundle bit_operations_syntax

section \<open>Stages\<close>

definition boot_devices :: "boot_env \<Rightarrow> kstate \<Rightarrow> kstate option" where
  "boot_devices e s = do {
     s \<leftarrow> printk (cstr (crlf @ ''Kernel Init start...'' @ crlf)) [] s;
     s \<leftarrow> printk (cstr (crlf @ ''Init bss...'' @ crlf)) [] s;
     s \<leftarrow> bss_init (sbss e) (ebss e) s;
     s \<leftarrow> clear_table (KERN_PADDR s) BLK_SIZE s;
     s \<leftarrow> mmu_init s;
     s \<leftarrow> printk (cstr (''Enable MMU.'' @ crlf)) [] s;
     s \<leftarrow> printk (cstr (''sp : %x ---CPSR : %x'' @ crlf)) [env_sp e, env_cpsr e] s;
     s \<leftarrow> printk (cstr (''Exception Vector Base = %x'' @ crlf)) [get_ivt_base (env_vbar e) s] s;
     s \<leftarrow> printk (cstr (''kernel_end address :%x'' @ crlf)) [kernal_end s] s;
     let s = usrled_init s;
     s \<leftarrow> printk (cstr (CHR 0x0A # ''Initialize user leds...'' @ crlf)) [] s;
     let s = irq_init s;
     s \<leftarrow> printk (cstr (''Init interrupt.'' @ crlf)) [] s;
     let s = ostick_init DMTIMER0_BASE s;
     let s = enable_ostick 66 s;
     printk (cstr (''Init Timer0 to switch tasks.'' @ crlf)) [] s
   }"

definition boot_memory :: "boot_env \<Rightarrow> kstate \<Rightarrow> kstate option" where
  "boot_memory e s = do {
     s \<leftarrow> page_list_init (kpage_struct_init s);
     s \<leftarrow> kpage_blks_init (junk_j e) s;
     (_, s) \<leftarrow> file_in_ram_init (junk_name e) s;
     Some s
   }"

definition boot_shell :: "boot_env \<Rightarrow> kstate \<Rightarrow> (kstate \<times> task_context) option" where
  "boot_shell e s = do {
     s \<leftarrow> printk (cstr (''Init Tasks Shell...'' @ crlf)) [] s;
     s \<leftarrow> do_task_create 4 (shell_entry e) (task_init s);
     s \<leftarrow> printk (cstr (''Sched Starting...'' @ crlf)) [] s;
     s \<leftarrow> disable_watchdog WATCHDOG_BASE s;
     call_sched (set_first_sched s)
   }"

lemma kernal_entry_stages:
  "kernal_entry e s = do { s \<leftarrow> boot_devices e s; s \<leftarrow> boot_memory e s; boot_shell e s }"
  by (simp add: kernal_entry_def boot_devices_def boot_memory_def boot_shell_def Let_def case_prod_unfold)

section \<open>MMU and devices\<close>

text \<open>What the first stage may change.\<close>

definition no_hw :: "kstate \<Rightarrow> kstate" where
  "no_hw s = s\<lparr>bytes := \<lambda>_. 0, ptes := \<lambda>_. 0, ttbr0 := 0, sctlr := 0, dacr := 0, tlb := Map.empty, uart_tx := [],
     dev_reg := \<lambda>_. 0, dev_log := [], irq_handler_array := []\<rparr>"

lemma no_hw_steps:
  "no_hw (s\<lparr>uart_tx := out\<rparr>) = no_hw s" "no_hw (s\<lparr>bytes := m\<rparr>) = no_hw s" "no_hw (s\<lparr>ptes := t\<rparr>) = no_hw s"
  "no_hw (wr32 a v s) = no_hw s" "no_hw (wr8 a w s) = no_hw s" "no_hw (irq_init s) = no_hw s"
  by (simp_all add: no_hw_def wr32_def wr8_def Let_def irq_init_def irq_handler_array_init_def)

lemma wr_sctlr: "sctlr (wr32 a v s) = sctlr s" "sctlr (wr8 a w s) = sctlr s" "sctlr (irq_init s) = sctlr s"
  by (simp_all add: wr32_def wr8_def Let_def irq_init_def irq_handler_array_init_def)

lemma led_and_tick_init:
  "no_hw (usrled_init s) = no_hw s" "no_hw (ostick_init t s) = no_hw s" "no_hw (enable_ostick i s) = no_hw s"
  "sctlr (usrled_init s) = sctlr s" "sctlr (ostick_init t s) = sctlr s" "sctlr (enable_ostick i s) = sctlr s"
  by (simp_all add: usrled_init_def ostick_init_def enable_ostick_def enable_irq_id_def irq_line_write_def Let_def no_hw_steps wr_sctlr)

lemma printk_ok:
  assumes "parse_text fmt = Some ds" and "n_args ds \<le> length args"
  shows "\<exists>out. printk fmt args s = Some (s\<lparr>uart_tx := out\<rparr>)"
proof -
  obtain out where "render (map as_unsigned ds) args = Some out"
    using render_enough [of "map as_unsigned ds" args] assms(2) by (auto simp: n_args_unsigned)
  then have "kprint fmt args = Some out" using assms(1) by (simp add: kprint_eq_render)
  then show ?thesis using printk_Some by blast
qed

text \<open>\<open>hw_at s c u\<close>: only the hardware part of \<open>u\<close> differs from \<open>s\<close>, and its control register is \<open>c\<close>.\<close>

definition hw_at :: "kstate \<Rightarrow> u32 \<Rightarrow> kstate \<Rightarrow> bool" where
  "hw_at s c u \<longleftrightarrow> no_hw u = no_hw s \<and> sctlr u = c"

lemma hw_bind:
  assumes "\<exists>u. m = Some u \<and> hw_at s c u" and "\<And>u. hw_at s c u \<Longrightarrow> \<exists>v. f u = Some v \<and> hw_at s d v"
  shows "\<exists>v. m \<bind> f = Some v \<and> hw_at s d v"
  using assms by auto

lemma hw_print:
  assumes "hw_at s c u" and "parse_text fmt = Some ds" and "n_args ds \<le> length args"
  shows "\<exists>v. printk fmt args u = Some v \<and> hw_at s c v"
  using printk_ok [OF assms(2,3), of u] assms(1) by (auto simp: hw_at_def no_hw_steps)

lemma hw_set:
  assumes "hw_at s c u"
  shows "hw_at s c (usrled_init u)" "hw_at s c (irq_init u)" "hw_at s c (ostick_init t u)" "hw_at s c (enable_ostick i u)"
  using assms by (simp_all add: hw_at_def led_and_tick_init no_hw_steps wr_sctlr)

lemma hw_clear:
  assumes "hw_at s c u" and "valid_range start (unat n)"
  shows "\<exists>v. mem_set start x n u = Some v \<and> hw_at s c v" "\<exists>v. clear_table start n u = Some v \<and> hw_at s c v"
proof -
  have m: "\<exists>m. mem_set start y n u = Some (u\<lparr>bytes := m\<rparr>)" for y using mem_set_ok [OF assms(2), of y u] by blast
  show "\<exists>v. mem_set start x n u = Some v \<and> hw_at s c v" using m [of x] assms(1) by (auto simp: hw_at_def no_hw_steps)
  obtain m where "mem_set start 0 n u = Some (u\<lparr>bytes := m\<rparr>)" using m by blast
  then have "\<exists>t. clear_table start n u = Some (u\<lparr>bytes := m, ptes := t\<rparr>)" by (simp add: clear_table_def) blast
  then show "\<exists>v. clear_table start n u = Some v \<and> hw_at s c v" using assms(1) by (auto simp: hw_at_def no_hw_steps)
qed

lemma hw_mmu:
  assumes "hw_at s c u" and "table_ok (KERN_PADDR u)"
  shows "\<exists>v. mmu_init u = Some v \<and> hw_at s (c OR 1) v"
proof -
  define u' where "u' = mmu_disable (invalidate_tlb u)"
  have "KERN_PADDR u' = KERN_PADDR u" by (simp add: u'_def KERN_PADDR_def mmu_disable_def invalidate_tlb_def)
  then have "table_ok (KERN_PADDR u')" using assms(2) by simp
  then obtain w where w: "mem_map u' = Some w" "mapped_to u' 0xa00 w" using mem_map_ok by blast
  then obtain m where "w = u'\<lparr>ptes := m\<rparr>" unfolding mapped_to_def by (elim exE conjE) 
  then have m: "mem_map u' = Some (u'\<lparr>ptes := m\<rparr>)" using w(1) by simp
  define v where "v = mmu_enable (set_pgt_base (set_domain (u'\<lparr>ptes := m\<rparr>)))"
  have run: "mmu_init u = Some v" by (simp only: mmu_init_def Let_def m v_def u'_def [symmetric] Option.bind.simps)
  note defs = v_def u'_def mmu_enable_def set_pgt_base_def set_domain_def mmu_disable_def invalidate_tlb_def
  have hw: "no_hw v = no_hw u" unfolding defs no_hw_def by simp
  have "sctlr v = (sctlr u AND NOT 1) OR 1" unfolding defs by simp
  also have "\<dots> = sctlr u OR 1" by (rule bit_word_eqI) (auto simp: bit_simps)
  finally show ?thesis using run hw assms(1) by (simp add: hw_at_def)
qed

lemma hw_KERN_PADDR:
  assumes "hw_at s c u"
  shows "kernal_end u = kernal_end s" "KERN_PADDR u = KERN_PADDR s"
proof -
  have eq: "no_hw u = no_hw s" using assms by (simp add: hw_at_def)
  show "kernal_end u = kernal_end s" using arg_cong [OF eq, of kernal_end] by (simp add: no_hw_def)
  then show "KERN_PADDR u = KERN_PADDR s" by (simp add: KERN_PADDR_def)
qed

lemma boot_devices_ok:
  assumes image: "0x82000000 \<le> unat (kernal_end s)" "unat (kernal_end s) \<le> 0x82030000"
    and bss: "valid_range (sbss e) (unat (ebss e - sbss e))"
  shows "\<exists>u. boot_devices e s = Some u \<and> hw_at s (sctlr s OR 1) u"
proof -
  have t: "table_ok (KERN_PADDR s)" "unat (KERN_PADDR s) + 0x4000 \<le> 2 ^ 32"
    using KERN_PADDR_table [of s] image by simp_all
  then have r: "valid_range (KERN_PADDR s) 4096" by (simp add: valid_range_def table_ok_def)
  have s0: "hw_at s (sctlr s) s" by (simp add: hw_at_def)
  show ?thesis
    unfolding boot_devices_def Let_def bss_init_def
    apply (rule hw_bind, rule hw_print [OF s0], simp add: cstr_def, simp)
    apply (rule hw_bind, erule hw_print, simp add: cstr_def, simp)
    apply (rule hw_bind, erule hw_clear [OF _ bss])
    apply (rule hw_bind, rule hw_clear, assumption, simp add: hw_KERN_PADDR r)
    apply (rule hw_bind, rule hw_mmu, assumption, simp add: hw_KERN_PADDR t)
    apply (rule hw_bind, erule hw_print, simp add: cstr_def, simp)
    apply (rule hw_bind, erule hw_print, simp add: cstr_def, simp)
    apply (rule hw_bind, erule hw_print, simp add: cstr_def, simp)
    apply (rule hw_bind, erule hw_print, simp add: cstr_def, simp)
    apply (rule hw_bind, rule hw_print, erule hw_set, simp add: cstr_def, simp)
    apply (rule hw_bind, rule hw_print, erule hw_set, simp add: cstr_def, simp)
    apply (rule hw_print, rule hw_set, erule hw_set, simp add: cstr_def, simp)
    done
qed


section \<open>Memory and files\<close>

lemma boot_console_files:
  assumes ad: "fs_addrs r d1 d2 f1 f2 f3 f4" "valid_range r 300" and hd: "file_list_head s = f1"
    and files: "file_heap s = h(f1 \<mapsto> fs_file d1 f2 f2 NULL CONSOLE_IN_TYPE (padded ''/console_in''),
        f2 \<mapsto> fs_file d1 f3 f3 f1 CONSOLE_OUT_TYPE (padded ''/console_out''),
        f3 \<mapsto> fs_file d1 NULL f4 f2 TTY0_TYPE (padded ''/tty0''),
        f4 \<mapsto> fs_file d2 NULL NULL f3 IPC_TYPE (padded ''/ipc0''))"
  shows "console_files s f1 f2"
proof -
  note nn = fs_addrs_non_NULL [OF ad] and ne = fs_addrs_distinct [OF ad(1)]
  have names: "text_of (padded t) = t \<and> NUL \<in> set (padded t)" if "t \<in> {''/console_in'', ''/console_out'', ''/tty0'', ''/ipc0''}" for t
    using that text_of_padded by auto
  have h: "file_heap s f1 = Some (fs_file d1 f2 f2 NULL CONSOLE_IN_TYPE (padded ''/console_in''))"
    "file_heap s f2 = Some (fs_file d1 f3 f3 f1 CONSOLE_OUT_TYPE (padded ''/console_out''))"
    "file_heap s f3 = Some (fs_file d1 NULL f4 f2 TTY0_TYPE (padded ''/tty0''))"
    "file_heap s f4 = Some (fs_file d2 NULL NULL f3 IPC_TYPE (padded ''/ipc0''))"
    using files ne(4-9) by simp_all
  have t: "file_text s f1 = Some ''/console_in''" "file_text s f2 = Some ''/console_out''"
    using h names by (simp_all add: file_text_def fs_file_def)
  show ?thesis
    unfolding console_files_def
    by (intro conjI exI [of _ "[f1, f2, f3, f4]"])
      (use nn h names t hd in \<open>simp_all add: terminated_files_def fs_file_def first_or_NULL_def\<close>)
qed

text \<open>The state after \<open>file_in_ram_init\<close>; \<open>base\<close> is the first page descriptor, \<open>head\<close> the first block descriptor.\<close>

definition booted :: "addr \<Rightarrow> addr \<Rightarrow> nat \<Rightarrow> kstate \<Rightarrow> bool" where
  "booted base head m s \<longleftrightarrow> m \<le> 3 \<and> unat base < 0x82040000 \<and> 0x82000000 \<le> unat head \<and> unat head < 0x82040000
     \<and> pages_ok s (map (page_at base) [1..<446]) [page_at base 0]
     \<and> links pg_fixed (page_heap s) (page_at base 1) = Some (pg_fixed (init_page base 1))
     \<and> kblks_ok s (map (blk_at head) [16 * m + 9..<64])
     \<and> (\<forall>i < 64. links b_start (blk_heap s) (blk_at head i) = Some (block_start 0x82000000 KBLK_SIZE i))
     \<and> root s = section_of 0x821 \<and> console_files s (0x82100000 + 108) (0x82100000 + 156) \<and> ipc_holds s []"

lemma upt_step: "k < n \<Longrightarrow> k' = Suc k \<Longrightarrow> [k..<n] = k # [k'..<n]"
  by (simp add: upt_conv_Cons)

lemma boot_memory_ok:
  assumes image: "0x82000000 \<le> unat (kernal_end s)" "unat (kernal_end s) \<le> 0x82030000"
    and bss: "length (page_list s) = 447" "inuse_page_head s = NULL" "root s = NULL" "file_list_head s = NULL"
  shows "\<exists>s' head m. boot_memory e s = Some s' \<and> booted (KERN_PADDR s + 0x2800) head m s' \<and> no_mem (no_files s') = no_mem (no_files s)"
proof -
  define first where "first = (unat (KERN_PADDR s) + 0x8000 - 0x82000000) div 4096"
  let ?st = "block_start 0x82000000 KBLK_SIZE"
  obtain s1 s2 base head m where s2: "page_list_init (kpage_struct_init s) = Some s1" "kpage_blks_init (junk_j e) s1 = Some s2"
    "base = KERN_PADDR s + 0x2800" "m \<le> 3" "unat (KERN_PADDR s) = 0x82000000 + 65536 * m" "first = 16 * m + 8"
    "unat base = unat (KERN_PADDR s) + 0x2800" "unat head = unat (KERN_PADDR s) + 29908"
    "pages_ok s2 (map (page_at base) [0..<446]) []" "\<forall>i < 446. page_heap s2 (page_at base i) = Some (init_page base i)"
    "kblks_ok s2 (map (blk_at head) [first..<64])" "kblk_array s2" "kblk_list_base s2 = head" "no_mem s2 = no_mem s"
    using kernel_memory_boot [OF image bss(1,2) first_def, of "junk_j e"] by blast
  have nil: "root s2 = NULL" "file_list_head s2 = NULL"
    using arg_cong [OF s2(14), of root] arg_cong [OF s2(14), of file_list_head] bss(3,4) by (simp_all add: no_mem_def)
  have starts: "\<forall>i < 64. links b_start (blk_heap s2) (blk_at head i) = Some (?st i)"
    using s2(12,13) by (simp add: kblk_array_def)
  have lt: "first < 63" using s2(4,6) by simp
  have up2: "[first + 1..<64] = (first + 1) # [first + 2..<64]" by (rule upt_step) (use lt in simp_all)
  have up: "[first..<64] = first # (first + 1) # [first + 2..<64]" by (subst up2 [symmetric], rule upt_step) (use lt in simp_all)
  have "kblk_pool s2 (map ?st [first..<64]) []" using kblk_pool_boot [OF s2(12), of first] s2(11,13) by (simp del: upt_rec_numeral)
  then have pool: "kblk_pool s2 (?st first # ?st (first + 1) # map ?st [first + 2..<64]) []" unfolding up by simp
  have ust: "unat (?st first) = 0x82000000 + first * 16384"
    using unat_block_start [of "0x82000000" 64 KBLK_SIZE first] lt by simp
  then have va: "valid_range (?st first) 16384" using lt unat_0 by (auto simp: valid_range_def)
  have pg: "[0..<446] = 0 # 1 # [2..<446 :: nat]" "[1..<446] = 1 # [2..<446 :: nat]"
    using upt_step [of 0 446 1] upt_step [of 1 446 2] by simp_all
  have p0: "page_heap s2 (page_at base 0) = Some (init_page base 0)" "pgstart (init_page base 0) = 0x82100000"
    using s2(10) by (simp_all add: init_page_def page_frame_def)
  define r where "r = (0x82100000 :: addr)"
  obtain d1 d2 f1 f2 f3 f4 where ad: "fs_addrs r d1 d2 f1 f2 f3 f4" by (simp add: fs_addrs_def)
  have f12: "f1 = 0x82100000 + 108" "f2 = 0x82100000 + 156" using ad by (simp_all add: fs_addrs_def r_def)
  have vr: "valid_range r 300" by (simp add: r_def valid_range_def)
  have pr: "pgstart (init_page base 0) = r" using p0(2) by (simp add: r_def)
  obtain s3 where s3: "file_in_ram_init (junk_name e) s2 = Some (0, s3)" "root s3 = r" "file_list_head s3 = f1"
    "file_heap s3 = (file_heap s2)(f1 \<mapsto> fs_file d1 f2 f2 NULL CONSOLE_IN_TYPE (padded ''/console_in''),
        f2 \<mapsto> fs_file d1 f3 f3 f1 CONSOLE_OUT_TYPE (padded ''/console_out''),
        f3 \<mapsto> fs_file d1 NULL f4 f2 TTY0_TYPE (padded ''/tty0''),
        f4 \<mapsto> fs_file d2 NULL NULL f3 IPC_TYPE (padded ''/ipc0''))"
    "ipc_holds s3 []" "pages_ok s3 (page_at base 1 # map (page_at base) [2..<446]) ([] @ [page_at base 0])"
    "links pg_fixed (page_heap s3) = links pg_fixed (page_heap s2)" "links b_start (blk_heap s3) = links b_start (blk_heap s2)"
    "\<forall>bs. kblks_ok s2 bs \<longrightarrow> kblks_ok s3 (tl bs)" "no_files s3 = no_files s2"
    using file_in_ram_init_ok [OF s2(9) [unfolded pg list.map] p0(1) nil pool va, unfolded pr, OF vr ad, of "junk_name e"] by blast
  have cf: "console_files s3 f1 f2" by (rule boot_console_files [OF ad vr s3(3,4)])
  have ks: "kblks_ok s3 (map (blk_at head) [16 * m + 9..<64])"
  proof -
    have "tl (map (blk_at head) [first..<64]) = map (blk_at head) [first + 1..<64]" unfolding up up2 by simp
    moreover have "first + 1 = 16 * m + 9" using s2(6) by simp
    ultimately show ?thesis using s3(9) [rule_format, OF s2(11)] by (simp only:)
  qed
  have "no_mem (no_files u) = no_files (no_mem u)" for u by (simp add: no_mem_def no_files_def no_pages_def)
  then have "no_mem (no_files s3) = no_mem (no_files s)" using s3(10) s2(14) by simp
  moreover have "boot_memory e s = Some s3" using s2(1,2) s3(1) by (simp add: boot_memory_def)
  moreover have "booted base head m s3"
    unfolding booted_def
  proof (intro conjI)
    show "links pg_fixed (page_heap s3) (page_at base 1) = Some (pg_fixed (init_page base 1))" using s3(7) s2(10) by simp
    show "pages_ok s3 (map (page_at base) [1..<446]) [page_at base 0]" using s3(6) unfolding pg by simp
    show "root s3 = section_of 0x821" by (simp add: s3(2) r_def section_of_def)
    show "\<forall>i < 64. links b_start (blk_heap s3) (blk_at head i) = Some (?st i)" using starts by (simp only: s3(8))
    show "console_files s3 (0x82100000 + 108) (0x82100000 + 156)" using cf by (simp only: f12)
    show "m \<le> 3" "kblks_ok s3 (map (blk_at head) [16 * m + 9..<64])" "ipc_holds s3 []" by (fact s2(4) ks s3(5))+
    show "unat base < 0x82040000" "0x82000000 \<le> unat head" "unat head < 0x82040000" using s2(4,5,7,8) by simp_all
  qed
  ultimately show ?thesis unfolding s2(3) by blast
qed


section \<open>The first task\<close>

definition no_sched :: "kstate \<Rightarrow> kstate" where
  "no_sched s = (no_tasks s)\<lparr>curr_running_task := NULL, ttbr0 := 0, tlb := Map.empty, dev_reg := \<lambda>_. 0, dev_log := []\<rparr>"

lemma sched_frame:
  assumes "rq_ok s qs" and "sched s = Some (s', c)"
  shows "no_sched s' = no_sched s"
proof -
  obtain p u t where u: "choose_task s = Some (p, u)" "s' = reload_ostick 5 (switch_mm (pgtbase t) (u\<lparr>curr_running_task := p\<rparr>))"
    "deref (task_heap u) p = Some t" "deref (ctx_heap u) (task_context_ptr t) = Some c"
    using assms(2) by (auto simp: sched_def Let_def bind_eq_Some_conv switch_mm_def pgt_base_setup_def invalidate_tlb_def)
  have "set [0..<5] \<subseteq> {..<5::nat}" by auto
  then have "no_tasks u = no_tasks s"
    using choose_loop_ok [OF assms(1), of "[0..<5]"] u(1) unfolding choose_task_def by (auto split: option.splits)
  moreover have "no_sched s' = no_sched u"
    by (simp add: u(2) no_sched_def no_tasks_def reload_ostick_def wr32_def switch_mm_def pgt_base_setup_def invalidate_tlb_def)
  ultimately show ?thesis by (simp add: no_sched_def)
qed

lemma static_status_fixed:
  "task_static t' = task_static t \<Longrightarrow> task_status t' = x \<Longrightarrow> task_fixed t' = task_fixed (t\<lparr>task_status := x\<rparr>)"
  by (cases t; cases t') (simp add: task_static_def task_fixed_def)

lemma first_switch:
  assumes ok: "rq_ok s qs" and i: "i < 5" "qs ! i = [x]" "\<forall>j < i. qs ! j = []"
    and t: "task_heap s x = Some t" "task_status t = TASK_READY" "task_context_ptr t \<noteq> NULL" "ctx_heap s (task_context_ptr t) = Some w"
  shows "\<exists>s' t'. sched s = Some (s', w) \<and> rq_ok s' qs \<and> curr_running_task s' = x \<and> task_heap s' x = Some t'
    \<and> task_fixed t' = task_fixed (t\<lparr>task_status := TASK_RUNNING\<rparr>) \<and> ttbr0 s' = pgtbase t \<and> tlb s' = Map.empty
    \<and> ctx_heap s' = ctx_heap s \<and> no_sched s' = no_sched s"
proof -
  have "is_ready s x" "\<forall>j < i. \<not> ready_level s qs j" "resumable s x"
    using i t by (simp_all add: is_ready_def ready_level_def resumable_def frame_ok_def)
  then obtain s' c where s': "sched s = Some (s', c)" "rq_ok s' (qs[i := [] @ [x]])" "curr_running_task s' = x"
    "ctx_heap s' = ctx_heap s" "links task_status (task_heap s') = (links task_status (task_heap s))(x \<mapsto> TASK_RUNNING)"
    "links task_static (task_heap s') = links task_static (task_heap s)"
    using sched_rotates [OF ok i(1,2)] by blast
  have x: "x \<noteq> NULL" using rq_mem [OF ok i(1), of x] i(2) by simp
  have "links task_static (task_heap s') x = Some (task_static t)" "links task_status (task_heap s') x = Some TASK_RUNNING"
    using t(1) s'(5,6) by simp_all
  then obtain t' where t': "task_heap s' x = Some t'" "task_static t' = task_static t" "task_status t' = TASK_RUNNING"
    by (auto dest!: links_SomeD)
  have eq: "pgtbase t' = pgtbase t" "task_context_ptr t' = task_context_ptr t"
    using arg_cong [OF t'(2), of pgtbase] arg_cong [OF t'(2), of task_context_ptr] by (simp_all add: task_static_def)
  have "current s' = Some t'" using s'(3) t'(1) x by (simp add: current_def deref_def)
  then have "ttbr0 s' = pgtbase t'" "tlb s' = Map.empty" "c = w"
    using sched_switches [OF s'(1)] eq t(3,4) s'(4) by (auto simp: deref_def)
  moreover have "qs[i := [] @ [x]] = qs" using i(2) by (metis append_Nil list_update_id)
  ultimately show ?thesis
    using s' t'(1) static_status_fixed [OF t'(2,3)] eq(1) sched_frame [OF ok s'(1)] by auto
qed

lemma booted_frames:
  assumes "booted base head m s" and "i < 64"
  shows "frame_no (blk_at head i) = 0x820"
proof -
  have h: "0x82000000 \<le> unat head" "unat head < 0x82040000" using assms(1) by (simp_all add: booted_def)
  have "unat (blk_at head i) = unat head + i * 28" using blk_at_unat [of head i] h assms(2) by simp
  then show ?thesis using h assms(2) unfolding frame_no_def by (intro div_nat_eqI) simp_all
qed

lemma booted_table:
  assumes "i < 64"
  shows "table_ok (block_start 0x82000000 KBLK_SIZE i)"
proof -
  have u: "unat (block_start 0x82000000 KBLK_SIZE i) = 0x82000000 + i * 16384"
    using unat_block_start [of "0x82000000" 64 KBLK_SIZE i] assms by simp
  have "unat (block_start 0x82000000 KBLK_SIZE i) mod 2 ^ 14 = 0" unfolding u by simp
  then have "unat (take_bit 14 (block_start 0x82000000 KBLK_SIZE i)) = 0" by (simp add: take_bit_eq_mod unat_mod)
  then have "block_start 0x82000000 KBLK_SIZE i AND mask 14 = 0" by (simp add: unat_eq_zero take_bit_eq_mask)
  moreover have "block_start 0x82000000 KBLK_SIZE i \<noteq> NULL" using u by (metis add_is_0 unat_0 zero_neq_numeral)
  ultimately show ?thesis by (simp add: table_ok_def)
qed


lemma watchdog_off:
  assumes "dev_in s 0x44E35034 = w1 @ a1 # w2 @ a2 # rest" and "\<forall>w \<in> set (w1 @ w2). w AND 16 \<noteq> 0" and "a1 AND 16 = 0" "a2 AND 16 = 0"
  shows "\<exists>r l d. disable_watchdog WATCHDOG_BASE s = Some (s\<lparr>dev_reg := r, dev_log := l, dev_in := d\<rparr>)"
proof -
  define s1 where "s1 = (wr32 0x44E35048 0xAAAA s)\<lparr>dev_in := (dev_in s)(0x44E35034 := w2 @ a2 # rest)\<rparr>"
  define s2 where "s2 = (wr32 0x44E35048 0x5555 s1)\<lparr>dev_in := (dev_in s1)(0x44E35034 := rest)\<rparr>"
  have "poll 0x44E35034 16 (wr32 0x44E35048 0xAAAA s) = Some s1"
    unfolding s1_def by (rule poll_write [OF assms(1) _ assms(3)]) (use assms(2) in simp)
  moreover have "poll 0x44E35034 16 (wr32 0x44E35048 0x5555 s1) = Some s2"
    unfolding s2_def by (rule poll_write [OF _ _ assms(4), of _ _ w2]) (use assms(2) in \<open>simp_all add: s1_def\<close>)
  ultimately have "disable_watchdog WATCHDOG_BASE s = Some s2" by (simp add: disable_watchdog_def)
  then show ?thesis by (auto simp: s2_def s1_def wr32_def)
qed

lemma booted_tasks: "rq_ok (task_init s) [[], [], [], [], []]"
  by (simp add: rq_ok_def task_init_def all_less5 dll_def)

lemma booted_init:
  assumes "booted base head m s"
  shows "booted base head m (task_init (s\<lparr>uart_tx := out\<rparr>))"
  using assms console_files_cong [of "task_init (s\<lparr>uart_tx := out\<rparr>)" s]
  by (simp add: booted_def task_init_def pages_ok_def kblks_ok_def ipc_holds_def queue_rel_def del: upt_rec_numeral)

text \<open>The task that boot creates: number 0, priority 4, in frame 0x822, with the root as its directory.\<close>

definition shell_task :: "addr \<Rightarrow> addr \<Rightarrow> task_info" where
  "shell_task f base = (started 0x822 4 f 0 (console_fds (0x82100000 + 108) (0x82100000 + 156)) (section_of 0x821) base)"

lemma boot_shell_create:
  assumes ok: "booted base head m s" and pt: "pt = block_start 0x82000000 KBLK_SIZE (16 * m + 9)" and id: "taskid s = - 1"
    and q0: "rq_ok s [[], [], [], [], []]"
  shows "\<exists>s' t. do_task_create 4 f s = Some s' \<and> rq_ok s' [[], [], [], [], [section_of 0x822]]
    \<and> pages_ok s' (map (page_at base) [2..<446]) [page_at base 0, page_at base 1]
    \<and> kblks_ok s' (map (blk_at head) [16 * m + 10..<64])
    \<and> task_heap s' (section_of 0x822) = Some t \<and> task_fixed t = task_fixed (shell_task f pt)
    \<and> ctx_heap s' (section_of 0x822 + 0xFC0) = Some (first_context f)
    \<and> (\<forall>x. 0x820 \<le> x \<and> x < 0xa00 \<longrightarrow> (user_writes (hw_desc (switch_mm pt s') (of_nat x)) \<longleftrightarrow> x = 0x822))
    \<and> no_fresh (no_start s') = no_fresh (no_start s)"
proof -
  have m: "m \<le> 3" and pages: "pages_ok s (map (page_at base) [1..<446]) [page_at base 0]"
    and fx: "links pg_fixed (page_heap s) (page_at base 1) = Some (pg_fixed (init_page base 1))"
    and ks: "kblks_ok s (map (blk_at head) [16 * m + 9..<64])"
    and st: "\<forall>i < 64. links b_start (blk_heap s) (blk_at head i) = Some (block_start 0x82000000 KBLK_SIZE i)"
    and rt: "root s = section_of 0x821" and cf: "console_files s (0x82100000 + 108) (0x82100000 + 156)"
    using ok unfolding booted_def by blast+
  obtain nv where nv: "page_heap s (page_at base 1) = Some nv" "pg_fixed nv = pg_fixed (init_page base 1)"
    using fx by (auto dest: links_SomeD)
  have "task_frame 0x822 (init_page base 1)" by (simp add: task_frame_def init_page_def page_frame_def section_of_def)
  then have fr: "task_frame 0x822 nv" using task_frame_fixed [OF nv(2)] by simp
  have up2: "[2..<446] = 2 # [3..<446 :: nat]" "[16 * m + 10..<64] = (16 * m + 10) # [16 * m + 11..<64]"
    by (rule upt_step; use m in simp)+
  have up1: "[1..<446] = 1 # [2..<446 :: nat]" "[16 * m + 9..<64] = (16 * m + 9) # [16 * m + 10..<64]"
    by (rule upt_step; use m in simp)+
  note up = up1 [unfolded up2]
  have far: "\<forall>x \<in> {blk_at head (16 * m + 9), blk_at head (16 * m + 10)} \<union> set (map (blk_at head) [16 * m + 11..<64]). frame_no x \<noteq> 0x822"
    using booted_frames [OF ok] m by (auto simp del: upt_rec_numeral)
  have b: "links b_start (blk_heap s) (blk_at head (16 * m + 9)) = Some pt" "table_ok pt"
    using st m booted_table [of "16 * m + 9"] by (simp_all add: pt)
  obtain s' t where s': "do_task_create (of_nat 4) f s = Some s'"
    "rq_ok s' ([[], [], [], [], []][4 := [[], [], [], [], []] ! 4 @ [section_of 0x822]])"
    "pages_ok s' (page_at base 2 # map (page_at base) [3..<446]) ([page_at base 0] @ [page_at base 1])"
    "kblks_ok s' (blk_at head (16 * m + 10) # map (blk_at head) [16 * m + 11..<64])"
    "task_heap s' (section_of 0x822) = Some t"
    "task_fixed t = task_fixed (started 0x822 (of_nat 4) f (taskid s + 1) (console_fds (0x82100000 + 108) (0x82100000 + 156)) (root s) pt)"
    "ctx_heap s' = (ctx_heap s)(section_of 0x822 + 0xFC0 \<mapsto> first_context f)"
    "\<forall>j < 4096. ptes s' (entry pt j) = (case task_ap 0x822 j of Some ap \<Rightarrow> identity_desc j ap | None \<Rightarrow> ptes s (entry pt j))"
    "no_fresh (no_start s') = no_fresh (no_start s)"
    using do_task_create_ok [OF pages [unfolded up(1) list.map] nv(1) fr _ _ q0 _ _ cf ks [unfolded up(2) list.map] far b, of 4 f] by auto
  have "user_writes (hw_desc (switch_mm pt s') (of_nat x)) \<longleftrightarrow> x = 0x822" if "0x820 \<le> x \<and> x < 0xa00" for x
    using isolated_writes [OF s'(8) b(2)] that by simp
  then show ?thesis using s'(1-7,9) unfolding up2
    by (intro exI [of _ s'] exI [of _ t]) (simp add: shell_task_def id rt del: upt_rec_numeral)
qed


lemma task_start_keeps:
  assumes eq: "no_fresh (no_start s') = no_fresh (no_start s)"
  shows "file_heap s' = file_heap s" "file_list_head s' = file_list_head s" "root s' = root s" "ipc_q s' = ipc_q s"
    "dev_in s' = dev_in s" "sctlr s' = sctlr s"
proof -
  show "file_heap s' = file_heap s" using arg_cong [OF eq, of file_heap] by (simp add: no_fresh_def no_start_def no_pages_def)
  show "file_list_head s' = file_list_head s" using arg_cong [OF eq, of file_list_head] by (simp add: no_fresh_def no_start_def no_pages_def)
  show "root s' = root s" using arg_cong [OF eq, of root] by (simp add: no_fresh_def no_start_def no_pages_def)
  show "ipc_q s' = ipc_q s" using arg_cong [OF eq, of ipc_q] by (simp add: no_fresh_def no_start_def no_pages_def)
  show "dev_in s' = dev_in s" using arg_cong [OF eq, of dev_in] by (simp add: no_fresh_def no_start_def no_pages_def)
  show "sctlr s' = sctlr s" using arg_cong [OF eq, of sctlr] by (simp add: no_fresh_def no_start_def no_pages_def)
qed

lemma sched_keeps:
  assumes eq: "no_sched s' = no_sched s"
  shows "file_heap s' = file_heap s" "file_list_head s' = file_list_head s" "root s' = root s" "ipc_q s' = ipc_q s"
    "ptes s' = ptes s" "sctlr s' = sctlr s" "page_heap s' = page_heap s" "free_page_head s' = free_page_head s"
    "inuse_page_head s' = inuse_page_head s" "blk_heap s' = blk_heap s" "kpage s' = kpage s"
proof -
  show "file_heap s' = file_heap s" using arg_cong [OF eq, of file_heap] by (simp add: no_sched_def no_tasks_def)
  show "file_list_head s' = file_list_head s" using arg_cong [OF eq, of file_list_head] by (simp add: no_sched_def no_tasks_def)
  show "root s' = root s" using arg_cong [OF eq, of root] by (simp add: no_sched_def no_tasks_def)
  show "ipc_q s' = ipc_q s" using arg_cong [OF eq, of ipc_q] by (simp add: no_sched_def no_tasks_def)
  show "ptes s' = ptes s" using arg_cong [OF eq, of ptes] by (simp add: no_sched_def no_tasks_def)
  show "sctlr s' = sctlr s" using arg_cong [OF eq, of sctlr] by (simp add: no_sched_def no_tasks_def)
  show "page_heap s' = page_heap s" using arg_cong [OF eq, of page_heap] by (simp add: no_sched_def no_tasks_def)
  show "free_page_head s' = free_page_head s" using arg_cong [OF eq, of free_page_head] by (simp add: no_sched_def no_tasks_def)
  show "inuse_page_head s' = inuse_page_head s" using arg_cong [OF eq, of inuse_page_head] by (simp add: no_sched_def no_tasks_def)
  show "blk_heap s' = blk_heap s" using arg_cong [OF eq, of blk_heap] by (simp add: no_sched_def no_tasks_def)
  show "kpage s' = kpage s" using arg_cong [OF eq, of kpage] by (simp add: no_sched_def no_tasks_def)
qed

text \<open>The kernel with its first task running on its own translation table.\<close>

definition up_and_running :: "addr \<Rightarrow> addr \<Rightarrow> nat \<Rightarrow> addr \<Rightarrow> kstate \<Rightarrow> bool" where
  "up_and_running base head m f s \<longleftrightarrow>
     rq_ok s [[], [], [], [], [section_of 0x822]] \<and> curr_running_task s = section_of 0x822
     \<and> pages_ok s (map (page_at base) [2..<446]) [page_at base 0, page_at base 1]
     \<and> kblks_ok s (map (blk_at head) [16 * m + 10..<64])
     \<and> (\<exists>t. task_heap s (section_of 0x822) = Some t \<and> pgtbase t = ttbr0 s \<and> ttbr0 s = block_start 0x82000000 KBLK_SIZE (16 * m + 9)
         \<and> task_fixed t = task_fixed ((shell_task f (ttbr0 s))\<lparr>task_status := TASK_RUNNING\<rparr>))
     \<and> tlb s = Map.empty
     \<and> (\<forall>x. 0x820 \<le> x \<and> x < 0xa00 \<longrightarrow> (user_writes (hw_desc s (of_nat x)) \<longleftrightarrow> x = 0x822))
     \<and> root s = section_of 0x821 \<and> console_files s (0x82100000 + 108) (0x82100000 + 156) \<and> ipc_holds s []"

lemma boot_shell_ok:
  assumes ok: "booted base head m s"
    and wd: "dev_in s 0x44E35034 = w1 @ a1 # w2 @ a2 # rest" "\<forall>w \<in> set (w1 @ w2). w AND 16 \<noteq> 0" "a1 AND 16 = 0" "a2 AND 16 = 0"
  shows "\<exists>s'. boot_shell e s = Some (s', first_context (shell_entry e)) \<and> up_and_running base head m (shell_entry e) s' \<and> sctlr s' = sctlr s"
proof -
  let ?K = "section_of 0x822"
  define pt where "pt = block_start 0x82000000 KBLK_SIZE (16 * m + 9)"
  obtain o1 where o1: "printk (cstr (''Init Tasks Shell...'' @ crlf)) [] s = Some (s\<lparr>uart_tx := o1\<rparr>)"
    using printk_ok [of "cstr (''Init Tasks Shell...'' @ crlf)" _ "[]" s] by (auto simp: cstr_def)
  define s1 where "s1 = task_init (s\<lparr>uart_tx := o1\<rparr>)"
  have b1: "booted base head m s1" "taskid s1 = - 1" "rq_ok s1 [[], [], [], [], []]" "dev_in s1 = dev_in s" "sctlr s1 = sctlr s"
    using booted_init [OF ok] booted_tasks by (simp_all add: s1_def task_init_def)
  obtain s2 t where s2: "do_task_create 4 (shell_entry e) s1 = Some s2" "rq_ok s2 [[], [], [], [], [?K]]"
    "pages_ok s2 (map (page_at base) [2..<446]) [page_at base 0, page_at base 1]" "kblks_ok s2 (map (blk_at head) [16 * m + 10..<64])"
    "task_heap s2 ?K = Some t" "task_fixed t = task_fixed (shell_task (shell_entry e) pt)" "ctx_heap s2 (?K + 0xFC0) = Some (first_context (shell_entry e))"
    "\<forall>x. 0x820 \<le> x \<and> x < 0xa00 \<longrightarrow> (user_writes (hw_desc (switch_mm pt s2) (of_nat x)) \<longleftrightarrow> x = 0x822)"
    "no_fresh (no_start s2) = no_fresh (no_start s1)"
    using boot_shell_create [OF b1(1) pt_def b1(2,3), of "shell_entry e"] by blast
  note k2 = task_start_keeps [OF s2(9)]
  obtain o2 where o2: "printk (cstr (''Sched Starting...'' @ crlf)) [] s2 = Some (s2\<lparr>uart_tx := o2\<rparr>)"
    using printk_ok [of "cstr (''Sched Starting...'' @ crlf)" _ "[]" s2] by (auto simp: cstr_def)
  obtain r l d where wdog: "disable_watchdog WATCHDOG_BASE (s2\<lparr>uart_tx := o2\<rparr>)
      = Some (s2\<lparr>uart_tx := o2, dev_reg := r, dev_log := l, dev_in := d\<rparr>)"
    using watchdog_off [of "s2\<lparr>uart_tx := o2\<rparr>" w1 a1 w2 a2 rest] wd b1(4) k2(5) by auto
  define s3 where "s3 = set_first_sched (s2\<lparr>uart_tx := o2, dev_reg := r, dev_log := l, dev_in := d\<rparr>)"
  have eq3: "rq_ok s3 [[], [], [], [], [?K]]" "task_heap s3 = task_heap s2" "ctx_heap s3 = ctx_heap s2" "sched_lr s3 = Fn_run_first_sched"
    using s2(2) by (simp_all add: s3_def set_first_sched_def rq_ok_def)
  have tf: "task_status t = TASK_READY" "task_context_ptr t = ?K + 0xFC0" "pgtbase t = pt"
    using task_fixed_eqD [OF s2(6)] by (simp_all add: shell_task_def started_def new_task_def)
  have nn: "?K + 0xFC0 \<noteq> NULL" by (simp add: section_of_def)
  obtain s4 t4 where s4: "sched s3 = Some (s4, first_context (shell_entry e))" "rq_ok s4 [[], [], [], [], [?K]]" "curr_running_task s4 = ?K"
    "task_heap s4 ?K = Some t4" "task_fixed t4 = task_fixed (t\<lparr>task_status := TASK_RUNNING\<rparr>)" "ttbr0 s4 = pt" "tlb s4 = Map.empty"
    "no_sched s4 = no_sched s3"
    using first_switch [OF eq3(1), of 4 ?K t "first_context (shell_entry e)"] s2(5,7) tf nn by (auto simp: eq3(2,3) less_Suc_eq numeral_eq_Suc)
  note k4 = sched_keeps [OF s4(8)]
  have run: "boot_shell e s = Some (s4, first_context (shell_entry e))"
    by (simp only: boot_shell_def o1 Option.bind.simps s1_def [symmetric] s2(1) o2 wdog s3_def [symmetric] call_sched_def eq3(4)
        run_first_sched_def s4(1) sched_fn.case)
  have pk: "pages_ok s4 (map (page_at base) [2..<446]) [page_at base 0, page_at base 1]" "kblks_ok s4 (map (blk_at head) [16 * m + 10..<64])"
    using s2(3,4) by (simp_all add: pages_ok_def kblks_ok_def k4 s3_def set_first_sched_def del: upt_rec_numeral)
  have "task_fixed t4 = task_fixed ((shell_task (shell_entry e) pt)\<lparr>task_status := TASK_RUNNING\<rparr>)"
    using s4(5) s2(6) by (cases t; cases "shell_task (shell_entry e) pt") (simp add: task_fixed_def)
  moreover have "pgtbase t4 = pt" using task_fixed_eqD(4) [OF s4(5)] tf(3) by simp
  moreover have "hw_desc s4 x = hw_desc (switch_mm pt s2) x" for x
    by (simp add: hw_desc_def s4(6,7) k4 s3_def set_first_sched_def switch_mm_def pgt_base_setup_def invalidate_tlb_def)
  moreover have "root s = section_of 0x821" "console_files s (0x82100000 + 108) (0x82100000 + 156)" "ipc_holds s []"
    using ok unfolding booted_def by blast+
  then have "root s4 = section_of 0x821" "console_files s4 (0x82100000 + 108) (0x82100000 + 156)" "ipc_holds s4 []"
    using console_files_cong [of s4 s]
    by (simp_all add: k4 s3_def set_first_sched_def k2 s1_def task_init_def ipc_holds_def queue_rel_def)
  ultimately have "up_and_running base head m (shell_entry e) s4"
    using s4(2,3,4,7) pk s2(8) unfolding up_and_running_def s4(6) pt_def [symmetric] by simp
  moreover have "sctlr s4 = sctlr s" by (simp add: k4 s3_def set_first_sched_def k2 b1(5))
  ultimately show ?thesis using run by blast
qed

section \<open>Property\<close>

text \<open>
  C2: boot. With the bss zeroed and a watchdog that eventually takes its two stop codes, \<open>kernal_entry\<close>
  reaches the shell: the context that is loaded starts at \<^verbatim>\<open>main_shell\<close>, the shell is task 0 on the ready list of
  priority 4 and is running, its page and the page of the directory tree are the only ones in use, its table
  and the IPC buffer the only kernel blocks taken; the console is open as its descriptors 0 and 1, the channel is empty,
  and with the active translation table it can write no page of RAM but its own.
\<close>

theorem kernel_boots:
  assumes image: "0x82000000 \<le> unat (kernal_end s)" "unat (kernal_end s) \<le> 0x82030000"
    and bss: "valid_range (sbss e) (unat (ebss e - sbss e))"
      "length (page_list s) = 447" "inuse_page_head s = NULL" "root s = NULL" "file_list_head s = NULL"
    and watchdog: "dev_in s 0x44E35034 = w1 @ a1 # w2 @ a2 # rest" "\<forall>w \<in> set (w1 @ w2). w AND 16 \<noteq> 0" "a1 AND 16 = 0" "a2 AND 16 = 0"
  shows "\<exists>s' head m. kernal_entry e s = Some (s', first_context (shell_entry e))
    \<and> up_and_running (KERN_PADDR s + 0x2800) head m (shell_entry e) s' \<and> sctlr s' = sctlr s OR 1"
proof -
  obtain s1 where s1: "boot_devices e s = Some s1" "hw_at s (sctlr s OR 1) s1"
    using boot_devices_ok [OF image bss(1)] by blast
  have hw: "no_hw s1 = no_hw s" using s1(2) by (simp add: hw_at_def)
  have k1: "page_list s1 = page_list s" "inuse_page_head s1 = inuse_page_head s" "root s1 = root s" "file_list_head s1 = file_list_head s"
    "dev_in s1 = dev_in s"
    using arg_cong [OF hw, of page_list] arg_cong [OF hw, of inuse_page_head] arg_cong [OF hw, of root]
      arg_cong [OF hw, of file_list_head] arg_cong [OF hw, of dev_in] by (simp_all add: no_hw_def)
  obtain s2 head m where s2: "boot_memory e s1 = Some s2" "booted (KERN_PADDR s + 0x2800) head m s2" "no_mem (no_files s2) = no_mem (no_files s1)"
    using boot_memory_ok [of s1 e] image bss(2-5) by (auto simp: k1 hw_KERN_PADDR [OF s1(2)])
  have k2: "dev_in s2 = dev_in s1" "sctlr s2 = sctlr s1"
    using arg_cong [OF s2(3), of dev_in] arg_cong [OF s2(3), of sctlr] by (simp_all add: no_mem_def no_files_def no_pages_def)
  obtain s3 where "boot_shell e s2 = Some (s3, first_context (shell_entry e))"
    "up_and_running (KERN_PADDR s + 0x2800) head m (shell_entry e) s3" "sctlr s3 = sctlr s2"
    using boot_shell_ok [OF s2(2), of w1 a1 w2 a2 rest e] watchdog by (auto simp: k1 k2)
  then show ?thesis using s1 s2(1) k2(2) by (auto simp: kernal_entry_stages hw_at_def)
qed

definition demo_boot_env :: boot_env where
  "demo_boot_env = \<lparr>sbss = 0x82018000, ebss = 0x82018800, env_sp = 0x82090000, env_cpsr = 0x13, env_vbar = 0x82000000,
     junk_j = 0xdeadbeef, junk_name = replicate 16 (CHR ''?''), shell_entry = 0x82004000\<rparr>"

definition demo_power_on :: kstate where
  "demo_power_on = zero_state\<lparr>dev_in := (\<lambda>_. [16, 16, 0, 16, 0])\<rparr>"

theorem kernel_boots_witness:
  "\<exists>s' head m. kernal_entry demo_boot_env demo_power_on = Some (s', first_context 0x82004000)
    \<and> up_and_running 0x82022800 head m 0x82004000 s' \<and> sctlr s' = 1"
proof -
  have "KERN_PADDR demo_power_on + 0x2800 = 0x82022800"
    by (simp add: demo_power_on_def zero_state_def KERN_PADDR_def ROUNDUP_def ROUNDDOWN_def)
  then show ?thesis
    using kernel_boots [of demo_power_on demo_boot_env "[16, 16]" 0 "[16]" 0 "[]"]
    by (auto simp: demo_power_on_def demo_boot_env_def zero_state_def valid_range_def)
qed

end
