(* ===== verification/User.thy ===== *)
theory User
  imports SysTask
begin

text \<open>
  The user side: the system-call wrappers of \<^verbatim>\<open>src/src/klib/usyscall.c\<close>, the character functions
  of \<^verbatim>\<open>stdio.c\<close> and the drawing of the start screen, \<^verbatim>\<open>console.c\<close>.
  \<open>svc\<close> is the trip through \<^verbatim>\<open>syscall_asm.s\<close> and \<^verbatim>\<open>exception.s\<close>: the number in \<^verbatim>\<open>r0\<close>, the
  argument in \<^verbatim>\<open>r2\<close>, the registers pushed below the stack pointer, \<open>syscall_handler\<close>, and \<^verbatim>\<open>r0\<close>
  as the call left it.
  Where the compiler puts the local variables of the wrappers is a parameter, \<open>uframe\<close>.
\<close>

section \<open>System calls from user code\<close>

record uframe =
  u_local :: addr
  u_args :: addr
  u_sp :: addr

text \<open>A call that switches tasks does not come back here.\<close>

definition svc :: "u32 \<Rightarrow> addr \<Rightarrow> u32 \<Rightarrow> kstate \<Rightarrow> (u32 \<times> kstate) option" where
  "svc n sp arg s = do {
     let ctx = sp - 56;
     r \<leftarrow> syscall_handler n ctx arg (s\<lparr>ctx_heap := (ctx_heap s)(ctx \<mapsto> zero_ctx\<lparr>c_r2 := arg, c_r0 := n\<rparr>)\<rparr>);
     case r of
       Switched s c \<Rightarrow> None
     | Returned s \<Rightarrow> do {
         c \<leftarrow> deref (ctx_heap s) ctx;
         Some (c_r0 c, s)
       }
   }"

text \<open>
  \<^verbatim>\<open>printk\<close> called from a task: its stores to the registers of UART0, at \<^verbatim>\<open>0x44E09000\<close>, go through the
  translation table in use.
\<close>

definition user_printk :: "char list \<Rightarrow> u32 list \<Rightarrow> kstate \<Rightarrow> kstate option" where
  "user_printk fmt args s = (if user_writes (hw_desc s 0x44E) then printk fmt args s else None)"

definition u_gettid :: "uframe \<Rightarrow> kstate \<Rightarrow> (u32 \<times> kstate) option" where
  "u_gettid u s = svc 2 (u_sp u) 0 s"

definition u_fork :: "uframe \<Rightarrow> kstate \<Rightarrow> (u32 \<times> kstate) option" where
  "u_fork u s = svc 4 (u_sp u) 0 s"

definition u_do_taskCreate :: "uframe \<Rightarrow> addr \<Rightarrow> u32 \<Rightarrow> kstate \<Rightarrow> (u32 \<times> kstate) option" where
  "u_do_taskCreate u taskFunc pr s = do {
     s \<leftarrow> store32 (u_args u) taskFunc s;
     s \<leftarrow> store32 (u_args u + 4) pr s;
     svc 5 (u_sp u) (u_args u) s
   }"

definition u_malloc_blk :: "uframe \<Rightarrow> kstate \<Rightarrow> (u32 \<times> kstate) option" where
  "u_malloc_blk u s = svc 6 (u_sp u) 0 s"

definition u_mfree_blk :: "uframe \<Rightarrow> addr \<Rightarrow> kstate \<Rightarrow> (u32 \<times> kstate) option" where
  "u_mfree_blk u blk_aval_start s = svc 7 (u_sp u) blk_aval_start s"

definition u_get_mblk_list :: "uframe \<Rightarrow> kstate \<Rightarrow> (u32 \<times> kstate) option" where
  "u_get_mblk_list u s = svc 8 (u_sp u) 0 s"

definition u_get_task_priority :: "uframe \<Rightarrow> kstate \<Rightarrow> (u32 \<times> kstate) option" where
  "u_get_task_priority u s = svc 9 (u_sp u) 0 s"

definition u_print_hello :: "uframe \<Rightarrow> u32 \<Rightarrow> kstate \<Rightarrow> (u32 \<times> kstate) option" where
  "u_print_hello u input s = svc 0 (u_sp u) input s"

definition rdwr_args :: "uframe \<Rightarrow> u32 \<Rightarrow> addr \<Rightarrow> u32 \<Rightarrow> kstate \<Rightarrow> kstate option" where
  "rdwr_args u fd buf n_bytes s = do {
     s \<leftarrow> store32 (u_args u) fd s;
     s \<leftarrow> store32 (u_args u + 4) buf s;
     store32 (u_args u + 8) n_bytes s
   }"

definition u_write :: "uframe \<Rightarrow> u32 \<Rightarrow> addr \<Rightarrow> u32 \<Rightarrow> kstate \<Rightarrow> (u32 \<times> kstate) option" where
  "u_write u fd buf n_bytes s = do {
     s \<leftarrow> rdwr_args u fd buf n_bytes s;
     svc 10 (u_sp u) (u_args u) s
   }"

definition u_read :: "uframe \<Rightarrow> u32 \<Rightarrow> addr \<Rightarrow> u32 \<Rightarrow> kstate \<Rightarrow> (u32 \<times> kstate) option" where
  "u_read u fd buf n_bytes s = do {
     s \<leftarrow> rdwr_args u fd buf n_bytes s;
     svc 11 (u_sp u) (u_args u) s
   }"

definition u_open :: "uframe \<Rightarrow> addr \<Rightarrow> kstate \<Rightarrow> (u32 \<times> kstate) option" where
  "u_open u path s = svc 12 (u_sp u) path s"

definition buf_args :: "uframe \<Rightarrow> addr \<Rightarrow> u32 \<Rightarrow> kstate \<Rightarrow> kstate option" where
  "buf_args u buf n_bytes s = do {
     s \<leftarrow> store32 (u_args u) buf s;
     store32 (u_args u + 4) n_bytes s
   }"

definition u_getcwd :: "uframe \<Rightarrow> addr \<Rightarrow> u32 \<Rightarrow> kstate \<Rightarrow> kstate option" where
  "u_getcwd u buf n_bytes s = do {
     s \<leftarrow> mem_set buf 0 n_bytes s;
     s \<leftarrow> buf_args u buf n_bytes s;
     (_, s) \<leftarrow> svc 13 (u_sp u) (u_args u) s;
     Some s
   }"

definition list_call :: "u32 \<Rightarrow> uframe \<Rightarrow> addr \<Rightarrow> u32 \<Rightarrow> kstate \<Rightarrow> (int \<times> kstate) option" where
  "list_call n u buf n_bytes s = do {
     s \<leftarrow> mem_set buf 0 n_bytes s;
     s \<leftarrow> buf_args u buf n_bytes s;
     (_, s) \<leftarrow> svc n (u_sp u) (u_args u) s;
     b \<leftarrow> load32 (u_args u) s;
     Some (if b = NULL then - 1 else 0, s)
   }"

definition u_getsubdir :: "uframe \<Rightarrow> addr \<Rightarrow> u32 \<Rightarrow> kstate \<Rightarrow> (int \<times> kstate) option" where
  "u_getsubdir u buf n_bytes s = list_call 14 u buf n_bytes s"

definition u_getfdir :: "uframe \<Rightarrow> addr \<Rightarrow> u32 \<Rightarrow> kstate \<Rightarrow> (int \<times> kstate) option" where
  "u_getfdir u buf n_bytes s = list_call 15 u buf n_bytes s"

definition u_chdir :: "uframe \<Rightarrow> addr \<Rightarrow> kstate \<Rightarrow> (u32 \<times> kstate) option" where
  "u_chdir u subdirname s = svc 16 (u_sp u) subdirname s"

definition u_getfullpath :: "uframe \<Rightarrow> addr \<Rightarrow> u32 \<Rightarrow> kstate \<Rightarrow> kstate option" where
  "u_getfullpath u buf n_bytes s = do {
     s \<leftarrow> buf_args u buf n_bytes s;
     (_, s) \<leftarrow> svc 17 (u_sp u) (u_args u) s;
     Some s
   }"

definition u_restart :: "uframe \<Rightarrow> kstate \<Rightarrow> (u32 \<times> kstate) option" where
  "u_restart u s = svc 18 (u_sp u) 0 s"

definition u_close :: "uframe \<Rightarrow> u32 \<Rightarrow> kstate \<Rightarrow> (u32 \<times> kstate) option" where
  "u_close u fd s = svc 19 (u_sp u) fd s"

section \<open>Characters and strings\<close>

abbreviation (input) FD_CONSOLE_IN :: u32 where "FD_CONSOLE_IN \<equiv> 0"
abbreviation (input) FD_CONSOLE_OUT :: u32 where "FD_CONSOLE_OUT \<equiv> 1"

definition get_c :: "uframe \<Rightarrow> kstate \<Rightarrow> (char \<times> kstate) option" where
  "get_c u s = do {
     s \<leftarrow> store8 (u_local u) 0 s;
     (_, s) \<leftarrow> u_read u FD_CONSOLE_IN (u_local u) 1 s;
     b \<leftarrow> load8 (u_local u) s;
     Some (of_byte b, s)
   }"

definition put_c :: "uframe \<Rightarrow> char \<Rightarrow> kstate \<Rightarrow> kstate option" where
  "put_c u character s = do {
     s \<leftarrow> store8 (u_local u) (byte_of character) s;
     (_, s) \<leftarrow> u_write u FD_CONSOLE_OUT (u_local u) 1 s;
     Some s
   }"

partial_function (option) put_str_from :: "uframe \<Rightarrow> cptr \<Rightarrow> nat \<Rightarrow> kstate \<Rightarrow> kstate option" where
  "put_str_from u p i s = do {
     c \<leftarrow> getc p i s;
     if c \<noteq> NUL then do {
       s \<leftarrow> put_c u c s;
       put_str_from u p (i + 1) s
     } else Some s
   }"

declare put_str_from.simps [code]

definition put_str :: "uframe \<Rightarrow> cptr \<Rightarrow> kstate \<Rightarrow> kstate option" where
  "put_str u p s = put_str_from u p 0 s"

text \<open>\<open>uprint\<close> (theory \<open>Printk\<close>) gives the characters in the order \<^verbatim>\<open>uprint\<close> passes them to \<^verbatim>\<open>put_c\<close>.\<close>

definition uprintf :: "uframe \<Rightarrow> char list \<Rightarrow> u32 list \<Rightarrow> kstate \<Rightarrow> kstate option" where
  "uprintf u fmt args s = do {
     out \<leftarrow> uprint fmt args;
     for_each (put_c u) out s
   }"

section \<open>The start screen\<close>

text \<open>Coordinates and lengths are not negative at any call.\<close>

fun draw_loop :: "(nat \<Rightarrow> addr) \<Rightarrow> char \<Rightarrow> nat \<Rightarrow> kstate \<Rightarrow> kstate option" where
  "draw_loop at character 0 s = Some s"
| "draw_loop at character (Suc len) s = do {
     s \<leftarrow> store8 (at len) (byte_of character) s;
     draw_loop at character len s
   }"

definition draw_horizental_line :: "addr \<Rightarrow> nat \<Rightarrow> nat \<Rightarrow> nat \<Rightarrow> char \<Rightarrow> nat \<Rightarrow> kstate \<Rightarrow> kstate option" where
  "draw_horizental_line input n_h h v character len s =
     draw_loop (\<lambda>i. input + of_nat (n_h * v + h) + of_nat i) character len s"

definition draw_vertical_line :: "addr \<Rightarrow> nat \<Rightarrow> nat \<Rightarrow> nat \<Rightarrow> char \<Rightarrow> nat \<Rightarrow> kstate \<Rightarrow> kstate option" where
  "draw_vertical_line input n_h h v character len s =
     draw_loop (\<lambda>i. input + of_nat (n_h * v + h) + of_nat (n_h * i)) character len s"

definition draw_whole :: "addr \<Rightarrow> nat \<Rightarrow> nat \<Rightarrow> char \<Rightarrow> kstate \<Rightarrow> kstate option" where
  "draw_whole input n_v n_h character s =
     for_each (\<lambda>i. store8 (input + of_nat i) (byte_of character)) [0..<n_v * n_h] s"

definition draw_last_pix_every_line :: "addr \<Rightarrow> nat \<Rightarrow> nat \<Rightarrow> char \<Rightarrow> kstate \<Rightarrow> kstate option" where
  "draw_last_pix_every_line input n_v n_h character s = do {
     s \<leftarrow> draw_vertical_line input n_h (n_h - 1) 0 (CHR 0x0A) n_v s;
     draw_vertical_line input n_h (n_h - 1) (n_v - 1) NUL 1 s
   }"

abbreviation (input) HORIZENTAL_LENTH :: nat where "HORIZENTAL_LENTH \<equiv> 80"
abbreviation (input) VERTICAL_LENTH :: nat where "VERTICAL_LENTH \<equiv> 24"
abbreviation (input) SHIFT_V :: nat where "SHIFT_V \<equiv> 5"
abbreviation (input) V_CHAR :: char where "V_CHAR \<equiv> CHR ''|''"
abbreviation (input) H_CHAR :: char where "H_CHAR \<equiv> CHR ''=''"

definition draw_console :: "uframe \<Rightarrow> addr \<Rightarrow> kstate \<Rightarrow> kstate option" where
  "draw_console u p s = do {
     s \<leftarrow> draw_whole p VERTICAL_LENTH HORIZENTAL_LENTH (CHR '' '') s;
     s \<leftarrow> draw_horizental_line p HORIZENTAL_LENTH 13 (5 + SHIFT_V) H_CHAR 19 s;
     s \<leftarrow> draw_horizental_line p HORIZENTAL_LENTH 13 (15 + SHIFT_V) H_CHAR 19 s;
     s \<leftarrow> draw_vertical_line p HORIZENTAL_LENTH 12 (6 + SHIFT_V) V_CHAR 9 s;
     s \<leftarrow> draw_vertical_line p HORIZENTAL_LENTH 32 (6 + SHIFT_V) V_CHAR 9 s;
     s \<leftarrow> draw_horizental_line p HORIZENTAL_LENTH 42 (5 + SHIFT_V) H_CHAR 20 s;
     s \<leftarrow> draw_horizental_line p HORIZENTAL_LENTH 42 (10 + SHIFT_V) H_CHAR 20 s;
     s \<leftarrow> draw_horizental_line p HORIZENTAL_LENTH 42 (15 + SHIFT_V) H_CHAR 20 s;
     s \<leftarrow> draw_vertical_line p HORIZENTAL_LENTH 41 (6 + SHIFT_V) V_CHAR 4 s;
     s \<leftarrow> draw_vertical_line p HORIZENTAL_LENTH 61 (11 + SHIFT_V) V_CHAR 4 s;
     s \<leftarrow> draw_last_pix_every_line p VERTICAL_LENTH HORIZENTAL_LENTH (CHR 0x0A) s;
     s \<leftarrow> draw_vertical_line p HORIZENTAL_LENTH (HORIZENTAL_LENTH - 2) 0 (CHR 0x0D) VERTICAL_LENTH s;
     (_, s) \<leftarrow> u_write u FD_CONSOLE_OUT p (of_nat (VERTICAL_LENTH * HORIZENTAL_LENTH)) s;
     Some s
   }"

end
