(* ===== verification/UserIO.thy ===== *)
theory UserIO
  imports User
begin

text \<open>
  What the wrappers do: a character written through descriptor 1 appears on the UART, a character
  read through descriptor 0 is the next one received, and nothing else changes but the caller's own
  frame. From these two facts follow the text functions, the start screen and the shell's line.
\<close>

unbundle bit_operations_syntax

section \<open>Argument structs\<close>

lemma rdwr_args_ok:
  assumes "valid_range (u_args u) 12"
  shows "\<exists>m. rdwr_args u fd buf n s = Some (s\<lparr>bytes := m\<rparr>)
    \<and> (\<forall>x. \<not> in_range (u_args u) 12 x \<longrightarrow> m x = bytes s x)
    \<and> (\<forall>t. bytes t = m \<longrightarrow> load32 (u_args u) t = Some fd \<and> load32 (u_args u + 4) t = Some buf \<and> load32 (u_args u + 8) t = Some n)"
proof -
  let ?a = "u_args u"
  have r: "valid_range ?a 4" "valid_range (?a + 4) 4" "valid_range (?a + 8) 4" "unat (?a + 4) = unat ?a + 4" "unat (?a + 8) = unat ?a + 8"
    using sub_range(1) [OF assms, of 0 4] sub_range [OF assms, of 4 4] sub_range [OF assms, of 8 4] by simp_all
  let ?m1 = "put32 ?a fd (bytes s)" let ?m2 = "put32 (?a + 4) buf ?m1" let ?m = "put32 (?a + 8) n ?m2"
  have run: "rdwr_args u fd buf n s = Some (s\<lparr>bytes := ?m\<rparr>)"
    using r by (simp add: rdwr_args_def store32_at)
  have out: "?m x = bytes s x" if "\<not> in_range ?a 12 x" for x
  proof -
    have "\<not> in_range ?a 4 x" "\<not> in_range (?a + 4) 4 x" "\<not> in_range (?a + 8) 4 x"
      using that r(4,5) by (auto simp: in_range_def)
    then show ?thesis using put32_other r(1-3) by simp
  qed
  have "load32 ?a t = Some fd \<and> load32 (?a + 4) t = Some buf \<and> load32 (?a + 8) t = Some n" if t: "bytes t = ?m" for t
  proof -
    have d: "\<not> in_range (?a + 8) 4 x" if "in_range (?a + 4) 4 x \<or> in_range ?a 4 x" for x using that r(4,5) by (auto simp: in_range_def)
    have d': "\<not> in_range (?a + 4) 4 x" if "in_range ?a 4 x" for x using that r(4) by (auto simp: in_range_def)
    have "load32 ?a t = load32 ?a (t\<lparr>bytes := ?m1\<rparr>)"
      using d d' put32_other [OF _ r(3)] put32_other [OF _ r(2)] by (intro load32_cong r(1)) (simp add: t)
    moreover have "load32 (?a + 4) t = load32 (?a + 4) (t\<lparr>bytes := ?m2\<rparr>)"
      using d put32_other [OF _ r(3)] by (intro load32_cong r(2)) (simp add: t)
    moreover have "load32 (?a + 8) t = Some n" by (rule load32_put [OF r(3) _ t]) simp
    moreover have "load32 ?a (t\<lparr>bytes := ?m1\<rparr>) = Some fd" by (rule load32_put [OF r(1)]) simp_all
    moreover have "load32 (?a + 4) (t\<lparr>bytes := ?m2\<rparr>) = Some buf" by (rule load32_put [OF r(2)]) simp_all
    ultimately show ?thesis by simp
  qed
  then show ?thesis using run out by blast
qed


section \<open>The console from user code\<close>

definition frame_of :: "uframe \<Rightarrow> addr \<Rightarrow> bool" where
  "frame_of u x \<longleftrightarrow> x = u_local u \<or> in_range (u_args u) 12 x"

definition console_ok :: "uframe \<Rightarrow> kstate \<Rightarrow> bool" where
  "console_ok u s \<longleftrightarrow> u_local u \<noteq> NULL \<and> valid_range (u_args u) 12 \<and> \<not> in_range (u_args u) 12 (u_local u) \<and> u_sp u - 56 \<noteq> NULL \<and>
     (\<exists>t fi fo. current s = Some t
        \<and> deref (file_heap s) (openfiles t ! 0) = Some fi \<and> file_read fi = Fn_console_read
        \<and> deref (file_heap s) (openfiles t ! 1) = Some fo \<and> file_write fo = Fn_console_write)"

text \<open>
  \<open>out\<close> appeared on the UART, \<open>k\<close> characters were received, and only the frame was written; saved
  contexts and the active translation may differ, the rest of the state does not.
\<close>

definition no_user :: "kstate \<Rightarrow> kstate" where
  "no_user s = s\<lparr>bytes := \<lambda>_. 0, uart_tx := [], uart_rx := [], ctx_heap := Map.empty, tlb := Map.empty, ttbr0 := 0\<rparr>"

lemma no_user_simps [simp]:
  "no_user (s\<lparr>bytes := m\<rparr>) = no_user s" "no_user (s\<lparr>uart_tx := tx\<rparr>) = no_user s" "no_user (s\<lparr>uart_rx := rx\<rparr>) = no_user s"
  "no_user (s\<lparr>ctx_heap := g\<rparr>) = no_user s" "no_user (s\<lparr>tlb := w\<rparr>) = no_user s" "no_user (s\<lparr>ttbr0 := v\<rparr>) = no_user s"
  by (simp_all add: no_user_def)

lemma no_user_keeps:
  assumes eq: "no_user s' = no_user s"
  shows "task_heap s' = task_heap s" "curr_running_task s' = curr_running_task s" "file_heap s' = file_heap s"
    "file_list_head s' = file_list_head s" "ipc_q s' = ipc_q s" "task_ready_list s' = task_ready_list s" "ptes s' = ptes s"
  using arg_cong [OF eq, of task_heap] arg_cong [OF eq, of curr_running_task] arg_cong [OF eq, of file_heap]
    arg_cong [OF eq, of file_list_head] arg_cong [OF eq, of ipc_q] arg_cong [OF eq, of task_ready_list] arg_cong [OF eq, of ptes]
  by (simp_all add: no_user_def)

definition user_io :: "(addr \<Rightarrow> bool) \<Rightarrow> char list \<Rightarrow> nat \<Rightarrow> kstate \<Rightarrow> kstate \<Rightarrow> bool" where
  "user_io W out k s s' \<longleftrightarrow> uart_tx s' = uart_tx s @ out \<and> uart_rx s' = drop k (uart_rx s)
     \<and> task_heap s' = task_heap s \<and> curr_running_task s' = curr_running_task s \<and> file_heap s' = file_heap s
     \<and> no_user s' = no_user s \<and> dom (ctx_heap s) \<subseteq> dom (ctx_heap s') \<and> (\<forall>x. \<not> W x \<longrightarrow> bytes s' x = bytes s x)"

lemma user_io_refl: "user_io W [] 0 s s"
  by (simp add: user_io_def)

lemma user_io_trans: "user_io W o1 k1 s t \<Longrightarrow> user_io W o2 k2 t v \<Longrightarrow> user_io W (o1 @ o2) (k1 + k2) s v"
  using subset_trans [of "dom (ctx_heap s)" "dom (ctx_heap t)" "dom (ctx_heap v)"] by (simp add: user_io_def add.commute)

lemma user_io_mono: "user_io W out k s s' \<Longrightarrow> \<forall>x. W x \<longrightarrow> W' x \<Longrightarrow> user_io W' out k s s'"
  by (auto simp: user_io_def)

lemma user_io_store: "a \<noteq> NULL \<Longrightarrow> W a \<Longrightarrow> store8 a v s = Some (s\<lparr>bytes := (bytes s)(a := v)\<rparr>)
    \<and> user_io W [] 0 s (s\<lparr>bytes := (bytes s)(a := v)\<rparr>)"
  by (auto simp: store8_def user_io_def)

lemma console_ok_io: "console_ok u s \<Longrightarrow> user_io W out k s s' \<Longrightarrow> console_ok u s'"
  by (simp add: console_ok_def user_io_def current_def)

lemma console_write_loop_ok:
  "valid_range p n \<Longrightarrow> console_write_loop n p k s =
     Some (k + of_nat n, s\<lparr>uart_tx := uart_tx s @ map (\<lambda>i. of_byte (bytes s (p + of_nat i))) [0..<n]\<rparr>)"
proof (induction n arbitrary: p k s)
  case (Suc n)
  have p: "p \<noteq> NULL" using Suc.prems by (simp add: valid_range_def)
  let ?s = "print_char (of_byte (bytes s p)) s"
  have step: "console_write_loop (Suc n) p k s = console_write_loop n (p + 1) (k + 1) ?s"
    using p by (simp add: load8_def)
  have up: "map f [0..<Suc n] = f 0 # map (\<lambda>i. f (Suc i)) [0..<n]" for f :: "nat \<Rightarrow> char"
    by (simp add: upt_conv_Cons map_Suc_upt [symmetric] del: upt_Suc)
  show ?case
  proof (cases "n = 0")
    case True
    then show ?thesis using step by (simp add: print_char_def)
  next
    case False
    have "valid_range (p + 1) n" using sub_range(1) [OF Suc.prems, of 1 n] False by simp
    from Suc.IH [OF this, of "k + 1" ?s] show ?thesis unfolding step up
      by (simp add: print_char_def add.assoc)
  qed
qed simp

text \<open>A call whose handler changes only memory, the UART and the caller's \<^verbatim>\<open>r0\<close>.\<close>

lemma svc_plain:
  assumes t: "current s = Some t" and n: "unat n < 20" "syscall_table ! unat n = plain h" and sp: "sp - 56 \<noteq> NULL"
    and h: "\<And>v w. h (sp - 56) arg (s\<lparr>ctx_heap := (ctx_heap s)(sp - 56 \<mapsto> zero_ctx\<lparr>c_r2 := arg, c_r0 := n\<rparr>), tlb := w, ttbr0 := v\<rparr>)
      = Some (s\<lparr>ctx_heap := (ctx_heap s)(sp - 56 \<mapsto> zero_ctx\<lparr>c_r2 := arg, c_r0 := r\<rparr>), tlb := w, ttbr0 := v, bytes := m, uart_tx := tx, uart_rx := rx\<rparr>)"
  shows "\<exists>g v w. svc n sp arg s = Some (r, s\<lparr>ctx_heap := g, bytes := m, uart_tx := tx, uart_rx := rx, tlb := w, ttbr0 := v\<rparr>)
    \<and> dom (ctx_heap s) \<subseteq> dom g"
proof -
  let ?s = "s\<lparr>ctx_heap := (ctx_heap s)(sp - 56 \<mapsto> zero_ctx\<lparr>c_r2 := arg, c_r0 := n\<rparr>)\<rparr>"
  have "syscall_handler n (sp - 56) arg ?s = Some (Returned (switch_mm (pgtbase t)
      (s\<lparr>ctx_heap := (ctx_heap s)(sp - 56 \<mapsto> zero_ctx\<lparr>c_r2 := arg, c_r0 := r\<rparr>), tlb := Map.empty, ttbr0 := KERN_PADDR s, bytes := m, uart_tx := tx, uart_rx := rx\<rparr>)))"
    using t n h [where v = "KERN_PADDR s" and w = Map.empty]
    by (simp add: syscall_handler_def Let_def plain_def switch_mm_def pgt_base_setup_def invalidate_tlb_def current_def KERN_PADDR_def)
  then have "\<exists>v w. svc n sp arg s = Some (r, s\<lparr>ctx_heap := (ctx_heap s)(sp - 56 \<mapsto> zero_ctx\<lparr>c_r2 := arg, c_r0 := r\<rparr>), bytes := m,
      uart_tx := tx, uart_rx := rx, tlb := w, ttbr0 := v\<rparr>)"
    using sp by (auto simp: svc_def Let_def deref_non_NULL switch_mm_def pgt_base_setup_def invalidate_tlb_def)
  then show ?thesis by (intro exI [of _ "(ctx_heap s)(sp - 56 \<mapsto> zero_ctx\<lparr>c_r2 := arg, c_r0 := r\<rparr>)"]) auto
qed


lemma u_write_console:
  assumes ok: "console_ok u s" and p: "valid_range p (unat n)" and apart: "\<forall>i < unat n. \<not> in_range (u_args u) 12 (p + of_nat i)"
  shows "\<exists>s'. u_write u 1 p n s = Some (n, s')
    \<and> user_io (in_range (u_args u) 12) (map (\<lambda>i. of_byte (bytes s (p + of_nat i))) [0..<unat n]) 0 s s'"
proof -
  obtain t fo where t: "valid_range (u_args u) 12" "u_sp u - 56 \<noteq> NULL" "current s = Some t"
    "deref (file_heap s) (openfiles t ! 1) = Some fo" "file_write fo = Fn_console_write"
    using ok by (auto simp: console_ok_def)
  obtain m where m: "rdwr_args u 1 p n s = Some (s\<lparr>bytes := m\<rparr>)" "\<forall>x. \<not> in_range (u_args u) 12 x \<longrightarrow> m x = bytes s x"
    "\<forall>t. bytes t = m \<longrightarrow> load32 (u_args u) t = Some 1 \<and> load32 (u_args u + 4) t = Some p \<and> load32 (u_args u + 8) t = Some n"
    using rdwr_args_ok [OF t(1)] by blast
  let ?s = "s\<lparr>bytes := m\<rparr>" and ?out = "map (\<lambda>i. of_byte (bytes s (p + of_nat i))) [0..<unat n]"
  have out: "map (\<lambda>i. of_byte (m (p + of_nat i))) [0..<unat n] = ?out" using m(2) apart by simp
  have tab: "syscall_table ! unat (10 :: u32) = plain write_handler" by (simp add: syscall_table_def)
  have cur: "current ?s = Some t" using t(3) by (simp add: current_def)
  have "\<exists>g v w. svc 10 (u_sp u) (u_args u) ?s
      = Some (n, ?s\<lparr>ctx_heap := g, bytes := m, uart_tx := uart_tx s @ ?out, uart_rx := uart_rx s, tlb := w, ttbr0 := v\<rparr>) \<and> dom (ctx_heap ?s) \<subseteq> dom g"
    by (rule svc_plain [OF cur _ tab t(2)])
      (use t(2-5) m(3) p in \<open>simp_all add: write_handler_def open_file_def current_def console_write_func_def
          console_write_loop_ok out set_r0_def upd_objs\<close>)
  then obtain g v w where "u_write u 1 p n s
      = Some (n, ?s\<lparr>ctx_heap := g, bytes := m, uart_tx := uart_tx s @ ?out, uart_rx := uart_rx s, tlb := w, ttbr0 := v\<rparr>)"
      "dom (ctx_heap s) \<subseteq> dom g"
    using m(1) by (auto simp: u_write_def)
  then show ?thesis using m(2) by (auto simp: user_io_def)
qed

lemma u_read_console:
  assumes ok: "console_ok u s" and rx: "uart_rx s = b # bs"
  shows "\<exists>s'. u_read u 0 (u_local u) 1 s = Some (1, s') \<and> user_io (frame_of u) [] 1 s s' \<and> bytes s' (u_local u) = b"
proof -
  obtain t fi where t: "valid_range (u_args u) 12" "u_sp u - 56 \<noteq> NULL" "current s = Some t"
    "deref (file_heap s) (openfiles t ! 0) = Some fi" "file_read fi = Fn_console_read" "u_local u \<noteq> NULL"
    using ok by (auto simp: console_ok_def)
  obtain m where m: "rdwr_args u 0 (u_local u) 1 s = Some (s\<lparr>bytes := m\<rparr>)" "\<forall>x. \<not> in_range (u_args u) 12 x \<longrightarrow> m x = bytes s x"
    "\<forall>t. bytes t = m \<longrightarrow> load32 (u_args u) t = Some 0 \<and> load32 (u_args u + 4) t = Some (u_local u) \<and> load32 (u_args u + 8) t = Some 1"
    using rdwr_args_ok [OF t(1)] by blast
  let ?s = "s\<lparr>bytes := m\<rparr>" and ?m = "m(u_local u := b)"
  have tab: "syscall_table ! unat (11 :: u32) = plain read_handler" by (simp add: syscall_table_def)
  have cur: "current ?s = Some t" using t(3) by (simp add: current_def)
  have "\<exists>g v w. svc 11 (u_sp u) (u_args u) ?s
      = Some (1, ?s\<lparr>ctx_heap := g, bytes := ?m, uart_tx := uart_tx s, uart_rx := bs, tlb := w, ttbr0 := v\<rparr>) \<and> dom (ctx_heap ?s) \<subseteq> dom g"
    by (rule svc_plain [OF cur _ tab t(2)])
      (use t(2-6) m(3) rx in \<open>simp_all add: read_handler_def open_file_def current_def console_read_func_def
          uart_getC_def store8_def set_r0_def upd_objs\<close>)
  then obtain g v w where "u_read u 0 (u_local u) 1 s
      = Some (1, ?s\<lparr>ctx_heap := g, bytes := ?m, uart_tx := uart_tx s, uart_rx := bs, tlb := w, ttbr0 := v\<rparr>)"
      "dom (ctx_heap s) \<subseteq> dom g"
    using m(1) by (auto simp: u_read_def)
  then show ?thesis using m(2) rx by (auto simp: user_io_def frame_of_def)
qed

lemma put_c_ok:
  assumes ok: "console_ok u s"
  shows "\<exists>s'. put_c u c s = Some s' \<and> user_io (frame_of u) [c] 0 s s' \<and> console_ok u s'"
proof -
  have l: "u_local u \<noteq> NULL" "valid_range (u_local u) 1" "\<not> in_range (u_args u) 12 (u_local u)" 
    using ok unsigned_less [of "u_local u", where 'a = nat] by (auto simp: console_ok_def valid_range_def)
  let ?s = "s\<lparr>bytes := (bytes s)(u_local u := byte_of c)\<rparr>"
  have io0: "store8 (u_local u) (byte_of c) s = Some ?s" "user_io (frame_of u) [] 0 s ?s"
    using user_io_store [OF l(1), of "frame_of u"] by (simp_all add: frame_of_def)
  have "console_ok u ?s" by (rule console_ok_io [OF ok io0(2)])
  then obtain s' where s': "u_write u 1 (u_local u) 1 ?s = Some (1, s')"
    "user_io (in_range (u_args u) 12) [c] 0 ?s s'"
    using u_write_console [of u ?s "u_local u" 1] l by (auto simp: byte_roundtrip)
  have "user_io (frame_of u) [c] 0 ?s s'" using s'(2) by (rule user_io_mono) (simp add: frame_of_def)
  then have io: "user_io (frame_of u) [c] 0 s s'" using user_io_trans [OF io0(2)] by fastforce
  then show ?thesis using io0(1) s'(1) console_ok_io [OF ok io] by (simp add: put_c_def)
qed

lemma get_c_ok:
  assumes ok: "console_ok u s" and rx: "uart_rx s = b # bs"
  shows "\<exists>s'. get_c u s = Some (of_byte b, s') \<and> user_io (frame_of u) [] 1 s s' \<and> console_ok u s'"
proof -
  have l: "u_local u \<noteq> NULL" using ok by (simp add: console_ok_def)
  let ?s = "s\<lparr>bytes := (bytes s)(u_local u := 0)\<rparr>"
  have io0: "store8 (u_local u) 0 s = Some ?s" "user_io (frame_of u) [] 0 s ?s"
    using user_io_store [OF l(1), of "frame_of u"] by (simp_all add: frame_of_def)
  obtain s' where s': "u_read u 0 (u_local u) 1 ?s = Some (1, s')" "user_io (frame_of u) [] 1 ?s s'" "bytes s' (u_local u) = b"
    using u_read_console [OF console_ok_io [OF ok io0(2)]] rx by auto
  have io: "user_io (frame_of u) [] 1 s s'" using user_io_trans [OF io0(2) s'(2)] by simp
  then show ?thesis using io0(1) s'(1,3) l console_ok_io [OF ok io] by (simp add: get_c_def load8_def)
qed

lemma put_chars_ok:
  "console_ok u s \<Longrightarrow> \<exists>s'. for_each (put_c u) cs s = Some s' \<and> user_io (frame_of u) cs 0 s s' \<and> console_ok u s'"
proof (induction cs arbitrary: s)
  case Nil
  then show ?case by (simp add: user_io_refl)
next
  case (Cons c cs)
  obtain t where t: "put_c u c s = Some t" "user_io (frame_of u) [c] 0 s t" "console_ok u t" using put_c_ok [OF Cons.prems] by blast
  obtain s' where "for_each (put_c u) cs t = Some s'" "user_io (frame_of u) cs 0 t s'" "console_ok u s'"
    using Cons.IH [OF t(3)] by blast
  then show ?case using t user_io_trans [OF t(2)] by fastforce
qed


section \<open>Strings\<close>

lemma put_str_from_ok:
  assumes ok: "console_ok u s" and str: "str_at p t s0" and same: "\<forall>i \<le> length t. getc p i s = getc p i s0"
    and apart: "\<forall>a i. p = Ram a \<and> i \<le> length t \<longrightarrow> \<not> frame_of u (a + of_nat i)" and i: "i \<le> length t"
  shows "\<exists>s'. put_str_from u p i s = Some s' \<and> user_io (frame_of u) (drop i t) 0 s s' \<and> console_ok u s'"
  using ok same i
proof (induction "length t - i" arbitrary: i s)
  case 0
  then have "i = length t" by simp
  then show ?case using 0 str_at_get(2) [OF str] by (subst put_str_from.simps) (simp add: user_io_refl)
next
  case (Suc n)
  then have i: "i < length t" by simp
  have c: "getc p i s = Some (t ! i)" "t ! i \<noteq> NUL" using str_at_get(1) [OF str i] Suc.prems(2) i by simp_all
  have n: "n = length t - (i + 1)" using Suc.hyps(2) by simp
  obtain s1 where s1: "put_c u (t ! i) s = Some s1" "user_io (frame_of u) [t ! i] 0 s s1" "console_ok u s1"
    using put_c_ok [OF Suc.prems(1)] by blast
  have "\<forall>j \<le> length t. getc p j s1 = getc p j s0"
    using Suc.prems(2) s1(2) apart by (cases p) (auto simp: user_io_def load8_def)
  then obtain s' where s': "put_str_from u p (i + 1) s1 = Some s'" "user_io (frame_of u) (drop (i + 1) t) 0 s1 s'" "console_ok u s'"
    using Suc.hyps(1) [OF n s1(3)] i by auto
  have "user_io (frame_of u) (drop i t) 0 s s'"
    using user_io_trans [OF s1(2) s'(2)] Cons_nth_drop_Suc [OF i] by simp
  then show ?case using c s1(1) s' by (subst put_str_from.simps) simp
qed

section \<open>The screen\<close>

lemma draw_loop_ok:
  "\<forall>i < len. at i \<noteq> NULL \<Longrightarrow> \<exists>m. draw_loop at c len s = Some (s\<lparr>bytes := m\<rparr>)
    \<and> (\<forall>x. m x = (if x \<in> at ` {..<len} then byte_of c else bytes s x))"
proof (induction len arbitrary: s)
  case 0
  show ?case by (rule exI [of _ "bytes s"]) simp
next
  case (Suc n)
  let ?s = "s\<lparr>bytes := (bytes s)(at n := byte_of c)\<rparr>"
  obtain m where m: "draw_loop at c n ?s = Some (?s\<lparr>bytes := m\<rparr>)" "\<forall>x. m x = (if x \<in> at ` {..<n} then byte_of c else bytes ?s x)"
    using Suc.IH [of ?s] Suc.prems by auto
  have run: "draw_loop at c (Suc n) s = Some (s\<lparr>bytes := m\<rparr>)" using Suc.prems m(1) by (simp add: store8_def)
  have "m x = (if x \<in> at ` {..<Suc n} then byte_of c else bytes s x)" for x
    using m(2) [rule_format, of x] by (simp add: lessThan_Suc)
  then show ?case using run by (intro exI [of _ m] conjI allI)
qed

definition pix :: "addr \<Rightarrow> (nat \<Rightarrow> nat \<Rightarrow> char) \<Rightarrow> kstate \<Rightarrow> bool" where
  "pix p f s \<longleftrightarrow> (\<forall>v < 24. \<forall>h < 80. bytes s (p + of_nat (80 * v + h)) = byte_of (f v h))"

lemma canvas_index: "v < 24 \<Longrightarrow> h < 80 \<Longrightarrow> 80 * v + h < (1920 :: nat)"
  by simp

lemma canvas_eq:
  assumes "valid_range p 1920" and "x < 1920" and "y < 1920"
  shows "p + of_nat x = p + of_nat y \<longleftrightarrow> x = y"
proof
  assume "p + of_nat x = p + of_nat y"
  then have "unat (p + of_nat x) = unat (p + of_nat y)" by simp
  then show "x = y" using valid_range_at(2) [OF assms(1)] assms(2,3) by simp
qed simp

lemma row_col: "h < 80 \<Longrightarrow> h' < 80 \<Longrightarrow> 80 * v + h = 80 * v' + h' \<longleftrightarrow> v = v' \<and> h = (h' :: nat)"
  by (metis add_diff_cancel_left' div_mult_self4 mod_mult_self4 mod_less div_less mult.commute add.commute zero_neq_numeral add_0)

lemma draw_cells:
  assumes p: "valid_range p 1920" and f: "pix p f s"
    and cells: "\<forall>i < len. \<exists>v < 24. \<exists>h < 80. at i = p + of_nat (80 * v + h)"
    and new: "\<And>v h. v < 24 \<Longrightarrow> h < 80 \<Longrightarrow> (\<exists>i < len. at i = p + of_nat (80 * v + h)) \<longleftrightarrow> S v h"
  shows "\<exists>m. draw_loop at c len s = Some (s\<lparr>bytes := m\<rparr>) \<and> pix p (\<lambda>v h. if S v h then c else f v h) (s\<lparr>bytes := m\<rparr>)
    \<and> (\<forall>x. \<not> in_range p 1920 x \<longrightarrow> m x = bytes s x)"
proof -
  have nn: "\<forall>i < len. at i \<noteq> NULL \<and> in_range p 1920 (at i)"
    using cells valid_range_at(1,3) [OF p canvas_index] by metis
  then obtain m where m: "draw_loop at c len s = Some (s\<lparr>bytes := m\<rparr>)"
    "\<forall>x. m x = (if x \<in> at ` {..<len} then byte_of c else bytes s x)" using draw_loop_ok [of len at c s] by blast
  have "p + of_nat (80 * v + h) \<in> at ` {..<len} \<longleftrightarrow> S v h" if "v < 24" "h < 80" for v h
    using new [OF that] by (auto simp: image_iff eq_commute)
  then have "pix p (\<lambda>v h. if S v h then c else f v h) (s\<lparr>bytes := m\<rparr>)" using f m(2) by (simp add: pix_def)
  moreover have "m x = bytes s x" if "\<not> in_range p 1920 x" for x using that nn m(2) by auto
  ultimately show ?thesis using m(1) by blast
qed


lemma hline_ok:
  assumes p: "valid_range p 1920" and f: "pix p f s" and fit: "v0 < 24" "h0 + len \<le> 80"
  shows "\<exists>m. draw_horizental_line p 80 h0 v0 c len s = Some (s\<lparr>bytes := m\<rparr>)
    \<and> pix p (\<lambda>v h. if v = v0 \<and> h0 \<le> h \<and> h < h0 + len then c else f v h) (s\<lparr>bytes := m\<rparr>)
    \<and> (\<forall>x. \<not> in_range p 1920 x \<longrightarrow> m x = bytes s x)"
proof -
  have at: "p + of_nat (80 * v0 + h0) + of_nat i = p + of_nat (80 * v0 + (h0 + i))" for i by (simp add: add.assoc)
  show ?thesis unfolding draw_horizental_line_def at
  proof (rule draw_cells [OF p f])
    show "\<forall>i < len. \<exists>v < 24. \<exists>h < 80. p + of_nat (80 * v0 + (h0 + i)) = p + of_nat (80 * v + h)"
      using fit by (intro allI impI exI [of _ v0] conjI exI [of _ "h0 + _"] refl) simp_all
    fix v h :: nat assume vh: "v < 24" "h < 80"
    have "p + of_nat (80 * v0 + (h0 + i)) = p + of_nat (80 * v + h) \<longleftrightarrow> v0 = v \<and> h0 + i = h" if "i < len" for i
      using canvas_eq [OF p canvas_index canvas_index [OF vh], of v0 "h0 + i"] row_col [of "h0 + i" h v0 v] that fit vh by simp
    then show "(\<exists>i < len. p + of_nat (80 * v0 + (h0 + i)) = p + of_nat (80 * v + h)) \<longleftrightarrow> v = v0 \<and> h0 \<le> h \<and> h < h0 + len"
      by (auto intro!: exI [of _ "h - h0"])
  qed
qed

lemma vline_ok:
  assumes p: "valid_range p 1920" and f: "pix p f s" and fit: "v0 + len \<le> 24" "h0 < 80"
  shows "\<exists>m. draw_vertical_line p 80 h0 v0 c len s = Some (s\<lparr>bytes := m\<rparr>)
    \<and> pix p (\<lambda>v h. if h = h0 \<and> v0 \<le> v \<and> v < v0 + len then c else f v h) (s\<lparr>bytes := m\<rparr>)
    \<and> (\<forall>x. \<not> in_range p 1920 x \<longrightarrow> m x = bytes s x)"
proof -
  have at: "p + of_nat (80 * v0 + h0) + of_nat (80 * i) = p + of_nat (80 * (v0 + i) + h0)" for i
    by (simp add: algebra_simps)
  show ?thesis unfolding draw_vertical_line_def at
  proof (rule draw_cells [OF p f])
    show "\<forall>i < len. \<exists>v < 24. \<exists>h < 80. p + of_nat (80 * (v0 + i) + h0) = p + of_nat (80 * v + h)"
    proof (intro allI impI)
      fix i assume "i < len"
      then have "v0 + i < 24" using fit by simp
      then show "\<exists>v < 24. \<exists>h < 80. p + of_nat (80 * (v0 + i) + h0) = p + of_nat (80 * v + h)" using fit(2) by blast
    qed
    fix v h :: nat assume vh: "v < 24" "h < 80"
    have "p + of_nat (80 * (v0 + i) + h0) = p + of_nat (80 * v + h) \<longleftrightarrow> v0 + i = v \<and> h0 = h" if "i < len" for i
      using canvas_eq [OF p canvas_index canvas_index [OF vh], of "v0 + i" h0] row_col [of h0 h "v0 + i" v] that fit vh by simp
    then show "(\<exists>i < len. p + of_nat (80 * (v0 + i) + h0) = p + of_nat (80 * v + h)) \<longleftrightarrow> h = h0 \<and> v0 \<le> v \<and> v < v0 + len"
      by (auto intro!: exI [of _ "v - v0"])
  qed
qed

lemma whole_ok:
  assumes p: "valid_range p 1920"
  shows "\<exists>m. draw_whole p 24 80 c s = Some (s\<lparr>bytes := m\<rparr>) \<and> pix p (\<lambda>v h. c) (s\<lparr>bytes := m\<rparr>)
    \<and> (\<forall>x. \<not> in_range p 1920 x \<longrightarrow> m x = bytes s x)"
proof -
  obtain m where m: "mem_set p (byte_of c) 1920 s = Some (s\<lparr>bytes := m\<rparr>)"
    "\<forall>i < unat (1920 :: u32). m (p + of_nat i) = byte_of c" "\<forall>a. \<not> in_range p (unat (1920 :: u32)) a \<longrightarrow> m a = bytes s a"
    using mem_set_ok [of p 1920 "byte_of c" s] p by auto
  have "m (p + of_nat (80 * v + h)) = byte_of c" if "v < 24" "h < 80" for v h
    by (rule m(2) [rule_format]) (use canvas_index [OF that] in simp)
  then have "pix p (\<lambda>v h. c) (s\<lparr>bytes := m\<rparr>)" by (simp add: pix_def)
  moreover have "draw_whole p 24 80 c s = Some (s\<lparr>bytes := m\<rparr>)" using m(1) by (simp add: draw_whole_def mem_set_def)
  ultimately show ?thesis using m(3) by (intro exI [of _ m]) simp
qed

text \<open>The picture: a frame of blanks with the letters O and S, each line ended by CR and LF, the last by CR and NUL.\<close>

definition screen :: "nat \<Rightarrow> nat \<Rightarrow> char" where
  "screen v h =
     (if h = 78 then CHR 0x0D
      else if h = 79 then (if v = 23 then NUL else CHR 0x0A)
      else if (v = 10 \<or> v = 20) \<and> (13 \<le> h \<and> h < 32 \<or> 42 \<le> h \<and> h < 62) then CHR ''=''
      else if v = 15 \<and> 42 \<le> h \<and> h < 62 then CHR ''=''
      else if (h = 12 \<or> h = 32) \<and> 11 \<le> v \<and> v < 20 then CHR ''|''
      else if h = 41 \<and> 11 \<le> v \<and> v < 15 then CHR ''|''
      else if h = 61 \<and> 16 \<le> v \<and> v < 20 then CHR ''|''
      else CHR '' '')"

lemma screen_layers:
  "(\<lambda>v h. if h = 78 \<and> 0 \<le> v \<and> v < 0 + 24 then CHR 0x0D
     else if h = 79 \<and> 23 \<le> v \<and> v < 23 + 1 then NUL
     else if h = 79 \<and> 0 \<le> v \<and> v < 0 + 24 then CHR 0x0A
     else if h = 61 \<and> 16 \<le> v \<and> v < 16 + 4 then CHR ''|''
     else if h = 41 \<and> 11 \<le> v \<and> v < 11 + 4 then CHR ''|''
     else if v = 20 \<and> 42 \<le> h \<and> h < 42 + 20 then CHR ''=''
     else if v = 15 \<and> 42 \<le> h \<and> h < 42 + 20 then CHR ''=''
     else if v = 10 \<and> 42 \<le> h \<and> h < 42 + 20 then CHR ''=''
     else if h = 32 \<and> 11 \<le> v \<and> v < 11 + 9 then CHR ''|''
     else if h = 12 \<and> 11 \<le> v \<and> v < 11 + 9 then CHR ''|''
     else if v = 20 \<and> 13 \<le> h \<and> h < 13 + 19 then CHR ''=''
     else if v = 10 \<and> 13 \<le> h \<and> h < 13 + 19 then CHR ''='' else CHR '' '') v h = screen v h"
  if "v < 24" "h < 80" for v h :: nat
  using that unfolding screen_def by (auto split: if_splits)

definition canvas :: "addr \<Rightarrow> (nat \<Rightarrow> nat \<Rightarrow> char) \<Rightarrow> kstate \<Rightarrow> kstate \<Rightarrow> bool" where
  "canvas p f s s' \<longleftrightarrow> pix p f s' \<and> user_io (in_range p 1920) [] 0 s s'"

lemma canvas_hline:
  assumes "canvas p f s t" "valid_range p 1920" "v0 < 24" "h0 + len \<le> 80"
    and "\<And>t'. canvas p (\<lambda>v h. if v = v0 \<and> h0 \<le> h \<and> h < h0 + len then c else f v h) s t' \<Longrightarrow> Q (k t')"
  shows "Q (Option.bind (draw_horizental_line p 80 h0 v0 c len t) k)"
proof -
  have "pix p f t" using assms(1) by (simp add: canvas_def)
  from hline_ok [OF assms(2) this assms(3,4), of c] show ?thesis using assms(1,5) by (auto simp: canvas_def user_io_def)
qed

lemma canvas_vline:
  assumes "canvas p f s t" "valid_range p 1920" "v0 + len \<le> 24" "h0 < 80"
    and "\<And>t'. canvas p (\<lambda>v h. if h = h0 \<and> v0 \<le> v \<and> v < v0 + len then c else f v h) s t' \<Longrightarrow> Q (k t')"
  shows "Q (Option.bind (draw_vertical_line p 80 h0 v0 c len t) k)"
proof -
  have "pix p f t" using assms(1) by (simp add: canvas_def)
  from vline_ok [OF assms(2) this assms(3,4), of c] show ?thesis using assms(1,5) by (auto simp: canvas_def user_io_def)
qed

lemma canvas_whole:
  assumes "valid_range p 1920" and "\<And>t'. canvas p (\<lambda>v h. c) s t' \<Longrightarrow> Q (k t')"
  shows "Q (Option.bind (draw_whole p 24 80 c s) k)"
  using whole_ok [OF assms(1), of c s] assms(2) by (auto simp: canvas_def user_io_def)

lemma canvas_cong: "canvas p f s t \<Longrightarrow> (\<And>v h. v < 24 \<Longrightarrow> h < 80 \<Longrightarrow> f v h = g v h) \<Longrightarrow> canvas p g s t"
  by (simp add: canvas_def pix_def)

lemma screen_drawn:
  assumes p: "valid_range p 1920"
    and out: "\<And>t. canvas p screen s t \<Longrightarrow> Q (Option.bind (u_write u 1 p 1920 t) (\<lambda>(_, s). Some s))"
  shows "Q (draw_console u p s)"
proof -
  have arith: "(5 + 5 :: nat) = 10" "(15 + 5 :: nat) = 20" "(6 + 5 :: nat) = 11" "(10 + 5 :: nat) = 15" "(11 + 5 :: nat) = 16"
    "(80 - 1 :: nat) = 79" "(80 - 2 :: nat) = 78" "(24 - 1 :: nat) = 23" "of_nat (24 * 80) = (1920 :: u32)" by simp_all
  show ?thesis
    unfolding draw_console_def draw_last_pix_every_line_def arith bind_assoc
    by (rule canvas_whole [where Q = Q, OF p])
      ((rule canvas_hline [where Q = Q, OF _ p] canvas_vline [where Q = Q, OF _ p], assumption, simp, simp)+,
        rule out, erule canvas_cong, erule (1) screen_layers)
qed


section \<open>Properties\<close>

text \<open>
  C17: \<open>put_str\<close> through all layers: for a task whose descriptor 1 is the console, each character goes
  through \<^verbatim>\<open>__write\<close>, the system call, the descriptor table and the driver, and the text appears on
  the UART, whole and in order. Nothing else changes but the caller's own call frame.
\<close>

theorem put_str_prints:
  assumes "console_ok u s" and "str_at p t s" and "\<forall>a i. p = Ram a \<and> i \<le> length t \<longrightarrow> \<not> frame_of u (a + of_nat i)"
  shows "\<exists>s'. put_str u p s = Some s' \<and> uart_tx s' = uart_tx s @ t \<and> console_ok u s'
    \<and> (\<forall>x. \<not> frame_of u x \<longrightarrow> bytes s' x = bytes s x)"
  using put_str_from_ok [OF assms(1,2) _ assms(3), of 0] by (auto simp: put_str_def user_io_def)

definition demo_frame_u :: uframe where
  "demo_frame_u = \<lparr>u_local = 0x82300f00, u_args = 0x82300f04, u_sp = 0x82300e80\<rparr>"

definition demo_user :: "(addr \<Rightarrow> u8) \<Rightarrow> u8 list \<Rightarrow> kstate" where
  "demo_user m rx = zero_state\<lparr>bytes := m, uart_rx := rx, curr_running_task := 0x82300000,
     task_heap := [0x82300000 \<mapsto> (demo_task 0 TASK_RUNNING 0 0)\<lparr>openfiles := [0x5000, 0x6000, 0, 0, 0, 0, 0, 0]\<rparr>],
     file_heap := [0x5000 \<mapsto> fs_file 0 0 0 0 CONSOLE_IN_TYPE FILE_CONSOLE_IN, 0x6000 \<mapsto> fs_file 0 0 0 0 CONSOLE_OUT_TYPE FILE_CONSOLE_OUT]\<rparr>"

lemma demo_user_ok: "console_ok demo_frame_u (demo_user m rx)"
  by (simp add: console_ok_def demo_frame_u_def demo_user_def current_def fs_file_def file_read_of_def file_write_of_def
      valid_range_def in_range_def deref_def)

theorem put_str_prints_witness:
  "\<exists>s'. put_str demo_frame_u (Cells (cstr ''ok'')) (demo_user (\<lambda>_. 0) []) = Some s' \<and> uart_tx s' = ''ok''"
  using put_str_prints [OF demo_user_ok, of "Cells (cstr ''ok'')" "''ok''" "\<lambda>_. 0" "[]"]
  by (auto simp: str_at_cstr demo_user_def zero_state_def)

text \<open>
  C34: the start screen. \<open>draw_console\<close> writes inside its array of 24 lines of 80 characters only, and
  sends the whole picture, \<open>screen\<close>, in one write.
\<close>

theorem draw_console_screen:
  assumes ok: "console_ok u s" and p: "valid_range p 1920"
    and apart: "\<forall>i < 1920. \<not> in_range (u_args u) 12 (p + of_nat i)"
  shows "\<exists>s'. draw_console u p s = Some s'
    \<and> uart_tx s' = uart_tx s @ map (\<lambda>i. screen (i div 80) (i mod 80)) [0..<1920]
    \<and> (\<forall>x. \<not> in_range p 1920 x \<and> \<not> in_range (u_args u) 12 x \<longrightarrow> bytes s' x = bytes s x)"
proof (rule screen_drawn [OF p])
  fix t assume t: "canvas p screen s t"
  then have io: "user_io (in_range p 1920) [] 0 s t" by (simp add: canvas_def)
  obtain s' where s': "u_write u 1 p 1920 t = Some (1920, s')"
    "user_io (in_range (u_args u) 12) (map (\<lambda>i. of_byte (bytes t (p + of_nat i))) [0..<unat (1920 :: u32)]) 0 t s'"
    using u_write_console [OF console_ok_io [OF ok io], of p 1920] p apart by auto
  have "of_byte (bytes t (p + of_nat i)) = screen (i div 80) (i mod 80)" if "i < 1920" for i
  proof -
    have "bytes t (p + of_nat (80 * (i div 80) + i mod 80)) = byte_of (screen (i div 80) (i mod 80))"
    proof -
      have "i div 80 < 24" "i mod 80 < 80" using that by simp_all
      then show ?thesis using t by (simp only: canvas_def pix_def)
    qed
    then show ?thesis by simp
  qed
  then have "map (\<lambda>i. of_byte (bytes t (p + of_nat i))) [0..<unat (1920 :: u32)] = map (\<lambda>i. screen (i div 80) (i mod 80)) [0..<1920]"
    by (simp del: upt_rec_numeral)
  then show "\<exists>s'. Option.bind (u_write u 1 p 1920 t) (\<lambda>(_, s). Some s) = Some s'
    \<and> uart_tx s' = uart_tx s @ map (\<lambda>i. screen (i div 80) (i mod 80)) [0..<1920]
    \<and> (\<forall>x. \<not> in_range p 1920 x \<and> \<not> in_range (u_args u) 12 x \<longrightarrow> bytes s' x = bytes s x)"
    using s' io by (auto simp: user_io_def simp del: upt_rec_numeral)
qed

theorem draw_console_screen_witness:
  "\<exists>s'. draw_console demo_frame_u 0x82300400 (demo_user (\<lambda>_. 0) []) = Some s' \<and> length (uart_tx s') = 1920"
proof -
  have "\<not> in_range (u_args demo_frame_u) 12 (0x82300400 + of_nat i)" if "i < 1920" for i
    using that unat_plus_range [of "0x82300400" 1920 i] by (simp add: in_range_def demo_frame_u_def)
  moreover have "valid_range 0x82300400 1920" by (simp add: valid_range_def)
  ultimately show ?thesis using draw_console_screen [OF demo_user_ok, of "0x82300400" "\<lambda>_. 0" "[]"]
    by (auto simp: demo_user_def zero_state_def simp del: upt_rec_numeral)
qed

end
