(* ===== verification/Shell.thy ===== *)
theory Shell
  imports UserIO
begin

text \<open>
  The shell, \<^verbatim>\<open>src/src/userproc/shell.c\<close>, and its commands, \<^verbatim>\<open>commands.c\<close>: line editing, the parsing
  of a line and its execution over the system calls.
  The endless loop of \<^verbatim>\<open>main_shell\<close> is the iteration of \<open>shell_step\<close>. Where the arrays of
  \<^verbatim>\<open>main_shell\<close> and \<^verbatim>\<open>lsdir\<close> lie is a parameter, and so are the five test programs of the menu
  (\<^verbatim>\<open>Programs\<close> gives them).
\<close>

section \<open>Commands\<close>

record shell_vars =
  sh_canvas :: addr
  sh_cwd :: addr
  sh_cmdbuf :: addr
  sh_token :: addr
  sh_lsbuf :: addr
  sh_lstoken :: addr

abbreviation (input) SIZE_OF_CMDBUF :: u32 where "SIZE_OF_CMDBUF \<equiv> 16"
abbreviation (input) SIZE_OF_CWD :: u32 where "SIZE_OF_CWD \<equiv> 64"
abbreviation (input) SIZE_OF_CMD_TOKEN :: u32 where "SIZE_OF_CMD_TOKEN \<equiv> 16"
abbreviation (input) BS :: char where "BS \<equiv> CHR 0x08"
abbreviation (input) CR :: char where "CR \<equiv> CHR 0x0D"

definition lit :: "char list \<Rightarrow> cptr" where
  "lit t = Cells (cstr t)"

partial_function (option) list_names :: "uframe \<Rightarrow> addr \<Rightarrow> addr \<Rightarrow> kstate \<Rightarrow> kstate option" where
  "list_names u token start s =
     (if start \<noteq> NULL then do {
        s \<leftarrow> mem_set token 0 16 s;
        n \<leftarrow> str_len (lit '';;'') s;
        (start, s) \<leftarrow> strtok_fst start (lit '';;'') n token s;
        c \<leftarrow> load8 token s;
        s \<leftarrow> (if c \<noteq> 0 then put_str u (lit crlf) s else Some s);
        s \<leftarrow> put_str u (Ram token) s;
        list_names u token start s
      } else Some s)"

declare list_names.simps [code]

definition lsdir :: "uframe \<Rightarrow> shell_vars \<Rightarrow> kstate \<Rightarrow> kstate option" where
  "lsdir u v s = do {
     s \<leftarrow> mem_set (sh_lsbuf v) 0 160 s;
     (r, s) \<leftarrow> u_getsubdir u (sh_lsbuf v) 160 s;
     s \<leftarrow> (if r < 0 then user_printk (cstr (''buf size not enough.'' @ crlf)) [] s else Some s);
     s \<leftarrow> list_names u (sh_lstoken v) (sh_lsbuf v) s;
     s \<leftarrow> mem_set (sh_lsbuf v) 0 160 s;
     (r, s) \<leftarrow> u_getfdir u (sh_lsbuf v) 160 s;
     s \<leftarrow> (if r < 0 then user_printk (cstr (''buf size not enough.'' @ crlf)) [] s else Some s);
     list_names u (sh_lstoken v) (sh_lsbuf v) s
   }"

definition cd :: "uframe \<Rightarrow> addr \<Rightarrow> kstate \<Rightarrow> (u32 \<times> kstate) option" where
  "cd u subdir s = u_chdir u subdir s"

definition pwd :: "uframe \<Rightarrow> addr \<Rightarrow> u32 \<Rightarrow> kstate \<Rightarrow> (u32 \<times> kstate) option" where
  "pwd u cwd cwdsz s = map_option (\<lambda>s. (0, s)) (u_getfullpath u cwd cwdsz s)"

section \<open>The command line\<close>

abbreviation (input) say :: "uframe \<Rightarrow> char list \<Rightarrow> kstate \<Rightarrow> kstate option" where
  "say u t s \<equiv> uprintf u (cstr t) [] s"

definition test_menu :: "uframe \<Rightarrow> kstate \<Rightarrow> kstate option" where
  "test_menu u s = do {
     s \<leftarrow> say u crlf s;
     s \<leftarrow> say u (''Please key'' @ crlf) s;
     s \<leftarrow> say u (CHR 0x09 # [CHR 0x27, CHR ''1'', CHR 0x27] @ '' for fork function test.'' @ crlf) s;
     s \<leftarrow> say u (CHR 0x09 # [CHR 0x27, CHR ''2'', CHR 0x27] @ '' for multitasking test'' @ crlf) s;
     s \<leftarrow> say u (CHR 0x09 # [CHR 0x27, CHR ''3'', CHR 0x27] @ '' for priority-based multitasking test.'' @ crlf) s;
     s \<leftarrow> say u (CHR 0x09 # [CHR 0x27, CHR ''4'', CHR 0x27] @ '' for tty0 open test.'' @ crlf) s;
     s \<leftarrow> say u (CHR 0x09 # [CHR 0x27, CHR ''5'', CHR 0x27] @ '' for ipc test.'' @ crlf) s;
     say u (''Or '' @ [CHR 0x27, CHR ''0'', CHR 0x27] @ '' break.'' @ crlf) s
   }"

text \<open>\<open>tests n\<close> is the effect of test program number \<open>n\<close>.\<close>

partial_function (option) test_loop :: "(nat \<Rightarrow> kstate \<Rightarrow> kstate option) \<Rightarrow> uframe \<Rightarrow> kstate \<Rightarrow> kstate option" where
  "test_loop tests u s = do {
     (get, s) \<leftarrow> get_c u s;
     s \<leftarrow> uprintf u (cstr ''%c'') [of_nat (of_char get)] s;
     if get = CHR ''1'' then do { s \<leftarrow> tests 1 s; say u (''Back to Shell.'' @ crlf) s }
     else if get = CHR ''2'' then do { s \<leftarrow> tests 2 s; say u (''Back to Shell.'' @ crlf) s }
     else if get = CHR ''3'' then do { s \<leftarrow> tests 3 s; say u (''Back to Shell.'' @ crlf) s }
     else if get = CHR ''4'' then tests 4 s
     else if get = CHR ''5'' then tests 5 s
     else if get = CHR ''0'' then Some s
     else test_loop tests u s
   }"

declare test_loop.simps [code]

definition shell_help :: "uframe \<Rightarrow> kstate \<Rightarrow> kstate option" where
  "shell_help u s = do {
     s \<leftarrow> say u crlf s;
     s \<leftarrow> say u (''help:'' @ crlf) s;
     say u (''Available command :test ,info ,help ,ls ,cd ,pwd ,reboot'' @ crlf) s
   }"

definition shell_info :: "uframe \<Rightarrow> kstate \<Rightarrow> kstate option" where
  "shell_info u s = do {
     s \<leftarrow> say u crlf s;
     s \<leftarrow> say u (''A simple os running on Beaglebone black'' @ crlf @ crlf) s;
     s \<leftarrow> say u (''Feature:'' @ crlf) s;
     s \<leftarrow> say u (''  Priority based round-robin multitasking.'' @ crlf) s;
     s \<leftarrow> say u (''  MMU enable .'' @ crlf) s;
     s \<leftarrow> say u (''  Simple memory management.'' @ crlf) s;
     s \<leftarrow> say u (''  ipc.'' @ crlf) s;
     say u (''  command line.'' @ crlf) s
   }"


definition token_is :: "shell_vars \<Rightarrow> char list \<Rightarrow> kstate \<Rightarrow> bool option" where
  "token_is v w s = map_option (\<lambda>r. r = 0) (str_cmp (Ram (sh_token v)) (lit w) s)"

text \<open>The \<^verbatim>\<open>if\<close> cascade on the first word; \<open>cmd\<close> points behind it.\<close>

definition shell_cd :: "uframe \<Rightarrow> shell_vars \<Rightarrow> addr \<Rightarrow> kstate \<Rightarrow> kstate option" where
  "shell_cd u v cmd s = do {
     s \<leftarrow> mem_set (sh_token v) 0 SIZE_OF_CMD_TOKEN s;
     c \<leftarrow> load8 cmd s;
     s \<leftarrow> (if c = 0 then put_str u (lit (''No dir input'' @ crlf)) s
           else do {
             n \<leftarrow> str_len (lit '' '') s;
             (_, s) \<leftarrow> strtok_fst cmd (lit '' '') n (sh_token v) s;
             Some s
           });
     (r, s) \<leftarrow> cd u (sh_token v) s;
     s \<leftarrow> (if sint r < 0 then put_str u (lit (crlf @ ''Dir not found'')) s else Some s);
     put_str u (lit crlf) s
   }"

definition shell_pwd :: "uframe \<Rightarrow> shell_vars \<Rightarrow> kstate \<Rightarrow> kstate option" where
  "shell_pwd u v s = do {
     s \<leftarrow> mem_set (sh_cwd v) 0 SIZE_OF_CWD s;
     (_, s) \<leftarrow> pwd u (sh_cwd v) SIZE_OF_CWD s;
     s \<leftarrow> put_str u (lit crlf) s;
     s \<leftarrow> put_str u (Ram (sh_cwd v)) s;
     put_str u (lit crlf) s
   }"

definition shell_reboot :: "uframe \<Rightarrow> shell_vars \<Rightarrow> kstate \<Rightarrow> kstate option" where
  "shell_reboot u v s = do {
     s \<leftarrow> mem_set (sh_cwd v) 0 SIZE_OF_CWD s;
     s \<leftarrow> say u (''Restart...'' @ crlf) s;
     (_, s) \<leftarrow> u_restart u s;
     put_str u (lit crlf) s
   }"

definition shell_command :: "(nat \<Rightarrow> kstate \<Rightarrow> kstate option) \<Rightarrow> uframe \<Rightarrow> shell_vars \<Rightarrow> addr \<Rightarrow> kstate \<Rightarrow> kstate option" where
  "shell_command tests u v cmd s = do {
     is_test \<leftarrow> token_is v ''test'' s;
     if is_test then do { s \<leftarrow> test_menu u s; test_loop tests u s }
     else do {
       is_help \<leftarrow> token_is v ''help'' s;
       if is_help then shell_help u s
       else do {
         is_info \<leftarrow> token_is v ''info'' s;
         if is_info then shell_info u s
         else do {
           is_ls \<leftarrow> token_is v ''ls'' s;
           if is_ls then do { s \<leftarrow> lsdir u v s; put_str u (lit crlf) s }
           else do {
             is_cd \<leftarrow> token_is v ''cd'' s;
             if is_cd then shell_cd u v cmd s
             else do {
               is_pwd \<leftarrow> token_is v ''pwd'' s;
               if is_pwd then shell_pwd u v s
               else do {
                 is_reboot \<leftarrow> token_is v ''reboot'' s;
                 if is_reboot then shell_reboot u v s else Some s
               } } } } } } }"

definition shell_prompt :: "uframe \<Rightarrow> shell_vars \<Rightarrow> kstate \<Rightarrow> kstate option" where
  "shell_prompt u v s = do {
     s \<leftarrow> put_str u (lit (crlf @ ''|cmd>'')) s;
     s \<leftarrow> mem_set (sh_cwd v) 0 SIZE_OF_CWD s;
     (_, s) \<leftarrow> pwd u (sh_cwd v) SIZE_OF_CWD s;
     s \<leftarrow> put_str u (Ram (sh_cwd v)) s;
     put_str u (lit ''>'') s
   }"

definition shell_enter :: "(nat \<Rightarrow> kstate \<Rightarrow> kstate option) \<Rightarrow> uframe \<Rightarrow> shell_vars \<Rightarrow> addr \<Rightarrow> kstate \<Rightarrow> kstate option" where
  "shell_enter tests u v cmd s = do {
     s \<leftarrow> mem_set (sh_token v) 0 SIZE_OF_CMD_TOKEN s;
     s \<leftarrow> str_cat cmd (lit '' '') s;
     n \<leftarrow> str_len (lit '' '') s;
     (cmd, s) \<leftarrow> strtok_fst cmd (lit '' '') n (sh_token v) s;
     s \<leftarrow> shell_command tests u v cmd s;
     s \<leftarrow> mem_set (sh_cmdbuf v) 0 SIZE_OF_CMDBUF s;
     shell_prompt u v s
   }"

section \<open>One character\<close>

text \<open>
  At the head of the loop \<^verbatim>\<open>cmd\<close> is \<^verbatim>\<open>cmdbuf\<close>; the value is the next \<^verbatim>\<open>s\<close>, the place of the next
  character.
\<close>

definition shell_key :: "(nat \<Rightarrow> kstate \<Rightarrow> kstate option) \<Rightarrow> uframe \<Rightarrow> shell_vars \<Rightarrow> char \<Rightarrow> addr \<Rightarrow> kstate \<Rightarrow> (addr \<times> kstate) option" where
  "shell_key tests u v byte sp s = do {
     let cmd = sh_cmdbuf v;
     s \<leftarrow> uprintf u (cstr ''%c'') [of_nat (of_char byte)] s;
     n \<leftarrow> str_len (Ram cmd) s;
     (sp, s) \<leftarrow> (if n = 14 then do { s \<leftarrow> mem_set (sh_cmdbuf v) 0 SIZE_OF_CMDBUF s; Some (cmd, s) } else Some (sp, s));
     (sp, s) \<leftarrow> (if byte \<noteq> BS \<and> byte \<noteq> CR then do { s \<leftarrow> store8 sp (byte_of byte) s; Some (sp + 1, s) } else Some (sp, s));
     if byte = BS then do {
       s \<leftarrow> put_c u (CHR '' '') s;
       s \<leftarrow> put_c u BS s;
       let sp = (if sp \<noteq> sh_cmdbuf v then sp - 1 else sp);
       s \<leftarrow> store8 sp 0 s;
       Some (sp, s)
     } else if byte = CR then do {
       s \<leftarrow> shell_enter tests u v cmd s;
       Some (sh_cmdbuf v, s)
     } else Some (sp, s)
   }"

definition shell_step :: "(nat \<Rightarrow> kstate \<Rightarrow> kstate option) \<Rightarrow> uframe \<Rightarrow> shell_vars \<Rightarrow> addr \<Rightarrow> kstate \<Rightarrow> (addr \<times> kstate) option" where
  "shell_step tests u v sp s = do {
     (byte, s) \<leftarrow> get_c u s;
     shell_key tests u v byte sp s
   }"

fun shell_run :: "(nat \<Rightarrow> kstate \<Rightarrow> kstate option) \<Rightarrow> uframe \<Rightarrow> shell_vars \<Rightarrow> nat \<Rightarrow> addr \<Rightarrow> kstate \<Rightarrow> (addr \<times> kstate) option" where
  "shell_run tests u v 0 sp s = Some (sp, s)"
| "shell_run tests u v (Suc n) sp s = do {
     (sp, s) \<leftarrow> shell_step tests u v sp s;
     shell_run tests u v n sp s
   }"

text \<open>From the start to the first turn of the loop.\<close>

definition main_shell :: "uframe \<Rightarrow> shell_vars \<Rightarrow> kstate \<Rightarrow> (addr \<times> kstate) option" where
  "main_shell u v s = do {
     s \<leftarrow> draw_console u (sh_canvas v) s;
     s \<leftarrow> say u (crlf @ ''Welcome to Beaglebone black OS!'' @ crlf) s;
     s \<leftarrow> say u (crlf @ ''The command line is the first process'' @ crlf) s;
     (tid, s) \<leftarrow> u_gettid u s;
     s \<leftarrow> uprintf u (cstr (crlf @ ''The task id :%d'' @ crlf)) [tid] s;
     (pr, s) \<leftarrow> u_get_task_priority u s;
     s \<leftarrow> uprintf u (cstr (''The task priority :%d'' @ crlf)) [pr] s;
     s \<leftarrow> mem_set (sh_cwd v) 0 SIZE_OF_CWD s;
     s \<leftarrow> u_getcwd u (sh_cwd v) SIZE_OF_CWD s;
     s \<leftarrow> put_str u (lit ''Current dir :'') s;
     s \<leftarrow> put_str u (Ram (sh_cwd v)) s;
     s \<leftarrow> put_str u (lit crlf) s;
     s \<leftarrow> put_str u (lit (crlf @ ''|cmd>'')) s;
     s \<leftarrow> put_str u (Ram (sh_cwd v)) s;
     s \<leftarrow> put_str u (lit ''>'') s;
     s \<leftarrow> mem_set (sh_cmdbuf v) 0 SIZE_OF_CMDBUF s;
     Some (sh_cmdbuf v, s)
   }"

section \<open>The line as a list\<close>

definition line_at :: "shell_vars \<Rightarrow> char list \<Rightarrow> addr \<Rightarrow> kstate \<Rightarrow> bool" where
  "line_at v xs sp s \<longleftrightarrow> sp = sh_cmdbuf v + of_nat (length xs) \<and> length xs \<le> 14 \<and> NUL \<notin> set xs
     \<and> (\<forall>i < 16. bytes s (sh_cmdbuf v + of_nat i) = (if i < length xs then byte_of (xs ! i) else 0))"

definition edit_key :: "char \<Rightarrow> char list \<Rightarrow> char list" where
  "edit_key c xs = (let ys = (if length xs = 14 then [] else xs) in if c = BS then butlast ys else ys @ [c])"

definition echo :: "char \<Rightarrow> char list" where
  "echo c = (if c = BS then [BS, CHR '' '', BS] else [c])"

definition shell_vars_ok :: "uframe \<Rightarrow> shell_vars \<Rightarrow> bool" where
  "shell_vars_ok u v \<longleftrightarrow> valid_range (sh_cmdbuf v) 16 \<and> (\<forall>i < 16. \<not> frame_of u (sh_cmdbuf v + of_nat i))"

abbreviation (input) shell_mem :: "uframe \<Rightarrow> shell_vars \<Rightarrow> addr \<Rightarrow> bool" where
  "shell_mem u v x \<equiv> frame_of u x \<or> in_range (sh_cmdbuf v) 16 x"

lemma line_io: "line_at v xs sp s \<Longrightarrow> user_io (frame_of u) out k s s' \<Longrightarrow> shell_vars_ok u v \<Longrightarrow> line_at v xs sp s'"
  by (simp add: line_at_def user_io_def shell_vars_ok_def)

lemma line_str: "line_at v xs sp s \<Longrightarrow> shell_vars_ok u v \<Longrightarrow> str_at (Ram (sh_cmdbuf v)) xs s"
  using valid_range_at(1) [of "sh_cmdbuf v" 16]
  by (auto simp: str_at_def line_at_def shell_vars_ok_def load8_def nth_append of_byte_0)

lemma uprint_char: "uprint (cstr ''%c'') [of_nat (of_char c)] = Some [c]"
proof -
  have "(of_char c :: nat) < 256" by (simp add: of_char_def)
  then have lt: "(of_char c :: nat) < 4294967296" by linarith
  then have "(of_char c :: nat) mod 4294967296 = of_char c" by (rule mod_less)
  then show ?thesis by (simp add: cstr_def unat_of_nat)
qed


lemma line_cell:
  assumes "shell_vars_ok u v" and "i < 16" and "j < 16"
  shows "sh_cmdbuf v + of_nat i = sh_cmdbuf v + of_nat j \<longleftrightarrow> i = j" "sh_cmdbuf v + of_nat i \<noteq> NULL"
    "in_range (sh_cmdbuf v) 16 (sh_cmdbuf v + of_nat i)"
  using range_at_inj [of "sh_cmdbuf v" 16 i j] valid_range_at(1,3) [of "sh_cmdbuf v" 16 i] assms by (auto simp: shell_vars_ok_def)

lemma line_clear:
  assumes v: "shell_vars_ok u v"
  shows "\<exists>s'. mem_set (sh_cmdbuf v) 0 SIZE_OF_CMDBUF s = Some s' \<and> line_at v [] (sh_cmdbuf v) s' \<and> user_io (shell_mem u v) [] 0 s s'"
proof -
  obtain m where "mem_set (sh_cmdbuf v) 0 16 s = Some (s\<lparr>bytes := m\<rparr>)"
    "\<forall>i < unat (16 :: u32). m (sh_cmdbuf v + of_nat i) = 0" "\<forall>a. \<not> in_range (sh_cmdbuf v) (unat (16 :: u32)) a \<longrightarrow> m a = bytes s a"
    using mem_set_ok [of "sh_cmdbuf v" 16 0 s] v by (auto simp: shell_vars_ok_def)
  then show ?thesis by (auto simp: line_at_def user_io_def)
qed

lemma line_append:
  assumes v: "shell_vars_ok u v" and l: "line_at v ys sp s" "length ys < 14" and c: "c \<noteq> NUL"
  shows "\<exists>s'. store8 sp (byte_of c) s = Some s' \<and> line_at v (ys @ [c]) (sp + 1) s' \<and> user_io (shell_mem u v) [] 0 s s'"
proof -
  have sp: "sp = sh_cmdbuf v + of_nat (length ys)" "length ys < 16" using l by (simp_all add: line_at_def)
  let ?s = "s\<lparr>bytes := (bytes s)(sp := byte_of c)\<rparr>"
  have "bytes ?s (sh_cmdbuf v + of_nat i) = (if i < length (ys @ [c]) then byte_of ((ys @ [c]) ! i) else 0)" if "i < 16" for i
    using l(1) that line_cell(1) [OF v that sp(2)] by (auto simp: sp(1) line_at_def nth_append less_Suc_eq)
  then have "line_at v (ys @ [c]) (sp + 1) ?s" using l c by (simp add: line_at_def)
  moreover have "store8 sp (byte_of c) s = Some ?s" "user_io (shell_mem u v) [] 0 s ?s"
    using user_io_store [of sp "shell_mem u v"] line_cell(2,3) [OF v sp(2) sp(2)] sp by auto
  ultimately show ?thesis by blast
qed

lemma line_erase:
  assumes v: "shell_vars_ok u v" and l: "line_at v ys sp s"
  shows "\<exists>s'. let sp' = (if sp \<noteq> sh_cmdbuf v then sp - 1 else sp) in
    store8 sp' 0 s = Some s' \<and> line_at v (butlast ys) sp' s' \<and> user_io (shell_mem u v) [] 0 s s'"
proof -
  let ?sp = "if sp \<noteq> sh_cmdbuf v then sp - 1 else sp"
  have len: "length ys < 16" using l by (simp add: line_at_def)
  have "sp = sh_cmdbuf v \<longleftrightarrow> ys = []" using l line_cell(1) [OF v len, of 0] by (simp add: line_at_def)
  then have sp: "?sp = sh_cmdbuf v + of_nat (length (butlast ys))"
    using l by (cases ys rule: rev_cases) (auto simp: line_at_def)
  have len': "length (butlast ys) < 16" using len by simp
  let ?s = "s\<lparr>bytes := (bytes s)(?sp := 0)\<rparr>"
  have "bytes ?s (sh_cmdbuf v + of_nat i) = (if i < length (butlast ys) then byte_of (butlast ys ! i) else 0)" if "i < 16" for i
    unfolding sp using l that line_cell(1) [OF v that len'] by (auto simp: line_at_def nth_butlast)
  moreover have "NUL \<notin> set (butlast ys)" using l in_set_butlastD [of NUL ys] by (auto simp: line_at_def)
  ultimately have "line_at v (butlast ys) ?sp ?s" using l sp by (auto simp: line_at_def)
  moreover have "store8 ?sp 0 s = Some ?s" "user_io (shell_mem u v) [] 0 s ?s"
    using user_io_store [of ?sp "shell_mem u v"] line_cell(2,3) [OF v len' len'] sp by auto
  ultimately show ?thesis by (auto simp: Let_def)
qed

lemma line_room:
  assumes v: "shell_vars_ok u v" and l: "line_at v xs sp s"
  shows "\<exists>sp' s'. (if length xs = 14 then do { s \<leftarrow> mem_set (sh_cmdbuf v) 0 SIZE_OF_CMDBUF s; Some (sh_cmdbuf v, s) } else Some (sp, s)) = Some (sp', s')
    \<and> line_at v (if length xs = 14 then [] else xs) sp' s' \<and> user_io (shell_mem u v) [] 0 s s'"
  using line_clear [OF v, of s] l by (cases "length xs = 14") (auto simp: user_io_refl)

lemma shell_key_line:
  assumes ok: "console_ok u s" and v: "shell_vars_ok u v" and l: "line_at v xs sp s" and c: "c \<noteq> CR" "c \<noteq> NUL"
  shows "\<exists>sp' s'. shell_key tests u v c sp s = Some (sp', s') \<and> line_at v (edit_key c xs) sp' s'
    \<and> user_io (shell_mem u v) (echo c) 0 s s'"
proof -
  note wider = user_io_mono [where W' = "shell_mem u v"]
  let ?ys = "if length xs = 14 then [] else xs"
  obtain s1 where s1: "uprintf u (cstr ''%c'') [of_nat (of_char c)] s = Some s1" "user_io (frame_of u) [c] 0 s s1" "console_ok u s1"
    using put_chars_ok [OF ok, of "[c]"] by (auto simp: uprintf_def uprint_char simp del: for_each.simps)
  have l1: "line_at v xs sp s1" by (rule line_io [OF l s1(2) v])
  have n: "str_len (Ram (sh_cmdbuf v)) s1 = Some (length xs)" by (rule str_len_ok [OF line_str [OF l1 v]])
  obtain sp2 s2 where s2: "(if length xs = 14 then do { s \<leftarrow> mem_set (sh_cmdbuf v) 0 SIZE_OF_CMDBUF s1; Some (sh_cmdbuf v, s) } else Some (sp, s1)) = Some (sp2, s2)"
    "line_at v ?ys sp2 s2" "user_io (shell_mem u v) [] 0 s1 s2"
    using line_room [OF v l1] by blast
  have io2: "user_io (shell_mem u v) [c] 0 s s2" using user_io_trans [OF wider [OF s1(2)] s2(3)] by simp
  show ?thesis
  proof (cases "c = BS")
    case False
    have "length ?ys < 14" using l by (auto simp: line_at_def)
    then obtain s3 where s3: "store8 sp2 (byte_of c) s2 = Some s3" "line_at v (?ys @ [c]) (sp2 + 1) s3" "user_io (shell_mem u v) [] 0 s2 s3"
      using line_append [OF v s2(2) _ c(2)] by blast
    have "user_io (shell_mem u v) [c] 0 s s3" using user_io_trans [OF io2 s3(3)] by simp
    moreover have "shell_key tests u v c sp s = Some (sp2 + 1, s3)"
      using False c(1) s3(1) s2(1) by (simp add: shell_key_def s1(1) n Let_def)
    ultimately show ?thesis using False s3(2) by (simp add: Let_def edit_key_def echo_def)
  next
    case True
    have ok2: "console_ok u s2" by (rule console_ok_io [OF s1(3) s2(3)])
    obtain s3 where s3: "put_c u (CHR '' '') s2 = Some s3" "user_io (frame_of u) '' '' 0 s2 s3" "console_ok u s3"
      using put_c_ok [OF ok2] by blast
    obtain s4 where s4: "put_c u BS s3 = Some s4" "user_io (frame_of u) [BS] 0 s3 s4"
      using put_c_ok [OF s3(3)] by blast
    have l4: "line_at v ?ys sp2 s4" by (rule line_io [OF line_io [OF s2(2) s3(2) v] s4(2) v])
    let ?sp = "if sp2 \<noteq> sh_cmdbuf v then sp2 - 1 else sp2"
    obtain s5 where s5: "store8 ?sp 0 s4 = Some s5" "line_at v (butlast ?ys) ?sp s5" "user_io (shell_mem u v) [] 0 s4 s5"
      using line_erase [OF v l4] by (auto simp: Let_def)
    have "user_io (shell_mem u v) ([c] @ '' '' @ [BS] @ []) 0 s s5"
      using user_io_trans [OF io2 user_io_trans [OF wider [OF s3(2)] user_io_trans [OF wider [OF s4(2)] s5(3)]]] by simp
    moreover have "shell_key tests u v c sp s = Some (?sp, s5)"
    proof -
      have e: "(c = BS) = True" "(c = CR) = False" using True c(1) by blast+
      show ?thesis
        by (simp only: shell_key_def s1(1) n s2(1) s3(1) s4(1) s5(1) e Let_def Option.bind.simps prod.case simp_thms if_True if_False)
    qed
    ultimately show ?thesis using True s5(2) by (intro exI [of _ ?sp] exI [of _ s5]) (simp add: Let_def edit_key_def echo_def)
  qed
qed

section \<open>Properties\<close>

text \<open>
  C12: the command line refines an edited list. Whatever characters come in before an Enter, the shell
  keeps them in its buffer as \<open>edit_key\<close> says: a backspace takes the last one back, any other is
  added, and the line starts afresh when a character comes after fourteen. Each is echoed, and nothing
  outside the buffer and the call frame is written.
\<close>

theorem shell_line_edit:
  assumes "console_ok u s" and "shell_vars_ok u v" and "line_at v xs sp s"
    and "uart_rx s = map byte_of cs @ rest" and "CR \<notin> set cs" and "NUL \<notin> set cs"
  shows "\<exists>sp' s'. shell_run tests u v (length cs) sp s = Some (sp', s') \<and> line_at v (fold edit_key cs xs) sp' s'
    \<and> uart_tx s' = uart_tx s @ concat (map echo cs) \<and> uart_rx s' = rest
    \<and> (\<forall>x. \<not> frame_of u x \<and> \<not> in_range (sh_cmdbuf v) 16 x \<longrightarrow> bytes s' x = bytes s x)"
proof -
  have "\<exists>sp' s'. shell_run tests u v (length cs) sp s = Some (sp', s') \<and> line_at v (fold edit_key cs xs) sp' s'
    \<and> user_io (shell_mem u v) (concat (map echo cs)) (length cs) s s'"
    using assms(1,3-6)
  proof (induction cs arbitrary: xs sp s)
    case Nil
    then show ?case by (simp add: user_io_refl)
  next
    case (Cons c cs)
    have c: "c \<noteq> CR" "c \<noteq> NUL" using Cons.prems(4,5) by auto
    obtain s1 where s1: "get_c u s = Some (c, s1)" "user_io (frame_of u) [] 1 s s1" "console_ok u s1"
      using get_c_ok [OF Cons.prems(1), of "byte_of c"] Cons.prems(3) by auto
    obtain sp2 s2 where s2: "shell_key tests u v c sp s1 = Some (sp2, s2)" "line_at v (edit_key c xs) sp2 s2"
      "user_io (shell_mem u v) (echo c) 0 s1 s2"
      using shell_key_line [OF s1(3) assms(2) line_io [OF Cons.prems(2) s1(2) assms(2)] c] by blast
    have io: "user_io (shell_mem u v) (echo c) 1 s s2"
      using user_io_trans [OF user_io_mono [OF s1(2), of "shell_mem u v"] s2(3)] by simp
    have "uart_rx s2 = map byte_of cs @ rest" using io Cons.prems(3) by (simp add: user_io_def)
    from Cons.IH [OF console_ok_io [OF s1(3) s2(3)] s2(2) this] Cons.prems(4,5)
    obtain sp' s' where s': "shell_run tests u v (length cs) sp2 s2 = Some (sp', s')" "line_at v (fold edit_key cs (edit_key c xs)) sp' s'"
      "user_io (shell_mem u v) (concat (map echo cs)) (length cs) s2 s'" by auto
    have "user_io (shell_mem u v) (concat (map echo (c # cs))) (length (c # cs)) s s'"
      using user_io_trans [OF io s'(3)] by simp
    then show ?case using s1(1) s2(1) s'(1,2) by (simp add: shell_step_def)
  qed
  then show ?thesis using assms(4) by (auto simp: user_io_def)
qed

definition demo_vars :: shell_vars where
  "demo_vars = \<lparr>sh_canvas = 0x82300100, sh_cwd = 0x82300c00, sh_cmdbuf = 0x82300c40, sh_token = 0x82300c50,
     sh_lsbuf = 0x82300c60, sh_lstoken = 0x82300d00\<rparr>"

theorem shell_line_edit_witness:
  "\<exists>sp s'. shell_run (\<lambda>_ _. None) demo_frame_u demo_vars 4 0x82300c40 (demo_user (\<lambda>_. 0) (map byte_of [CHR ''l'', CHR ''x'', CHR 0x08, CHR ''s''])) = Some (sp, s')
    \<and> line_at demo_vars ''ls'' sp s'"
proof -
  let ?cs = "[CHR ''l'', CHR ''x'', CHR 0x08, CHR ''s'']"
  have v: "shell_vars_ok demo_frame_u demo_vars"
    unfolding shell_vars_ok_def
  proof (intro conjI allI impI)
    show "valid_range (sh_cmdbuf demo_vars) 16" by (simp add: demo_vars_def valid_range_def)
    fix i :: nat assume "i < 16"
    then have "unat (0x82300c40 + of_nat i :: addr) = 0x82300c40 + i" using unat_plus_range [of "0x82300c40" 16 i] by simp
    then show "\<not> frame_of demo_frame_u (sh_cmdbuf demo_vars + of_nat i)" using \<open>i < 16\<close>
      by (auto simp: frame_of_def in_range_def demo_frame_u_def demo_vars_def)
  qed
  have l: "line_at demo_vars [] 0x82300c40 (demo_user (\<lambda>_. 0) (map byte_of ?cs))"
    by (simp add: line_at_def demo_vars_def demo_user_def)
  have rx: "uart_rx (demo_user (\<lambda>_. 0) (map byte_of ?cs)) = map byte_of ?cs @ []" by (simp add: demo_user_def)
  have len: "length ?cs = 4" by simp
  show ?thesis using shell_line_edit [OF demo_user_ok v l rx, of "\<lambda>_ _. None"] unfolding len
    by (auto simp: edit_key_def simp del: shell_run.simps)
qed

end
