(* ===== verification/Programs.thy ===== *)
theory Programs
  imports Shell
begin

text \<open>
  The test programs of the shell's menu: \<^verbatim>\<open>fork_test.c\<close>, \<^verbatim>\<open>multitasking_test.c\<close>,
  \<^verbatim>\<open>priority_test.c\<close>, \<^verbatim>\<open>opentty0_test.c\<close>, \<^verbatim>\<open>ipc_test.c\<close> and the unused \<^verbatim>\<open>debug_test.c\<close>
  (\<^verbatim>\<open>src/src/userproc/\<close>), with the last two wrappers of \<^verbatim>\<open>usyscall.c\<close>, \<^verbatim>\<open>__yield\<close> and \<^verbatim>\<open>__exit\<close>.
  A definition is the effect of a program that is not interrupted; where another task runs in
  between, the program is split there and the tick stands between the parts.
  A program comes back to its caller or stays in a last endless loop, from which only the tick takes
  the processor.
  The addresses of the task functions and of the string constants that are passed to the kernel are
  parameters, as the linker places them.
\<close>

datatype user_end = Back kstate | Parked kstate

record image =
  fn_fork_test_main :: addr
  fn_usertask :: "nat \<Rightarrow> addr"
  fn_prio_test :: "nat \<Rightarrow> addr"
  fn_tty0_test :: addr
  fn_ipc0_test :: addr
  str_TTY0 :: addr
  str_IPC0 :: addr
  str_tty0_text :: addr
  str_ipc_text :: addr
  str_dev :: addr
  str_up :: addr

section \<open>Ending and yielding\<close>

definition u_exit :: "uframe \<Rightarrow> kstate \<Rightarrow> user_end option" where
  "u_exit u s = map_option (\<lambda>(_, s). Parked s) (svc 3 (u_sp u) 0 s)"

text \<open>
  \<^verbatim>\<open>syscall_yield\<close> reloads the tick timer before its \<^verbatim>\<open>svc\<close>, still in user mode: the store goes
  through the task's own translation table.
\<close>

definition u_yield :: "uframe \<Rightarrow> kstate \<Rightarrow> outcome option" where
  "u_yield u s =
     (if user_writes (hw_desc s (drop_bit 20 DMTIMER0_BASE)) then do {
        let s = reload_ostick 5 s;
        let ctx = u_sp u - 56;
        syscall_handler 1 ctx 0 (s\<lparr>ctx_heap := (ctx_heap s)(ctx \<mapsto> zero_ctx\<lparr>c_r0 := 1\<rparr>)\<rparr>)
      } else None)"

abbreviation (input) rule_off :: "char list" where
  "rule_off \<equiv> replicate 41 (CHR ''+'')"

section \<open>fork\<close>

definition fork_test_start :: "uframe \<Rightarrow> kstate \<Rightarrow> (u32 \<times> kstate) option" where
  "fork_test_start u s = do {
     s \<leftarrow> say u (crlf @ rule_off @ crlf) s;
     s \<leftarrow> say u (''Test syscall malloc_blk and mfree_blk function.'' @ crlf) s;
     (p1, s) \<leftarrow> u_malloc_blk u s;
     s \<leftarrow> uprintf u (cstr (''1st blk start addr =%p'' @ crlf)) [p1] s;
     (p2, s) \<leftarrow> u_malloc_blk u s;
     s \<leftarrow> uprintf u (cstr (''2nd blk start addr =%p'' @ crlf)) [p2] s;
     (p3, s) \<leftarrow> u_malloc_blk u s;
     s \<leftarrow> uprintf u (cstr (''3rd blk start addr =%p'' @ crlf)) [p3] s;
     (_, s) \<leftarrow> u_mfree_blk u p2 s;
     (_, s) \<leftarrow> u_mfree_blk u p1 s;
     (_, s) \<leftarrow> u_mfree_blk u p3 s;
     s \<leftarrow> say u (crlf @ rule_off @ crlf) s;
     s \<leftarrow> say u (''Now test syscall fork function.'' @ crlf) s;
     u_fork u s
   }"

text \<open>What parent and child do with the value that \<^verbatim>\<open>__fork\<close> returned to them.\<close>

definition fork_test_rest :: "uframe \<Rightarrow> u32 \<Rightarrow> kstate \<Rightarrow> user_end option" where
  "fork_test_rest u r s = do {
     s \<leftarrow> uprintf u (cstr (''After fork ,r_=%d'' @ crlf)) [r] s;
     (tid, s) \<leftarrow> u_gettid u s;
     s \<leftarrow> uprintf u (cstr (if r \<noteq> 0 then ''I'' @ [CHR 0x27] @ ''m parrent task ,tid=%d'' @ crlf
            else ''I'' @ [CHR 0x27] @ ''m child task., tid=%d'' @ crlf)) [tid] s;
     u_exit u s
   }"

definition fork_test_main :: "uframe \<Rightarrow> kstate \<Rightarrow> user_end option" where
  "fork_test_main u s = do { (r, s) \<leftarrow> fork_test_start u s; fork_test_rest u r s }"

definition fork_test :: "image \<Rightarrow> uframe \<Rightarrow> kstate \<Rightarrow> kstate option" where
  "fork_test im u s = map_option snd (u_do_taskCreate u (fn_fork_test_main im) 0 s)"

section \<open>Multitasking\<close>

definition tid_line :: "uframe \<Rightarrow> nat \<Rightarrow> kstate \<Rightarrow> kstate option" where
  "tid_line u k s = do {
     (tid, s) \<leftarrow> u_gettid u s;
     uprintf u (cstr (''tid=%d,#%d'' @ crlf)) [tid, of_nat k] s
   }"

definition usertask0 :: "image \<Rightarrow> uframe \<Rightarrow> kstate \<Rightarrow> user_end option" where
  "usertask0 im u s = do {
     s \<leftarrow> say u (''Starting User Task 0 '' @ crlf) s;
     (_, s) \<leftarrow> u_do_taskCreate u (fn_usertask im 1) 0 s;
     s \<leftarrow> for_each (tid_line u) [0..<10] s;
     u_exit u s
   }"

definition usertask1 :: "image \<Rightarrow> uframe \<Rightarrow> kstate \<Rightarrow> user_end option" where
  "usertask1 im u s = do {
     s \<leftarrow> say u (''Starting User Task 1 '' @ crlf) s;
     (_, s) \<leftarrow> u_do_taskCreate u (fn_usertask im 2) 0 s;
     s \<leftarrow> for_each (tid_line u) [0..<10] s;
     u_exit u s
   }"

definition usertask2 :: "image \<Rightarrow> uframe \<Rightarrow> kstate \<Rightarrow> user_end option" where
  "usertask2 im u s = do {
     s \<leftarrow> say u (''Starting User Task 2 '' @ crlf) s;
     (_, s) \<leftarrow> u_do_taskCreate u (fn_usertask im 3) 0 s;
     s \<leftarrow> for_each (tid_line u) [0..<10] s;
     u_exit u s
   }"

definition usertask3 :: "image \<Rightarrow> uframe \<Rightarrow> kstate \<Rightarrow> user_end option" where
  "usertask3 im u s = do {
     s \<leftarrow> say u (''Starting User Task 3 '' @ crlf) s;
     (_, s) \<leftarrow> u_do_taskCreate u (fn_usertask im 4) 0 s;
     s \<leftarrow> for_each (tid_line u) [0..<10] s;
     u_exit u s
   }"

definition usertask4 :: "uframe \<Rightarrow> kstate \<Rightarrow> user_end option" where
  "usertask4 u s = do {
     s \<leftarrow> say u (''Starting User Task 4 '' @ crlf) s;
     s \<leftarrow> for_each (tid_line u) [0..<10] s;
     u_exit u s
   }"

definition multitasking_test_main :: "image \<Rightarrow> uframe \<Rightarrow> kstate \<Rightarrow> kstate option" where
  "multitasking_test_main im u s = do {
     s \<leftarrow> say u (rule_off @ crlf) s;
     s \<leftarrow> say u (''Now test multitasking.'' @ crlf) s;
     (_, s) \<leftarrow> u_do_taskCreate u (fn_usertask im 0) 0 s;
     Some s
   }"

section \<open>Priorities\<close>

definition prio_line :: "uframe \<Rightarrow> nat \<Rightarrow> kstate \<Rightarrow> kstate option" where
  "prio_line u k s = do {
     (tid, s) \<leftarrow> u_gettid u s;
     (pr, s) \<leftarrow> u_get_task_priority u s;
     uprintf u (cstr (''tid=%d-prio=%d,#%d'' @ crlf)) [tid, pr, of_nat k] s
   }"

text \<open>The loops with a task started in turn \<open>j\<close>.\<close>

definition prio_line_and :: "image \<Rightarrow> uframe \<Rightarrow> nat \<Rightarrow> nat \<Rightarrow> u32 \<Rightarrow> nat \<Rightarrow> kstate \<Rightarrow> kstate option" where
  "prio_line_and im u j n pr k s = do {
     s \<leftarrow> prio_line u k s;
     if k = j then map_option snd (u_do_taskCreate u (fn_prio_test im n) pr s) else Some s
   }"

definition prio_test1 :: "image \<Rightarrow> uframe \<Rightarrow> kstate \<Rightarrow> user_end option" where
  "prio_test1 im u s = do {
     (_, s) \<leftarrow> u_do_taskCreate u (fn_prio_test im 2) 3 s;
     s \<leftarrow> for_each (prio_line u) [1..<5] s;
     u_exit u s
   }"

definition prio_test2 :: "image \<Rightarrow> uframe \<Rightarrow> kstate \<Rightarrow> user_end option" where
  "prio_test2 im u s = do {
     s \<leftarrow> for_each (prio_line_and im u 2 3 2) [1..<5] s;
     u_exit u s
   }"

definition prio_test3 :: "image \<Rightarrow> uframe \<Rightarrow> kstate \<Rightarrow> user_end option" where
  "prio_test3 im u s = do {
     (_, s) \<leftarrow> u_do_taskCreate u (fn_prio_test im 4) 2 s;
     s \<leftarrow> for_each (prio_line u) [1..<5] s;
     u_exit u s
   }"

definition prio_test4 :: "image \<Rightarrow> uframe \<Rightarrow> kstate \<Rightarrow> user_end option" where
  "prio_test4 im u s = do {
     s \<leftarrow> for_each (prio_line_and im u 1 5 1) [1..<5] s;
     u_exit u s
   }"

definition prio_test5 :: "image \<Rightarrow> uframe \<Rightarrow> kstate \<Rightarrow> user_end option" where
  "prio_test5 im u s = do {
     (_, s) \<leftarrow> u_do_taskCreate u (fn_prio_test im 6) 1 s;
     s \<leftarrow> for_each (prio_line u) [1..<5] s;
     u_exit u s
   }"

definition prio_test6 :: "image \<Rightarrow> uframe \<Rightarrow> kstate \<Rightarrow> user_end option" where
  "prio_test6 im u s = do {
     (_, s) \<leftarrow> u_do_taskCreate u (fn_prio_test im 7) 1 s;
     s \<leftarrow> for_each (prio_line u) [1..<5] s;
     u_exit u s
   }"

definition prio_test7 :: "image \<Rightarrow> uframe \<Rightarrow> kstate \<Rightarrow> user_end option" where
  "prio_test7 im u s = do {
     s \<leftarrow> for_each (prio_line_and im u 1 8 0) [1..<5] s;
     u_exit u s
   }"

definition prio_test8 :: "uframe \<Rightarrow> kstate \<Rightarrow> user_end option" where
  "prio_test8 u s = do {
     s \<leftarrow> for_each (prio_line u) [1..<5] s;
     u_exit u s
   }"

definition priority_test_main :: "image \<Rightarrow> uframe \<Rightarrow> kstate \<Rightarrow> kstate option" where
  "priority_test_main im u s = do {
     s \<leftarrow> say u (rule_off @ crlf) s;
     s \<leftarrow> say u (''Now test priority base multitasking.'' @ crlf) s;
     (_, s) \<leftarrow> u_do_taskCreate u (fn_prio_test im 1) 3 s;
     Some s
   }"

section \<open>Opening a device\<close>

definition tty0_test :: "image \<Rightarrow> uframe \<Rightarrow> kstate \<Rightarrow> user_end option" where
  "tty0_test im u s = do {
     (tid, s) \<leftarrow> u_gettid u s;
     s \<leftarrow> uprintf u (cstr (''Starting tty0_test_%d '' @ crlf)) [tid] s;
     (fd, s) \<leftarrow> u_open u (str_TTY0 im) s;
     if sint fd < 0 then map_option Parked (uprintf u (cstr (''Error ,fd =%d ,halt'' @ crlf)) [fd] s)
     else do {
       s \<leftarrow> uprintf u (cstr (''Successfully open tty0 ,fd =%d'' @ crlf)) [fd] s;
       (_, s) \<leftarrow> u_write u fd (str_tty0_text im) 18 s;
       u_exit u s
     }
   }"

definition tty0_test_main :: "image \<Rightarrow> uframe \<Rightarrow> kstate \<Rightarrow> kstate option" where
  "tty0_test_main im u s = do {
     s \<leftarrow> say u (rule_off @ crlf) s;
     s \<leftarrow> say u (''Now test open tty0.'' @ crlf) s;
     (_, s) \<leftarrow> u_do_taskCreate u (fn_tty0_test im) 0 s;
     Some s
   }"

section \<open>IPC\<close>

text \<open>The sender up to its \<^verbatim>\<open>__exit\<close>, which ends both branches.\<close>

definition ipc0_send :: "image \<Rightarrow> uframe \<Rightarrow> kstate \<Rightarrow> kstate option" where
  "ipc0_send im u s = do {
     s \<leftarrow> say u (''Test ipc0.'' @ crlf) s;
     (tid, s) \<leftarrow> u_gettid u s;
     s \<leftarrow> uprintf u (cstr (''tid=%d '' @ crlf)) [tid] s;
     (fd, s) \<leftarrow> u_open u (str_IPC0 im) s;
     if sint fd < 0 then uprintf u (cstr (''Error ,fd =%d ,exit'' @ crlf)) [fd] s
     else do {
       s \<leftarrow> uprintf u (cstr (''Successfully open ipc0 ,fd =%d'' @ crlf)) [fd] s;
       s \<leftarrow> put_str u (lit (''Send :Hello Message'' @ crlf)) s;
       (_, s) \<leftarrow> u_write u fd (str_ipc_text im) 17 s;
       (_, s) \<leftarrow> u_close u fd s;
       Some s
     }
   }"

definition ipc0_test :: "image \<Rightarrow> uframe \<Rightarrow> kstate \<Rightarrow> user_end option" where
  "ipc0_test im u s = do { s \<leftarrow> ipc0_send im u s; u_exit u s }"

text \<open>The receiver, from its \<^verbatim>\<open>__open\<close> on; \<open>rbuf\<close> is its local buffer.\<close>

definition ipc_receive :: "image \<Rightarrow> uframe \<Rightarrow> addr \<Rightarrow> kstate \<Rightarrow> kstate option" where
  "ipc_receive im u rbuf s = do {
     (fd, s) \<leftarrow> u_open u (str_IPC0 im) s;
     if sint fd < 0 then uprintf u (cstr (''Error ,fd =%d ,exit main'' @ crlf)) [fd] s
     else do {
       s \<leftarrow> uprintf u (cstr (''Successfully open ,fd =%d'' @ crlf)) [fd] s;
       s \<leftarrow> mem_set rbuf 0 32 s;
       (r, s) \<leftarrow> u_read u fd rbuf 17 s;
       s \<leftarrow> (if sint r \<le> 0 then say u (''Read Error!'' @ crlf) s else Some s);
       s \<leftarrow> put_str u (lit ''Get :'') s;
       s \<leftarrow> put_str u (Ram rbuf) s;
       (_, s) \<leftarrow> u_close u fd s;
       Some s
     }
   }"

definition ipc_test_main :: "image \<Rightarrow> uframe \<Rightarrow> addr \<Rightarrow> kstate \<Rightarrow> kstate option" where
  "ipc_test_main im u rbuf s = do {
     s \<leftarrow> say u (rule_off @ crlf) s;
     (_, s) \<leftarrow> u_do_taskCreate u (fn_ipc0_test im) 0 s;
     s \<leftarrow> say u (rule_off @ crlf) s;
     (tid, s) \<leftarrow> u_gettid u s;
     s \<leftarrow> uprintf u (cstr (''tid=%d '' @ crlf)) [tid] s;
     ipc_receive im u rbuf s
   }"

text \<open>The five programs as the shell's menu calls them.\<close>

definition menu_tests :: "image \<Rightarrow> uframe \<Rightarrow> addr \<Rightarrow> nat \<Rightarrow> kstate \<Rightarrow> kstate option" where
  "menu_tests im u rbuf n s =
     (if n = 1 then fork_test im u s
      else if n = 2 then multitasking_test_main im u s
      else if n = 3 then priority_test_main im u s
      else if n = 4 then tty0_test_main im u s
      else ipc_test_main im u rbuf s)"

section \<open>Directories\<close>

partial_function (option) token_lines :: "uframe \<Rightarrow> addr \<Rightarrow> addr \<Rightarrow> kstate \<Rightarrow> kstate option" where
  "token_lines u token start s =
     (if start \<noteq> NULL then do {
        s \<leftarrow> mem_set token 0 16 s;
        n \<leftarrow> str_len (lit '';;'') s;
        (start, s) \<leftarrow> strtok_fst start (lit '';;'') n token s;
        s \<leftarrow> put_str u (lit crlf) s;
        s \<leftarrow> put_str u (Ram token) s;
        token_lines u token start s
      } else Some s)"

declare token_lines.simps [code]

definition test_sys_getsubdir_and_getfdir :: "uframe \<Rightarrow> addr \<Rightarrow> addr \<Rightarrow> kstate \<Rightarrow> kstate option" where
  "test_sys_getsubdir_and_getfdir u buf token s = do {
     s \<leftarrow> mem_set buf 0 80 s;
     (r, s) \<leftarrow> u_getsubdir u buf 80 s;
     s \<leftarrow> (if r < 0 then user_printk (cstr (''buf size not enough.'' @ crlf)) [] s else Some s);
     s \<leftarrow> put_str u (Ram buf) s;
     s \<leftarrow> put_str u (lit crlf) s;
     s \<leftarrow> user_printk (cstr ''Split subdir list string.'') [] s;
     s \<leftarrow> token_lines u token buf s;
     s \<leftarrow> user_printk (cstr (''__getsubdir Test end'' @ crlf @ crlf)) [] s;
     s \<leftarrow> mem_set buf 0 80 s;
     (r, s) \<leftarrow> u_getfdir u buf 80 s;
     s \<leftarrow> (if r < 0 then user_printk (cstr (''buf size not enough.'' @ crlf)) [] s else Some s);
     s \<leftarrow> put_str u (Ram buf) s;
     s \<leftarrow> put_str u (lit crlf) s;
     s \<leftarrow> user_printk (cstr ''Split file list string.'') [] s;
     s \<leftarrow> token_lines u token buf s;
     user_printk (cstr (''__getfdir Test end'' @ crlf)) [] s
   }"

definition chdir_and_report :: "uframe \<Rightarrow> addr \<Rightarrow> kstate \<Rightarrow> kstate option" where
  "chdir_and_report u dir s = do {
     s \<leftarrow> put_str u (lit (crlf @ crlf @ ''Change dir test.'')) s;
     (r, s) \<leftarrow> u_chdir u dir s;
     if sint r < 0 then put_str u (lit (crlf @ ''Dir not found'' @ crlf)) s else Some s
   }"

definition test_sys_chdir :: "image \<Rightarrow> uframe \<Rightarrow> shell_vars \<Rightarrow> kstate \<Rightarrow> kstate option" where
  "test_sys_chdir im u v s = do {
     s \<leftarrow> put_str u (lit (crlf @ ''List subdirs and files'' @ crlf)) s;
     s \<leftarrow> lsdir u v s;
     s \<leftarrow> chdir_and_report u (str_dev im) s;
     s \<leftarrow> lsdir u v s;
     s \<leftarrow> chdir_and_report u (str_up im) s;
     s \<leftarrow> lsdir u v s;
     s \<leftarrow> chdir_and_report u (str_up im) s;
     s \<leftarrow> put_str u (lit (crlf @ ''List subdirs and files'')) s;
     lsdir u v s
   }"

end
