(* ===== verification/ProgramRuns.thy ===== *)
theory ProgramRuns
  imports Programs
begin

text \<open>
  What the test programs do. A run of user code is described by the text it prints, the bytes it may
  write and the descriptors of its task (\<open>runs\<close>, \<open>user_ok\<close>); one lemma per system call the programs
  use, and from them the loop of the multitasking test and the message that crosses the IPC channel.
\<close>

section \<open>Runs of user code\<close>

definition no_proc :: "kstate \<Rightarrow> kstate" where
  "no_proc s = (no_user s)\<lparr>task_heap := Map.empty\<rparr>"

text \<open>\<open>out\<close> was printed, only \<open>W\<close> written, and of the tasks only descriptors of the running one changed.\<close>

definition runs :: "(addr \<Rightarrow> bool) \<Rightarrow> char list \<Rightarrow> kstate \<Rightarrow> kstate \<Rightarrow> bool" where
  "runs W out s s' \<longleftrightarrow> uart_tx s' = uart_tx s @ out \<and> no_proc s' = no_proc s \<and> (\<forall>x. \<not> W x \<longrightarrow> bytes s' x = bytes s x)
     \<and> (\<forall>x. x \<noteq> curr_running_task s \<longrightarrow> task_heap s' x = task_heap s x)
     \<and> links (openfiles_update (\<lambda>_. [])) (task_heap s') = links (openfiles_update (\<lambda>_. [])) (task_heap s)
     \<and> dom (ctx_heap s) \<subseteq> dom (ctx_heap s')"

definition user_ok :: "uframe \<Rightarrow> addr list \<Rightarrow> kstate \<Rightarrow> bool" where
  "user_ok u fs s \<longleftrightarrow> console_ok u s \<and> map_option openfiles (current s) = Some fs"

lemma no_proc_keeps:
  assumes eq: "no_proc s' = no_proc s"
  shows "curr_running_task s' = curr_running_task s" "file_heap s' = file_heap s" "file_list_head s' = file_list_head s"
    "ipc_q s' = ipc_q s" "task_ready_list s' = task_ready_list s"
proof -
  note k = arg_cong [OF eq]
  show "curr_running_task s' = curr_running_task s" using k [of curr_running_task] by (simp add: no_proc_def no_user_def)
  show "file_heap s' = file_heap s" using k [of file_heap] by (simp add: no_proc_def no_user_def)
  show "file_list_head s' = file_list_head s" using k [of file_list_head] by (simp add: no_proc_def no_user_def)
  show "ipc_q s' = ipc_q s" using k [of ipc_q] by (simp add: no_proc_def no_user_def)
  show "task_ready_list s' = task_ready_list s" using k [of task_ready_list] by (simp add: no_proc_def no_user_def)
qed

lemma no_proc_user: "no_user s' = no_user s \<Longrightarrow> no_proc s' = no_proc s"
  by (simp add: no_proc_def)

lemma runs_io: "user_io W out 0 s s' \<Longrightarrow> runs W out s s'"
  using no_proc_user [of s' s] by (simp add: runs_def user_io_def)

lemma runs_refl: "runs W [] s s"
  by (simp add: runs_def)

lemma runs_trans: "runs W o1 s t \<Longrightarrow> runs W o2 t v \<Longrightarrow> runs W (o1 @ o2) s v"
  using subset_trans [of "dom (ctx_heap s)" "dom (ctx_heap t)" "dom (ctx_heap v)"]
  by (simp add: runs_def) (metis no_proc_keeps(1))

lemma runs_mono: "runs W out s s' \<Longrightarrow> \<forall>x. W x \<longrightarrow> W' x \<Longrightarrow> runs W' out s s'"
  by (auto simp: runs_def)

lemma runs_keeps:
  assumes "runs W out s s'"
  shows "curr_running_task s' = curr_running_task s" "file_heap s' = file_heap s" "file_list_head s' = file_list_head s"
    "ipc_q s' = ipc_q s" "\<not> W x \<Longrightarrow> bytes s' x = bytes s x"
  using assms no_proc_keeps [of s' s] by (simp_all add: runs_def)

lemma runs_field:
  assumes "runs W out s s'" and "current s = Some t" and "\<And>t. f (t\<lparr>openfiles := []\<rparr>) = f t"
  shows "map_option f (current s') = Some (f t)"
proof -
  have t: "curr_running_task s \<noteq> NULL" "task_heap s (curr_running_task s) = Some t"
    using assms(2) by (auto simp: current_def deref_def split: if_splits)
  have "links (openfiles_update (\<lambda>_. [])) (task_heap s') (curr_running_task s) = Some (t\<lparr>openfiles := []\<rparr>)"
    using assms(1) t(2) by (simp add: runs_def)
  then obtain t' where "task_heap s' (curr_running_task s) = Some t'" "t'\<lparr>openfiles := []\<rparr> = t\<lparr>openfiles := []\<rparr>"
    by (auto dest: links_SomeD)
  then show ?thesis using t runs_keeps(1) [OF assms(1)] assms(3) by (metis current_def deref_non_NULL option.simps(9))
qed

lemma user_ok_io: "user_ok u fs s \<Longrightarrow> user_io W out k s s' \<Longrightarrow> user_ok u fs s'"
  using console_ok_io [of u s W out k s'] by (simp add: user_ok_def current_def) (simp add: user_io_def)

section \<open>Printing and asking\<close>

lemma uprintf_ok:
  assumes "user_ok u fs s" and "uprint fmt args = Some out"
  shows "\<exists>s'. uprintf u fmt args s = Some s' \<and> runs (frame_of u) out s s' \<and> user_ok u fs s'"
proof -
  obtain s' where s': "for_each (put_c u) out s = Some s'" "user_io (frame_of u) out 0 s s'"
    using put_chars_ok [of u s out] assms(1) by (auto simp: user_ok_def)
  then show ?thesis using assms user_ok_io runs_io by (fastforce simp: uprintf_def)
qed

lemma put_str_run:
  assumes "user_ok u fs s" and "str_at p t s" and "\<forall>a i. p = Ram a \<and> i \<le> length t \<longrightarrow> \<not> frame_of u (a + of_nat i)"
  shows "\<exists>s'. put_str u p s = Some s' \<and> runs (frame_of u) t s s' \<and> user_ok u fs s'"
proof -
  obtain s' where "put_str_from u p 0 s = Some s'" "user_io (frame_of u) t 0 s s'"
    using put_str_from_ok [OF _ assms(2) _ assms(3), of s 0] assms(1) by (auto simp: user_ok_def)
  then show ?thesis using assms(1) user_ok_io runs_io by (fastforce simp: put_str_def)
qed

lemma uprint_text:
  "CHR ''%'' \<notin> set t \<Longrightarrow> NUL \<notin> set t \<Longrightarrow> uprint (t @ fmt) args = map_option ((@) t) (uprint fmt args)"
  by (induction t) (auto simp: option.map_comp comp_def map_option_case split: option.splits)

lemma say_ok:
  assumes "user_ok u fs s" and "CHR ''%'' \<notin> set t" and "NUL \<notin> set t"
  shows "\<exists>s'. uprintf u (cstr t) [] s = Some s' \<and> runs (frame_of u) t s s' \<and> user_ok u fs s'"
  using uprintf_ok [OF assms(1), of "cstr t" "[]" t] uprint_text [OF assms(2,3), of "[NUL]"] by (simp add: cstr_def)

lemma u_gettid_ok:
  assumes "user_ok u fs s" and "current s = Some t"
  shows "\<exists>s'. u_gettid u s = Some (task_id t, s') \<and> runs W [] s s' \<and> user_ok u fs s'"
proof -
  have sp: "u_sp u - 56 \<noteq> NULL" using assms(1) by (simp add: user_ok_def console_ok_def)
  have "\<exists>g v w. svc 2 (u_sp u) 0 s = Some (task_id t, s\<lparr>ctx_heap := g, bytes := bytes s, uart_tx := uart_tx s, uart_rx := uart_rx s, tlb := w, ttbr0 := v\<rparr>)
      \<and> dom (ctx_heap s) \<subseteq> dom g"
    by (rule svc_plain [OF assms(2) _ _ sp, where h = get_tid_handler])
      (use assms(2) sp in \<open>simp_all add: syscall_table_def get_tid_handler_def current_def set_r0_def upd_objs\<close>)
  then obtain g v w where r: "u_gettid u s = Some (task_id t, s\<lparr>ctx_heap := g, bytes := bytes s, uart_tx := uart_tx s, uart_rx := uart_rx s, tlb := w, ttbr0 := v\<rparr>)"
    "dom (ctx_heap s) \<subseteq> dom g"
    by (auto simp: u_gettid_def)
  have "user_io W [] 0 s (s\<lparr>ctx_heap := g, bytes := bytes s, uart_tx := uart_tx s, uart_rx := uart_rx s, tlb := w, ttbr0 := v\<rparr>)"
    using r(2) by (simp add: user_io_def)
  then show ?thesis using r(1) runs_io user_ok_io [OF assms(1)] by blast
qed

section \<open>Any system call\<close>

definition called :: "u32 \<Rightarrow> addr \<Rightarrow> u32 \<Rightarrow> kstate \<Rightarrow> kstate" where
  "called n sp arg s = switch_mm (KERN_PADDR s) (s\<lparr>ctx_heap := (ctx_heap s)(sp - 56 \<mapsto> zero_ctx\<lparr>c_r2 := arg, c_r0 := n\<rparr>)\<rparr>)"

lemma switch_mm_user [simp]: "no_user (switch_mm b s) = no_user s" "bytes (switch_mm b s) = bytes s" "uart_tx (switch_mm b s) = uart_tx s"
  "task_heap (switch_mm b s) = task_heap s" "curr_running_task (switch_mm b s) = curr_running_task s"
  "ipc_q (switch_mm b s) = ipc_q s" "file_heap (switch_mm b s) = file_heap s" "file_list_head (switch_mm b s) = file_list_head s"
  "ctx_heap (switch_mm b s) = ctx_heap s"
  by (simp_all add: switch_mm_def pgt_base_setup_def invalidate_tlb_def)

lemma called_eqs [simp]:
  "no_user (called n sp arg s) = no_user s" "bytes (called n sp arg s) = bytes s" "uart_tx (called n sp arg s) = uart_tx s"
  "task_heap (called n sp arg s) = task_heap s" "curr_running_task (called n sp arg s) = curr_running_task s"
  "ipc_q (called n sp arg s) = ipc_q s" "file_heap (called n sp arg s) = file_heap s" "file_list_head (called n sp arg s) = file_list_head s"
  "ctx_heap (called n sp arg s) = (ctx_heap s)(sp - 56 \<mapsto> zero_ctx\<lparr>c_r2 := arg, c_r0 := n\<rparr>)"
  by (simp_all add: called_def)

lemma svc_run:
  assumes "unat n < 20" and "syscall_table ! unat n = plain h" and "sp - 56 \<noteq> NULL"
    and "h (sp - 56) arg (called n sp arg s) = Some s1" and "current s1 = Some t1" and "ctx_heap s1 (sp - 56) = Some c"
  shows "svc n sp arg s = Some (c_r0 c, switch_mm (pgtbase t1) s1)"
  using assms by (simp add: svc_def syscall_handler_def Let_def plain_def called_def KERN_PADDR_def deref_non_NULL)

section \<open>Files\<close>

text \<open>The file that \<^verbatim>\<open>find_file\<close> returns for the name \<open>t\<close>.\<close>

definition finds :: "char list \<Rightarrow> addr \<Rightarrow> kstate \<Rightarrow> bool" where
  "finds t p s \<longleftrightarrow> p \<noteq> NULL \<and> (\<exists>fs. chain (links f_list_next (file_heap s)) (file_list_head s) fs \<and> fs \<noteq> []
     \<and> terminated_files s fs \<and> first_or_NULL (\<lambda>p. file_text s p = Some t) fs = p)"

lemma finds_cong:
  "file_heap s' = file_heap s \<Longrightarrow> file_list_head s' = file_list_head s \<Longrightarrow> finds t p s' \<longleftrightarrow> finds t p s"
  by (simp add: finds_def terminated_files_def file_text_def)

lemma finds_file: "finds t p s \<Longrightarrow> str_at (Ram a) t s \<Longrightarrow> find_file (Ram a) s = Some p"
  by (auto simp: finds_def find_file_def find_file_ok)

lemma user_ok_task:
  assumes "user_ok u fs s"
  obtains t where "current s = Some t" "openfiles t = fs" "curr_running_task s \<noteq> NULL"
    "task_heap s (curr_running_task s) = Some t" "u_sp u - 56 \<noteq> NULL" "valid_range (u_args u) 12"
proof -
  obtain t where "current s = Some t" "openfiles t = fs" using assms by (auto simp: user_ok_def)
  then show ?thesis using that assms by (auto simp: user_ok_def console_ok_def current_def deref_def split: if_splits)
qed

text \<open>The console stays open when another descriptor changes.\<close>

lemma user_ok_descr:
  assumes ok: "user_ok u fs s" and t: "current s = Some t" and i: "2 < i"
    and heap: "task_heap s' = (task_heap s)(curr_running_task s \<mapsto> t\<lparr>openfiles := fs[i := p]\<rparr>)"
    and same: "curr_running_task s' = curr_running_task s" "file_heap s' = file_heap s"
  shows "user_ok u (fs[i := p]) s'"
  using ok t i by (auto simp: user_ok_def console_ok_def current_def deref_def heap same split: if_splits)

lemma runs_descr:
  assumes "current s = Some t" and "task_heap s' = (task_heap s)(curr_running_task s \<mapsto> t\<lparr>openfiles := fs\<rparr>)"
    and "uart_tx s' = uart_tx s" and "no_proc s' = no_proc s" and "bytes s' = bytes s" and "dom (ctx_heap s) \<subseteq> dom (ctx_heap s')"
  shows "runs W [] s s'"
proof -
  have "links (openfiles_update (\<lambda>_. [])) (task_heap s) (curr_running_task s) = Some (t\<lparr>openfiles := []\<rparr>)"
    using assms(1) by (auto simp: current_def deref_def split: if_splits)
  then have "links (openfiles_update (\<lambda>_. [])) (task_heap s') = links (openfiles_update (\<lambda>_. [])) (task_heap s)"
    by (simp add: assms(2) fun_upd_idem)
  then show ?thesis using assms(2-6) by (simp add: runs_def)
qed

lemma no_proc_upd [simp]: "no_proc (s\<lparr>task_heap := h\<rparr>) = no_proc s" "no_proc (s\<lparr>ctx_heap := g\<rparr>) = no_proc s"
  "no_proc (switch_mm b s) = no_proc s" "no_proc (called n sp arg s) = no_proc s"
  by (simp_all add: no_proc_def) (simp add: no_user_def)

lemma free_fd_range: "free_fd fs [0..<8] = int i \<Longrightarrow> fs ! 0 \<noteq> NULL \<Longrightarrow> fs ! 1 \<noteq> NULL \<Longrightarrow> 2 < i \<and> i < 8"
  by (simp add: upt_conv_Cons split: if_splits)

lemma u_open_ok:
  assumes ok: "user_ok u fs s" and name: "str_at (Ram a) t s" "finds t p s" and fd: "free_fd fs [0..<8] = int i"
  shows "\<exists>s'. u_open u a s = Some (of_nat i, s') \<and> runs W [] s s' \<and> user_ok u (fs[i := p]) s' \<and> 2 < i \<and> i < 8"
proof -
  obtain t where t: "current s = Some t" "openfiles t = fs" "curr_running_task s \<noteq> NULL"
    "task_heap s (curr_running_task s) = Some t" "u_sp u - 56 \<noteq> NULL" "valid_range (u_args u) 12"
    using user_ok_task [OF ok] .
  have "fs ! 0 \<noteq> NULL" "fs ! 1 \<noteq> NULL" using ok t(1,2) by (auto simp: user_ok_def console_ok_def deref_def split: if_splits)
  then have i: "2 < i" "i < 8" using free_fd_range [OF fd] by simp_all
  define c where "c = called 12 (u_sp u) a s"
  define s1 where "s1 = c\<lparr>task_heap := (task_heap s)(curr_running_task s \<mapsto> t\<lparr>openfiles := fs[i := p]\<rparr>),
    ctx_heap := (ctx_heap c)(u_sp u - 56 \<mapsto> zero_ctx\<lparr>c_r2 := a, c_r0 := of_nat i\<rparr>)\<rparr>"
  have "str_at (Ram a) t' s \<Longrightarrow> str_at (Ram a) t' c" for t' using str_at_bytes [of c s "Ram a" t'] by (simp add: c_def)
  moreover have "finds t' p c = finds t' p s" for t' by (rule finds_cong) (simp_all add: c_def)
  ultimately have "find_file (Ram a) c = Some p" using name finds_file by blast
  moreover have "p \<noteq> NULL" using name(2) by (simp add: finds_def)
  ultimately have "file_open (Ram a) (curr_running_task c) c
      = Some (int i, c\<lparr>task_heap := (task_heap c)(curr_running_task c \<mapsto> t\<lparr>openfiles := (openfiles t)[i := p]\<rparr>)\<rparr>)"
    using t fd by (intro file_open_slot) (simp_all add: c_def)
  then have h: "open_handler (u_sp u - 56) a c = Some s1"
    using t i by (simp add: open_handler_def set_r0_def upd_objs c_def s1_def)
  have cur: "current s1 = Some (t\<lparr>openfiles := fs[i := p]\<rparr>)" using t(3) by (simp add: current_def deref_def s1_def c_def)
  have run: "u_open u a s = Some (of_nat i, switch_mm (pgtbase t) s1)"
    using svc_run [where h = open_handler, OF _ _ t(5) h [unfolded c_def] cur] by (simp add: u_open_def syscall_table_def s1_def)
  have s1: "task_heap s1 = (task_heap s)(curr_running_task s \<mapsto> t\<lparr>openfiles := fs[i := p]\<rparr>)" "curr_running_task s1 = curr_running_task s"
    "file_heap s1 = file_heap s" "uart_tx s1 = uart_tx s" "bytes s1 = bytes s" "no_proc s1 = no_proc s"
    "dom (ctx_heap s) \<subseteq> dom (ctx_heap s1)"
    by (auto simp: s1_def c_def)
  have "user_ok u (fs[i := p]) (switch_mm (pgtbase t) s1)" by (rule user_ok_descr [OF ok t(1) i(1)]) (simp_all add: s1)
  moreover have "runs W [] s (switch_mm (pgtbase t) s1)" by (rule runs_descr [OF t(1)]) (simp_all add: s1)
  ultimately show ?thesis using run i by blast
qed

lemma u_close_ok:
  assumes ok: "user_ok u fs s" and i: "2 < i" "i < 8"
  shows "\<exists>r s'. u_close u (of_nat i) s = Some (r, s') \<and> runs W [] s s' \<and> user_ok u (fs[i := NULL]) s'"
proof -
  obtain t where t: "current s = Some t" "openfiles t = fs" "curr_running_task s \<noteq> NULL"
    "task_heap s (curr_running_task s) = Some t" "u_sp u - 56 \<noteq> NULL" "valid_range (u_args u) 12"
    using user_ok_task [OF ok] .
  define c where "c = called 19 (u_sp u) (of_nat i) s"
  define s1 where "s1 = c\<lparr>task_heap := (task_heap s)(curr_running_task s \<mapsto> t\<lparr>openfiles := fs[i := NULL]\<rparr>)\<rparr>"
  have "unat (of_nat i :: u32) = i" using i by (simp add: unat_of_nat32)
  then have h: "close_handler (u_sp u - 56) (of_nat i) c = Some s1"
    using t i by (simp add: close_handler_def file_close_def upd_objs c_def s1_def)
  have cur: "current s1 = Some (t\<lparr>openfiles := fs[i := NULL]\<rparr>)" using t(3) by (simp add: current_def deref_def s1_def c_def)
  have run: "\<exists>r. u_close u (of_nat i) s = Some (r, switch_mm (pgtbase t) s1)"
    using svc_run [where h = close_handler, OF _ _ t(5) h [unfolded c_def] cur] by (simp add: u_close_def syscall_table_def s1_def c_def)
  have s1: "task_heap s1 = (task_heap s)(curr_running_task s \<mapsto> t\<lparr>openfiles := fs[i := NULL]\<rparr>)" "curr_running_task s1 = curr_running_task s"
    "file_heap s1 = file_heap s" "uart_tx s1 = uart_tx s" "bytes s1 = bytes s" "no_proc s1 = no_proc s"
    "dom (ctx_heap s) \<subseteq> dom (ctx_heap s1)"
    by (auto simp: s1_def c_def)
  have "user_ok u (fs[i := NULL]) (switch_mm (pgtbase t) s1)" by (rule user_ok_descr [OF ok t(1) i(1)]) (simp_all add: s1)
  moreover have "runs W [] s (switch_mm (pgtbase t) s1)" by (rule runs_descr [OF t(1)]) (simp_all add: s1)
  ultimately show ?thesis using run by blast
qed

section \<open>The channel\<close>

definition chan :: "kstate \<Rightarrow> addr \<Rightarrow> bool" where
  "chan s x \<longleftrightarrow> in_range (q_data (ipc_q s)) (ipc_cap s) x"

definition ipc_file :: "addr \<Rightarrow> kstate \<Rightarrow> bool" where
  "ipc_file p s \<longleftrightarrow> p \<noteq> NULL \<and> (\<exists>f. file_heap s p = Some f \<and> file_read f = Fn_ipc_read \<and> file_write f = Fn_ipc_write)"

lemma no_channel_keeps:
  assumes eq: "no_channel s' = no_channel s"
  shows "task_heap s' = task_heap s" "ctx_heap s' = ctx_heap s" "curr_running_task s' = curr_running_task s" "file_heap s' = file_heap s"
    "file_list_head s' = file_list_head s" "no_channel (no_proc s') = no_channel (no_proc s)"
proof -
  note k = arg_cong [OF eq]
  show "task_heap s' = task_heap s" using k [of task_heap] by (simp add: no_channel_def)
  show "ctx_heap s' = ctx_heap s" using k [of ctx_heap] by (simp add: no_channel_def)
  show "curr_running_task s' = curr_running_task s" using k [of curr_running_task] by (simp add: no_channel_def)
  show "file_heap s' = file_heap s" using k [of file_heap] by (simp add: no_channel_def)
  show "file_list_head s' = file_list_head s" using k [of file_list_head] by (simp add: no_channel_def)
  have "no_channel (no_proc u) = no_proc (no_channel u)" for u by (simp add: no_channel_def no_proc_def no_user_def)
  then show "no_channel (no_proc s') = no_channel (no_proc s)" using k [of no_proc] by simp
qed

lemma ipc_holds_cong:
  assumes "ipc_holds s xs" and "ipc_q s' = ipc_q s" and "\<forall>x. chan s x \<longrightarrow> bytes s' x = bytes s x"
  shows "ipc_holds s' xs"
  using assms queue_rel_frame [of "ipc_q s" s xs s'] by (simp add: ipc_holds_def chan_def ipc_cap_def)

text \<open>What a call on the channel leaves alone.\<close>

definition channel_io :: "uframe \<Rightarrow> (addr \<Rightarrow> bool) \<Rightarrow> kstate \<Rightarrow> kstate \<Rightarrow> bool" where
  "channel_io u W s s' \<longleftrightarrow> uart_tx s' = uart_tx s \<and> no_channel (no_proc s') = no_channel (no_proc s) \<and> task_heap s' = task_heap s
     \<and> dom (ctx_heap s) \<subseteq> dom (ctx_heap s') \<and> ipc_place s' = ipc_place s \<and> curr_running_task s' = curr_running_task s \<and> file_heap s' = file_heap s \<and> file_list_head s' = file_list_head s
     \<and> (\<forall>x. \<not> in_range (u_args u) 12 x \<and> \<not> chan s x \<and> \<not> W x \<longrightarrow> bytes s' x = bytes s x)"

lemma user_ok_channel: "user_ok u fs s \<Longrightarrow> channel_io u W s s' \<Longrightarrow> user_ok u fs s'"
  by (simp add: user_ok_def channel_io_def console_ok_def current_def)

text \<open>The common part of a read and a write: from the state the handler leaves to the caller.\<close>

lemma channel_call:
  assumes ok: "user_ok u fs s" and m: "\<forall>x. \<not> in_range (u_args u) 12 x \<longrightarrow> m x = bytes s x"
    and h: "syscall_table ! unat n = plain h" "unat n < 20"
    and c: "c = called n (u_sp u) (u_args u) (s\<lparr>bytes := m\<rparr>)"
    and v: "no_channel v = no_channel c" "uart_tx v = uart_tx s" "ipc_place v = ipc_place s"
      "\<forall>x. \<not> chan s x \<and> \<not> W x \<longrightarrow> bytes v x = m x"
    and run: "h (u_sp u - 56) (u_args u) c = set_r0 (u_sp u - 56) r v"
  shows "\<exists>s'. svc n (u_sp u) (u_args u) (s\<lparr>bytes := m\<rparr>) = Some (r, s') \<and> channel_io u W s s' \<and> bytes s' = bytes v \<and> ipc_q s' = ipc_q v"
proof -
  obtain t where t: "current s = Some t" "openfiles t = fs" "curr_running_task s \<noteq> NULL"
    "task_heap s (curr_running_task s) = Some t" "u_sp u - 56 \<noteq> NULL" "valid_range (u_args u) 12"
    using user_ok_task [OF ok] .
  note kv = no_channel_keeps [OF v(1)]
  have ctx: "ctx_heap v (u_sp u - 56) = Some (zero_ctx\<lparr>c_r2 := u_args u, c_r0 := n\<rparr>)" using kv(2) by (simp add: c)
  define w where "w = v\<lparr>ctx_heap := (ctx_heap v)(u_sp u - 56 \<mapsto> zero_ctx\<lparr>c_r2 := u_args u, c_r0 := r\<rparr>)\<rparr>"
  have hw: "h (u_sp u - 56) (u_args u) c = Some w" using run ctx t(5) by (simp add: set_r0_def upd_objs w_def)
  have cur: "current w = Some t" using t(3,4) kv by (simp add: current_def deref_def w_def c)
  have s': "svc n (u_sp u) (u_args u) (s\<lparr>bytes := m\<rparr>) = Some (r, switch_mm (pgtbase t) w)"
    using svc_run [where h = h, OF h(2,1) t(5) hw [unfolded c] cur] by (simp add: w_def)
  have "no_proc (s\<lparr>bytes := m\<rparr>) = no_proc s" by (simp add: no_proc_def)
  moreover have "dom (ctx_heap s) \<subseteq> dom (ctx_heap w)" using kv(2) by (auto simp: w_def c)
  ultimately have "channel_io u W s (switch_mm (pgtbase t) w)" using m v kv by (simp add: channel_io_def w_def c ipc_place_def)
  then show ?thesis using s' by (intro exI [of _ "switch_mm (pgtbase t) w"]) (simp add: w_def)
qed

lemma args_holds:
  assumes "ipc_holds s xs" and "\<forall>x. in_range (u_args u) 12 x \<longrightarrow> \<not> chan s x" and "\<forall>x. \<not> in_range (u_args u) 12 x \<longrightarrow> m x = bytes s x"
  shows "ipc_holds (called n (u_sp u) arg (s\<lparr>bytes := m\<rparr>)) xs"
  using assms by (intro ipc_holds_cong [OF assms(1)]) auto

lemma length_mem_at: "length (mem_at p n s) = n"
  by (simp add: mem_at_def)

lemma u_write_ipc:
  assumes ok: "user_ok u fs s" and fl: "fs ! i = p" "i < 8" "ipc_file p s"
    and chan: "ipc_holds s xs" "length xs + unat n \<le> ipc_cap s" "user_range buf (unat n) s"
    and apart: "\<forall>x. in_range (u_args u) 12 x \<longrightarrow> \<not> chan s x" "\<forall>x. in_range buf (unat n) x \<longrightarrow> \<not> in_range (u_args u) 12 x"
  shows "\<exists>s'. u_write u (of_nat i) buf n s = Some (0, s') \<and> channel_io u (\<lambda>_. False) s s' \<and> ipc_holds s' (xs @ mem_at buf (unat n) s)"
proof -
  obtain t where t: "current s = Some t" "openfiles t = fs" "curr_running_task s \<noteq> NULL"
    "task_heap s (curr_running_task s) = Some t" "u_sp u - 56 \<noteq> NULL" "valid_range (u_args u) 12"
    using user_ok_task [OF ok] .
  obtain f where f: "file_heap s p = Some f" "file_write f = Fn_ipc_write" "p \<noteq> NULL" using fl(3) by (auto simp: ipc_file_def)
  have i: "unat (of_nat i :: u32) = i" using fl(2) by (simp add: unat_of_nat32)
  obtain m where m: "rdwr_args u (of_nat i) buf n s = Some (s\<lparr>bytes := m\<rparr>)" "\<forall>x. \<not> in_range (u_args u) 12 x \<longrightarrow> m x = bytes s x"
    "\<forall>t. bytes t = m \<longrightarrow> load32 (u_args u) t = Some (of_nat i) \<and> load32 (u_args u + 4) t = Some buf \<and> load32 (u_args u + 8) t = Some n"
    using rdwr_args_ok [OF t(6)] by blast
  define c where "c = called 10 (u_sp u) (u_args u) (s\<lparr>bytes := m\<rparr>)"
  have cq: "ipc_cap c = ipc_cap s" "user_range buf (unat n) c" "ipc_place c = ipc_place s" "uart_tx c = uart_tx s" "bytes c = m" "ipc_q c = ipc_q s"
    using chan(3) by (simp_all add: c_def ipc_cap_def user_range_def ipc_place_def)
  have "mem_at buf (unat n) c = mem_at buf (unat n) s"
    using chan(3) apart(2) m(2) cq(5) by (intro mem_at_cong) (simp_all add: user_range_def)
  moreover have hc: "ipc_holds c xs" unfolding c_def by (rule args_holds [OF chan(1) apart(1) m(2)])
  ultimately obtain v where v: "ipc_write_loop (unat n) buf c = Some (0, v)" "ipc_holds v (xs @ mem_at buf (unat n) s)" "ipc_place v = ipc_place s"
    "\<forall>a. \<not> in_range (q_data (ipc_q c)) (ipc_cap c) a \<longrightarrow> bytes v a = bytes c a"
    using ipc_write_loop_ok [OF hc, of buf "unat n"] cq chan(2) by (auto simp: length_mem_at)
  have fr: "no_channel v = no_channel c" "uart_tx v = uart_tx s" using ipc_write_frame [OF v(1)] cq by simp_all
  have "write_handler (u_sp u - 56) (u_args u) c = set_r0 (u_sp u - 56) 0 v"
    using m(3) [rule_format, of c] t f fl(1,2) i v(1)
    by (simp add: write_handler_def open_file_def current_def c_def deref_def ipc_write_func_def)
  then obtain s' where "svc 10 (u_sp u) (u_args u) (s\<lparr>bytes := m\<rparr>) = Some (0, s')" "channel_io u (\<lambda>_. False) s s'" "bytes s' = bytes v" "ipc_q s' = ipc_q v"
    using channel_call [OF ok m(2) _ _ c_def fr v(3), of write_handler "\<lambda>_. False" 0] v(4) cq
    by (auto simp: syscall_table_def chan_def)
  then show ?thesis using m(1) v(2) ipc_holds_cong [OF v(2), of s'] by (auto simp: u_write_def)
qed

lemma u_read_ipc:
  assumes ok: "user_ok u fs s" and fl: "fs ! i = p" "i < 8" "ipc_file p s"
    and chan: "ipc_holds s xs" "length xs = unat n" "user_range buf (unat n) s"
    and apart: "\<forall>x. in_range (u_args u) 12 x \<longrightarrow> \<not> chan s x" "\<forall>x. in_range buf (unat n) x \<longrightarrow> \<not> in_range (u_args u) 12 x"
  shows "\<exists>s'. u_read u (of_nat i) buf n s = Some (n, s') \<and> channel_io u (in_range buf (unat n)) s s' \<and> ipc_holds s' [] \<and> mem_at buf (unat n) s' = xs"
proof -
  obtain t where t: "current s = Some t" "openfiles t = fs" "curr_running_task s \<noteq> NULL"
    "task_heap s (curr_running_task s) = Some t" "u_sp u - 56 \<noteq> NULL" "valid_range (u_args u) 12"
    using user_ok_task [OF ok] .
  obtain f where f: "file_heap s p = Some f" "file_read f = Fn_ipc_read" "p \<noteq> NULL" using fl(3) by (auto simp: ipc_file_def)
  have i: "unat (of_nat i :: u32) = i" using fl(2) by (simp add: unat_of_nat32)
  obtain m where m: "rdwr_args u (of_nat i) buf n s = Some (s\<lparr>bytes := m\<rparr>)" "\<forall>x. \<not> in_range (u_args u) 12 x \<longrightarrow> m x = bytes s x"
    "\<forall>t. bytes t = m \<longrightarrow> load32 (u_args u) t = Some (of_nat i) \<and> load32 (u_args u + 4) t = Some buf \<and> load32 (u_args u + 8) t = Some n"
    using rdwr_args_ok [OF t(6)] by blast
  define c where "c = called 11 (u_sp u) (u_args u) (s\<lparr>bytes := m\<rparr>)"
  have cq: "ipc_cap c = ipc_cap s" "user_range buf (unat n) c" "ipc_place c = ipc_place s" "uart_tx c = uart_tx s" "bytes c = m" "ipc_q c = ipc_q s"
    using chan(3) by (simp_all add: c_def ipc_cap_def user_range_def ipc_place_def)
  have hc: "ipc_holds c xs" unfolding c_def by (rule args_holds [OF chan(1) apart(1) m(2)])
  then have qn: "int (unat n) \<le> q_n_data (ipc_q c)" using chan(2) by (simp add: ipc_holds_def queue_rel_def)
  obtain v where v: "ipc_read_loop (unat n) buf 0 c = Some (n, v)" "ipc_holds v []" "mem_at buf (unat n) v = xs" "ipc_place v = ipc_place s"
    "\<forall>a. \<not> in_range (q_data (ipc_q c)) (ipc_cap c) a \<and> \<not> in_range buf (unat n) a \<longrightarrow> bytes v a = bytes c a"
    using ipc_read_loop_ok [OF hc, of buf "unat n" 0] cq chan(2) by auto
  have fr: "no_channel v = no_channel c" "uart_tx v = uart_tx s" using ipc_read_frame [OF v(1)] cq qn by simp_all
  have "read_handler (u_sp u - 56) (u_args u) c = set_r0 (u_sp u - 56) n v"
    using m(3) [rule_format, of c] t f fl(1,2) i v(1)
    by (simp add: read_handler_def open_file_def current_def c_def deref_def ipc_read_func_def)
  then obtain s' where s': "svc 11 (u_sp u) (u_args u) (s\<lparr>bytes := m\<rparr>) = Some (n, s')" "channel_io u (in_range buf (unat n)) s s'"
    "bytes s' = bytes v" "ipc_q s' = ipc_q v"
    using channel_call [OF ok m(2) _ _ c_def fr v(4), of read_handler "in_range buf (unat n)" n] v(5) cq
    by (auto simp: syscall_table_def chan_def)
  have "ipc_holds s' []" "mem_at buf (unat n) s' = xs" using ipc_holds_cong [OF v(2), of s'] v(3) s'(3,4) by (simp_all add: mem_at_def)
  then show ?thesis using m(1) s'(1,2) by (auto simp: u_read_def)
qed

section \<open>Ticks\<close>

text \<open>What the scheduler does not touch.\<close>

definition same_io :: "kstate \<Rightarrow> kstate \<Rightarrow> bool" where
  "same_io s s' \<longleftrightarrow> bytes s' = bytes s \<and> file_heap s' = file_heap s \<and> file_list_head s' = file_list_head s \<and> ipc_q s' = ipc_q s
     \<and> links openfiles (task_heap s') = links openfiles (task_heap s)"

lemma same_io_trans: "same_io s t \<Longrightarrow> same_io t v \<Longrightarrow> same_io s v"
  by (simp add: same_io_def)

lemma upd_task_io:
  assumes "upd_task p f s = Some s'" and "\<And>t. openfiles (f t) = openfiles t"
  shows "same_io s s'"
proof -
  obtain v where "task_heap s p = Some v" "s' = s\<lparr>task_heap := (task_heap s)(p \<mapsto> f v)\<rparr>"
    using assms(1) by (auto simp: upd_task_def upd_def deref_def split: if_splits)
  then show ?thesis using assms(2) by (simp add: same_io_def fun_upd_idem)
qed

lemma set_ready_head_io: "set_ready_head pr p s = Some s' \<Longrightarrow> same_io s s'"
  by (auto simp: set_ready_head_def same_io_def split: if_splits)

lemma task_dequeue_io: "task_dequeue pr s = Some (p, s') \<Longrightarrow> same_io s s'"
  unfolding task_dequeue_def
  by (auto simp: bind_eq_Some_conv same_io_def printk_def fold_print_char split: if_splits dest!: set_ready_head_io upd_task_io)

lemma task_enqueue_io: "task_enqueue p s = Some s' \<Longrightarrow> same_io s s'"
  unfolding task_enqueue_def
  by (auto simp: bind_eq_Some_conv same_io_def split: if_splits dest!: set_ready_head_io upd_task_io)

lemma choose_loop_io: "choose_loop is s = Some (p, s') \<Longrightarrow> same_io s s'"
proof (induction "is" arbitrary: s)
  case (Cons i js)
  show ?case
  proof (cases "choose_loop js s = Some (p, s')")
    case False
    then obtain q t v where "task_dequeue (of_nat i) s = Some (q, t)" "upd_task p (\<lambda>t. t\<lparr>task_status := TASK_RUNNING\<rparr>) t = Some v"
      "task_enqueue p v = Some s'"
      using Cons.prems by (auto simp: bind_eq_Some_conv split: if_splits)
    note steps = this
    have "same_io t v" by (rule upd_task_io [OF steps(2)]) simp
    then show ?thesis using same_io_trans task_dequeue_io [OF steps(1)] task_enqueue_io [OF steps(3)] by blast
  qed (rule Cons.IH)
qed simp

lemma sched_io: "sched s = Some (s', c) \<Longrightarrow> same_io s s'"
  by (auto simp: sched_def bind_eq_Some_conv choose_task_def Let_def same_io_def reload_ostick_def wr32_def dest!: choose_loop_io)

lemma timer0_isr_io: "timer0_isr c s = Some (s', k) \<Longrightarrow> same_io s s'"
  by (auto simp: timer0_isr_def bind_eq_Some_conv Let_def same_io_def toggle_usrled_def wr32_def wr8_def set_sched_context_def
      call_sched_def run_first_sched_def split: sched_fn.splits dest!: sched_io upd_task_io)

section \<open>A message through the channel\<close>

definition proc_io :: "(addr \<Rightarrow> bool) \<Rightarrow> kstate \<Rightarrow> kstate \<Rightarrow> bool" where
  "proc_io W s s' \<longleftrightarrow> no_channel (no_proc s') = no_channel (no_proc s) \<and> ipc_place s' = ipc_place s
     \<and> curr_running_task s' = curr_running_task s \<and> file_heap s' = file_heap s \<and> file_list_head s' = file_list_head s
     \<and> (\<forall>x. x \<noteq> curr_running_task s \<longrightarrow> task_heap s' x = task_heap s x)
     \<and> links (openfiles_update (\<lambda>_. [])) (task_heap s') = links (openfiles_update (\<lambda>_. [])) (task_heap s)
     \<and> dom (ctx_heap s) \<subseteq> dom (ctx_heap s')
     \<and> (\<forall>x. \<not> W x \<and> \<not> chan s x \<longrightarrow> bytes s' x = bytes s x)"

lemma chan_place: "ipc_place s' = ipc_place s \<Longrightarrow> chan s' = chan s"
  by (simp add: chan_def ipc_place_def ipc_cap_def fun_eq_iff)

lemma proc_io_runs: "runs W out s s' \<Longrightarrow> proc_io W s s'"
  using no_proc_keeps [of s' s] by (simp add: runs_def proc_io_def ipc_place_def)

lemma proc_io_channel: "channel_io u V s s' \<Longrightarrow> \<forall>x. in_range (u_args u) 12 x \<or> V x \<longrightarrow> W x \<Longrightarrow> proc_io W s s'"
  by (auto simp: channel_io_def proc_io_def)

lemma proc_io_trans: "proc_io W s t \<Longrightarrow> proc_io W t v \<Longrightarrow> proc_io W s v"
  using chan_place [of t s] subset_trans [of "dom (ctx_heap s)" "dom (ctx_heap t)" "dom (ctx_heap v)"] by (simp add: proc_io_def)

lemma proc_io_mono: "proc_io W s s' \<Longrightarrow> \<forall>x. W x \<longrightarrow> V x \<Longrightarrow> proc_io V s s'"
  by (auto simp: proc_io_def)

definition hello :: "u8 list" where
  "hello = map byte_of (''Hello Message'' @ crlf) @ [0, 0]"

lemma length_hello: "length hello = 17"
  by (simp add: hello_def)

text \<open>The two string constants, in RAM outside the channel.\<close>

definition image_ok :: "image \<Rightarrow> kstate \<Rightarrow> bool" where
  "image_ok im s \<longleftrightarrow> valid_range (str_IPC0 im) 6 \<and> str_at (Ram (str_IPC0 im)) ''/ipc0'' s \<and> (\<forall>x. in_range (str_IPC0 im) 6 x \<longrightarrow> \<not> chan s x)
     \<and> user_range (str_ipc_text im) 17 s \<and> mem_at (str_ipc_text im) 17 s = hello"

definition const_at :: "image \<Rightarrow> addr \<Rightarrow> bool" where
  "const_at im x \<longleftrightarrow> in_range (str_IPC0 im) 6 x \<or> in_range (str_ipc_text im) 17 x"

lemma str_keep:
  assumes "valid_range a (Suc (length t))" and "str_at (Ram a) t s" and "\<forall>x. in_range a (Suc (length t)) x \<longrightarrow> bytes s' x = bytes s x"
  shows "str_at (Ram a) t s'"
proof -
  have "bytes s' (a + of_nat i) = bytes s (a + of_nat i)" if "i \<le> length t" for i
    using assms(3) valid_range_at(3) [OF assms(1), of i] that by simp
  then show ?thesis using assms(2) unfolding str_at_Ram [OF assms(1)] by simp
qed

lemma image_ok_io:
  assumes im: "image_ok im s" and io: "proc_io W s s'" and out: "\<forall>x. W x \<longrightarrow> \<not> const_at im x"
  shows "image_ok im s'"
proof -
  have pl: "ipc_place s' = ipc_place s" using io by (simp add: proc_io_def)
  have c: "\<not> chan s x" if "const_at im x" for x
    using im that unfolding image_ok_def const_at_def user_range_def chan_def by blast
  have b: "bytes s' x = bytes s x" if "const_at im x" for x using io out c [OF that] that unfolding proc_io_def by blast
  have r: "valid_range (str_IPC0 im) 6" "str_at (Ram (str_IPC0 im)) ''/ipc0'' s" "\<forall>x. in_range (str_IPC0 im) 6 x \<longrightarrow> \<not> chan s x"
    "user_range (str_ipc_text im) 17 s" "mem_at (str_ipc_text im) 17 s = hello" "valid_range (str_ipc_text im) 17"
    using im by (simp_all add: image_ok_def user_range_def)
  have "Suc (length ''/ipc0'') = 6" by simp
  then have "str_at (Ram (str_IPC0 im)) ''/ipc0'' s'"
    using str_keep [of "str_IPC0 im" "''/ipc0''" s s'] r(1,2) b by (auto simp only: const_at_def)
  moreover have "mem_at (str_ipc_text im) 17 s' = mem_at (str_ipc_text im) 17 s"
    by (rule mem_at_cong [OF r(6)]) (simp add: b const_at_def)
  moreover have "user_range (str_ipc_text im) 17 s' = user_range (str_ipc_text im) 17 s" using ipc_place_eq [OF pl] by blast
  ultimately show ?thesis unfolding image_ok_def chan_place [OF pl] using r by simp
qed

text \<open>What a task needs to use the channel: its console, the file's name and a free descriptor, \<open>i\<close>.\<close>

definition channel_user :: "image \<Rightarrow> uframe \<Rightarrow> addr list \<Rightarrow> nat \<Rightarrow> addr \<Rightarrow> kstate \<Rightarrow> bool" where
  "channel_user im u fs i p s \<longleftrightarrow> user_ok u fs s \<and> image_ok im s \<and> length fs = 8 \<and> free_fd fs [0..<8] = int i \<and> fs ! i = NULL
     \<and> finds ''/ipc0'' p s \<and> ipc_file p s \<and> (\<forall>x. frame_of u x \<longrightarrow> \<not> chan s x \<and> \<not> const_at im x)"

lemma ipc_file_cong: "file_heap s' = file_heap s \<Longrightarrow> ipc_file p s' \<longleftrightarrow> ipc_file p s"
  by (simp add: ipc_file_def)

lemma uprint_fd:
  "uprint (cstr (''tid=%d '' @ crlf)) [v] = Some (''tid='' @ num_text 10 (unat v) @ '' '' @ crlf)"
  "uprint (cstr (''Successfully open ipc0 ,fd =%d'' @ crlf)) [v] = Some (''Successfully open ipc0 ,fd ='' @ num_text 10 (unat v) @ crlf)"
  "uprint (cstr (''Successfully open ,fd =%d'' @ crlf)) [v] = Some (''Successfully open ,fd ='' @ num_text 10 (unat v) @ crlf)"
  by (simp_all add: cstr_def)

lemma small_fd: "i < 8 \<Longrightarrow> unat (of_nat i :: u32) = i \<and> \<not> sint (of_nat i :: u32) < 0"
  by (simp add: unat_of_nat32 signed_of_nat signed_take_bit_int_eq_self)

lemma channel_user_runs:
  assumes cu: "channel_user im u fs i p s" and run: "runs (frame_of u) out s s'" and ok: "user_ok u fs s'"
  shows "channel_user im u fs i p s'"
proof -
  note io = proc_io_runs [OF run]
  have f: "file_heap s' = file_heap s" "file_list_head s' = file_list_head s" "ipc_place s' = ipc_place s"
    using io by (simp_all add: proc_io_def)
  have "image_ok im s'" using image_ok_io [OF _ io] cu by (auto simp: channel_user_def)
  then show ?thesis using cu ok finds_cong [OF f(1,2)] ipc_file_cong [OF f(1)] chan_place [OF f(3)]
    by (simp add: channel_user_def)
qed

lemma holds_runs:
  assumes "channel_user im u fs i p s" and "runs (frame_of u) out s s'" and "ipc_holds s xs"
  shows "ipc_holds s' xs"
  using assms ipc_holds_cong [OF assms(3), of s'] runs_keeps(4,5) [OF assms(2)] by (auto simp: channel_user_def)

text \<open>One printing step of a task that uses the channel.\<close>

lemma channel_say:
  assumes cu: "channel_user im u fs i p s" and out: "uprint fmt args = Some out" and xs: "ipc_holds s xs"
  shows "\<exists>s'. uprintf u fmt args s = Some s' \<and> runs (frame_of u) out s s' \<and> channel_user im u fs i p s' \<and> ipc_holds s' xs"
proof -
  have "user_ok u fs s" using cu by (simp add: channel_user_def)
  then obtain s' where "uprintf u fmt args s = Some s'" "runs (frame_of u) out s s'" "user_ok u fs s'"
    using uprintf_ok [OF _ out] by blast
  then show ?thesis using channel_user_runs [OF cu] holds_runs [OF cu _ xs] by blast
qed

lemma channel_open:
  assumes cu: "channel_user im u fs i p s" and xs: "ipc_holds s xs"
  shows "\<exists>s'. u_open u (str_IPC0 im) s = Some (of_nat i, s') \<and> runs (frame_of u) [] s s' \<and> user_ok u (fs[i := p]) s'
    \<and> ipc_holds s' xs \<and> image_ok im s' \<and> ipc_file p s' \<and> 2 < i \<and> i < 8"
proof -
  have c: "user_ok u fs s" "str_at (Ram (str_IPC0 im)) ''/ipc0'' s" "finds ''/ipc0'' p s" "free_fd fs [0..<8] = int i"
    using cu by (simp_all add: channel_user_def image_ok_def)
  obtain s' where s': "u_open u (str_IPC0 im) s = Some (of_nat i, s')" "runs (frame_of u) [] s s'" "user_ok u (fs[i := p]) s'" "2 < i" "i < 8"
    using u_open_ok [OF c, of "frame_of u"] by blast
  have io: "proc_io (frame_of u) s s'" by (rule proc_io_runs [OF s'(2)])
  have "image_ok im s'" using image_ok_io [OF _ io] cu by (auto simp: channel_user_def)
  moreover have "ipc_file p s'" using ipc_file_cong [of s' s p] io cu by (simp add: proc_io_def channel_user_def)
  ultimately show ?thesis using s' holds_runs [OF cu s'(2) xs] by blast
qed

lemma printed:
  assumes "runs W o1 s t" and "runs W o2 t v"
  shows "uart_tx v = uart_tx s @ o1 @ o2"
  using assms by (simp add: runs_def)

lemma ipc0_send_ok:
  assumes cu: "channel_user im u fs i p s" and t: "current s = Some t" and q: "ipc_holds s []" "17 \<le> ipc_cap s"
  shows "\<exists>s'. ipc0_send im u s = Some s' \<and> proc_io (frame_of u) s s' \<and> user_ok u fs s' \<and> ipc_holds s' hello
    \<and> uart_tx s' = uart_tx s @ ''Test ipc0.'' @ crlf @ ''tid='' @ num_text 10 (unat (task_id t)) @ '' '' @ crlf
        @ ''Successfully open ipc0 ,fd ='' @ num_text 10 i @ crlf @ ''Send :Hello Message'' @ crlf"
proof -
  let ?W = "frame_of u"
  obtain s1 where s1: "uprintf u (cstr (''Test ipc0.'' @ crlf)) [] s = Some s1" "runs ?W (''Test ipc0.'' @ crlf) s s1"
    "channel_user im u fs i p s1" "ipc_holds s1 []"
    using channel_say [OF cu _ q(1), of "cstr (''Test ipc0.'' @ crlf)" "[]" "''Test ipc0.'' @ crlf"]
      uprint_text [of "''Test ipc0.'' @ crlf" "[NUL]" "[]"] by (auto simp: cstr_def)
  have "map_option task_id (current s1) = Some (task_id t)" by (rule runs_field [OF s1(2) t]) simp
  then obtain t1 where t1: "current s1 = Some t1" "task_id t1 = task_id t" by auto
  have ok1: "user_ok u fs s1" using s1(3) by (simp add: channel_user_def)
  obtain s2 where s2: "u_gettid u s1 = Some (task_id t, s2)" "runs ?W [] s1 s2" "user_ok u fs s2"
    using u_gettid_ok [OF ok1 t1(1), of ?W] t1(2) by auto
  note c2 = channel_user_runs [OF s1(3) s2(2,3)] and h2 = holds_runs [OF s1(3) s2(2) s1(4)]
  obtain s3 where s3: "uprintf u (cstr (''tid=%d '' @ crlf)) [task_id t] s2 = Some s3"
    "runs ?W (''tid='' @ num_text 10 (unat (task_id t)) @ '' '' @ crlf) s2 s3" "channel_user im u fs i p s3" "ipc_holds s3 []"
    using channel_say [OF c2 uprint_fd(1) h2] by blast
  obtain s4 where s4: "u_open u (str_IPC0 im) s3 = Some (of_nat i, s4)" "runs ?W [] s3 s4" "user_ok u (fs[i := p]) s4"
    "ipc_holds s4 []" "image_ok im s4" "ipc_file p s4" "2 < i" "i < 8"
    using channel_open [OF s3(3,4)] by blast
  note i = small_fd [OF s4(8)]
  obtain s5 where s5: "uprintf u (cstr (''Successfully open ipc0 ,fd =%d'' @ crlf)) [of_nat i] s4 = Some s5"
    "runs ?W (''Successfully open ipc0 ,fd ='' @ num_text 10 i @ crlf) s4 s5" "user_ok u (fs[i := p]) s5"
    using uprintf_ok [OF s4(3) uprint_fd(2), of "of_nat i"] i by auto
  obtain s6 where s6: "put_str u (lit (''Send :Hello Message'' @ crlf)) s5 = Some s6"
    "runs ?W (''Send :Hello Message'' @ crlf) s5 s6" "user_ok u (fs[i := p]) s6"
    using put_str_run [OF s5(3), of "lit (''Send :Hello Message'' @ crlf)" "''Send :Hello Message'' @ crlf"] by (auto simp: lit_def)
  have r: "runs ?W (''Test ipc0.'' @ crlf @ ''tid='' @ num_text 10 (unat (task_id t)) @ '' '' @ crlf
        @ ''Successfully open ipc0 ,fd ='' @ num_text 10 i @ crlf @ ''Send :Hello Message'' @ crlf) s s6"
    using runs_trans [OF s1(2) runs_trans [OF s2(2) runs_trans [OF s3(2) runs_trans [OF s4(2) runs_trans [OF s5(2) s6(2)]]]]] by simp
  note io6 = proc_io_runs [OF r]
  have same6: "image_ok im s6" "ipc_holds s6 []" "ipc_file p s6" "chan s6 = chan s" "ipc_cap s6 = ipc_cap s"
    using image_ok_io [OF _ io6] holds_runs [OF cu r q(1)] ipc_file_cong [of s6 s p] io6 cu chan_place [of s6 s] ipc_place_eq [of s6 s]
    by (auto simp: channel_user_def proc_io_def)
  have apart: "\<forall>x. frame_of u x \<longrightarrow> \<not> chan s6 x \<and> \<not> const_at im x" using cu same6(4) by (simp add: channel_user_def)
  have msg: "user_range (str_ipc_text im) 17 s6" "mem_at (str_ipc_text im) 17 s6 = hello" using same6(1) by (simp_all add: image_ok_def)
  have fsi: "fs[i := p] ! i = p" using cu s4(8) by (simp add: channel_user_def)
  obtain s7 where s7: "u_write u (of_nat i) (str_ipc_text im) 17 s6 = Some (0, s7)" "channel_io u (\<lambda>_. False) s6 s7"
    "ipc_holds s7 hello"
    using u_write_ipc [OF s6(3) fsi s4(8) same6(3,2), of 17 "str_ipc_text im"] q(2) same6(5) msg apart
    by (auto simp: frame_of_def const_at_def)
  note ok7 = user_ok_channel [OF s6(3) s7(2)]
  obtain x s8 where s8: "u_close u (of_nat i) s7 = Some (x, s8)" "runs ?W [] s7 s8" "user_ok u (fs[i := p, i := NULL]) s8"
    using u_close_ok [OF ok7 s4(7,8), of ?W] by blast
  have "fs[i := p, i := NULL] = fs" using cu list_update_id [of fs i] by (simp add: channel_user_def)
  then have ok8: "user_ok u fs s8" using s8(3) by simp
  have io7: "proc_io ?W s6 s7" by (rule proc_io_channel [OF s7(2)]) (simp add: frame_of_def)
  have h8: "ipc_holds s8 hello"
    using ipc_holds_cong [OF s7(3), of s8] runs_keeps(4,5) [OF s8(2)] apart chan_place [of s7 s6] io7 by (auto simp: proc_io_def)
  have "ipc0_send im u s = Some s8"
    using s1(1) s2(1) s3(1) s4(1) i s5(1) s6(1) s7(1) s8(1) by (simp add: ipc0_send_def)
  moreover have "proc_io ?W s s8" using io6 io7 proc_io_runs [OF s8(2)] proc_io_trans by blast
  moreover have "uart_tx s8 = uart_tx s6" using s7(2) s8(2) by (simp add: channel_io_def runs_def)
  ultimately show ?thesis using ok8 h8 r by (intro exI [of _ s8]) (simp add: runs_def)
qed

lemma ipc_receive_ok:
  assumes cu: "channel_user im u fs i p s" and q: "ipc_holds s hello" and buf: "user_range rbuf 32 s"
    and apart: "\<forall>x. in_range rbuf 32 x \<longrightarrow> \<not> frame_of u x"
  shows "\<exists>s'. ipc_receive im u rbuf s = Some s' \<and> user_ok u fs s' \<and> ipc_holds s' []
    \<and> uart_tx s' = uart_tx s @ ''Successfully open ,fd ='' @ num_text 10 i @ crlf @ ''Get :Hello Message'' @ crlf"
proof -
  let ?W = "frame_of u" and ?B = "in_range rbuf 32" and ?txt = "''Hello Message'' @ crlf"
  obtain s1 where s1: "u_open u (str_IPC0 im) s = Some (of_nat i, s1)" "runs ?W [] s s1" "user_ok u (fs[i := p]) s1"
    "ipc_holds s1 hello" "image_ok im s1" "ipc_file p s1" "2 < i" "i < 8"
    using channel_open [OF cu q] by blast
  note i = small_fd [OF s1(8)]
  obtain s2 where s2: "uprintf u (cstr (''Successfully open ,fd =%d'' @ crlf)) [of_nat i] s1 = Some s2"
    "runs ?W (''Successfully open ,fd ='' @ num_text 10 i @ crlf) s1 s2" "user_ok u (fs[i := p]) s2"
    using uprintf_ok [OF s1(3) uprint_fd(3), of "of_nat i"] i by auto
  have r2: "runs ?W (''Successfully open ,fd ='' @ num_text 10 i @ crlf) s s2" using runs_trans [OF s1(2) s2(2)] by simp
  note io2 = proc_io_runs [OF r2]
  have pl2: "chan s2 = chan s" "user_range rbuf 32 s2" "ipc_file p s2"
    using io2 chan_place [of s2 s] ipc_place_eq [of s2 s] buf ipc_file_cong [of s2 s p] cu by (auto simp: proc_io_def channel_user_def)
  have h2: "ipc_holds s2 hello" by (rule holds_runs [OF cu r2 q])
  have vb: "valid_range rbuf 32" "valid_range rbuf 17" using buf by (simp_all add: user_range_def valid_range_def)
  obtain m where m: "mem_set rbuf 0 32 s2 = Some (s2\<lparr>bytes := m\<rparr>)" "\<forall>a. \<not> ?B a \<longrightarrow> m a = bytes s2 a"
    using mem_set_ok [of rbuf 32 0 s2] vb(1) by auto
  let ?s3 = "s2\<lparr>bytes := m\<rparr>"
  have b: "\<not> chan s2 x" "\<not> frame_of u x" if "?B x" for x using that pl2(2) apart by (simp_all add: user_range_def chan_def)
  have io3: "user_io ?B [] 0 s2 ?s3" using m(2) by (simp add: user_io_def)
  note ok3 = user_ok_io [OF s2(3) io3]
  have h3: "ipc_holds ?s3 hello" using b m(2) by (intro ipc_holds_cong [OF h2]) auto
  have sub: "?B x" if "in_range rbuf (unat (17 :: u32)) x" for x using that by (simp add: in_range_def)
  have ur: "user_range rbuf (unat (17 :: u32)) ?s3"
    using pl2(2) vb(2) sub by (simp add: user_range_def ipc_cap_def)
  have chan3: "chan ?s3 = chan s" by (simp add: pl2(1) [symmetric] chan_def ipc_cap_def fun_eq_iff)
  have args: "\<forall>x. in_range (u_args u) 12 x \<longrightarrow> \<not> chan ?s3 x"
    using cu unfolding chan3 channel_user_def frame_of_def by blast
  have args': "\<forall>x. in_range rbuf (unat (17 :: u32)) x \<longrightarrow> \<not> in_range (u_args u) 12 x" using sub b(2) by (auto simp: frame_of_def)
  have fsi: "fs[i := p] ! i = p" and f3: "ipc_file p ?s3" using cu s1(8) pl2(3) by (simp_all add: channel_user_def ipc_file_def)
  obtain s4 where s4: "u_read u (of_nat i) rbuf 17 ?s3 = Some (17, s4)" "channel_io u (in_range rbuf (unat (17 :: u32))) ?s3 s4"
    "ipc_holds s4 []" "mem_at rbuf 17 s4 = hello"
    using u_read_ipc [OF ok3 fsi s1(8) f3 h3 _ ur args args'] length_hello by auto
  note ok4 = user_ok_channel [OF ok3 s4(2)]
  obtain s5 where s5: "put_str u (lit ''Get :'') s4 = Some s5" "runs ?W ''Get :'' s4 s5" "user_ok u (fs[i := p]) s5"
    using put_str_run [OF ok4, of "lit ''Get :''" "''Get :''"] by (auto simp: lit_def)
  have at5: "bytes s5 (rbuf + of_nat k) = hello ! k" if "k < 17" for k
  proof -
    have "bytes s5 (rbuf + of_nat k) = bytes s4 (rbuf + of_nat k)"
      using runs_keeps(5) [OF s5(2)] b(2) valid_range_at(3) [OF vb(1), of k] that by simp
    also have "\<dots> = mem_at rbuf 17 s4 ! k" using that by (simp add: mem_at_def)
    finally show ?thesis by (simp add: s4(4))
  qed
  have "hello ! k = byte_of (?txt ! k)" if "k < 15" for k
    using that nth_append [of "map byte_of ?txt" "[0, 0]" k] nth_map [of k ?txt byte_of] by (simp only: hello_def) simp
  moreover have "hello ! 15 = 0" by (simp add: hello_def)
  ultimately have str: "str_at (Ram rbuf) ?txt s5"
    using at5 at5 [of 15] vb by (subst str_at_Ram) (simp_all add: valid_range_def of_byte_0)
  have "\<forall>a k. Ram rbuf = Ram a \<and> k \<le> length ?txt \<longrightarrow> \<not> frame_of u (a + of_nat k)"
    using b(2) valid_range_at(3) [OF vb(1)] by simp
  then obtain s6 where s6: "put_str u (Ram rbuf) s5 = Some s6" "runs ?W ?txt s5 s6" "user_ok u (fs[i := p]) s6"
    using put_str_run [OF s5(3) str] by blast
  obtain x s7 where s7: "u_close u (of_nat i) s6 = Some (x, s7)" "runs ?W [] s6 s7" "user_ok u (fs[i := p, i := NULL]) s7"
    using u_close_ok [OF s6(3) s1(7,8), of ?W] by blast
  have "fs[i := p, i := NULL] = fs" using cu list_update_id [of fs i] by (simp add: channel_user_def)
  then have ok7: "user_ok u fs s7" using s7(3) by simp
  have "runs ?W (''Get :'' @ ?txt) s4 s7" using runs_trans [OF s5(2) runs_trans [OF s6(2) s7(2)]] by simp
  note r7 = this
  have "chan s4 = chan s" using chan_place [of s4 ?s3] s4(2) pl2(1) by (simp add: channel_io_def chan_def ipc_cap_def fun_eq_iff)
  then have h7: "ipc_holds s7 []"
    using ipc_holds_cong [OF s4(3), of s7] runs_keeps(4,5) [OF r7] cu by (auto simp: channel_user_def)
  have "ipc_receive im u rbuf s = Some s7"
    using s1(1) i s2(1) m(1) s4(1) s5(1) s6(1) s7(1) by (simp add: ipc_receive_def)
  moreover have "uart_tx s4 = uart_tx s2" using s4(2) by (simp add: channel_io_def)
  ultimately show ?thesis using ok7 h7 r2 r7 by (intro exI [of _ s7]) (simp add: runs_def)
qed

end
