(* ===== verification/Exits.thy ===== *)
theory Exits
  imports ProgramRuns
begin

text \<open>
  What \<^verbatim>\<open>__exit\<close> does to a program and what the next tick does then: the last task of its ready list
  leaves it, any other one stays and is picked again, although its page and its table are free.
\<close>

section \<open>Leaving\<close>

text \<open>The running task lives in page \<open>p\<close> and its table is the kernel block \<open>k\<close>.\<close>

definition owns :: "addr list \<Rightarrow> addr list \<Rightarrow> addr \<Rightarrow> addr list \<Rightarrow> addr list \<Rightarrow> nat \<Rightarrow> kstate \<Rightarrow> bool" where
  "owns fs as p ps ks k s \<longleftrightarrow> pages_ok s fs (as @ p # ps) \<and> as @ ps \<noteq> []
     \<and> inj_on (links pgstart (page_heap s)) (set (as @ p # ps))
     \<and> kblks_ok s ks \<and> ks \<noteq> [] \<and> kblk_array s \<and> k < 64 \<and> blk_at (kblk_list_base s) k \<notin> set ks
     \<and> (\<exists>v w. current s = Some v \<and> page_heap s p = Some w \<and> page_status w \<noteq> FREE
          \<and> pgstart w = ROUNDDOWN (stk_bottom v) PAGE_SIZE \<and> pgtbase v = block_start 0x82000000 KBLK_SIZE k)"

definition no_files_open :: "task_info \<Rightarrow> task_info" where
  "no_files_open = openfiles_update (\<lambda>_. [])"

lemma no_files_open_eq:
  assumes "no_files_open v = no_files_open w"
  shows "stk_bottom v = stk_bottom w" "pgtbase v = pgtbase w" "next_ptr v = next_ptr w" "prev_ptr v = prev_ptr w"
    "priority v = priority w" "task_status v = task_status w" "task_context_ptr v = task_context_ptr w"
proof -
  note k = arg_cong [OF assms]
  show "stk_bottom v = stk_bottom w" using k [of stk_bottom] by (simp add: no_files_open_def)
  show "pgtbase v = pgtbase w" using k [of pgtbase] by (simp add: no_files_open_def)
  show "next_ptr v = next_ptr w" using k [of next_ptr] by (simp add: no_files_open_def)
  show "prev_ptr v = prev_ptr w" using k [of prev_ptr] by (simp add: no_files_open_def)
  show "priority v = priority w" using k [of priority] by (simp add: no_files_open_def)
  show "task_status v = task_status w" using k [of task_status] by (simp add: no_files_open_def)
  show "task_context_ptr v = task_context_ptr w" using k [of task_context_ptr] by (simp add: no_files_open_def)
qed

lemma links_point:
  assumes "links f h' x = links f h x" and "\<And>v w. f v = f w \<Longrightarrow> g v = g w"
  shows "links g h' x = links g h x"
  using assms(1) by (cases "h' x"; cases "h x") (simp_all add: links_def, rule assms(2))

lemma proc_io_keeps:
  assumes io: "proc_io W s s'"
  shows "page_heap s' = page_heap s" "free_page_head s' = free_page_head s" "inuse_page_head s' = inuse_page_head s"
    "blk_heap s' = blk_heap s" "kpage s' = kpage s" "kblk_list_base s' = kblk_list_base s" "task_ready_list s' = task_ready_list s"
    "links no_files_open (task_heap s') = links no_files_open (task_heap s)" "curr_running_task s' = curr_running_task s"
proof -
  have eq: "no_channel (no_proc s') = no_channel (no_proc s)" using io unfolding proc_io_def by (elim conjE)
  note k = arg_cong [OF eq]
  show "page_heap s' = page_heap s" using k [of page_heap] by (simp add: no_channel_def no_proc_def no_user_def)
  show "free_page_head s' = free_page_head s" using k [of free_page_head] by (simp add: no_channel_def no_proc_def no_user_def)
  show "inuse_page_head s' = inuse_page_head s" using k [of inuse_page_head] by (simp add: no_channel_def no_proc_def no_user_def)
  show "blk_heap s' = blk_heap s" using k [of blk_heap] by (simp add: no_channel_def no_proc_def no_user_def)
  show "kpage s' = kpage s" using k [of kpage] by (simp add: no_channel_def no_proc_def no_user_def)
  show "kblk_list_base s' = kblk_list_base s" using k [of kblk_list_base] by (simp add: no_channel_def no_proc_def no_user_def)
  show "task_ready_list s' = task_ready_list s" using k [of task_ready_list] by (simp add: no_channel_def no_proc_def no_user_def)
  show "links no_files_open (task_heap s') = links no_files_open (task_heap s)"
    using io unfolding proc_io_def no_files_open_def by (elim conjE)
  show "curr_running_task s' = curr_running_task s" using io unfolding proc_io_def by (elim conjE)
qed

lemma rq_ok_open:
  assumes "rq_ok s qs" and "links no_files_open (task_heap s') = links no_files_open (task_heap s)"
    and "task_ready_list s' = task_ready_list s"
  shows "rq_ok s' qs"
proof -
  have "links next_ptr (task_heap s') = links next_ptr (task_heap s)" by (rule links_coarser [OF assms(2) no_files_open_eq(3)])
  moreover have "links prev_ptr (task_heap s') = links prev_ptr (task_heap s)" by (rule links_coarser [OF assms(2) no_files_open_eq(4)])
  moreover have "links priority (task_heap s') = links priority (task_heap s)" by (rule links_coarser [OF assms(2) no_files_open_eq(5)])
  ultimately show ?thesis using assms(1,3) by (simp add: rq_ok_def)
qed

lemma owns_io:
  assumes o: "owns fs as p ps ks k s" and io: "proc_io W s s'"
  shows "owns fs as p ps ks k s'"
proof -
  note keep = proc_io_keeps [OF io]
  obtain v w where v: "current s = Some v" "page_heap s p = Some w" "page_status w \<noteq> FREE"
      "pgstart w = ROUNDDOWN (stk_bottom v) PAGE_SIZE" "pgtbase v = block_start 0x82000000 KBLK_SIZE k"
    using o by (auto simp: owns_def)
  have cn: "curr_running_task s \<noteq> NULL" "task_heap s (curr_running_task s) = Some v"
    using v(1) by (auto simp: current_def deref_def split: if_splits)
  have "links no_files_open (task_heap s') (curr_running_task s) = Some (no_files_open v)"
    unfolding keep(8) using cn(2) by simp
  then obtain v' where v': "task_heap s' (curr_running_task s) = Some v'" "no_files_open v' = no_files_open v"
    by (auto dest: links_SomeD)
  have "current s' = Some v'" using v'(1) cn(1) keep(9) by (simp add: current_def deref_def)
  then show ?thesis using o v(2-5) no_files_open_eq(1,2) [OF v'(2)]
    by (simp add: owns_def pages_ok_def kblks_ok_def kblk_array_def keep)
qed

lemma no_exit_keeps:
  assumes eq: "no_exit s' = no_exit s"
  shows "bytes s' = bytes s" "file_heap s' = file_heap s" "file_list_head s' = file_list_head s" "ipc_q s' = ipc_q s"
    "ctx_heap s' = ctx_heap s" "curr_running_task s' = curr_running_task s" "sched_lr s' = sched_lr s"
proof -
  note k = arg_cong [OF eq]
  show "bytes s' = bytes s" using k [of bytes] by (simp add: no_exit_def no_tasks_def no_pages_def)
  show "file_heap s' = file_heap s" using k [of file_heap] by (simp add: no_exit_def no_tasks_def no_pages_def)
  show "file_list_head s' = file_list_head s" using k [of file_list_head] by (simp add: no_exit_def no_tasks_def no_pages_def)
  show "ipc_q s' = ipc_q s" using k [of ipc_q] by (simp add: no_exit_def no_tasks_def no_pages_def)
  show "ctx_heap s' = ctx_heap s" using k [of ctx_heap] by (simp add: no_exit_def no_tasks_def no_pages_def)
  show "curr_running_task s' = curr_running_task s" using k [of curr_running_task] by (simp add: no_exit_def no_tasks_def no_pages_def)
  show "sched_lr s' = sched_lr s" using k [of sched_lr] by (simp add: no_exit_def no_tasks_def no_pages_def)
qed

lemma exit_called:
  "syscall_table ! unat (3 :: u32) = plain exit_handler" "unat (3 :: u32) < 20"
  by (simp_all add: syscall_table_def)

lemma switch_mm_keeps [simp]:
  "task_ready_list (switch_mm b s) = task_ready_list s" "page_heap (switch_mm b s) = page_heap s"
  "free_page_head (switch_mm b s) = free_page_head s" "inuse_page_head (switch_mm b s) = inuse_page_head s"
  "blk_heap (switch_mm b s) = blk_heap s" "kpage (switch_mm b s) = kpage s" "kblk_list_base (switch_mm b s) = kblk_list_base s"
  by (simp_all add: switch_mm_def pgt_base_setup_def invalidate_tlb_def)

lemma called_keeps [simp]:
  "task_ready_list (called n sp arg s) = task_ready_list s" "page_heap (called n sp arg s) = page_heap s"
  "free_page_head (called n sp arg s) = free_page_head s" "inuse_page_head (called n sp arg s) = inuse_page_head s"
  "blk_heap (called n sp arg s) = blk_heap s" "kpage (called n sp arg s) = kpage s"
  "kblk_list_base (called n sp arg s) = kblk_list_base s"
  by (simp_all add: called_def)

text \<open>A task that is not the last one stays in its ready list.\<close>

lemma u_exit_ok:
  assumes rq: "rq_ok s qs" "i < 5" "qs ! i = bs @ curr_running_task s # cs" and o: "owns fs as p ps ks k s" and sp: "u_sp u - 56 \<noteq> NULL"
  shows "\<exists>s'. u_exit u s = Some (Parked s') \<and> rq_ok s' (qs[i := if cs = [] then bs else bs @ curr_running_task s # cs]) \<and> curr_running_task s' = curr_running_task s
    \<and> links task_status (task_heap s') (curr_running_task s) = Some TASK_TERMINATE
    \<and> pages_ok s' (fs @ [p]) (as @ ps) \<and> kblks_ok s' (ks @ [blk_at (kblk_list_base s) k])
    \<and> (\<forall>x. x \<noteq> curr_running_task s \<longrightarrow> links task_fixed (task_heap s') x = links task_fixed (task_heap s) x)
    \<and> dom (ctx_heap s) \<subseteq> dom (ctx_heap s') \<and> same_io s s'"
proof -
  let ?a = "curr_running_task s" and ?c = "called 3 (u_sp u) 0 s"
  obtain v w where v: "current s = Some v" "page_heap s p = Some w" "page_status w \<noteq> FREE"
      "pgstart w = ROUNDDOWN (stk_bottom v) PAGE_SIZE" "pgtbase v = block_start 0x82000000 KBLK_SIZE k"
    and o': "pages_ok s fs (as @ p # ps)" "as @ ps \<noteq> []" "inj_on (links pgstart (page_heap s)) (set (as @ p # ps))"
      "kblks_ok s ks" "ks \<noteq> []" "kblk_array s" "k < 64" "blk_at (kblk_list_base s) k \<notin> set ks"
    using o by (auto simp: owns_def)
  have an: "?a \<noteq> NULL" "task_heap s ?a = Some v"
    using v(1) by (auto simp: current_def deref_def split: if_splits)
  have crq: "rq_ok ?c qs" using rq(1) by (simp add: rq_ok_def)
  have cpg: "pages_ok ?c fs (as @ p # ps)" using o'(1) by (simp add: pages_ok_def)
  have ckb: "kblks_ok ?c ks" "kblk_array ?c" using o'(4,6) by (simp_all add: kblks_ok_def kblk_array_def)
  have "\<exists>s'. exit_handler (u_sp u - 56) 0 ?c = Some s' \<and> rq_ok s' (qs[i := if cs = [] then bs else bs @ ?a # cs])
    \<and> links task_status (task_heap s') ?a = Some TASK_TERMINATE
    \<and> pages_ok s' (fs @ [p]) (as @ ps) \<and> kblks_ok s' (ks @ [blk_at (kblk_list_base ?c) k])
    \<and> links task_fixed (task_heap s') = (links task_fixed (task_heap ?c))(?a \<mapsto> task_fixed (v\<lparr>task_status := TASK_TERMINATE\<rparr>))
    \<and> no_exit s' = no_exit ?c"
    by (rule exit_handler_ok [OF crq rq(2), where v = v and w = w]) (use rq(3) an v o' cpg ckb in simp_all)
  then obtain s1 where s1: "exit_handler (u_sp u - 56) 0 ?c = Some s1" "rq_ok s1 (qs[i := if cs = [] then bs else bs @ ?a # cs])"
    "links task_status (task_heap s1) ?a = Some TASK_TERMINATE" "pages_ok s1 (fs @ [p]) (as @ ps)"
    "kblks_ok s1 (ks @ [blk_at (kblk_list_base s) k])"
    "links task_fixed (task_heap s1) = (links task_fixed (task_heap s))(?a \<mapsto> task_fixed (v\<lparr>task_status := TASK_TERMINATE\<rparr>))"
    "no_exit s1 = no_exit ?c" by auto
  note keep = no_exit_keeps [OF s1(7), unfolded called_eqs]
  obtain t1 where t1: "task_heap s1 ?a = Some t1" using s1(3) by (auto dest: links_SomeD)
  then have cur: "current s1 = Some t1" using keep(6) an(1) by (simp add: current_def deref_def)
  obtain c where c: "ctx_heap s1 (u_sp u - 56) = Some c" using keep(5) by simp
  let ?s' = "switch_mm (pgtbase t1) s1"
  have "u_exit u s = Some (Parked ?s')"
    using svc_run [where h = exit_handler, OF exit_called(2,1) sp s1(1) cur c] by (simp add: u_exit_def)
  moreover have "links openfiles (task_heap ?s') = links openfiles (task_heap s)"
  proof
    fix x
    have "links task_fixed (task_heap s1) x = ((links task_fixed (task_heap s))(?a \<mapsto> task_fixed (v\<lparr>task_status := TASK_TERMINATE\<rparr>))) x"
      by (simp add: s1(6))
    then have "map_option task_fixed (task_heap s1 x) = map_option task_fixed (((task_heap s)(?a \<mapsto> v\<lparr>task_status := TASK_TERMINATE\<rparr>)) x)"
      by (simp add: links_def)
    then show "links openfiles (task_heap ?s') x = links openfiles (task_heap s) x"
      using an(2) by (cases "task_heap s1 x"; cases "task_heap s x") (auto simp: links_def split: if_splits dest: task_fixed_eqD(7))
  qed
  ultimately show ?thesis using s1 keep
    by (intro exI [of _ ?s']) (simp add: same_io_def rq_ok_def pages_ok_def kblks_ok_def subset_insertI)
qed

section \<open>The tick\<close>

lemma rq_gone:
  assumes rq: "rq_ok s qs" "i < 5" "qs ! i = bs @ [a]" and j: "j < 5"
  shows "a \<notin> set ((qs[i := bs]) ! j)"
proof (cases "j = i")
  case True
  have "distinct (bs @ [a])" using dll_distinct [OF rq_dll(1) [OF rq(1,2)]] rq(3) by simp
  then show ?thesis using True rq(1,2) by (simp add: rq_ok_def)
next
  case False
  then show ?thesis using rq_other_queue [OF rq(1,2) j, of a] rq(3) by auto
qed

text \<open>The running task is in no ready list any more: the tick gives the processor to the next one.\<close>

lemma tick_hands_over:
  assumes rq: "rq_ok s qs" and v: "task_heap s a = Some v" "curr_running_task s = a" "a \<noteq> NULL" "\<forall>j < 5. a \<notin> set (qs ! j)"
    and j: "j < 5" "qs ! j = b # ys" "is_ready s b" "\<forall>k < j. \<not> ready_level s qs k" "resumable s b"
  shows "\<exists>s' k. timer0_isr c s = Some (s', k) \<and> rq_ok s' (qs[j := ys @ [b]]) \<and> curr_running_task s' = b \<and> same_io s s'"
proof -
  obtain t where isr: "timer0_isr c s = sched t"
    and t: "task_heap t = (task_heap s)(a \<mapsto> v\<lparr>task_context_ptr := c, task_status := TASK_READY\<rparr>)"
      "task_ready_list t = task_ready_list s" "ctx_heap t = ctx_heap s"
    using switch_enters [OF v(1-3), of "By_tick c"] by auto
  have tok: "rq_ok t qs" using rq v(1) by (simp add: rq_ok_def t fun_upd_idem_iff)
  have st: "links task_status (task_heap t) = (links task_status (task_heap s))(a \<mapsto> TASK_READY)" by (simp add: t)
  have none: "\<forall>k < j. \<not> ready_level t qs k"
    using ready_level_status [OF st, where qs = qs and qs' = qs] j(1,4) v(4) by simp
  have ba: "b \<noteq> a" using v(4) j(1,2) by (metis list.set_intros(1))
  have rdy: "is_ready t b" using j(3) st ba by (simp add: is_ready_def)
  have res: "resumable t b" using j(5) ba by (simp add: resumable_def t)
  obtain s' k where s': "sched t = Some (s', k)" "rq_ok s' (qs[j := ys @ [b]])" "curr_running_task s' = b"
    using sched_rotates [OF tok j(1,2) rdy none res] by blast
  then show ?thesis using timer0_isr_io [of c s s' k] isr by auto
qed

lemma resumable_later:
  assumes "resumable s b" and "links task_fixed (task_heap s') b = links task_fixed (task_heap s) b" and "dom (ctx_heap s) \<subseteq> dom (ctx_heap s')"
  shows "resumable s' b"
proof -
  obtain v where v: "task_heap s b = Some v" "frame_ok (ctx_heap s) (task_context_ptr v)" using assms(1) by (auto simp: resumable_def)
  have "links task_fixed (task_heap s') b = Some (task_fixed v)" using assms(2) v(1) by simp
  then obtain w where "task_heap s' b = Some w" "task_fixed w = task_fixed v" by (auto dest: links_SomeD)
  note w = this
  have "frame_ok (ctx_heap s') (task_context_ptr w)"
    using v(2) assms(3) unfolding task_fixed_eqD(5) [OF w(2)] frame_ok_def by blast
  then show ?thesis using w(1) by (simp add: resumable_def)
qed

lemma kept_ready:
  assumes "\<forall>x. x \<noteq> a \<longrightarrow> links task_fixed (task_heap s') x = links task_fixed (task_heap s) x"
  shows "x \<noteq> a \<Longrightarrow> is_ready s' x = is_ready s x" "a \<notin> set (qs ! l) \<Longrightarrow> ready_level s' qs l = ready_level s qs l"
proof -
  show r: "x \<noteq> a \<Longrightarrow> is_ready s' x = is_ready s x" for x
    using links_point [OF assms [rule_format] task_fixed_eqD(2)] unfolding is_ready_def by simp
  show "a \<notin> set (qs ! l) \<Longrightarrow> ready_level s' qs l = ready_level s qs l"
    using r [of "hd (qs ! l)"] by (cases "qs ! l") (auto simp: ready_level_def)
qed

section \<open>A task that does not leave\<close>

lemma stays_in_turn:
  assumes rq: "rq_ok s qs" "m < 5" "qs ! m = b # xs" and a: "a \<in> set xs" "curr_running_task s = a" "task_heap s a = Some v"
    and others: "\<forall>x \<in> set (b # xs) - {a}. is_ready s x \<and> resumable s x" and top: "\<forall>l < m. \<not> ready_level s qs l"
    and c: "frame_ok (ctx_heap s) c"
  shows "\<exists>s'. switch_step (By_tick c) s = Some (b, s') \<and> in_turn m (ctx_heap s) s' (xs @ [b])"
proof -
  have an: "a \<noteq> NULL" using rq_mem [OF rq(1,2), of a] rq(3) a(1) by simp
  obtain t where isr: "timer0_isr c s = sched t"
    and t: "task_heap t = (task_heap s)(a \<mapsto> v\<lparr>task_context_ptr := c, task_status := TASK_READY\<rparr>)"
      "task_ready_list t = task_ready_list s" "ctx_heap t = ctx_heap s"
    using switch_enters [OF a(3,2) an, of "By_tick c"] by auto
  have tok: "rq_ok t qs" using rq(1) a(3) by (simp add: rq_ok_def t fun_upd_idem_iff)
  have dist: "distinct (b # xs)" using dll_distinct [OF rq_dll(1) [OF rq(1,2)]] rq(3) by simp
  have st: "links task_status (task_heap t) = (links task_status (task_heap s))(a \<mapsto> TASK_READY)" by (simp add: t)
  have away: "x \<notin> set (qs ! l)" if "x \<in> set (b # xs)" "l < m" for x l
    using rq_other_queue [OF rq(1,2), of l x] that rq(2,3) by auto
  have none: "\<forall>l < m. \<not> ready_level t qs l"
    using ready_level_status [OF st, where qs = qs and qs' = qs] top away [of a] a(1) by simp
  have all: "is_ready t x \<and> resumable t x" if "x \<in> set (b # xs)" for x
    using others that c st by (cases "x = a") (auto simp: is_ready_def resumable_def t)
  obtain s' k where s': "sched t = Some (s', k)" "rq_ok s' (qs[m := xs @ [b]])" "curr_running_task s' = b" "ctx_heap s' = ctx_heap t"
    "links task_status (task_heap s') = (links task_status (task_heap t))(b \<mapsto> TASK_RUNNING)"
    "links task_static (task_heap s') = links task_static (task_heap t)"
    using sched_rotates [OF tok rq(2,3) _ none] all by (meson list.set_intros(1))
  have "\<not> ready_level s' (qs[m := xs @ [b]]) l" if "l < m" for l
    using ready_level_status [OF s'(5), where qs = qs and qs' = "qs[m := xs @ [b]]" and j = l] none away [of b l] that by simp
  moreover have "is_ready s' x \<and> resumable s' x" if "x \<in> set xs" for x
    using all [of x] that dist s'(5) resumable_static [OF s'(6,4)] by (auto simp: is_ready_def)
  moreover have "m < length qs" using rq(1,2) by (simp add: rq_ok_def)
  ultimately have "in_turn m (ctx_heap s) s' (xs @ [b])"
    using s'(2,3,4) rq(2) t(3) unfolding in_turn_def by (auto intro!: exI [of _ "qs[m := xs @ [b]]"])
  then show ?thesis using s'(1,3) isr by (simp add: switch_step_def)
qed

text \<open>
  C13: a task that calls \<^verbatim>\<open>__exit\<close> while another task stands behind it in its ready list, say one it has
  just created, is not rid of. Its page and its table are given back, but it stays in the list, and
  the tick, which marks the running task as ready, undoes the mark that \<^verbatim>\<open>exit\<close> has set: the tasks in
  front of it get one turn each, then the processor goes back to the task that has exited.
\<close>

theorem exited_task_runs_again:
  assumes rq: "rq_ok s qs" "m < 5" "qs ! m = b # bs @ curr_running_task s # cs" "cs \<noteq> []" "\<forall>l < m. \<not> ready_level s qs l"
    and o: "owns fs as p ps ks k s" "u_sp u - 56 \<noteq> NULL"
    and others: "\<forall>x \<in> set (b # bs @ cs). is_ready s x \<and> resumable s x"
    and frames: "\<forall>e \<in> set (By_tick c # es). frame_ok (ctx_heap s) (switch_frame e)" "length es = Suc (length bs)"
  shows "\<exists>s1 s2 s3. u_exit u s = Some (Parked s1)
    \<and> links task_status (task_heap s1) (curr_running_task s) = Some TASK_TERMINATE \<and> pages_ok s1 (fs @ [p]) (as @ ps)
    \<and> switch_step (By_tick c) s1 = Some (b, s2)
    \<and> picks switch_step es s2 = Some (bs @ [curr_running_task s], s3)"
proof -
  let ?a = "curr_running_task s"
  have q: "qs ! m = (b # bs) @ ?a # cs" "qs[m := b # bs @ ?a # cs] = qs" using rq(3) list_update_id [of qs m] by simp_all
  obtain s1 where s1: "u_exit u s = Some (Parked s1)" "rq_ok s1 qs" "curr_running_task s1 = ?a"
    "links task_status (task_heap s1) ?a = Some TASK_TERMINATE" "pages_ok s1 (fs @ [p]) (as @ ps)"
    "\<forall>x. x \<noteq> ?a \<longrightarrow> links task_fixed (task_heap s1) x = links task_fixed (task_heap s) x"
    "dom (ctx_heap s) \<subseteq> dom (ctx_heap s1)"
    using u_exit_ok [OF rq(1,2) q(1) o] rq(4) q(2) by auto
  obtain v1 where v1: "task_heap s1 ?a = Some v1" using s1(4) by (auto dest: links_SomeD)
  have dist: "distinct (b # bs @ ?a # cs)" using dll_distinct [OF rq_dll(1) [OF rq(1,2)]] rq(3) by simp
  note ready = kept_ready(1) [OF s1(6)]
  have others1: "\<forall>x \<in> set (b # bs @ ?a # cs) - {?a}. is_ready s1 x \<and> resumable s1 x"
  proof
    fix x assume x: "x \<in> set (b # bs @ ?a # cs) - {?a}"
    then have "x \<in> set (b # bs @ cs)" "x \<noteq> ?a" by auto
    then show "is_ready s1 x \<and> resumable s1 x" using others ready resumable_later [of s x s1] s1(6,7) by blast
  qed
  have top1: "\<forall>l < m. \<not> ready_level s1 qs l"
  proof (intro allI impI)
    fix l assume l: "l < m"
    then have "?a \<notin> set (qs ! l)" using rq_other_queue [OF rq(1,2), of l ?a] rq(2,3) by auto
    then show "\<not> ready_level s1 qs l" using rq(5) l kept_ready(2) [OF s1(6)] by blast
  qed
  have c1: "frame_ok (ctx_heap s1) f" if "frame_ok (ctx_heap s) f" for f using that s1(7) unfolding frame_ok_def by blast
  obtain s2 where s2: "switch_step (By_tick c) s1 = Some (b, s2)" "in_turn m (ctx_heap s1) s2 ((bs @ ?a # cs) @ [b])"
    using stays_in_turn [OF s1(2) rq(2,3) _ s1(3) v1 others1 top1, of c] c1 [of c] frames(1) by auto
  let ?xs = "(bs @ ?a # cs) @ [b]"
  obtain s3 where s3: "picks switch_step es s2 = Some (map (\<lambda>k. ?xs ! (k mod length ?xs)) [0..<length es], s3)"
    using turns.picks_cycle [OF _ s2(2), of es] c1 frames(1) by auto
  have "map (\<lambda>k. ?xs ! (k mod length ?xs)) [0..<length es] = bs @ [?a]"
    by (rule nth_equalityI) (simp_all add: frames(2) nth_append del: upt_Suc)
  then show ?thesis using s1 s2(1) s3 by metis
qed

text \<open>The running task in the page \<open>0x300\<close> of \<open>demo_pages\<close>, its table in block 39.\<close>

definition demo_owner :: "kstate \<Rightarrow> kstate \<Rightarrow> bool" where
  "demo_owner s0 s \<longleftrightarrow> blk_heap s = blk_heap s0 \<and> kblk_list_base s = kblk_list_base s0 \<and> kpage s = kpage s0
     \<and> page_heap s = page_heap demo_pages \<and> free_page_head s = 0x100 \<and> inuse_page_head s = 0x300
     \<and> (\<exists>v. current s = Some v \<and> stk_bottom v = 0x82300000 \<and> pgtbase v = 0x8209c000)"

lemma demo_owns:
  "\<exists>s0. \<forall>s. demo_owner s0 s \<longrightarrow> owns [0x100, 0x200] [] 0x300 [0x400] (map (blk_at 0x82027400) [40..<64]) 39 s"
proof -
  obtain s0 h where s0: "kblks_ok s0 (map (blk_at 0x82027400) [40..<64])" "kblk_array s0"
    "s0 = demo_kpage\<lparr>blk_heap := h, kblk_list_base := 0x82027400, kpage := (kpage demo_kpage)\<lparr>
         blk_list_head := blk_at 0x82027400 40, free_start := 0x82028000\<rparr>\<rparr>"
    using demo_kpage_boot by blast
  have "owns [0x100, 0x200] [] 0x300 [0x400] (map (blk_at 0x82027400) [40..<64]) 39 s" if "demo_owner s0 s" for s
  proof -
    obtain v where s: "blk_heap s = blk_heap s0" "kblk_list_base s = kblk_list_base s0" "kpage s = kpage s0"
      "page_heap s = page_heap demo_pages" "free_page_head s = 0x100" "inuse_page_head s = 0x300"
      and v: "current s = Some v" "stk_bottom v = 0x82300000" "pgtbase v = 0x8209c000"
      using \<open>demo_owner s0 s\<close> unfolding demo_owner_def by blast
    have "kblk_list_base s = 0x82027400" by (simp add: s(2) s0(3))
    moreover have "kblks_ok s (map (blk_at 0x82027400) [40..<64])" "kblk_array s"
      using s0(1,2) s(1-3) by (simp_all add: kblks_ok_def kblk_array_def)
    moreover have "pages_ok s [0x100, 0x200] [0x300, 0x400]"
      using demo_pages_ok by (simp add: pages_ok_def s(4-6) demo_pages_def)
    moreover have "inj_on (links pgstart (page_heap s)) (set [0x300, 0x400])"
      by (simp add: s(4) demo_pages_def demo_page_def links_def)
    moreover have "\<exists>w. page_heap s 0x300 = Some w \<and> page_status w \<noteq> FREE \<and> pgstart w = ROUNDDOWN (stk_bottom v) PAGE_SIZE
        \<and> pgtbase v = block_start 0x82000000 KBLK_SIZE 39"
      by (simp add: s(4) v demo_pages_def demo_page_def zero_page_def ROUNDDOWN_def block_start_def)
    ultimately show ?thesis using demo_block_taken v(1) unfolding owns_def by simp
  qed
  then show ?thesis by blast
qed

text \<open>The running task \<open>0x82300000\<close> between two others.\<close>

definition demo_middle :: "kstate \<Rightarrow> kstate" where
  "demo_middle s0 = s0\<lparr>
     task_heap := [0x82500000 \<mapsto> (demo_task 0 TASK_READY 0x82300000 0)\<lparr>task_context_ptr := 0x9000\<rparr>,
                   0x82300000 \<mapsto> (demo_task 0 TASK_RUNNING 0x82400000 0x82500000)\<lparr>stk_bottom := 0x82300000, pgtbase := 0x8209c000\<rparr>,
                   0x82400000 \<mapsto> (demo_task 0 TASK_READY 0 0x82300000)\<lparr>task_context_ptr := 0x9000\<rparr>],
     task_ready_list := [0x82500000, 0, 0, 0, 0], curr_running_task := 0x82300000, ctx_heap := [0x9000 \<mapsto> zero_ctx],
     page_heap := page_heap demo_pages, free_page_head := 0x100, inuse_page_head := 0x300\<rparr>"

theorem exited_task_runs_again_witness:
  "\<exists>s0 s1 s2 s3. u_exit demo_frame_u (demo_middle s0) = Some (Parked s1)
    \<and> links task_status (task_heap s1) 0x82300000 = Some TASK_TERMINATE \<and> pages_ok s1 [0x100, 0x200, 0x300] [0x400]
    \<and> switch_step (By_tick 0x9000) s1 = Some (0x82500000, s2)
    \<and> picks switch_step [By_tick 0x9000] s2 = Some ([0x82300000], s3)"
proof -
  obtain s0 where s0: "\<forall>s. demo_owner s0 s \<longrightarrow> owns [0x100, 0x200] [] 0x300 [0x400] (map (blk_at 0x82027400) [40..<64]) 39 s"
    using demo_owns by blast
  let ?s = "demo_middle s0" and ?qs = "[[0x82500000, 0x82300000, 0x82400000], [], [], [], []] :: addr list list"
  have o: "owns [0x100, 0x200] [] 0x300 [0x400] (map (blk_at 0x82027400) [40..<64]) 39 ?s"
    by (rule s0 [rule_format]) (simp add: demo_owner_def demo_middle_def current_def deref_def)
  have rq: "rq_ok ?s ?qs"
    by (simp add: rq_ok_def all_less5 demo_middle_def demo_task_def zero_task_def dll_def links_def)
  have q: "?qs ! 0 = 0x82500000 # [] @ curr_running_task ?s # [0x82400000]" by (simp add: demo_middle_def)
  have others: "\<forall>x \<in> set (0x82500000 # [] @ [0x82400000]). is_ready ?s x \<and> resumable ?s x"
    by (simp add: is_ready_def resumable_def frame_ok_def demo_middle_def demo_task_def)
  have f: "frame_ok (ctx_heap ?s) 0x9000" "u_sp demo_frame_u - 56 \<noteq> NULL" "curr_running_task ?s = 0x82300000"
    by (simp_all add: frame_ok_def demo_middle_def demo_frame_u_def)
  show ?thesis
    using exited_task_runs_again [OF rq _ q _ _ o f(2) others, of "0x9000" "[By_tick 0x9000]"] f by (auto simp del: picks.simps)
qed

end
