(* ===== verification/IpcRun.thy ===== *)
theory IpcRun
  imports Exits
begin

text \<open>
  A message from one task to another, end to end: the sender of \<^verbatim>\<open>ipc_test.c\<close> runs to its \<^verbatim>\<open>__exit\<close>, the
  tick hands the processor to the next ready task, and the receiver reads the message from the channel.
\<close>

section \<open>The message\<close>

lemma image_ok_cong:
  assumes "image_ok im s" and "bytes s' = bytes s" and "ipc_place s' = ipc_place s"
  shows "image_ok im s'"
proof -
  have i: "valid_range (str_IPC0 im) 6" "str_at (Ram (str_IPC0 im)) ''/ipc0'' s" "\<forall>x. in_range (str_IPC0 im) 6 x \<longrightarrow> \<not> chan s x"
    "user_range (str_ipc_text im) 17 s" "mem_at (str_ipc_text im) 17 s = hello"
    using assms(1) unfolding image_ok_def by blast+
  have n: "Suc (length ''/ipc0'') = 6" by simp
  have "str_at (Ram (str_IPC0 im)) ''/ipc0'' s'"
    by (rule str_keep [OF _ i(2)], unfold n) (use i(1) assms(2) in simp_all)
  moreover have "mem_at (str_ipc_text im) 17 s' = hello" using i(5) unfolding mem_at_def assms(2) .
  moreover have "user_range (str_ipc_text im) 17 s'" using i(4) ipc_place_eq [OF assms(3)] by blast
  ultimately show ?thesis using i(1,3) unfolding image_ok_def chan_place [OF assms(3)] by blast
qed

text \<open>The receiver is as before when its turn comes.\<close>

lemma channel_user_later:
  assumes cu: "channel_user im u fs i p (s\<lparr>curr_running_task := b\<rparr>)" and im: "image_ok im s'"
    and b: "curr_running_task s' = b" "links openfiles (task_heap s') b = links openfiles (task_heap s) b"
    and keep: "file_heap s' = file_heap s" "file_list_head s' = file_list_head s" "ipc_place s' = ipc_place s"
  shows "channel_user im u fs i p s'"
proof -
  let ?s = "s\<lparr>curr_running_task := b\<rparr>"
  have ok: "user_ok u fs ?s" using cu by (simp add: channel_user_def)
  obtain t where t: "task_heap s b = Some t" "b \<noteq> NULL" "openfiles t = fs"
    using user_ok_task [OF ok] by (auto simp: current_def deref_def split: if_splits)
  then obtain t' where t': "task_heap s' b = Some t'" "openfiles t' = fs" using b(2) by (auto dest: links_SomeD)
  have c: "current ?s = Some t" "current s' = Some t'" using t t' b(1) by (simp_all add: current_def deref_def)
  have "user_ok u fs s'" using ok c t(3) t'(2) keep(1) by (simp add: user_ok_def console_ok_def)
  moreover have "chan s' = chan ?s" by (rule chan_place) (use keep(3) in \<open>simp add: ipc_place_def\<close>)
  moreover have "finds ''/ipc0'' p s'" using cu keep(1,2) finds_cong [of s' ?s] by (simp add: channel_user_def)
  moreover have "ipc_file p s'" using cu keep(1) ipc_file_cong [of s' ?s] by (simp add: channel_user_def)
  ultimately show ?thesis using cu im by (simp add: channel_user_def)
qed

text \<open>The sender, up to its place outside the ready lists.\<close>

lemma sender_leaves:
  assumes send: "channel_user im ua ds i q s" "u_sp ua - 56 \<noteq> NULL" "ipc_holds s []" "17 \<le> ipc_cap s" "owns fs as p ps ks k s"
    and rq: "rq_ok s qs" "m < 5" "qs ! m = bs @ [curr_running_task s]"
  shows "\<exists>r s1. ipc0_test im ua s = Some (Parked s1) \<and> proc_io (frame_of ua) s r \<and> ipc_holds r hello
    \<and> rq_ok s1 (qs[m := bs]) \<and> curr_running_task s1 = curr_running_task s
    \<and> links task_status (task_heap s1) (curr_running_task s) = Some TASK_TERMINATE
    \<and> pages_ok s1 (fs @ [p]) (as @ ps) \<and> kblks_ok s1 (ks @ [blk_at (kblk_list_base s) k])
    \<and> (\<forall>x. x \<noteq> curr_running_task s \<longrightarrow> links task_fixed (task_heap s1) x = links task_fixed (task_heap s) x)
    \<and> dom (ctx_heap s) \<subseteq> dom (ctx_heap s1) \<and> same_io r s1"
proof -
  let ?a = "curr_running_task s"
  have "user_ok ua ds s" using send(1) by (simp add: channel_user_def)
  then obtain t where t: "current s = Some t" by (rule user_ok_task)
  obtain r where r: "ipc0_send im ua s = Some r" "proc_io (frame_of ua) s r" "ipc_holds r hello"
    using ipc0_send_ok [OF send(1) t send(3,4)] by blast
  note keep = proc_io_keeps [OF r(2)]
  have rr: "rq_ok r qs" by (rule rq_ok_open [OF rq(1) keep(8,7)])
  have ra: "qs ! m = bs @ [curr_running_task r]" using rq(3) keep(9) by simp
  obtain s1 where s1: "u_exit ua r = Some (Parked s1)" "rq_ok s1 (qs[m := bs])" "curr_running_task s1 = ?a"
    "links task_status (task_heap s1) ?a = Some TASK_TERMINATE" "pages_ok s1 (fs @ [p]) (as @ ps)"
    "kblks_ok s1 (ks @ [blk_at (kblk_list_base s) k])"
    "\<forall>x. x \<noteq> ?a \<longrightarrow> links task_fixed (task_heap s1) x = links task_fixed (task_heap r) x"
    "dom (ctx_heap r) \<subseteq> dom (ctx_heap s1)" "same_io r s1"
    using u_exit_ok [where cs = "[]", OF rr rq(2) ra owns_io [OF send(5) r(2)] send(2)] keep(6,9) by auto
  have "\<forall>x. x \<noteq> ?a \<longrightarrow> links task_fixed (task_heap s1) x = links task_fixed (task_heap s) x"
    using s1(7) r(2) by (simp add: proc_io_def links_def)
  moreover have "dom (ctx_heap s) \<subseteq> dom (ctx_heap r)" using r(2) by (simp add: proc_io_def)
  then have "dom (ctx_heap s) \<subseteq> dom (ctx_heap s1)" using s1(8) by (rule subset_trans)
  moreover have "ipc0_test im ua s = Some (Parked s1)" using r(1) s1(1) by (simp add: ipc0_test_def)
  ultimately show ?thesis using r s1 by blast
qed

text \<open>
  C10: the IPC test, end to end. The sender, the last task of its ready list, opens \<open>/ipc0\<close>, writes
  the message into the empty channel and exits: it leaves its list, its page and its table become
  free. At the next tick the first ready task, \<open>b\<close>, gets the processor; if it is the receiver, with
  its own console, descriptors and buffer, it reads the message from the channel and prints it, and
  the channel is empty again.
\<close>

theorem ipc_message_crosses:
  assumes send: "channel_user im ua ds i q s" "u_sp ua - 56 \<noteq> NULL" "ipc_holds s []" "17 \<le> ipc_cap s" "owns fs as p ps ks k s"
    and rq: "rq_ok s qs" "m < 5" "qs ! m = bs @ [curr_running_task s]" "qs' = qs[m := bs]"
    and turn: "j < 5" "qs' ! j = b # ys" "is_ready s b" "\<forall>l < j. \<not> ready_level s qs' l" "resumable s b"
    and recv: "channel_user im ub es l q (s\<lparr>curr_running_task := b\<rparr>)" "user_range rbuf 32 s"
      "\<forall>x. in_range rbuf 32 x \<longrightarrow> \<not> frame_of ub x"
  shows "\<exists>s1 s2 c2 s3. ipc0_test im ua s = Some (Parked s1) \<and> timer0_isr c s1 = Some (s2, c2)
      \<and> ipc_receive im ub rbuf s2 = Some s3
    \<and> links task_status (task_heap s1) (curr_running_task s) = Some TASK_TERMINATE
    \<and> pages_ok s1 (fs @ [p]) (as @ ps) \<and> kblks_ok s1 (ks @ [blk_at (kblk_list_base s) k])
    \<and> rq_ok s2 (qs'[j := ys @ [b]]) \<and> curr_running_task s2 = b
    \<and> uart_tx s3 = uart_tx s2 @ ''Successfully open ,fd ='' @ num_text 10 l @ crlf @ ''Get :Hello Message'' @ crlf
    \<and> ipc_holds s3 []"
proof -
  let ?a = "curr_running_task s"
  obtain r s1 where r: "proc_io (frame_of ua) s r" "ipc_holds r hello"
    and s1: "ipc0_test im ua s = Some (Parked s1)" "rq_ok s1 qs'" "curr_running_task s1 = ?a"
    "links task_status (task_heap s1) ?a = Some TASK_TERMINATE" "pages_ok s1 (fs @ [p]) (as @ ps)"
    "kblks_ok s1 (ks @ [blk_at (kblk_list_base s) k])"
    and fixed: "\<forall>x. x \<noteq> ?a \<longrightarrow> links task_fixed (task_heap s1) x = links task_fixed (task_heap s) x"
    and dom: "dom (ctx_heap s) \<subseteq> dom (ctx_heap s1)" and io1: "same_io r s1"
    using sender_leaves [OF send rq(1-3)] rq(4) by blast
  have gone: "\<forall>n < 5. ?a \<notin> set (qs' ! n)" using rq_gone [OF rq(1-3)] rq(4) by simp
  obtain v1 where v1: "task_heap s1 ?a = Some v1" using s1(4) by (auto dest: links_SomeD)
  have an: "?a \<noteq> NULL" using rq_mem [OF rq(1,2), of ?a] rq(3) by simp
  have ba: "b \<noteq> ?a" using gone turn(1,2) by (metis list.set_intros(1))
  have none: "\<forall>n < j. \<not> ready_level s1 qs' n" 
  proof (intro allI impI)
    fix n assume n: "n < j"
    then have "?a \<notin> set (qs' ! n)" using gone turn(1) by simp
    then show "\<not> ready_level s1 qs' n" using turn(4) n kept_ready(2) [OF fixed] by blast
  qed
  have res: "resumable s1 b" by (rule resumable_later [OF turn(5) fixed [rule_format, OF ba] dom])
  obtain s2 c2 where s2: "timer0_isr c s1 = Some (s2, c2)" "rq_ok s2 (qs'[j := ys @ [b]])" "curr_running_task s2 = b" "same_io s1 s2"
    using tick_hands_over [OF s1(2) v1 s1(3) an gone turn(1,2) _ none res] kept_ready(1) [OF fixed ba] turn(3) by blast
  have io: "same_io r s2" by (rule same_io_trans [OF io1 s2(4)])
  have place: "ipc_place s2 = ipc_place r" using io by (simp add: same_io_def ipc_place_def)
  have "image_ok im r" using image_ok_io [OF _ r(1)] send(1) by (auto simp: channel_user_def)
  then have im: "image_ok im s2" by (rule image_ok_cong) (use io place in \<open>simp_all add: same_io_def\<close>)
  have files: "links openfiles (task_heap s2) b = links openfiles (task_heap s) b"
    using io r(1) ba by (simp add: same_io_def proc_io_def links_def fun_eq_iff)
  have keeps: "file_heap s2 = file_heap s" "file_list_head s2 = file_list_head s" "ipc_place s2 = ipc_place s"
    using io r(1) place by (simp_all add: same_io_def proc_io_def)
  have cu: "channel_user im ub es l q s2" by (rule channel_user_later [OF recv(1) im s2(3) files keeps])
  have h: "ipc_holds s2 hello" using r(2) ipc_holds_cong [of r hello s2] io by (simp add: same_io_def)
  have buf: "user_range rbuf 32 s2" using ipc_place_eq [OF keeps(3)] recv(2) by simp
  obtain s3 where "ipc_receive im ub rbuf s2 = Some s3" "ipc_holds s3 []"
    "uart_tx s3 = uart_tx s2 @ ''Successfully open ,fd ='' @ num_text 10 l @ crlf @ ''Get :Hello Message'' @ crlf"
    using ipc_receive_ok [OF cu h buf recv(3)] by blast
  then show ?thesis using s1 s2 by blast
qed

text \<open>The sender at \<open>0x82300000\<close>, the receiver at \<open>0x82400000\<close>, and the channel's buffer at \<open>0x820a0000\<close>.\<close>

definition demo_image :: image where
  "demo_image = \<lparr>fn_fork_test_main = 0, fn_usertask = \<lambda>_. 0, fn_prio_test = \<lambda>_. 0, fn_tty0_test = 0, fn_ipc0_test = 0,
     str_TTY0 = 0, str_IPC0 = 0x82010000, str_tty0_text = 0, str_ipc_text = 0x82010100, str_dev = 0, str_up = 0\<rparr>"

definition demo_receiver :: uframe where
  "demo_receiver = \<lparr>u_local = 0x82400f00, u_args = 0x82400f04, u_sp = 0x82400e80\<rparr>"

definition demo_ram :: "addr \<Rightarrow> u8" where
  "demo_ram x =
     (if in_range 0x82010000 5 x then byte_of (''/ipc0'' ! unat (x - 0x82010000))
      else if in_range 0x82010100 17 x then hello ! unat (x - 0x82010100) else 0)"

definition demo_fds :: "addr list" where
  "demo_fds = [0x5000, 0x6000, 0, 0, 0, 0, 0, 0]"

definition demo_cross :: "kstate \<Rightarrow> kstate" where
  "demo_cross s0 = s0\<lparr>
     task_heap := [0x82300000 \<mapsto> (demo_task 0 TASK_RUNNING 0 0x82400000)\<lparr>stk_bottom := 0x82300000, pgtbase := 0x8209c000, openfiles := demo_fds\<rparr>,
                   0x82400000 \<mapsto> (demo_task 0 TASK_READY 0x82300000 0)\<lparr>task_context_ptr := 0x82400d00, openfiles := demo_fds\<rparr>],
     task_ready_list := [0x82400000, 0, 0, 0, 0], curr_running_task := 0x82300000, ctx_heap := [0x82400d00 \<mapsto> zero_ctx],
     page_heap := page_heap demo_pages, free_page_head := 0x100, inuse_page_head := 0x300,
     file_heap := [0x5000 \<mapsto> fs_file 0 0 0 0 CONSOLE_IN_TYPE FILE_CONSOLE_IN, 0x6000 \<mapsto> fs_file 0 0 0 0 CONSOLE_OUT_TYPE FILE_CONSOLE_OUT,
                   0x7000 \<mapsto> fs_file 0 0 0 0 IPC_TYPE FILE_IPC0],
     file_list_head := 0x7000, bytes := demo_ram, uart_tx := [],
     ipc_q := \<lparr>q_size = 32, q_head = 0, q_end = 0, q_n_data = 0, q_data = 0x820a0000\<rparr>\<rparr>"

lemma demo_cross_rq: "rq_ok (demo_cross s0) [[0x82400000, 0x82300000], [], [], [], []]"
  by (simp add: rq_ok_def all_less5 demo_cross_def demo_task_def zero_task_def dll_def links_def)

lemma demo_cross_chan: "chan (demo_cross s0) x \<longleftrightarrow> in_range 0x820a0000 32 x" "ipc_cap (demo_cross s0) = 32"
  by (simp_all add: chan_def ipc_cap_def demo_cross_def)

lemma demo_cross_holds: "ipc_holds (demo_cross s0) []"
  by (simp add: ipc_holds_def queue_rel_def demo_cross_def valid_range_def)

lemma demo_ram_at:
  "i < 5 \<Longrightarrow> demo_ram (0x82010000 + of_nat i) = byte_of (''/ipc0'' ! i)" "demo_ram 0x82010005 = 0"
  "i < 17 \<Longrightarrow> demo_ram (0x82010100 + of_nat i) = hello ! i"
proof -
  have u: "unat (of_nat i :: u32) = i" "unat (0x82010000 + of_nat i :: u32) = 0x82010000 + i" "unat (0x82010100 + of_nat i :: u32) = 0x82010100 + i"
    if "i < 17" for i
    using that unat_of_nat32 [of i] unat_of_nat32 [of "0x82010000 + i"] unat_of_nat32 [of "0x82010100 + i"] by simp_all
  show "i < 5 \<Longrightarrow> demo_ram (0x82010000 + of_nat i) = byte_of (''/ipc0'' ! i)"
    using u [of i] by (simp add: demo_ram_def in_range_def)
  show "demo_ram 0x82010005 = 0" by (simp add: demo_ram_def in_range_def)
  show "i < 17 \<Longrightarrow> demo_ram (0x82010100 + of_nat i) = hello ! i"
    using u [of i] by (simp add: demo_ram_def in_range_def)
qed

lemma demo_cross_image: "image_ok demo_image (demo_cross s0)"
proof -
  have b: "bytes (demo_cross s0) = demo_ram" by (simp add: demo_cross_def)
  have "str_at (Ram 0x82010000) ''/ipc0'' (demo_cross s0)"
    using demo_ram_at(1,2) by (subst str_at_Ram) (simp_all add: valid_range_def b of_byte_0)
  moreover have "mem_at 0x82010100 17 (demo_cross s0) = hello"
    by (rule nth_equalityI) (simp_all add: mem_at_def length_hello b demo_ram_at(3) del: upt_rec_numeral)
  ultimately show ?thesis
    using demo_cross_chan by (auto simp: image_ok_def demo_image_def user_range_def chan_def valid_range_def in_range_def)
qed

lemma demo_cross_finds: "finds ''/ipc0'' 0x7000 (demo_cross s0)" "ipc_file 0x7000 (demo_cross s0)"
proof -
  show "ipc_file 0x7000 (demo_cross s0)"
    by (simp add: ipc_file_def demo_cross_def fs_file_def file_read_of_def file_write_of_def)
  have "chain (links f_list_next (file_heap (demo_cross s0))) (file_list_head (demo_cross s0)) [0x7000]"
    by (simp add: demo_cross_def links_def fs_file_def)
  moreover have "terminated_files (demo_cross s0) [0x7000]"
    by (simp add: terminated_files_def demo_cross_def fs_file_def FILE_IPC0_def cstr_def)
  moreover have "file_text (demo_cross s0) 0x7000 = Some ''/ipc0''"
    by (simp add: file_text_def demo_cross_def fs_file_def FILE_IPC0_def cstr_def text_of_def)
  then have "first_or_NULL (\<lambda>p. file_text (demo_cross s0) p = Some ''/ipc0'') [0x7000] = 0x7000"
    by (simp add: first_or_NULL_def)
  ultimately show "finds ''/ipc0'' 0x7000 (demo_cross s0)"
    unfolding finds_def by (intro conjI exI [of _ "[0x7000]"]) simp_all
qed

lemma demo_cross_user:
  "channel_user demo_image demo_frame_u demo_fds 3 0x7000 (demo_cross s0)"
  "channel_user demo_image demo_receiver demo_fds 3 0x7000 (demo_cross s0\<lparr>curr_running_task := 0x82400000\<rparr>)"
proof -
  let ?s = "demo_cross s0" let ?t = "?s\<lparr>curr_running_task := 0x82400000\<rparr>"
  have fds: "length demo_fds = 8" "free_fd demo_fds [0..<8] = int 3" "demo_fds ! 3 = NULL"
    by (simp_all add: demo_fds_def upt_rec)
  have u: "user_ok demo_frame_u demo_fds ?s" "user_ok demo_receiver demo_fds ?t"
    by (simp_all add: user_ok_def console_ok_def demo_frame_u_def demo_receiver_def demo_cross_def demo_fds_def current_def fs_file_def
        file_read_of_def file_write_of_def valid_range_def in_range_def deref_def)
  have pl: "ipc_place ?t = ipc_place ?s" by (simp add: ipc_place_def)
  have t: "image_ok demo_image ?t" "finds ''/ipc0'' 0x7000 ?t" "ipc_file 0x7000 ?t"
    using image_ok_cong [OF demo_cross_image _ pl] finds_cong [of ?t ?s] ipc_file_cong [of ?t ?s] demo_cross_finds [of s0] by simp_all
  have a: "frame_of demo_frame_u x \<or> frame_of demo_receiver x \<Longrightarrow> \<not> chan ?s x \<and> \<not> const_at demo_image x" for x
    by (auto simp: demo_cross_chan frame_of_def demo_frame_u_def demo_receiver_def const_at_def demo_image_def in_range_def)
  show "channel_user demo_image demo_frame_u demo_fds 3 0x7000 ?s"
    using fds u(1) demo_cross_image demo_cross_finds a unfolding channel_user_def by blast
  show "channel_user demo_image demo_receiver demo_fds 3 0x7000 ?t"
    using fds u(2) t a unfolding channel_user_def chan_place [OF pl] by blast
qed

theorem ipc_message_crosses_witness:
  "\<exists>s0 s1 s2 c2 s3. ipc0_test demo_image demo_frame_u (demo_cross s0) = Some (Parked s1)
    \<and> timer0_isr 0x82300d00 s1 = Some (s2, c2) \<and> curr_running_task s2 = 0x82400000
    \<and> ipc_receive demo_image demo_receiver 0x82400e00 s2 = Some s3
    \<and> uart_tx s3 = uart_tx s2 @ ''Successfully open ,fd =3'' @ crlf @ ''Get :Hello Message'' @ crlf"
proof -
  obtain s0 where s0: "\<forall>s. demo_owner s0 s \<longrightarrow> owns [0x100, 0x200] [] 0x300 [0x400] (map (blk_at 0x82027400) [40..<64]) 39 s"
    using demo_owns by blast
  let ?s = "demo_cross s0" and ?b = "0x82400000 :: addr"
  have o: "owns [0x100, 0x200] [] 0x300 [0x400] (map (blk_at 0x82027400) [40..<64]) 39 ?s"
    by (rule s0 [rule_format]) (simp add: demo_owner_def demo_cross_def current_def deref_def)
  have sp: "u_sp demo_frame_u - 56 \<noteq> NULL" by (simp add: demo_frame_u_def)
  have cap: "17 \<le> ipc_cap ?s" by (simp add: demo_cross_chan)
  have q: "[[?b, 0x82300000], [], [], [], []] ! 0 = [?b] @ [curr_running_task ?s]" by (simp add: demo_cross_def)
  have b: "is_ready ?s ?b" "resumable ?s ?b"
    by (simp_all add: is_ready_def resumable_def frame_ok_def demo_cross_def demo_task_def)
  have buf: "user_range 0x82400e00 32 ?s"
    using demo_cross_chan by (auto simp: user_range_def chan_def valid_range_def in_range_def)
  have apart: "\<forall>x. in_range 0x82400e00 32 x \<longrightarrow> \<not> frame_of demo_receiver x"
    by (auto simp: frame_of_def demo_receiver_def in_range_def)
  have n: "num_text 10 3 = ''3''" by code_simp
  show ?thesis
    using ipc_message_crosses [OF demo_cross_user(1) sp demo_cross_holds cap o demo_cross_rq _ q refl, of 0 ?b "[]"
        demo_receiver demo_fds 3 "0x82400e00" "0x82300d00"] b demo_cross_user(2) buf apart n
    by auto
qed

end
