(* ===== verification/Registers.thy ===== *)
theory Registers
  imports FileTree Devices
begin

text \<open>
  The register structures of the device headers \<^verbatim>\<open>gpio_reg.h\<close>, \<^verbatim>\<open>cm_per.h\<close>, \<^verbatim>\<open>timer.h\<close>,
  \<^verbatim>\<open>uart.h\<close>, \<^verbatim>\<open>cm_conf.h\<close> (\<^verbatim>\<open>src/src/driver/\<close>) and the offsets of
  \<^verbatim>\<open>src/src/kernel/interrupt_regs.h\<close>, and the functions of \<^verbatim>\<open>uart.c\<close> at register level.
  Every member is a \<^verbatim>\<open>uint32_t\<close>, so a structure is the list of its words; a word has one name, or
  several where the header has a \<^verbatim>\<open>union\<close>.
  Where the header notes the offset of each member in a comment, the definition pairs the two.
  The layout computed from the order of the members is compared with the comments, with the
  addresses that theory \<open>Devices\<close> uses, and with what the pointer macros make of it.
\<close>

section \<open>Layout\<close>

type_synonym c_struct = "string list list"

definition plain :: "string list \<Rightarrow> c_struct" where
  "plain fs = map (\<lambda>f. [f]) fs"

definition commented :: "(string \<times> nat) list \<Rightarrow> c_struct" where
  "commented fs = plain (map fst fs)"

fun offset_of :: "string \<Rightarrow> c_struct \<Rightarrow> nat option" where
  "offset_of f [] = None"
| "offset_of f (w # ws) = (if f \<in> set w then Some 0 else map_option ((+) 4) (offset_of f ws))"

definition sizeof :: "c_struct \<Rightarrow> nat" where
  "sizeof T = 4 * length T"

text \<open>\<^verbatim>\<open>&((T *)base)->f\<close>, and \<^verbatim>\<open>(T *)base + n\<close>.\<close>

definition member :: "addr \<Rightarrow> c_struct \<Rightarrow> string \<Rightarrow> addr" where
  "member base T f = (case offset_of f T of Some n \<Rightarrow> base + of_nat n | None \<Rightarrow> NULL)"

definition pointer_add :: "addr \<Rightarrow> c_struct \<Rightarrow> nat \<Rightarrow> addr" where
  "pointer_add base T n = base + of_nat (n * sizeof T)"

section \<open>GPIO, clocks and timers\<close>

definition GPIO_T :: "(string \<times> nat) list" where
  "GPIO_T =
    [
     (''GPIO_REVISION'', 0x0), (''NON_USE_1'', 0x4), (''NON_USE_2'', 0x8), (''NON_USE_3'', 0xc),
     (''GPIO_SYSCONFIG'', 0x10), (''NON_USE_4'', 0x14), (''NON_USE_5'', 0x18),
     (''NON_USE_6'', 0x1c), (''GPIO_EOI'', 0x20), (''GPIO_IRQSTATUS_RAW_0'', 0x24),
     (''GPIO_IRQSTATUS_RAW_1'', 0x28), (''GPIO_IRQSTATUS_0'', 0x2c), (''GPIO_IRQSTATUS_1'', 0x30),
     (''GPIO_IRQSTATUS_SET_0'', 0x34), (''GPIO_IRQSTATUS_SET_1'', 0x38),
     (''GPIO_IRQSTATUS_CLR_0'', 0x3c), (''GPIO_IRQSTATUS_CLR_1'', 0x40),
     (''GPIO_IRQWAKEN_0'', 0x44), (''GPIO_IRQWAKEN_1'', 0x48), (''NON_USE_7'', 0x4c),
     (''NON_USE_8'', 0x50), (''NON_USE_9'', 0x54), (''NON_USE_10'', 0x58), (''NON_USE_11'', 0x5c),
     (''NON_USE_12'', 0x60), (''NON_USE_13'', 0x64), (''NON_USE_14'', 0x68),
     (''NON_USE_15'', 0x6c), (''NON_USE_16'', 0x70), (''NON_USE_17'', 0x74),
     (''NON_USE_18'', 0x78), (''NON_USE_19'', 0x7c), (''NON_USE_20'', 0x80),
     (''NON_USE_21'', 0x84), (''NON_USE_22'', 0x88), (''NON_USE_23'', 0x8c),
     (''NON_USE_24'', 0x90), (''NON_USE_25'', 0x94), (''NON_USE_26'', 0x98),
     (''NON_USE_27'', 0x9c), (''NON_USE_28'', 0xa0), (''NON_USE_29'', 0xa4),
     (''NON_USE_30'', 0xa8), (''NON_USE_31'', 0xac), (''NON_USE_32'', 0xb0),
     (''NON_USE_33'', 0xb4), (''NON_USE_34'', 0xb8), (''NON_USE_35'', 0xbc),
     (''NON_USE_36'', 0xc0), (''NON_USE_37'', 0xc4), (''NON_USE_38'', 0xc8),
     (''NON_USE_39'', 0xcc), (''NON_USE_40'', 0xd0), (''NON_USE_41'', 0xd4),
     (''NON_USE_42'', 0xd8), (''NON_USE_43'', 0xdc), (''NON_USE_44'', 0xe0),
     (''NON_USE_45'', 0xe4), (''NON_USE_46'', 0xe8), (''NON_USE_47'', 0xec),
     (''NON_USE_48'', 0xf0), (''NON_USE_49'', 0xf4), (''NON_USE_50'', 0xf8),
     (''NON_USE_51'', 0xfc), (''NON_USE_52'', 0x100), (''NON_USE_53'', 0x104),
     (''NON_USE_54'', 0x108), (''NON_USE_55'', 0x10c), (''NON_USE_56'', 0x110),
     (''GPIO_SYSSTATUS'', 0x114), (''NON_USE_57'', 0x118), (''NON_USE_58'', 0x11c),
     (''NON_USE_59'', 0x120), (''NON_USE_60'', 0x124), (''NON_USE_61'', 0x128),
     (''NON_USE_62'', 0x12c), (''GPIO_CTRL'', 0x130), (''GPIO_OE'', 0x134),
     (''GPIO_DATAIN'', 0x138), (''GPIO_DATAOUT'', 0x13c), (''GPIO_LEVELDETECT0'', 0x140),
     (''GPIO_LEVELDETECT1'', 0x144), (''GPIO_RISINGDETECT'', 0x148),
     (''GPIO_FALLINGDETECT'', 0x14c), (''GPIO_DEBOUNCENABLE'', 0x150),
     (''GPIO_DEBOUNCINGTIME'', 0x154), (''NON_USE_63'', 0x158), (''NON_USE_64'', 0x15c),
     (''NON_USE_65'', 0x160), (''NON_USE_66'', 0x164), (''NON_USE_67'', 0x168),
     (''NON_USE_68'', 0x16c), (''NON_USE_69'', 0x170), (''NON_USE_70'', 0x174),
     (''NON_USE_71'', 0x178), (''NON_USE_72'', 0x17c), (''NON_USE_73'', 0x180),
     (''NON_USE_74'', 0x184), (''NON_USE_75'', 0x188), (''NON_USE_76'', 0x18c),
     (''GPIO_CLEARDATAOUT'', 0x190), (''GPIO_SETDATAOUT'', 0x194)]"

definition CM_PER_T :: "(string \<times> nat) list" where
  "CM_PER_T =
    [
     (''CM_PER_L4LS_CLKSTCTRL'', 0x0), (''CM_PER_L3S_CLKSTCTRL'', 0x4), (''NON_USE_1'', 0x8),
     (''CM_PER_L3_CLKSTCTRL'', 0xc), (''NON_USE_2'', 0x10), (''CM_PER_CPGMAC0_CLKCTRL'', 0x14),
     (''CM_PER_LCDC_CLKCTRL'', 0x18), (''CM_PER_USB0_CLKCTRL'', 0x1c), (''NON_USE_3'', 0x20),
     (''CM_PER_TPTC0_CLKCTRL'', 0x24), (''CM_PER_EMIF_CLKCTRL'', 0x28),
     (''CM_PER_OCMCRAM_CLKCTRL'', 0x2c), (''CM_PER_GPMC_CLKCTRL'', 0x30),
     (''CM_PER_MCASP0_CLKCTRL'', 0x34), (''CM_PER_UART5_CLKCTRL'', 0x38),
     (''CM_PER_MMC0_CLKCTRL'', 0x3c), (''CM_PER_ELM_CLKCTRL'', 0x40),
     (''CM_PER_I2C2_CLKCTRL'', 0x44), (''CM_PER_I2C1_CLKCTRL'', 0x48),
     (''CM_PER_SPI0_CLKCTRL'', 0x4c), (''CM_PER_SPI1_CLKCTRL'', 0x50), (''NON_USE_4'', 0x54),
     (''NON_USE_5'', 0x58), (''NON_USE_6'', 0x5c), (''CM_PER_L4LS_CLKCTRL'', 0x60),
     (''NON_USE_28'', 0x64), (''CM_PER_MCASP1_CLKCTRL'', 0x68), (''CM_PER_UART1_CLKCTRL'', 0x6c),
     (''CM_PER_UART2_CLKCTRL'', 0x70), (''CM_PER_UART3_CLKCTRL'', 0x74),
     (''CM_PER_UART4_CLKCTRL'', 0x78), (''CM_PER_TIMER7_CLKCTRL'', 0x7c),
     (''CM_PER_TIMER2_CLKCTRL'', 0x80), (''CM_PER_TIMER3_CLKCTRL'', 0x84),
     (''CM_PER_TIMER4_CLKCTRL'', 0x88), (''NON_USE_7'', 0x8c), (''NON_USE_8'', 0x90),
     (''NON_USE_9'', 0x94), (''NON_USE_10'', 0x98), (''NON_USE_11'', 0x9c), (''NON_USE_12'', 0xa0),
     (''NON_USE_13'', 0xa4), (''NON_USE_14'', 0xa8), (''CM_PER_GPIO1_CLKCTRL'', 0xac),
     (''CM_PER_GPIO2_CLKCTRL'', 0xb0), (''CM_PER_GPIO3_CLKCTRL'', 0xb4), (''NON_USE_15'', 0xb8),
     (''CM_PER_TPCC_CLKCTRL'', 0xbc), (''CM_PER_DCAN0_CLKCTRL'', 0xc0),
     (''CM_PER_DCAN1_CLKCTRL'', 0xc4), (''NON_USE_16'', 0xc8), (''CM_PER_EPWMSS1_CLKCTRL'', 0xcc),
     (''NON_USE_18'', 0xd0), (''CM_PER_EPWMSS0_CLKCTRL'', 0xd4),
     (''CM_PER_EPWMSS2_CLKCTRL'', 0xd8), (''CM_PER_L3_INSTR_CLKCTRL'', 0xdc),
     (''CM_PER_L3_CLKCTRL'', 0xe0), (''CM_PER_IEEE5000_CLKCTRL'', 0xe4),
     (''CM_PER_PRU_ICSS_CLKCTRL'', 0xe8), (''CM_PER_TIMER5_CLKCTRL'', 0xec),
     (''CM_PER_TIMER6_CLKCTRL'', 0xf0), (''CM_PER_MMC1_CLKCTRL'', 0xf4),
     (''CM_PER_MMC2_CLKCTRL'', 0xf8), (''CM_PER_TPTC1_CLKCTRL'', 0xfc),
     (''CM_PER_TPTC2_CLKCTRL'', 0x100), (''NON_USE_19'', 0x104), (''NON_USE_20'', 0x108),
     (''CM_PER_SPINLOCK_CLKCTRL'', 0x10c), (''CM_PER_MAILBOX0_CLKCTRL'', 0x110),
     (''NON_USE_21'', 0x114), (''NON_USE_22'', 0x118), (''CM_PER_L4HS_CLKSTCTRL'', 0x11c),
     (''CM_PER_L4HS_CLKCTRL'', 0x120), (''NON_USE_23'', 0x124), (''NON_USE_24'', 0x128),
     (''CM_PER_OCPWP_L3_CLKSTCTRL'', 0x12c), (''CM_PER_OCPWP_CLKCTRL'', 0x130),
     (''NON_USE_25'', 0x134), (''NON_USE_26'', 0x138), (''NON_USE_27'', 0x13c),
     (''CM_PER_PRU_ICSS_CLKSTCTRL'', 0x140), (''CM_PER_CPSW_CLKSTCTRL'', 0x144),
     (''CM_PER_LCDC_CLKSTCTRL'', 0x148), (''CM_PER_CLKDIV32K_CLKCTRL'', 0x14c),
     (''CM_PER_CLK_24MHZ_CLKSTCTRL'', 0x150)]"

definition DMTIMER_T :: "(string \<times> nat) list" where
  "DMTIMER_T =
    [
     (''TIDR'', 0x00), (''NON_USE1'', 0x04), (''NON_USE2'', 0x08), (''NON_USE3'', 0x0c),
     (''TIOCP_CFG'', 0x10), (''NON_USE4'', 0x14), (''NON_USE5'', 0x18), (''NON_USE6'', 0x1c),
     (''IRQ_EOI'', 0x20), (''IRQSTATUS_RAW'', 0x24), (''IRQSTATUS'', 0x28),
     (''IRQENABLE_SET'', 0x2c), (''IRQENABLE_CLR'', 0x30), (''IRQWAKEEN'', 0x34), (''TCLR'', 0x38),
     (''TCRR'', 0x3c), (''TLDR'', 0x40), (''TTGR'', 0x44), (''TWPS'', 0x48), (''TMAR'', 0x4c),
     (''TCAR1'', 0x50), (''TSICR'', 0x54), (''TCAR2'', 0x58)]"

section \<open>UART\<close>

definition UART_REG_T :: c_struct where
  "UART_REG_T =
    [
     [''THR'', ''RHR'', ''DLL''], [''IER_IRDA'', ''IER_CIR'', ''IER_UART'', ''DLH''],
     [''EFR'', ''IIR_UART'', ''IIR_CIR'', ''FCR'', ''IIR_IRDA''], [''LCR''],
     [''MCR'', ''XON1_ADDR1''], [''XON2_ADDR2'', ''LSR_CIR'', ''LSR_IRDA'', ''LSR_UART''],
     [''TCR'', ''MSR'', ''XOFF1''], [''SPR'', ''TLR'', ''XOFF2''], [''MDR1''], [''MDR2''],
     [''TXFLL'', ''SFLSR''], [''RESUME'', ''TXFLH''], [''RXFLL'', ''SFREGL''],
     [''SFREGH'', ''RXFLH''], [''BLR'', ''UASR''], [''ACREG''], [''SCR''], [''SSR''], [''EBLR''],
     [''MVR''], [''SYSC''], [''SYSS''], [''WER''], [''CFPS''], [''RXFIFO_LVL''], [''TXFIFO_LVL''],
     [''IER2''], [''ISR2''], [''FREQ_SEL''], [''MDR3''], [''TX_DMA_THRESHOLD'']]"

section \<open>Interrupt controller\<close>

definition INTC_regs :: "(string \<times> nat) list" where
  "INTC_regs =
    [
     (''INTC_REVISION'', 0x00), (''INTC_SYSCONFIG'', 0x10), (''INTC_SYSSTATUS'', 0x14),
     (''INTC_SIR_IRQ'', 0x40), (''INTC_SIR_FIQ'', 0x44), (''INTC_CONTROL'', 0x48),
     (''INTC_PROTECTION'', 0x4c), (''INTC_IDLE'', 0x50), (''INTC_IRQ_PRIORITY'', 0x60),
     (''INTC_FIQ_PRIORITY'', 0x64), (''INTC_THRESHOLD'', 0x68), (''INTC_ITR0'', 0x80),
     (''INTC_MIR0'', 0x84), (''INTC_MIR_CLEAR0'', 0x88), (''INTC_MIR_SET0'', 0x8c),
     (''INTC_ISR_SET0'', 0x90), (''INTC_ISR_CLEAR0'', 0x94), (''INTC_PENDING_IRQ0'', 0x98),
     (''INTC_PENDING_FIQ0'', 0x9c), (''INTC_ITR1'', 0xa0), (''INTC_MIR1'', 0xa4),
     (''INTC_MIR_CLEAR1'', 0xa8), (''INTC_MIR_SET1'', 0xac), (''INTC_ISR_SET1'', 0xb0),
     (''INTC_ISR_CLEAR1'', 0xb4), (''INTC_PENDING_IRQ1'', 0xb8), (''INTC_PENDING_FIQ1'', 0xbc),
     (''INTC_ITR2'', 0xc0), (''INTC_MIR2'', 0xc4), (''INTC_MIR_CLEAR2'', 0xc8),
     (''INTC_MIR_SET2'', 0xcc), (''INTC_ISR_SET2'', 0xd0), (''INTC_ISR_CLEAR2'', 0xd4),
     (''INTC_PENDING_IRQ2'', 0xd8), (''INTC_PENDING_FIQ2'', 0xdc), (''INTC_ITR3'', 0xe0),
     (''INTC_MIR3'', 0xe4), (''INTC_MIR_CLEAR3'', 0xe8), (''INTC_MIR_SET3'', 0xec),
     (''INTC_ISR_SET3'', 0xf0), (''INTC_ISR_CLEAR3'', 0xf4), (''INTC_PENDING_IRQ3'', 0xf8),
     (''INTC_PENDING_FIQ3'', 0xfc), (''INTC_ILR_n_BASE'', 0x100)]"

section \<open>Pin configuration\<close>

definition CONF_GPMC_T :: "string list" where
  "CONF_GPMC_T =
    [
     ''conf_gpmc_ad0'', ''conf_gpmc_ad1'', ''conf_gpmc_ad2'', ''conf_gpmc_ad3'', ''conf_gpmc_ad4'',
     ''conf_gpmc_ad5'', ''conf_gpmc_ad6'', ''conf_gpmc_ad7'', ''conf_gpmc_ad8'', ''conf_gpmc_ad9'',
     ''conf_gpmc_ad10'', ''conf_gpmc_ad11'', ''conf_gpmc_ad12'', ''conf_gpmc_ad13'',
     ''conf_gpmc_ad14'', ''conf_gpmc_ad15'', ''conf_gpmc_a0'', ''conf_gpmc_a1'', ''conf_gpmc_a2'',
     ''conf_gpmc_a3'', ''conf_gpmc_a4'', ''conf_gpmc_a5'', ''conf_gpmc_a6'', ''conf_gpmc_a7'',
     ''conf_gpmc_a8'', ''conf_gpmc_a9'', ''conf_gpmc_a10'', ''conf_gpmc_a11'', ''conf_gpmc_wait0'',
     ''conf_gpmc_wpn'', ''conf_gpmc_ben1'', ''conf_gpmc_csn0'', ''conf_gpmc_csn1'',
     ''conf_gpmc_csn2'', ''conf_gpmc_csn3'', ''conf_gpmc_clk'', ''conf_gpmc_advn_ale'',
     ''conf_gpmc_oen_ren'', ''conf_gpmc_wen'', ''conf_gpmc_ben0_cle'']"

definition CONF_LCD_T :: "string list" where
  "CONF_LCD_T =
    [
     ''conf_lcd_data0'', ''conf_lcd_data1'', ''conf_lcd_data2'', ''conf_lcd_data3'',
     ''conf_lcd_data4'', ''conf_lcd_data5'', ''conf_lcd_data6'', ''conf_lcd_data7'',
     ''conf_lcd_data8'', ''conf_lcd_data9'', ''conf_lcd_data10'', ''conf_lcd_data11'',
     ''conf_lcd_data12'', ''conf_lcd_data13'', ''conf_lcd_data14'', ''conf_lcd_data15'',
     ''conf_lcd_vsync'', ''conf_lcd_hsync'', ''conf_lcd_pclk'', ''conf_lcd_ac_bias_en'']"

definition CONF_MMC0_T :: "string list" where
  "CONF_MMC0_T =
    [
     ''conf_mmc0_dat3'', ''conf_mmc0_dat2'', ''conf_mmc0_dat1'', ''conf_mmc0_dat0'',
     ''conf_mmc0_clk'', ''conf_mmc0_cmd'']"

definition CONF_MII_T :: "string list" where
  "CONF_MII_T =
    [
     ''conf_mii1_col'', ''conf_mii1_crs'', ''conf_mii1_rx_er'', ''conf_mii1_tx_en'',
     ''conf_mii1_rx_dv'', ''conf_mii1_txd3'', ''conf_mii1_txd2'', ''conf_mii1_txd1'',
     ''conf_mii1_txd0'', ''conf_mii1_tx_clk'', ''conf_mii1_rx_clk'', ''conf_mii1_rxd3'',
     ''conf_mii1_rxd2'', ''conf_mii1_rxd1'', ''conf_mii1_rxd0'', ''conf_rmii1_ref_clk'']"

definition CONF_MD_T :: "string list" where
  "CONF_MD_T = [''conf_mdio'', ''conf_mdc'']"

definition CONF_SPI0_T :: "string list" where
  "CONF_SPI0_T =
    [
     ''conf_spi0_sclk'', ''conf_spi0_d0'', ''conf_spi0_d1'', ''conf_spi0_cs0'', ''conf_spi0_cs1'']"

definition CONF_ECAP0_T :: "string list" where
  "CONF_ECAP0_T = [''conf_ecap0_in_pwm0_out'']"

definition CONF_UART0_T :: "string list" where
  "CONF_UART0_T = [''conf_uart0_ctsn'', ''conf_uart0_rtsn'', ''conf_uart0_rxd'', ''conf_uart0_txd'']"

definition CONF_UART1_T :: "string list" where
  "CONF_UART1_T = [''conf_uart1_ctsn'', ''conf_uart1_rtsn'', ''conf_uart1_rxd'', ''conf_uart1_txd'']"

definition CONF_I2C0_T :: "string list" where
  "CONF_I2C0_T = [''conf_i2c0_sda'', ''conf_i2c0_scl'']"

definition CONF_MCASP0_T :: "string list" where
  "CONF_MCASP0_T =
    [
     ''conf_mcasp0_aclkx'', ''conf_mcasp0_fsx'', ''conf_mcasp0_axr0'', ''conf_mcasp0_ahclkr'',
     ''conf_mcasp0_aclkr'', ''conf_mcasp0_fsr'', ''conf_mcasp0_axr1'', ''conf_mcasp0_ahclkx'']"

definition CONF_XDMA_T :: "string list" where
  "CONF_XDMA_T = [''conf_xdma_event_intr0'', ''conf_xdma_event_intr1'']"

definition CONF_WARM_RSTN_T :: "string list" where
  "CONF_WARM_RSTN_T = [''conf_warmrstn'']"

definition CONF_NNMI_T :: "string list" where
  "CONF_NNMI_T = [''conf_nnmi'']"

definition CONF_T_T :: "string list" where
  "CONF_T_T =
    [
     ''conf_tms'', ''conf_tdi'', ''conf_tdo'', ''conf_tck'', ''conf_trstn'']"

definition CONF_EMU_T :: "string list" where
  "CONF_EMU_T = [''conf_emu0'', ''conf_emu1'']"

definition CONF_RTC_PWRONRSTN_T :: "string list" where
  "CONF_RTC_PWRONRSTN_T = [''conf_rtc_pwronrstn'']"

definition CONF_PMIC_POWER_EN_T :: "string list" where
  "CONF_PMIC_POWER_EN_T = [''conf_pmic_power_en'']"

definition CONF_EXT_WAKEUP_T :: "string list" where
  "CONF_EXT_WAKEUP_T = [''conf_ext_wakeup'']"

definition CONF_USB0_DRVVBUS_T :: "string list" where
  "CONF_USB0_DRVVBUS_T = [''conf_usb0_drvvbus'']"

definition CONF_USB1_DRVVBUS_T :: "string list" where
  "CONF_USB1_DRVVBUS_T = [''conf_usb1_drvvbus'']"

definition conf_pointers :: "(nat \<times> string list) list" where
  "conf_pointers =
    [
     (0x0, CONF_GPMC_T), (0x8A0, CONF_LCD_T), (0x8F0, CONF_MMC0_T), (0x908, CONF_MII_T),
     (0x948, CONF_MD_T), (0x950, CONF_SPI0_T), (0x964, CONF_ECAP0_T), (0x968, CONF_UART0_T),
     (0x978, CONF_UART1_T), (0x988, CONF_I2C0_T), (0x990, CONF_MCASP0_T), (0x9B0, CONF_XDMA_T),
     (0x9B8, CONF_WARM_RSTN_T), (0x9C0, CONF_NNMI_T), (0x9D0, CONF_T_T), (0x9E4, CONF_EMU_T),
     (0x9F8, CONF_RTC_PWRONRSTN_T), (0x9FC, CONF_PMIC_POWER_EN_T), (0xA00, CONF_EXT_WAKEUP_T),
     (0xA1C, CONF_USB0_DRVVBUS_T), (0xA34, CONF_USB1_DRVVBUS_T)]"

definition CM_CONF_BASE :: addr where
  "CM_CONF_BASE = 0x44E10800"

definition CONF_UART0_PTR :: addr where
  "CONF_UART0_PTR = pointer_add CM_CONF_BASE (plain CONF_UART0_T) 0x968"

section \<open>The UART driver at its registers\<close>

datatype STOP_BIT_T = STOP1 | STOP1_5 | STOP2
datatype PARITY_T = NONE | EVEN | ODD
datatype FLOW_CTRL_T = OFF | ON

definition UART0_BASE :: addr where
  "UART0_BASE = 0x44E09000"

definition uart_Init :: "addr \<Rightarrow> STOP_BIT_T \<Rightarrow> PARITY_T \<Rightarrow> FLOW_CTRL_T \<Rightarrow> kstate \<Rightarrow> kstate" where
  "uart_Init uartChannel stopBit parity flowControl s =
     (let s = wr32 (member CONF_UART0_PTR (plain CONF_UART0_T) ''conf_uart0_txd'') 0 s
      in wr32 (member CONF_UART0_PTR (plain CONF_UART0_T) ''conf_uart0_rxd'') (push_bit 5 1 OR push_bit 4 1) s)"

definition uart_set_baudrate :: "addr \<Rightarrow> u32 \<Rightarrow> kstate \<Rightarrow> kstate" where
  "uart_set_baudrate uartChannel baudrate s = s"

text \<open>The loops wait for a bit of the line status register to be set; \<open>None\<close> where it never is.\<close>

fun set_values :: "u32 \<Rightarrow> u32 list \<Rightarrow> u32 list option" where
  "set_values msk [] = None"
| "set_values msk (v # vs) = (if v AND msk \<noteq> msk then set_values msk vs else Some vs)"

definition wait_set :: "addr \<Rightarrow> u32 \<Rightarrow> kstate \<Rightarrow> kstate option" where
  "wait_set a msk s = map_option (\<lambda>vs. s\<lparr>dev_in := (dev_in s)(a := vs)\<rparr>) (set_values msk (dev_in s a))"

definition uart_putC :: "addr \<Rightarrow> char \<Rightarrow> kstate \<Rightarrow> kstate option" where
  "uart_putC uartChannel byte s = do {
     s \<leftarrow> wait_set (member uartChannel UART_REG_T ''LSR_UART'') (push_bit 5 1) s;
     Some (wr32 (member uartChannel UART_REG_T ''THR'') (ucast (byte_of byte)) s)
   }"

definition uart_getC_reg :: "addr \<Rightarrow> kstate \<Rightarrow> (u8 \<times> kstate) option" where
  "uart_getC_reg uartChannel s = do {
     s \<leftarrow> wait_set (member uartChannel UART_REG_T ''LSR_UART'') (push_bit 0 1) s;
     case dev_in s (member uartChannel UART_REG_T ''RHR'') of
       [] \<Rightarrow> None
     | v # vs \<Rightarrow> Some (ucast v, s\<lparr>dev_in := (dev_in s)(member uartChannel UART_REG_T ''RHR'' := vs)\<rparr>)
   }"

definition uart_tx_str_reg :: "addr \<Rightarrow> char list \<Rightarrow> nat \<Rightarrow> kstate \<Rightarrow> kstate option" where
  "uart_tx_str_reg uartChannel cells n s =
     for_each (\<lambda>i s. do { c \<leftarrow> getc (Cells cells) i s; uart_putC uartChannel c s }) [0..<n] s"

section \<open>Facts of the layout\<close>

lemma offset_of_plain:
  "distinct fs \<Longrightarrow> i < length fs \<Longrightarrow> offset_of (fs ! i) (plain fs) = Some (4 * i)"
proof (induction fs arbitrary: i)
  case (Cons f fs)
  then show ?case by (cases i) (auto simp: plain_def)
qed simp

lemma commented_offsets:
  assumes "map snd T = map (\<lambda>i. 4 * i) [0..<length T]" and "distinct (map fst T)"
  shows "list_all (\<lambda>(f, n). offset_of f (commented T) = Some n) T"
proof -
  have "offset_of (fst (T ! i)) (commented T) = Some (snd (T ! i))" if "i < length T" for i
    using offset_of_plain [OF assms(2), of i] nth_map [OF that, of fst] arg_cong [OF assms(1), of "\<lambda>xs. xs ! i"] that
    by (simp add: commented_def)
  then show ?thesis by (auto simp: list_all_length split: prod.split) (metis fst_conv snd_conv)
qed

lemma GPIO_layout: "list_all (\<lambda>(f, n). offset_of f (commented GPIO_T) = Some n) GPIO_T"
  by (rule commented_offsets; code_simp)

lemma CM_PER_layout: "list_all (\<lambda>(f, n). offset_of f (commented CM_PER_T) = Some n) CM_PER_T"
  by (rule commented_offsets; code_simp)

lemma DMTIMER_layout: "list_all (\<lambda>(f, n). offset_of f (commented DMTIMER_T) = Some n) DMTIMER_T"
  by (rule commented_offsets; code_simp)

lemma member_eq: "offset_of f T = Some n \<Longrightarrow> member base T f = base + of_nat n"
  by (simp add: member_def)

lemma member_commented:
  assumes "list_all (\<lambda>(f, n). offset_of f (commented T) = Some n) T" and "(f, n) \<in> set T"
  shows "member base (commented T) f = base + of_nat n"
  using assms by (intro member_eq) (auto simp: list_all_iff)

lemma GPIO_members:
  "member base (commented GPIO_T) ''GPIO_OE'' = base + 0x134"
  "member base (commented GPIO_T) ''GPIO_DATAOUT'' = base + 0x13C"
  "member base (commented GPIO_T) ''GPIO_CLEARDATAOUT'' = base + 0x190"
  "member base (commented GPIO_T) ''GPIO_SETDATAOUT'' = base + 0x194"
  using member_commented [OF GPIO_layout, of "''GPIO_OE''" "0x134"] member_commented [OF GPIO_layout, of "''GPIO_DATAOUT''" "0x13C"]
    member_commented [OF GPIO_layout, of "''GPIO_CLEARDATAOUT''" "0x190"] member_commented [OF GPIO_layout, of "''GPIO_SETDATAOUT''" "0x194"]
  by (simp_all add: GPIO_T_def)

lemma CM_PER_members:
  "member base (commented CM_PER_T) ''CM_PER_TIMER2_CLKCTRL'' = base + 0x80"
  "member base (commented CM_PER_T) ''CM_PER_GPIO1_CLKCTRL'' = base + 0xac"
  using member_commented [OF CM_PER_layout, of "''CM_PER_TIMER2_CLKCTRL''" "0x80"]
    member_commented [OF CM_PER_layout, of "''CM_PER_GPIO1_CLKCTRL''" "0xac"]
  by (simp_all add: CM_PER_T_def)

lemma DMTIMER_members:
  "member base (commented DMTIMER_T) ''IRQENABLE_SET'' = base + 0x2c"
  "member base (commented DMTIMER_T) ''IRQENABLE_CLR'' = base + 0x30"
  "member base (commented DMTIMER_T) ''TCLR'' = base + 0x38"
  "member base (commented DMTIMER_T) ''TCRR'' = base + 0x3c"
  "member base (commented DMTIMER_T) ''TLDR'' = base + 0x40"
  by (simp_all add: member_def DMTIMER_T_def commented_def plain_def)

lemma UART_members:
  "member base UART_REG_T ''THR'' = base" "member base UART_REG_T ''RHR'' = base"
  "member base UART_REG_T ''LSR_UART'' = base + 0x14"
  by (simp_all add: member_def UART_REG_T_def)

text \<open>The addresses of the writes that lead from \<open>s\<close> to \<open>s'\<close>.\<close>

fun write_addr :: "dev_write \<Rightarrow> addr" where
  "write_addr (Wr32 a v) = a"
| "write_addr (Wr8 a v) = a"

definition written :: "kstate \<Rightarrow> kstate \<Rightarrow> addr list" where
  "written s s' = map write_addr (drop (length (dev_log s)) (dev_log s'))"

definition bank :: "string \<Rightarrow> nat \<Rightarrow> addr" where
  "bank stem n = 0x48200000 + of_nat (the (map_of INTC_regs (stem @ ([''0'', ''1'', ''2'', ''3''] ! n))))"

definition banked :: "string list" where
  "banked = [''INTC_ITR'', ''INTC_MIR'', ''INTC_MIR_CLEAR'', ''INTC_MIR_SET'', ''INTC_ISR_SET'', ''INTC_ISR_CLEAR'',
     ''INTC_PENDING_IRQ'', ''INTC_PENDING_FIQ'']"

lemma banks: "list_all (\<lambda>stem. map (bank stem) [0, 1, 2, 3] = map (\<lambda>k. bank stem 0 + k) [0, 0x20, 0x40, 0x60]) banked"
  by (simp add: bank_def INTC_regs_def banked_def)

lemma bank_nth:
  assumes "stem \<in> set banked" and "n < 4"
  shows "bank stem n = bank stem 0 + 0x20 * of_nat n"
proof -
  have "map (bank stem) [0, 1, 2, 3] = map (\<lambda>k. bank stem 0 + k) [0, 0x20, 0x40, 0x60]"
    using banks assms(1) by (auto simp: list_all_iff simp del: list.map)
  moreover have "n = 0 \<or> n = 1 \<or> n = 2 \<or> n = 3" using assms(2) by linarith
  ultimately show ?thesis by auto
qed

lemma MIR_bank: "bank ''INTC_MIR_CLEAR'' 0 = 0x48200088" "bank ''INTC_MIR_SET'' 0 = 0x4820008c"
  by (simp_all add: bank_def INTC_regs_def)

lemma logged [simp]: "dev_log (wr32 a v s) = dev_log s @ [Wr32 a v]" "dev_log (wr8 a b s) = dev_log s @ [Wr8 a b]"
  by (simp_all add: wr32_def wr8_def Let_def)

lemma written_line:
  assumes "reg0 = 0x88 \<and> stem = ''INTC_MIR_CLEAR'' \<or> reg0 = 0x8c \<and> stem = ''INTC_MIR_SET''"
  shows "written s (irq_line_write reg0 irq_id s) = (if unat irq_id < 128 then [bank stem (unat irq_id div 32)] else [])"
proof -
  have g: "unat (drop_bit 5 irq_id) = unat irq_id div 32" by (simp add: drop_bit_eq_div unat_div)
  have "bank stem (unat irq_id div 32) = 0x48200000 + (reg0 + 0x20 * of_nat (unat irq_id div 32))" if "unat irq_id < 128"
    using assms that bank_nth [of stem "unat irq_id div 32"] MIR_bank by (auto simp: banked_def)
  moreover have "unat irq_id div 32 \<in> {0, 1, 2, 3} \<longleftrightarrow> unat irq_id < 128" by auto
  ultimately show ?thesis unfolding irq_line_write_def Let_def g by (auto simp: written_def)
qed

text \<open>The interrupt controller and the LEDs are written at the members that the source names.\<close>

lemma lines_written:
  "written s (enable_irq_id irq s) = (if unat irq < 128 then [bank ''INTC_MIR_CLEAR'' (unat irq div 32)] else [])"
  "written s (disable_irq_id irq s) = (if unat irq < 128 then [bank ''INTC_MIR_SET'' (unat irq div 32)] else [])"
  by (simp_all add: enable_irq_id_def disable_irq_id_def written_line)

lemma leds_written:
  "written s (usrled_init s) = [member 0x44e00000 (commented CM_PER_T) ''CM_PER_GPIO1_CLKCTRL'', member 0x4804C000 (commented GPIO_T) ''GPIO_OE'']"
  "written s (usrled_blink s) = map (member 0x4804C000 (commented GPIO_T)) [''GPIO_SETDATAOUT'', ''GPIO_CLEARDATAOUT'']"
  "written s (toggle_usrled led s) = [member 0x4804C000 (commented GPIO_T) ''GPIO_DATAOUT'']"
  by (simp_all add: CM_PER_members GPIO_members written_def Let_def usrled_init_def usrled_blink_def toggle_usrled_def)

section \<open>Pin configuration\<close>

lemmas conf_structs = CONF_GPMC_T_def CONF_LCD_T_def CONF_MMC0_T_def CONF_MII_T_def CONF_MD_T_def CONF_SPI0_T_def
  CONF_ECAP0_T_def CONF_UART0_T_def CONF_UART1_T_def CONF_I2C0_T_def CONF_MCASP0_T_def CONF_XDMA_T_def
  CONF_WARM_RSTN_T_def CONF_NNMI_T_def CONF_T_T_def CONF_EMU_T_def CONF_RTC_PWRONRSTN_T_def CONF_PMIC_POWER_EN_T_def
  CONF_EXT_WAKEUP_T_def CONF_USB0_DRVVBUS_T_def CONF_USB1_DRVVBUS_T_def

lemma conf_words:
  "map (\<lambda>(n, T). (n, length T)) conf_pointers = [(0, 40), (0x8A0, 20), (0x8F0, 6), (0x908, 16), (0x948, 2), (0x950, 5),
     (0x964, 1), (0x968, 4), (0x978, 4), (0x988, 2), (0x990, 8), (0x9B0, 2), (0x9B8, 1), (0x9C0, 1), (0x9D0, 5),
     (0x9E4, 2), (0x9F8, 1), (0x9FC, 1), (0xA00, 1), (0xA1C, 1), (0xA34, 1)]"
  by (simp add: conf_pointers_def conf_structs)

definition CM_BASE :: addr where
  "CM_BASE = 0x44E10000"

lemma conf_misplaced: "list_all (\<lambda>(n, T). pointer_add CM_CONF_BASE (plain T) n \<noteq> CM_BASE + of_nat n) (tl conf_pointers)"
proof -
  have "list_all (\<lambda>(n, k). CM_CONF_BASE + of_nat (n * (4 * k)) \<noteq> CM_BASE + of_nat n) (tl (map (\<lambda>(n, T). (n, length T)) conf_pointers))"
    unfolding conf_words by (simp add: CM_CONF_BASE_def CM_BASE_def)
  then show ?thesis
    by (simp add: map_tl [symmetric] list_all_iff pointer_add_def sizeof_def plain_def case_prod_unfold)
qed

lemma conf_tiled: "sorted_wrt (\<lambda>(m, T) (n, U). m + sizeof (plain T) \<le> n) ((0x800, CONF_GPMC_T) # tl conf_pointers)"
proof -
  have "sorted_wrt (\<lambda>(m, k) (n, l). m + 4 * k \<le> n) ((0x800, 40) # tl (map (\<lambda>(n, T). (n, length T)) conf_pointers))"
    unfolding conf_words by simp
  moreover have "(0x800, 40) # tl (map (\<lambda>(n, T). (n, length T)) conf_pointers)
      = map (\<lambda>(n, T). (n, length T)) ((0x800, CONF_GPMC_T) # tl conf_pointers)"
    by (simp add: map_tl CONF_GPMC_T_def)
  ultimately show ?thesis by (simp add: sorted_wrt_map sizeof_def plain_def case_prod_unfold)
qed

text \<open>
  Read as byte offsets from the control module, the offsets of the pin-configuration macros
  lay the structures out one behind the other, but the macros add them to a structure pointer, so
  all but the first point elsewhere; \<open>uart_Init\<close> writes 0x9514 bytes above the two pad registers of
  the UART and leaves these as they were.
\<close>

theorem conf_pointers_scaled:
  "sorted_wrt (\<lambda>(m, T) (n, U). m + sizeof (plain T) \<le> n) ((0x800, CONF_GPMC_T) # tl conf_pointers)
   \<and> list_all (\<lambda>(n, T). pointer_add CM_CONF_BASE (plain T) n \<noteq> CM_BASE + of_nat n) (tl conf_pointers)
   \<and> (let pad = member (CM_BASE + 0x968) (plain CONF_UART0_T); s' = uart_Init ch st pr fl s
      in written s s' = [0x44E19E8C, 0x44E19E88] \<and> [pad ''conf_uart0_txd'', pad ''conf_uart0_rxd''] = [0x44E10974, 0x44E10970]
        \<and> map (dev_reg s' \<circ> pad) CONF_UART0_T = map (dev_reg s \<circ> pad) CONF_UART0_T)"
proof -
  have pads: "member b (plain CONF_UART0_T) ''conf_uart0_ctsn'' = b" "member b (plain CONF_UART0_T) ''conf_uart0_rtsn'' = b + 4"
    "member b (plain CONF_UART0_T) ''conf_uart0_rxd'' = b + 8" "member b (plain CONF_UART0_T) ''conf_uart0_txd'' = b + 12" for b
    by (simp_all add: member_def plain_def CONF_UART0_T_def)
  have p: "CONF_UART0_PTR = 0x44E19E80" by (simp add: CONF_UART0_PTR_def pointer_add_def sizeof_def plain_def CONF_UART0_T_def CM_CONF_BASE_def)
  have fs: "map g CONF_UART0_T = [g ''conf_uart0_ctsn'', g ''conf_uart0_rtsn'', g ''conf_uart0_rxd'', g ''conf_uart0_txd'']" for g :: "string \<Rightarrow> u32"
    by (simp add: CONF_UART0_T_def)
  have s': "written s (uart_Init ch st pr fl s) = [0x44E19E8C, 0x44E19E88]"
    by (simp add: uart_Init_def pads p written_def)
  have "dev_reg (uart_Init ch st pr fl s) a = dev_reg s a" if "a < 0x44E19E80" for a
    using that by (auto simp: uart_Init_def pads p wr32_def)
  then show ?thesis unfolding Let_def fs o_apply pads CM_BASE_def [symmetric] using conf_tiled conf_misplaced s'
    by (simp add: CM_BASE_def)
qed

section \<open>The UART driver refines the console\<close>

text \<open>
  The kernel model sends a character with \<open>print_char\<close>. At register level this is \<open>uart_putC\<close>;
  \<open>uart_abs\<close> forgets the registers and keeps the characters written to the transmit register.
\<close>

fun sent :: "dev_write list \<Rightarrow> char list" where
  "sent [] = []"
| "sent (Wr32 a v # ws) = (if a = UART0_BASE then of_byte (ucast v) # sent ws else sent ws)"
| "sent (Wr8 a v # ws) = sent ws"

definition uart_abs :: "kstate \<Rightarrow> kstate" where
  "uart_abs s = s\<lparr>uart_tx := sent (dev_log s), dev_reg := (\<lambda>_. 0), dev_log := [], dev_in := (\<lambda>_. [])\<rparr>"

text \<open>How often the hardware will report the bits of \<open>msk\<close> as set.\<close>

definition answers :: "u32 \<Rightarrow> addr \<Rightarrow> kstate \<Rightarrow> nat" where
  "answers msk a s = length (filter (\<lambda>v. v AND msk = msk) (dev_in s a))"

lemma sent_append: "sent (xs @ ys) = sent xs @ sent ys"
  by (induction xs rule: sent.induct) simp_all

lemma set_values_eq:
  "case set_values msk vs of None \<Rightarrow> filter (\<lambda>v. v AND msk = msk) vs = []
   | Some ws \<Rightarrow> Suc (length (filter (\<lambda>v. v AND msk = msk) ws)) = length (filter (\<lambda>v. v AND msk = msk) vs)"
  by (induction vs) (auto split: option.splits)

lemma uart_putC_abs:
  assumes "answers 0x20 (UART0_BASE + 0x14) s = n"
  shows "case uart_putC UART0_BASE c s of None \<Rightarrow> n = 0
    | Some s' \<Rightarrow> uart_abs s' = print_char c (uart_abs s) \<and> Suc (answers 0x20 (UART0_BASE + 0x14) s') = n"
proof (cases "set_values 0x20 (dev_in s (UART0_BASE + 0x14))")
  case None
  then show ?thesis using assms set_values_eq [of "0x20" "dev_in s (UART0_BASE + 0x14)"]
    by (simp add: uart_putC_def wait_set_def UART_members answers_def)
next
  case (Some ws)
  have "(ucast (ucast (byte_of c) :: u32) :: u8) = byte_of c" by (intro bit_eqI) (simp add: bit_simps)
  then show ?thesis using assms Some set_values_eq [of "0x20" "dev_in s (UART0_BASE + 0x14)"]
    by (simp add: uart_putC_def wait_set_def UART_members answers_def uart_abs_def print_char_def sent_append wr32_def)
qed

text \<open>
  C28: sending a string through the UART registers refines the console of the kernel model: as
  long as the hardware reports an empty transmit register for each character, the characters
  written to it are the ones that the abstract \<open>uart_tx_str\<close> appends; if it does so less often, the
  driver waits for ever.
\<close>

theorem uart_registers_refine:
  "map_option uart_abs (uart_tx_str_reg UART0_BASE cells n s)
     = (if n \<le> answers 0x20 (UART0_BASE + 0x14) s then uart_tx_str cells n (uart_abs s) else None)"
proof -
  have loop: "case for_each (\<lambda>i s. do { c \<leftarrow> getc (Cells cells) i s; uart_putC UART0_BASE c s }) [0..<k] s of
      None \<Rightarrow> uart_tx_str cells k (uart_abs s) = None \<or> answers 0x20 (UART0_BASE + 0x14) s < k
    | Some s' \<Rightarrow> uart_tx_str cells k (uart_abs s) = Some (uart_abs s') \<and> answers 0x20 (UART0_BASE + 0x14) s = answers 0x20 (UART0_BASE + 0x14) s' + k" for k
  proof (induction k)
    case 0
    then show ?case by (simp add: uart_tx_str_def)
  next
    case (Suc k)
    show ?case
    proof (cases "for_each (\<lambda>i s. do { c \<leftarrow> getc (Cells cells) i s; uart_putC UART0_BASE c s }) [0..<k] s")
      case None
      then show ?thesis using Suc by (auto simp: for_each_append uart_tx_str_def)
    next
      case (Some t)
      then show ?thesis using Suc uart_putC_abs [OF refl, where c = "cells ! k" and s = t]
        by (cases "k < length cells"; cases "uart_putC UART0_BASE (cells ! k) t") (simp_all add: for_each_append uart_tx_str_def)
    qed
  qed
  show ?thesis using loop [of n] unfolding uart_tx_str_reg_def by (auto split: option.splits)
qed

end
