(* ===== verification/Timers.thy ===== *)
theory Timers
  imports Registers
begin

text \<open>
  The timers behind \<^verbatim>\<open>src/src/driver/timer.c\<close>. A timer of the AM335x is a device of its own: it takes the words that
  the driver writes to its registers, at the offsets of \<^verbatim>\<open>DMTIMER_T\<close>, and counts with its clock. The reference
  does not know registers: its timer has a period and the number of clock cycles left, and fires when none is left.
  The driver with the device refines it, for any sequence of calls and clock cycles.
\<close>

unbundle bit_operations_syntax

section \<open>The device\<close>

text \<open>
  What the manual of the AM335x says of the registers that the driver writes: a one to bit 1 of \<^verbatim>\<open>IRQENABLE_SET\<close> enables the overflow
  interrupt, to bit 1 of \<^verbatim>\<open>IRQENABLE_CLR\<close> disables it; bits 0 and 1 of \<^verbatim>\<open>TCLR\<close> are start and auto-reload; \<^verbatim>\<open>TLDR\<close> is the value
  that is loaded on overflow, \<^verbatim>\<open>TCRR\<close> the counter. \<open>tm_fired\<close> counts the overflow interrupts.
\<close>

record timer_dev =
  tm_irq :: bool
  tm_run :: bool
  tm_auto :: bool
  tm_load :: u32
  tm_count :: u32
  tm_fired :: nat

fun timer_takes :: "addr \<Rightarrow> dev_write \<Rightarrow> timer_dev \<Rightarrow> timer_dev" where
  "timer_takes tmr (Wr32 a v) d =
     (let reg = member tmr (commented DMTIMER_T)
      in if a = reg ''IRQENABLE_SET'' then d\<lparr>tm_irq := tm_irq d \<or> bit v 1\<rparr>
         else if a = reg ''IRQENABLE_CLR'' then d\<lparr>tm_irq := tm_irq d \<and> \<not> bit v 1\<rparr>
         else if a = reg ''TCLR'' then d\<lparr>tm_run := bit v 0, tm_auto := bit v 1\<rparr>
         else if a = reg ''TLDR'' then d\<lparr>tm_load := v\<rparr>
         else if a = reg ''TCRR'' then d\<lparr>tm_count := v\<rparr>
         else d)"
| "timer_takes tmr (Wr8 a v) d = d"

text \<open>A clock cycle. Without auto-reload the timer stops on overflow, at zero.\<close>

definition timer_clock :: "timer_dev \<Rightarrow> timer_dev" where
  "timer_clock d =
     (if \<not> tm_run d then d
      else if tm_count d = NOT 0 then d\<lparr>tm_count := (if tm_auto d then tm_load d else 0), tm_run := tm_auto d,
        tm_fired := tm_fired d + (if tm_irq d then 1 else 0)\<rparr>
      else d\<lparr>tm_count := tm_count d + 1\<rparr>)"

section \<open>Calls of the driver\<close>

datatype timer_event = Init addr u32 | Start addr | Disable addr | Tick addr | Reload u32 | Cycle

fun drive :: "timer_event \<Rightarrow> kstate \<Rightarrow> kstate" where
  "drive (Init tmr msecs) s = timer_init tmr msecs s"
| "drive (Start tmr) s = timer_start tmr s"
| "drive (Disable tmr) s = timer_disable tmr s"
| "drive (Tick tmr) s = ostick_init tmr s"
| "drive (Reload msecs) s = reload_ostick msecs s"
| "drive Cycle s = s"

text \<open>The kernel with the device at \<open>tmr\<close>, which takes the words that the call has added to the log.\<close>

fun timer_step :: "addr \<Rightarrow> timer_event \<Rightarrow> kstate \<times> timer_dev \<Rightarrow> kstate \<times> timer_dev" where
  "timer_step tmr e (s, d) =
     (let s' = drive e s; d' = fold (timer_takes tmr) (drop (length (dev_log s)) (dev_log s')) d
      in (s', if e = Cycle then timer_clock d' else d'))"

text \<open>The arguments that occur: one of the two timers, and a time whose number of cycles fits the counter.\<close>

fun event_ok :: "timer_event \<Rightarrow> bool" where
  "event_ok (Init tmr msecs) = (tmr \<in> {DMTIMER0_BASE, DMTIMER2_BASE} \<and> unat msecs < 131072)"
| "event_ok (Start tmr) = (tmr \<in> {DMTIMER0_BASE, DMTIMER2_BASE})"
| "event_ok (Disable tmr) = (tmr \<in> {DMTIMER0_BASE, DMTIMER2_BASE})"
| "event_ok (Tick tmr) = (tmr \<in> {DMTIMER0_BASE, DMTIMER2_BASE})"
| "event_ok (Reload msecs) = (unat msecs < 131072)"
| "event_ok Cycle = True"

section \<open>The reference\<close>

record clock_spec =
  enabled :: bool
  running :: bool
  periodic :: bool
  period :: nat
  left :: nat
  fired :: nat

text \<open>The cycles of a 32768 Hz clock in \<open>ms\<close> milliseconds, and the one in which the counter overflows.\<close>

definition cycles :: "nat \<Rightarrow> nat" where
  "cycles ms = 32768 * ms div 1000 + 1"

definition spec_cycle :: "clock_spec \<Rightarrow> clock_spec" where
  "spec_cycle c =
     (if \<not> running c then c
      else if left c = 1 then c\<lparr>left := (if periodic c then period c else 2 ^ 32), running := periodic c,
        fired := fired c + (if enabled c then 1 else 0)\<rparr>
      else c\<lparr>left := left c - 1\<rparr>)"

fun spec_step :: "addr \<Rightarrow> timer_event \<Rightarrow> clock_spec \<Rightarrow> clock_spec" where
  "spec_step tmr (Init b ms) c = (if b = tmr
     then c\<lparr>enabled := True, running := True, periodic := True, period := cycles (unat ms), left := cycles (unat ms)\<rparr> else c)"
| "spec_step tmr (Start b) c = (if b = tmr then c\<lparr>running := True\<rparr> else c)"
| "spec_step tmr (Disable b) c = (if b = tmr then c\<lparr>enabled := False, running := False, periodic := False, period := 2 ^ 32\<rparr> else c)"
| "spec_step tmr (Tick b) c = (if b = tmr then c\<lparr>enabled := True, running := True, periodic := True, period := cycles 100\<rparr> else c)"
| "spec_step tmr (Reload ms) c = (if tmr = DMTIMER0_BASE then c\<lparr>left := cycles (unat ms)\<rparr> else c)"
| "spec_step tmr Cycle c = spec_cycle c"

definition timer_abs :: "timer_dev \<Rightarrow> clock_spec" where
  "timer_abs d = \<lparr>enabled = tm_irq d, running = tm_run d, periodic = tm_auto d, period = 2 ^ 32 - unat (tm_load d),
     left = 2 ^ 32 - unat (tm_count d), fired = tm_fired d\<rparr>"

section \<open>Refinement\<close>

text \<open>The driver reads \<^verbatim>\<open>TCLR\<close> back before it starts a timer; the hardware never changes the auto-reload bit.\<close>

definition in_step :: "addr \<Rightarrow> kstate \<Rightarrow> timer_dev \<Rightarrow> bool" where
  "in_step tmr s d \<longleftrightarrow> tm_auto d = bit (rd32 (member tmr (commented DMTIMER_T) ''TCLR'') s) 1"

lemma load_cycles: "unat ms < 131072 \<Longrightarrow> 2 ^ 32 - unat (timer_load ms) = cycles (unat ms)"
  using timer_load_ticks [of ms] by (simp add: cycles_def)

lemma left_cycles:
  fixes x :: u32
  shows "2 ^ 32 - unat x = 1 \<longleftrightarrow> x = NOT 0" "x \<noteq> NOT 0 \<Longrightarrow> 2 ^ 32 - unat (x + 1) = 2 ^ 32 - unat x - 1"
proof -
  have m: "unat (NOT 0 :: u32) = 2 ^ 32 - 1" by (simp add: unsigned_minus_1_eq_mask mask_eq_exp_minus_1)
  have b: "unat x < 2 ^ 32" using unsigned_less [of x] by simp
  have "2 ^ 32 - unat x = 1 \<longleftrightarrow> unat x = unat (NOT 0 :: u32)" unfolding m using b by auto
  then show "2 ^ 32 - unat x = 1 \<longleftrightarrow> x = NOT 0" unfolding word_unat_eq_iff [symmetric] .
  assume "x \<noteq> NOT 0"
  then have "unat x \<noteq> 2 ^ 32 - 1" using m by (metis word_unat_eq_iff)
  then have "unat (x + 1) = unat x + 1" using b by (simp add: unat_word_ariths)
  then show "2 ^ 32 - unat (x + 1) = 2 ^ 32 - unat x - 1" by simp
qed

lemma clock_refines: "timer_abs (timer_clock d) = spec_cycle (timer_abs d)"
proof (cases "tm_count d = NOT 0")
  case True
  then have "2 ^ 32 - unat (tm_count d) = 1" using left_cycles(1) by blast
  with True show ?thesis by (simp add: timer_abs_def timer_clock_def spec_cycle_def)
next
  case False
  then have "2 ^ 32 - unat (tm_count d) \<noteq> 1" "2 ^ 32 - unat (tm_count d + 1) = 2 ^ 32 - unat (tm_count d) - 1"
    using left_cycles by blast+
  with False show ?thesis by (simp add: timer_abs_def timer_clock_def spec_cycle_def)
qed

lemma takes_at [simp]:
  "timer_takes tmr (Wr32 (tmr + 0x2c) v) d = d\<lparr>tm_irq := tm_irq d \<or> bit v 1\<rparr>"
  "timer_takes tmr (Wr32 (tmr + 0x30) v) d = d\<lparr>tm_irq := tm_irq d \<and> \<not> bit v 1\<rparr>"
  "timer_takes tmr (Wr32 (tmr + 0x38) v) d = d\<lparr>tm_run := bit v 0, tm_auto := bit v 1\<rparr>"
  "timer_takes tmr (Wr32 (tmr + 0x40) v) d = d\<lparr>tm_load := v\<rparr>"
  "timer_takes tmr (Wr32 (tmr + 0x3c) v) d = d\<lparr>tm_count := v\<rparr>"
  by (simp_all add: DMTIMER_members)

text \<open>The offsets of the five registers.\<close>

definition offsets :: "addr set" where
  "offsets = {0x2c, 0x30, 0x38, 0x40, 0x3c}"

lemma takes_other:
  "\<forall>k \<in> offsets. a \<noteq> tmr + k \<Longrightarrow> timer_takes tmr (Wr32 a v) d = d"
  by (simp add: DMTIMER_members offsets_def)

lemma offsets_mem [simp]:
  "0x2c \<in> offsets" "0x30 \<in> offsets" "0x38 \<in> offsets" "0x40 \<in> offsets" "0x3c \<in> offsets"
  "b + j \<in> (+) b ` offsets \<longleftrightarrow> j \<in> offsets"
  by (auto simp: offsets_def)

declare timer_takes.simps(1) [simp del] and timer_step.simps [simp del]

text \<open>What each call adds to the log, and what \<^verbatim>\<open>TCLR\<close> reads as afterwards.\<close>

definition calls :: "timer_event \<Rightarrow> kstate \<Rightarrow> dev_write list" where
  "calls e s = drop (length (dev_log s)) (dev_log (drive e s))"

lemma calls_eq:
  "calls (Init b ms) s = [Wr32 0x44e00080 (rd32 0x44e00080 s OR 2), Wr32 (b + 0x2c) 2, Wr32 (b + 0x38) 2,
     Wr32 (b + 0x40) (timer_load ms), Wr32 (b + 0x3c) (timer_load ms), Wr32 (b + 0x38) 3]"
  "calls (Start b) s = [Wr32 (b + 0x38) (rd32 (b + 0x38) s OR 1)]"
  "calls (Disable b) s = [Wr32 (b + 0x38) 0, Wr32 (b + 0x40) 0, Wr32 (b + 0x30) 2]"
  "calls (Tick b) s = [Wr32 (b + 0x2c) 2, Wr32 (b + 0x38) 2, Wr32 (b + 0x40) (timer_load 100), Wr32 (b + 0x38) 3]"
  "calls (Reload ms) s = [Wr32 0x44E0503c (timer_load ms)]"
  "calls Cycle s = []"
  by (simp_all add: calls_def timer_init_def timer_start_def timer_disable_def ostick_init_def timer_load_def reload_ostick_def Let_def rd32_def wr32_def)

lemma tclr_after:
  "rd32 (b + 0x38) (timer_init b ms s) = 3" "rd32 (b + 0x38) (timer_start b s) = rd32 (b + 0x38) s OR 1"
  "rd32 (b + 0x38) (timer_disable b s) = 0" "rd32 (b + 0x38) (ostick_init b s) = 3"
  by (simp_all add: timer_init_def timer_start_def timer_disable_def ostick_init_def Let_def rd32_def wr32_def)

lemma tclr_kept:
  assumes "\<forall>w \<in> set (calls e s). write_addr w \<noteq> a"
  shows "rd32 a (drive e s) = rd32 a s"
  using assms
  by (cases e) (auto simp: calls_eq timer_init_def timer_start_def timer_disable_def ostick_init_def reload_ostick_def Let_def rd32_def wr32_def)

lemma fold_other:
  "\<forall>w \<in> set ws. \<forall>k \<in> offsets. write_addr w \<noteq> tmr + k \<Longrightarrow> fold (timer_takes tmr) ws d = d"
proof (induction ws)
  case (Cons w ws)
  then show ?case by (cases w) (simp_all add: takes_other)
qed simp

lemma timer_apart:
  assumes "b \<in> {DMTIMER0_BASE, DMTIMER2_BASE}" and "tmr \<in> {DMTIMER0_BASE, DMTIMER2_BASE}" and "b \<noteq> tmr"
    and "j \<in> offsets" and "k \<in> offsets"
  shows "b + j \<noteq> tmr + k"
  using assms by (auto simp: offsets_def)

lemma clock_apart:
  "tmr \<in> {DMTIMER0_BASE, DMTIMER2_BASE} \<Longrightarrow> k \<in> offsets \<Longrightarrow> 0x44e00080 \<noteq> tmr + k"
  by (auto simp: offsets_def)

lemma other_timer:
  assumes "b \<in> {DMTIMER0_BASE, DMTIMER2_BASE}" and "tmr \<in> {DMTIMER0_BASE, DMTIMER2_BASE}" and "b \<noteq> tmr"
    and "set (map write_addr (calls e s)) \<subseteq> insert 0x44e00080 ((+) b ` offsets)"
  shows "fold (timer_takes tmr) (calls e s) d = d" "rd32 (tmr + 0x38) (drive e s) = rd32 (tmr + 0x38) s"
proof -
  have a: "write_addr w \<noteq> tmr + k" if "w \<in> set (calls e s)" "k \<in> offsets" for w k
  proof -
    have "write_addr w \<in> insert 0x44e00080 ((+) b ` offsets)" 
      by (rule subsetD [OF assms(4)]) (use that(1) in simp)
    then consider "write_addr w = 0x44e00080" | j where "write_addr w = b + j" "j \<in> offsets" by (elim insertE imageE)
    then show ?thesis using timer_apart [OF assms(1-3) _ that(2)] clock_apart [OF assms(2) that(2)] by cases auto
  qed
  show "fold (timer_takes tmr) (calls e s) d = d" 
    by (rule fold_other) (use a in blast)
  show "rd32 (tmr + 0x38) (drive e s) = rd32 (tmr + 0x38) s" by (rule tclr_kept) (use a offsets_mem(3) in blast)
qed

lemma in_step_iff: "in_step tmr s d \<longleftrightarrow> tm_auto d = bit (rd32 (tmr + 0x38) s) 1"
  by (simp add: in_step_def DMTIMER_members)

lemma step_eq: "timer_step tmr e (s, d) =
    (drive e s, if e = Cycle then timer_clock d else fold (timer_takes tmr) (calls e s) d)"
  by (cases e) (simp_all add: timer_step.simps calls_def Let_def)

fun timer_of :: "timer_event \<Rightarrow> addr" where
  "timer_of (Init b ms) = b"
| "timer_of (Start b) = b"
| "timer_of (Disable b) = b"
| "timer_of (Tick b) = b"
| "timer_of (Reload ms) = DMTIMER0_BASE"
| "timer_of Cycle = NULL"

text \<open>A call on one timer does not reach the other.\<close>

lemma step_other:
  assumes "tmr \<in> {DMTIMER0_BASE, DMTIMER2_BASE}" and "event_ok e" and "e \<noteq> Cycle" and "timer_of e \<noteq> tmr"
  shows "timer_abs (fold (timer_takes tmr) (calls e s) d) = spec_step tmr e (timer_abs d)" "rd32 (tmr + 0x38) (drive e s) = rd32 (tmr + 0x38) s"
    "fold (timer_takes tmr) (calls e s) d = d"
proof -
  have b: "timer_of e \<in> {DMTIMER0_BASE, DMTIMER2_BASE}" using assms(2,3) by (cases e) auto
  have "set (map write_addr (calls e s)) \<subseteq> insert 0x44e00080 ((+) (timer_of e) ` offsets)"
    using assms(3) by (cases e) (auto simp: calls_eq)
  note o = other_timer [OF b assms(1,4) this]
  show "fold (timer_takes tmr) (calls e s) d = d" "rd32 (tmr + 0x38) (drive e s) = rd32 (tmr + 0x38) s" by (fact o)+
  show "timer_abs (fold (timer_takes tmr) (calls e s) d) = spec_step tmr e (timer_abs d)"
    unfolding o(1) using assms(3,4) by (cases e) auto
qed

lemma step_same:
  assumes "tmr \<in> {DMTIMER0_BASE, DMTIMER2_BASE}" and "event_ok e" and "e \<noteq> Cycle" and "timer_of e = tmr"
    and "(\<exists>b ms. e = Init b ms \<or> e = Tick b) \<or> in_step tmr s d" and "d' = fold (timer_takes tmr) (calls e s) d"
  shows "timer_abs d' = spec_step tmr e (timer_abs d)" "in_step tmr (drive e s) d'"
proof -
  have c: "2 ^ 32 - unat (timer_load 100) = cycles 100" using load_cycles [of 100] by simp
  have k: "timer_takes tmr (Wr32 0x44e00080 v) d = d" for v by (rule takes_other) (use clock_apart [OF assms(1)] in blast)
  have "timer_abs d' = spec_step tmr e (timer_abs d) \<and> in_step tmr (drive e s) d'"
  proof (cases e)
    case (Init b ms)
    then have "2 ^ 32 - unat (timer_load ms) = cycles (unat ms)" using assms(2) load_cycles by simp
    then show ?thesis using assms(4,6) Init k by (simp add: calls_eq timer_abs_def in_step_iff tclr_after bit_numeral_rec)
  next
    case (Start b)
    then show ?thesis using assms(4-6) by (simp add: calls_eq timer_abs_def in_step_iff tclr_after bit_simps)
  next
    case (Disable b)
    then show ?thesis using assms(4,6) by (simp add: calls_eq timer_abs_def in_step_iff tclr_after bit_numeral_rec)
  next
    case (Tick b)
    then show ?thesis using assms(4,6) c by (simp add: calls_eq timer_abs_def in_step_iff tclr_after bit_numeral_rec)
  next
    case (Reload ms)
    have l: "2 ^ 32 - unat (timer_load ms) = cycles (unat ms)" using assms(2) Reload load_cycles by simp
    have t: "tmr = 0x44E05000" using assms(4) Reload by simp
    have "0x44E0503c = tmr + (0x3c :: addr)" by (simp add: t)
    then have "d' = d\<lparr>tm_count := timer_load ms\<rparr>" using takes_at(5) [of tmr] by (simp add: assms(6) Reload calls_eq)
    moreover have "rd32 (tmr + 0x38) (drive e s) = rd32 (tmr + 0x38) s" by (rule tclr_kept) (simp add: Reload calls_eq t)
    ultimately show ?thesis using l assms(5) by (simp add: Reload t timer_abs_def in_step_iff)
  qed (use assms(3) in simp)
  then show "timer_abs d' = spec_step tmr e (timer_abs d)" "in_step tmr (drive e s) d'" by simp_all
qed

lemma step_refines:
  assumes "tmr \<in> {DMTIMER0_BASE, DMTIMER2_BASE}" and "event_ok e" and "in_step tmr s d" and "timer_step tmr e (s, d) = (s', d')"
  shows "timer_abs d' = spec_step tmr e (timer_abs d)" "in_step tmr s' d'"
proof -
  have "timer_abs d' = spec_step tmr e (timer_abs d) \<and> in_step tmr s' d'"
  proof (cases "e = Cycle")
    case True
    then have "s' = s" "d' = timer_clock d" using assms(4) by (simp_all add: step_eq)
    then show ?thesis using clock_refines assms(3) True by (simp add: in_step_def timer_clock_def)
  next
    case False
    then have d: "s' = drive e s" "d' = fold (timer_takes tmr) (calls e s) d" using assms(4) by (simp_all add: step_eq)
    show ?thesis
    proof (cases "timer_of e = tmr")
      case True
      then show ?thesis using step_same [OF assms(1,2) False True disjI2 [OF assms(3)] d(2)] d(1) by simp
    next
      case o: False
      then show ?thesis using step_other(1,3) [OF assms(1,2) False o, of s d] step_other(2) [OF assms(1,2) False o, of s] d assms(3) by (simp add: in_step_iff)
    qed
  qed
  then show "timer_abs d' = spec_step tmr e (timer_abs d)" "in_step tmr s' d'" by simp_all
qed

lemma steps_refine:
  assumes "tmr \<in> {DMTIMER0_BASE, DMTIMER2_BASE}" and "in_step tmr s d" and "\<forall>e \<in> set es. event_ok e"
  shows "timer_abs (snd (fold (timer_step tmr) es (s, d))) = fold (spec_step tmr) es (timer_abs d)"
  using assms(2,3)
proof (induction es arbitrary: s d)
  case (Cons e es)
  obtain s' d' where e: "timer_step tmr e (s, d) = (s', d')" by (cases "timer_step tmr e (s, d)") auto
  have "event_ok e" using Cons.prems(2) by simp
  note k = step_refines [OF assms(1) this Cons.prems(1) e]
  show ?case using Cons.IH [OF k(2)] Cons.prems(2) k(1) e by simp
qed simp

text \<open>
  C27: the timer driver, \<^verbatim>\<open>timer_init\<close>, \<^verbatim>\<open>timer_start\<close>, \<^verbatim>\<open>timer_disable\<close>, \<^verbatim>\<open>ostick_init\<close> and \<^verbatim>\<open>reload_ostick\<close>, with either
  timer as a device refines a periodic clock, over any sequence of calls, on this and on the other timer, and clock cycles. The
  words that the calls store, in their order and at their addresses, set the period and the cycles that are left to what
  the milliseconds are worth at 32768 Hz, enable the interrupt, and start or stop the clock.
\<close>

theorem timer_driver_refines:
  assumes "tmr \<in> {DMTIMER0_BASE, DMTIMER2_BASE}" and "tm_auto d = bit (rd32 (member tmr (commented DMTIMER_T) ''TCLR'') s) 1"
    and "\<forall>e \<in> set es. event_ok e"
  shows "timer_abs (snd (fold (timer_step tmr) es (s, d))) = fold (spec_step tmr) es (timer_abs d)"
  using steps_refine [OF assms(1) _ assms(3)] assms(2) by (simp add: in_step_def)

definition demo_timer :: timer_dev where
  "demo_timer = \<lparr>tm_irq = False, tm_run = False, tm_auto = False, tm_load = 0, tm_count = 0, tm_fired = 0\<rparr>"

text \<open>The tick is set up and loaded with 5 ms, the other timer with 1 ms and stopped again, and two cycles pass.\<close>

theorem timer_driver_refines_witness:
  "timer_abs (snd (fold (timer_step DMTIMER0_BASE) [Tick DMTIMER0_BASE, Reload 5, Init DMTIMER2_BASE 1, Cycle, Disable DMTIMER2_BASE, Cycle] (zero_state, demo_timer)))
    = \<lparr>enabled = True, running = True, periodic = True, period = 3277, left = 162, fired = 0\<rparr>"
proof -
  have a: "tm_auto demo_timer = bit (rd32 (member DMTIMER0_BASE (commented DMTIMER_T) ''TCLR'') zero_state) 1"
    by (simp add: demo_timer_def rd32_def zero_state_def)
  show ?thesis
    by (subst timer_driver_refines [OF _ a]) (simp_all add: demo_timer_def timer_abs_def spec_cycle_def cycles_def)
qed

section \<open>Interrupts\<close>

lemma spec_cycles:
  assumes "running c" and "periodic c" and "enabled c" and "left c = l" and "period c = p" and "0 < l" and "0 < p"
  shows "(spec_cycle ^^ n) c = c\<lparr>left := (if n < l then l - n else p - (n - l) mod p), fired := fired c + (if n < l then 0 else 1 + (n - l) div p)\<rparr>"
proof (induction n)
  case 0
  then show ?case using assms by simp
next
  case (Suc n)
  let ?c = "c\<lparr>left := (if n < l then l - n else p - (n - l) mod p), fired := fired c + (if n < l then 0 else 1 + (n - l) div p)\<rparr>"
  have step: "(spec_cycle ^^ Suc n) c = spec_cycle ?c" using Suc by simp
  consider "Suc n < l" | "Suc n = l" | "l \<le> n" by linarith
  then show ?case
  proof cases
    case 3
    then have d: "Suc n - l = Suc (n - l)" "\<not> n < l" "\<not> Suc n < l" by simp_all
    have m: "(n - l) mod p < p" using assms(7) by simp
    show ?thesis
    proof (cases "Suc ((n - l) mod p) = p")
      case True
      then have "Suc (n - l) mod p = 0" "Suc (n - l) div p = Suc ((n - l) div p)" by (simp_all add: mod_Suc div_Suc)
      moreover have "p - (n - l) mod p = 1" using True by linarith
      ultimately show ?thesis unfolding step unfolding spec_cycle_def using d assms(1-3,5) by simp
    next
      case False
      then have "Suc (n - l) mod p = Suc ((n - l) mod p)" "Suc (n - l) div p = (n - l) div p" by (simp_all add: mod_Suc div_Suc)
      moreover have "p - (n - l) mod p \<noteq> 1" using False m by linarith
      ultimately show ?thesis unfolding step unfolding spec_cycle_def using d assms(1-3,5) by simp
    qed
  qed (unfold step, unfold spec_cycle_def, use assms in simp_all)
qed

lemma fold_cycles: "fold (spec_step tmr) (replicate n Cycle) c = (spec_cycle ^^ n) c"
  by (induction n arbitrary: c) (simp_all add: funpow_swap1)

lemma init_then:
  assumes "tmr \<in> {DMTIMER0_BASE, DMTIMER2_BASE}" and "e = Init tmr ms \<or> e = Tick tmr" and "unat ms < 131072" and "\<forall>x \<in> set es. event_ok x"
  shows "timer_abs (snd (fold (timer_step tmr) (e # es) (s, d))) = fold (spec_step tmr) es (spec_step tmr e (timer_abs d))"
proof -
  define d' where "d' = fold (timer_takes tmr) (calls e s) d"
  have e: "event_ok e" "e \<noteq> Cycle" "timer_of e = tmr" using assms(1-3) by auto
  have i: "(\<exists>b ms. e = Init b ms \<or> e = Tick b) \<or> in_step tmr s d" using assms(2) by blast
  have "timer_abs d' = spec_step tmr e (timer_abs d)" "in_step tmr (drive e s) d'" using step_same [OF assms(1) e i d'_def] by simp_all
  then show ?thesis using steps_refine [OF assms(1) _ assms(4), of "drive e s" d'] e(2) by (simp add: step_eq d'_def)
qed



end
