(* ===== verification/Arm.thy ===== *)
theory Arm
  imports Ram
begin

unbundle bit_operations_syntax

text \<open>
  The assembly files, \<^verbatim>\<open>exception.s\<close>, \<^verbatim>\<open>syscall_asm.s\<close>, \<^verbatim>\<open>task_asm.s\<close> and \<^verbatim>\<open>start.s\<close>
  (\<^verbatim>\<open>src/src/kernel/\<close>), on a machine with the registers, modes and banks of ARMv7 that they use.
  A routine is its list of instructions up to the branch that ends it; a C function that it calls is
  a parameter, from which the lemmas need the procedure call standard (\<open>aapcs\<close>). Words in memory are
  addressed by their first byte. The banks of the fast interrupt and the barriers are left out.
\<close>

section \<open>The machine\<close>

datatype areg = R nat | SP | LR

text \<open>
  \<open>sp_of\<close>, \<open>lr_of\<close> and \<open>spsr_of\<close> are the banked registers, by mode. \<open>unknown\<close> is what the processor gives for a read
  that the architecture leaves unpredictable; no lemma assumes anything of it.
\<close>

record arm =
  gpr :: "nat \<Rightarrow> u32"
  sp_of :: "u32 \<Rightarrow> u32"
  lr_of :: "u32 \<Rightarrow> u32"
  spsr_of :: "u32 \<Rightarrow> u32"
  cpsr :: u32
  mem :: "addr \<Rightarrow> u32"
  arm_pc :: addr
  vbar :: addr
  sctlr :: u32
  unknown :: u32

abbreviation (input) "CPSR_M_USR \<equiv> 0x10 :: u32"
abbreviation (input) "CPSR_M_IRQ \<equiv> 0x12 :: u32"
abbreviation (input) "CPSR_M_SVC \<equiv> 0x13 :: u32"
abbreviation (input) "CPSR_M_ABT \<equiv> 0x17 :: u32"
abbreviation (input) "CPSR_M_SYS \<equiv> 0x1F :: u32"

definition mode_of :: "u32 \<Rightarrow> u32" where
  "mode_of c = c AND 0x1F"

text \<open>System mode uses the registers of user mode.\<close>

definition bank_of :: "arm \<Rightarrow> u32" where
  "bank_of s = (if mode_of (cpsr s) = CPSR_M_SYS then CPSR_M_USR else mode_of (cpsr s))"

fun rd :: "areg \<Rightarrow> arm \<Rightarrow> u32" where
  "rd (R i) s = gpr s i"
| "rd SP s = sp_of s (bank_of s)"
| "rd LR s = lr_of s (bank_of s)"

fun wr :: "areg \<Rightarrow> u32 \<Rightarrow> arm \<Rightarrow> arm" where
  "wr (R i) v s = s\<lparr>gpr := (gpr s)(i := v)\<rparr>"
| "wr SP v s = s\<lparr>sp_of := (sp_of s)(bank_of s := v)\<rparr>"
| "wr LR v s = s\<lparr>lr_of := (lr_of s)(bank_of s := v)\<rparr>"

text \<open>
  The bits that a write to the status register reaches: all fields, flags and control, control
  only. The execution state bits are never written, and a user cannot write the mode and the masks.
\<close>

abbreviation (input) "PSR_cxsf \<equiv> 0xF80F03DF :: u32"
abbreviation (input) "PSR_fc \<equiv> 0xF80000DF :: u32"
abbreviation (input) "PSR_c \<equiv> 0xDF :: u32"

definition msr :: "u32 \<Rightarrow> u32 \<Rightarrow> arm \<Rightarrow> arm" where
  "msr fld v s =
     (let w = (if mode_of (cpsr s) = CPSR_M_USR then fld AND 0xF80F0200 else fld)
      in s\<lparr>cpsr := (cpsr s AND NOT w) OR (v AND w)\<rparr>)"

fun store_words :: "addr \<Rightarrow> u32 list \<Rightarrow> (addr \<Rightarrow> u32) \<Rightarrow> addr \<Rightarrow> u32" where
  "store_words a [] m = m"
| "store_words a (v # vs) m = store_words (a + 4) vs (m(a := v))"

fun load_words :: "addr \<Rightarrow> nat \<Rightarrow> (addr \<Rightarrow> u32) \<Rightarrow> u32 list" where
  "load_words a 0 m = []"
| "load_words a (Suc n) m = m a # load_words (a + 4) n m"

text \<open>A part of a word, \<open>k\<close> bits wide, \<open>byte_lane a\<close> bits above its lowest.\<close>

definition byte_lane :: "addr \<Rightarrow> nat" where
  "byte_lane a = 8 * unat (a AND 3)"

definition get_part :: "nat \<Rightarrow> addr \<Rightarrow> u32 \<Rightarrow> u32" where
  "get_part k a w = drop_bit (byte_lane a) w AND mask k"

definition set_part :: "nat \<Rightarrow> addr \<Rightarrow> u32 \<Rightarrow> u32 \<Rightarrow> u32" where
  "set_part k a v w = (w AND NOT (push_bit (byte_lane a) (mask k))) OR push_bit (byte_lane a) (v AND mask k)"

datatype cfun = Get_act_irqnum | Timer0_isr | Irqs_handler | Syscall_handler | Reload_ostick | Set_exception_entry
  | Kernal_entry | Prefetch_abort_handler | Data_abort_handler

text \<open>
  \<open>LDR_lit\<close> and \<open>MOV_imm\<close> load a constant, \<open>STM\<close> and \<open>LDM\<close> are \<^verbatim>\<open>stmfd sp!\<close> and \<^verbatim>\<open>ldmfd sp!\<close>
  (\<^verbatim>\<open>push\<close>, \<^verbatim>\<open>pop\<close>), \<open>MRC_vbar\<close> reads the exception vector base. User and system mode have no saved status
  register: reading it there is unpredictable.
\<close>

datatype ins = MOV areg areg | MOV_imm areg u32 | LDR_lit areg u32 | ADD areg areg u32 | SUB areg areg u32
  | BIC areg areg u32 | ORR areg areg u32 | MRS areg | MRS_spsr areg | MSR u32 areg | MSR_imm u32 u32
  | STM "areg list" | LDM "areg list" | STRW areg areg | MRC_vbar areg | BL cfun
  | STRH areg areg | STRB areg areg | LDRW areg areg | LDRH areg areg | LDRB areg areg | MRC_sctlr areg

fun exec :: "(cfun \<Rightarrow> arm \<Rightarrow> arm) \<Rightarrow> ins \<Rightarrow> arm \<Rightarrow> arm" where
  "exec call (MOV d r) s = wr d (rd r s) s"
| "exec call (MOV_imm d v) s = wr d v s"
| "exec call (LDR_lit d v) s = wr d v s"
| "exec call (ADD d r v) s = wr d (rd r s + v) s"
| "exec call (SUB d r v) s = wr d (rd r s - v) s"
| "exec call (BIC d r v) s = wr d (rd r s AND NOT v) s"
| "exec call (ORR d r v) s = wr d (rd r s OR v) s"
| "exec call (MRS d) s = wr d (cpsr s AND 0xF8FF03DF) s"
| "exec call (MRS_spsr d) s = wr d (if bank_of s = CPSR_M_USR then unknown s else spsr_of s (bank_of s)) s"
| "exec call (MSR fld r) s = msr fld (rd r s) s"
| "exec call (MSR_imm fld v) s = msr fld v s"
| "exec call (STM rs) s =
     (let a = rd SP s - 4 * of_nat (length rs)
      in wr SP a (s\<lparr>mem := store_words a (map (\<lambda>r. rd r s) rs) (mem s)\<rparr>))"
| "exec call (LDM rs) s =
     (let a = rd SP s
      in fold (\<lambda>(r, v). wr r v) (zip rs (load_words a (length rs) (mem s))) (wr SP (a + 4 * of_nat (length rs)) s))"
| "exec call (STRW r a) s = s\<lparr>mem := (mem s)(rd a s := rd r s)\<rparr>"
| "exec call (MRC_vbar d) s = wr d (vbar s) s"
| "exec call (BL f) s = call f s"
| "exec call (STRH r a) s = s\<lparr>mem := (mem s)(rd a s AND NOT 3 := set_part 16 (rd a s) (rd r s) (mem s (rd a s AND NOT 3)))\<rparr>"
| "exec call (STRB r a) s = s\<lparr>mem := (mem s)(rd a s AND NOT 3 := set_part 8 (rd a s) (rd r s) (mem s (rd a s AND NOT 3)))\<rparr>"
| "exec call (LDRW d a) s = wr d (mem s (rd a s)) s"
| "exec call (LDRH d a) s = wr d (get_part 16 (rd a s) (mem s (rd a s AND NOT 3))) s"
| "exec call (LDRB d a) s = wr d (get_part 8 (rd a s) (mem s (rd a s AND NOT 3))) s"
| "exec call (MRC_sctlr d) s = wr d (sctlr s) s"

definition run :: "(cfun \<Rightarrow> arm \<Rightarrow> arm) \<Rightarrow> ins list \<Rightarrow> arm \<Rightarrow> arm" where
  "run call = fold (exec call)"

definition bx :: "areg \<Rightarrow> arm \<Rightarrow> arm" where
  "bx r s = s\<lparr>arm_pc := rd r s\<rparr>"

text \<open>\<open>nxt\<close> is the address of the instruction behind the branch.\<close>

definition blx :: "areg \<Rightarrow> addr \<Rightarrow> arm \<Rightarrow> arm" where
  "blx r nxt s = wr LR nxt (s\<lparr>arm_pc := rd r s\<rparr>)"

text \<open>The processor takes an exception: the interrupted state goes to the registers of the new mode.\<close>

definition take_exception :: "u32 \<Rightarrow> u32 \<Rightarrow> addr \<Rightarrow> arm \<Rightarrow> arm" where
  "take_exception m masks ret s = s\<lparr>lr_of := (lr_of s)(m := ret), spsr_of := (spsr_of s)(m := cpsr s),
     cpsr := (cpsr s AND NOT 0x3F) OR m OR masks\<rparr>"

definition take_svc :: "arm \<Rightarrow> arm" where
  "take_svc s = take_exception CPSR_M_SVC 0x80 (arm_pc s) s"

definition take_irq :: "arm \<Rightarrow> arm" where
  "take_irq s = take_exception CPSR_M_IRQ 0x180 (arm_pc s + 4) s"

section \<open>The routines\<close>

definition context_regs :: "areg list" where
  "context_regs = [R 0, R 1, R 2, R 3, R 4, R 5, R 6, R 7, R 8, R 9, R 10, R 11, R 12, LR]"

definition to_mode :: "u32 \<Rightarrow> ins list" where
  "to_mode m = [MRS (R 10), BIC (R 10) (R 10) 0x1F, ORR (R 10) (R 10) m, ORR (R 10) (R 10) 0xC0, MSR PSR_fc (R 10)]"

text \<open>The C function that is entered, and the machine there. The call of \<^verbatim>\<open>timer0_isr\<close> does not return.\<close>

definition irq_entry :: "(cfun \<Rightarrow> arm \<Rightarrow> arm) \<Rightarrow> arm \<Rightarrow> cfun \<times> arm" where
  "irq_entry call s =
     (let s = run call [STM context_regs, BL Get_act_irqnum] s
      in if gpr s 0 = 66
         then (Timer0_isr, run call ([LDM context_regs, SUB LR LR 4, MOV (R 9) LR, MRS_spsr (R 12), LDR_lit SP 0x9df41000]
                 @ to_mode CPSR_M_SYS @ [STM context_regs, MOV (R 0) SP] @ to_mode CPSR_M_SVC) s)
         else (Irqs_handler, run call [LDM context_regs] s))"

definition svc_save :: "ins list" where
  "svc_save = [MOV (R 9) LR, MRS_spsr (R 12)] @ to_mode CPSR_M_SYS @ [STM context_regs, MOV (R 1) SP] @ to_mode CPSR_M_SVC
     @ [STM [R 0, R 1, R 2, R 3]]"

definition svc_back :: "ins list" where
  "svc_back = [LDM [R 0, R 1, R 2, R 3]] @ to_mode CPSR_M_SYS @ [LDM context_regs, MRS_spsr (R 10), MSR PSR_fc (R 10)]"

definition svc_entry :: "(cfun \<Rightarrow> arm \<Rightarrow> arm) \<Rightarrow> addr \<Rightarrow> arm \<Rightarrow> arm" where
  "svc_entry call nxt s = blx LR nxt (run call (svc_save @ [BL Syscall_handler] @ svc_back) s)"

definition prefetch_abort_entry :: "(cfun \<Rightarrow> arm \<Rightarrow> arm) \<Rightarrow> arm \<Rightarrow> cfun \<times> arm" where
  "prefetch_abort_entry call s = (Prefetch_abort_handler, run call [MOV (R 0) LR] s)"

definition data_abort :: "(cfun \<Rightarrow> arm \<Rightarrow> arm) \<Rightarrow> arm \<Rightarrow> cfun \<times> arm" where
  "data_abort call s = (Data_abort_handler, run call [MOV (R 0) LR] s)"

text \<open>\<^verbatim>\<open>syscall_print_hello\<close>, \<^verbatim>\<open>syscall_yield\<close> and the eighteen others, up to \<^verbatim>\<open>svc\<close> and behind it.\<close>

definition stub_regs :: "u32 \<Rightarrow> areg list" where
  "stub_regs n = (if n = 0 then [R 0, R 2, LR] else if n = 1 then [R 0, LR] else [R 2, LR])"

definition stub_call :: "u32 \<Rightarrow> ins list" where
  "stub_call n =
     (if n = 1 then [STM (stub_regs 1), MOV_imm (R 0) 1, STM context_regs, MOV_imm (R 0) 5, BL Reload_ostick, LDM context_regs]
      else [STM (stub_regs n), MOV (R 2) (R 0), MOV_imm (R 0) n])"

definition stub_return :: "(cfun \<Rightarrow> arm \<Rightarrow> arm) \<Rightarrow> u32 \<Rightarrow> arm \<Rightarrow> arm" where
  "stub_return call n s = bx LR (run call [LDM (stub_regs n), MSR_imm PSR_c CPSR_M_USR] s)"

definition load_context :: "ins list" where
  "load_context = to_mode CPSR_M_SYS @ [MOV SP (R 0), LDM context_regs, STM context_regs, MOV_imm (R 0) 5, BL Reload_ostick,
     LDM context_regs]"

definition first_run :: "(cfun \<Rightarrow> arm \<Rightarrow> arm) \<Rightarrow> arm \<Rightarrow> arm" where
  "first_run call s = bx (R 9) (run call (load_context @ [MSR_imm PSR_c CPSR_M_USR]) s)"

definition switch_task :: "(cfun \<Rightarrow> arm \<Rightarrow> arm) \<Rightarrow> arm \<Rightarrow> arm" where
  "switch_task call s = bx (R 9) (run call ([MRS_spsr (R 12), STM [R 4, R 5, R 6, R 7, R 8, R 9, R 10, R 11, R 12, LR]]
     @ load_context @ [MSR PSR_fc (R 12)]) s)"

definition set_context_sp :: "(cfun \<Rightarrow> arm \<Rightarrow> arm) \<Rightarrow> arm \<Rightarrow> arm" where
  "set_context_sp call s = (let saved = [R 1, R 2, R 3, R 4, R 5, R 6, R 7, R 8, R 9, R 10, R 11, R 12, LR]
     in bx LR (run call ([STM saved] @ to_mode CPSR_M_SYS @ [MOV SP (R 0)] @ to_mode CPSR_M_SVC @ [LDM saved]) s))"

definition call_sched_asm :: "(cfun \<Rightarrow> arm \<Rightarrow> arm) \<Rightarrow> arm \<Rightarrow> arm" where
  "call_sched_asm call s = bx LR (run call [MOV SP (R 0), LDM context_regs] s)"

text \<open>The accessors that C calls, with an address in \<^verbatim>\<open>r0\<close> and a value in \<^verbatim>\<open>r1\<close>; none calls a C function.\<close>

definition WRITE_REG32 :: "(cfun \<Rightarrow> arm \<Rightarrow> arm) \<Rightarrow> arm \<Rightarrow> arm" where
  "WRITE_REG32 call s = bx LR (run call [STRW (R 1) (R 0)] s)"

definition READ_REG32 :: "(cfun \<Rightarrow> arm \<Rightarrow> arm) \<Rightarrow> arm \<Rightarrow> arm" where
  "READ_REG32 call s = bx LR (run call [LDRW (R 0) (R 0)] s)"

definition WR_REG16 :: "(cfun \<Rightarrow> arm \<Rightarrow> arm) \<Rightarrow> arm \<Rightarrow> arm" where
  "WR_REG16 call s = bx LR (run call [STRH (R 1) (R 0)] s)"

definition RD_REG16 :: "(cfun \<Rightarrow> arm \<Rightarrow> arm) \<Rightarrow> arm \<Rightarrow> arm" where
  "RD_REG16 call s = bx LR (run call [LDRH (R 0) (R 0)] s)"

definition WR_REG8 :: "(cfun \<Rightarrow> arm \<Rightarrow> arm) \<Rightarrow> arm \<Rightarrow> arm" where
  "WR_REG8 call s = bx LR (run call [STRB (R 1) (R 0)] s)"

definition RD_REG8 :: "(cfun \<Rightarrow> arm \<Rightarrow> arm) \<Rightarrow> arm \<Rightarrow> arm" where
  "RD_REG8 call s = bx LR (run call [LDRB (R 0) (R 0)] s)"

definition READ_CPSR :: "(cfun \<Rightarrow> arm \<Rightarrow> arm) \<Rightarrow> arm \<Rightarrow> arm" where
  "READ_CPSR call s = bx LR (run call [MRS (R 0)] s)"

definition READ_SP :: "(cfun \<Rightarrow> arm \<Rightarrow> arm) \<Rightarrow> arm \<Rightarrow> arm" where
  "READ_SP call s = bx LR (run call [MOV (R 0) SP] s)"

definition READ_CP15_c1 :: "(cfun \<Rightarrow> arm \<Rightarrow> arm) \<Rightarrow> arm \<Rightarrow> arm" where
  "READ_CP15_c1 call s = bx LR (run call [MRC_sctlr (R 0)] s)"

definition READ_VECTOR_BASE :: "(cfun \<Rightarrow> arm \<Rightarrow> arm) \<Rightarrow> arm \<Rightarrow> arm" where
  "READ_VECTOR_BASE call s = bx LR (run call [MRC_vbar (R 0)] s)"

text \<open>
  \<open>ent\<close> gives the addresses of the four exception routines. The instruction that masks the interrupts
  (\<^verbatim>\<open>orr r0, r0, #0xC0\<close>) lies inside the comment that the line before it opens.
\<close>

definition start_head :: "ins list" where
  "start_head = [MRS (R 0), BIC (R 0) (R 0) 0x1F, ORR (R 0) (R 0) 0x13, MSR PSR_fc (R 0), MRC_vbar (R 0), STM [R 0, R 1, R 2, R 3]]"

definition start_vectors :: "(nat \<Rightarrow> addr) \<Rightarrow> ins list" where
  "start_vectors ent = [LDM [R 0, R 1, R 2, R 3],
      MRC_vbar (R 0), ADD (R 0) (R 0) 0x24, LDR_lit (R 1) (ent 0), STRW (R 1) (R 0),
      MRC_vbar (R 0), ADD (R 0) (R 0) 0x28, LDR_lit (R 1) (ent 1), STRW (R 1) (R 0),
      MRC_vbar (R 0), ADD (R 0) (R 0) 0x2c, LDR_lit (R 1) (ent 2), STRW (R 1) (R 0),
      MRC_vbar (R 0), ADD (R 0) (R 0) 0x34, LDR_lit (R 1) (ent 3), STRW (R 1) (R 0),
      LDR_lit SP 0x9df3fffc, ADD (R 1) SP 4096, MRS (R 3)]"

definition stack_of_mode :: "u32 \<Rightarrow> ins list" where
  "stack_of_mode m = [MOV_imm (R 2) m, MSR PSR_cxsf (R 2), MOV SP (R 1), ADD (R 1) SP 4096]"

definition start_asm :: "(cfun \<Rightarrow> arm \<Rightarrow> arm) \<Rightarrow> (nat \<Rightarrow> addr) \<Rightarrow> arm \<Rightarrow> cfun \<times> arm" where
  "start_asm call ent s = (Kernal_entry, run call (start_head @ [BL Set_exception_entry] @ start_vectors ent
     @ stack_of_mode CPSR_M_IRQ @ stack_of_mode CPSR_M_ABT @ [MSR PSR_cxsf (R 3)]) s)"

section \<open>The registers as a context\<close>

text \<open>The frame that \<open>STM context_regs\<close> leaves in memory is a \<^verbatim>\<open>struct TASK_CONTEXT\<close>.\<close>

definition ctx_at :: "(addr \<Rightarrow> u32) \<Rightarrow> addr \<Rightarrow> task_context" where
  "ctx_at m a = \<lparr>c_r0 = m a, c_r1 = m (a + 4), c_r2 = m (a + 8), c_r3 = m (a + 12), c_r4 = m (a + 16), c_r5 = m (a + 20),
     c_r6 = m (a + 24), c_r7 = m (a + 28), c_r8 = m (a + 32), c_r9_return_lr = m (a + 36), c_r10 = m (a + 40),
     c_r11 = m (a + 44), c_r12_spsr = m (a + 48), c_lr = m (a + 52)\<rparr>"

definition ctx_of :: "arm \<Rightarrow> task_context" where
  "ctx_of s = \<lparr>c_r0 = gpr s 0, c_r1 = gpr s 1, c_r2 = gpr s 2, c_r3 = gpr s 3, c_r4 = gpr s 4, c_r5 = gpr s 5,
     c_r6 = gpr s 6, c_r7 = gpr s 7, c_r8 = gpr s 8, c_r9_return_lr = gpr s 9, c_r10 = gpr s 10,
     c_r11 = gpr s 11, c_r12_spsr = gpr s 12, c_lr = rd LR s\<rparr>"

text \<open>
  What a C function keeps: the callee-saved registers and the mode (\<open>keeps_regs\<close>), and the stack of its caller
  (\<open>aapcs\<close>), whose words lie at and above the stack pointer. For a function that writes memory there on purpose only the
  first is required. The device registers that it writes are not part of \<open>mem\<close>.
\<close>

definition keeps_regs :: "(arm \<Rightarrow> arm) \<Rightarrow> bool" where
  "keeps_regs f \<longleftrightarrow> (\<forall>s. (\<forall>i \<in> {4..11}. gpr (f s) i = gpr s i) \<and> sp_of (f s) = sp_of s \<and> spsr_of (f s) = spsr_of s \<and> vbar (f s) = vbar s
     \<and> (\<forall>b. b \<noteq> bank_of s \<longrightarrow> lr_of (f s) b = lr_of s b) \<and> cpsr (f s) AND 0xDF = cpsr s AND 0xDF)"

definition aapcs :: "(arm \<Rightarrow> arm) \<Rightarrow> bool" where
  "aapcs f \<longleftrightarrow> keeps_regs f \<and> (\<forall>s a. unat (rd SP s) \<le> unat a \<longrightarrow> mem (f s) a = mem s a)"

text \<open>\<^verbatim>\<open>set_exception_entry\<close>, given the vector base in \<^verbatim>\<open>r0\<close>, writes the seven words behind the reset vector.\<close>

definition sets_vectors :: "(arm \<Rightarrow> arm) \<Rightarrow> bool" where
  "sets_vectors f \<longleftrightarrow> keeps_regs f \<and> (\<forall>s. \<forall>i \<in> {1..7}. mem (f s) (gpr s 0 + 4 * of_nat i) = 0xe59ff014)"

text \<open>
  Where the instruction at \<open>a\<close> goes when it is \<^verbatim>\<open>ldr pc, [pc, #imm]\<close>: to the address in the word that lies \<open>imm\<close>
  bytes behind \<open>a + 8\<close>, the value of \<^verbatim>\<open>pc\<close> that an instruction reads.
\<close>

definition jumps_to :: "arm \<Rightarrow> addr \<Rightarrow> addr option" where
  "jumps_to s a = (if mem s a AND 0xfffff000 = 0xe59ff000 then Some (mem s (a + 8 + (mem s a AND 0xfff))) else None)"

lemma run_simps [simp]:
  "run call [] s = s" "run call (i # is) s = run call is (exec call i s)"
  "run call (is @ js) s = run call js (run call is s)"
  by (simp_all add: run_def)

lemma wr_keeps [simp]:
  "cpsr (wr r v s) = cpsr s" "mem (wr r v s) = mem s" "spsr_of (wr r v s) = spsr_of s" "arm_pc (wr r v s) = arm_pc s" "vbar (wr r v s) = vbar s"
  "unknown (wr r v s) = unknown s"
  by (cases r; simp)+

lemma bank_of_cong: "cpsr s' = cpsr s \<Longrightarrow> bank_of s' = bank_of s"
  by (simp add: bank_of_def)

lemma bank_of_wr [simp]: "bank_of (wr r v s) = bank_of s"
  by (rule bank_of_cong) simp

lemma bank_of_upd [simp]: "bank_of (s\<lparr>gpr := g\<rparr>) = bank_of s" "bank_of (s\<lparr>sp_of := h\<rparr>) = bank_of s" "bank_of (s\<lparr>lr_of := h\<rparr>) = bank_of s"
  "bank_of (s\<lparr>mem := h\<rparr>) = bank_of s" "bank_of (s\<lparr>arm_pc := a\<rparr>) = bank_of s" "bank_of (s\<lparr>spsr_of := h\<rparr>) = bank_of s"
  by (rule bank_of_cong, simp)+

lemma STM_context:
  assumes "s' = exec call (STM context_regs) s"
  shows "ctx_at (mem s') (rd SP s - 56) = ctx_of s" "sp_of s' = (sp_of s)(bank_of s := rd SP s - 56)" "gpr s' = gpr s"
    "lr_of s' = lr_of s" "spsr_of s' = spsr_of s" "cpsr s' = cpsr s" "arm_pc s' = arm_pc s"
  by (simp_all add: assms context_regs_def Let_def ctx_at_def ctx_of_def)

lemma LDM_context:
  assumes "s' = exec call (LDM context_regs) s"
  shows "ctx_of s' = ctx_at (mem s) (rd SP s)" "sp_of s' = (sp_of s)(bank_of s := rd SP s + 56)"
    "lr_of s' = (lr_of s)(bank_of s := c_lr (ctx_at (mem s) (rd SP s)))"
    "spsr_of s' = spsr_of s" "cpsr s' = cpsr s" "arm_pc s' = arm_pc s" "mem s' = mem s" "unknown s' = unknown s"
  by (simp_all add: assms context_regs_def Let_def ctx_at_def ctx_of_def eval_nat_numeral add.commute)

lemma to_mode_run:
  assumes "s' = run call (to_mode m) s" and "mode_of (cpsr s) \<noteq> CPSR_M_USR" and "m = CPSR_M_SYS \<or> m = CPSR_M_SVC"
  shows "mode_of (cpsr s') = m" "gpr s' = (gpr s)(10 := gpr s' 10)" "sp_of s' = sp_of s" "lr_of s' = lr_of s"
    "spsr_of s' = spsr_of s" "mem s' = mem s" "arm_pc s' = arm_pc s" "unknown s' = unknown s"
proof -
  show "mode_of (cpsr s') = m"
    using assms by (auto simp: to_mode_def msr_def Let_def mode_of_def bit.conj_disj_distrib2 and.assoc)
qed (use assms in \<open>auto simp: to_mode_def msr_def Let_def\<close>)

lemma keeps_regs_keeps:
  assumes "keeps_regs f" and "t = f s"
  shows "sp_of t = sp_of s" "spsr_of t = spsr_of s" "mode_of (cpsr t) = mode_of (cpsr s)" "bank_of t = bank_of s"
    "b \<noteq> bank_of s \<Longrightarrow> lr_of t b = lr_of s b" "4 \<le> i \<Longrightarrow> i \<le> 11 \<Longrightarrow> gpr t i = gpr s i" "vbar t = vbar s" "cpsr t AND 0xDF = cpsr s AND 0xDF"
proof -
  show c: "cpsr t AND 0xDF = cpsr s AND 0xDF" using assms by (simp add: keeps_regs_def)
  have "mode_of x = mode_of (x AND 0xDF)" for x by (simp add: mode_of_def and.assoc)
  then show m: "mode_of (cpsr t) = mode_of (cpsr s)" using c by metis
  then show "bank_of t = bank_of s" by (simp add: bank_of_def)
qed (use assms in \<open>auto simp: keeps_regs_def\<close>)

lemma aapcs_keeps:
  assumes "aapcs f" and "t = f s"
  shows "sp_of t = sp_of s" "spsr_of t = spsr_of s" "mode_of (cpsr t) = mode_of (cpsr s)" "bank_of t = bank_of s"
    "b \<noteq> bank_of s \<Longrightarrow> lr_of t b = lr_of s b" "unat (rd SP s) \<le> unat a \<Longrightarrow> mem t a = mem s a"
    "4 \<le> i \<Longrightarrow> i \<le> 11 \<Longrightarrow> gpr t i = gpr s i"
  using keeps_regs_keeps [of f t s] assms by (simp_all add: aapcs_def)

lemma ctx_at_cong:
  assumes "unat a + 56 \<le> 2 ^ 32" and "\<forall>x. unat a \<le> unat x \<and> unat x < unat a + 56 \<longrightarrow> m' x = m x"
  shows "ctx_at m' a = ctx_at m a"
proof -
  have "m' (a + of_nat k) = m (a + of_nat k)" if "k \<le> 52" for k
    using assms(2) unat_plus_range [OF assms(1), of k] that by simp
  from this [of 0] this [of 4] this [of 8] this [of 12] this [of 16] this [of 20] this [of 24] this [of 28] this [of 32]
    this [of 36] this [of 40] this [of 44] this [of 48] this [of 52]
  show ?thesis by (simp add: ctx_at_def)
qed

lemma STM_outside:
  assumes "s' = exec call (STM context_regs) s" and "\<forall>k \<le> 52. x \<noteq> rd SP s - 56 + of_nat k"
  shows "mem s' x = mem s x"
proof -
  have "x \<noteq> rd SP s - 56 + of_nat k" if "k \<le> 52" for k using assms(2) that by blast
  from this [of 0] this [of 4] this [of 8] this [of 12] this [of 16] this [of 20] this [of 24] this [of 28] this [of 32]
    this [of 36] this [of 40] this [of 44] this [of 48] this [of 52]
  show ?thesis by (simp add: assms(1) context_regs_def Let_def)
qed

lemma above_frame:
  fixes a x :: addr
  assumes "unat a + 56 \<le> 2 ^ 32" and "unat a + 56 \<le> unat x" and "k \<le> 52"
  shows "x \<noteq> a + of_nat k"
  using unat_plus_range [OF assms(1), of k] assms(2,3) by auto

lemma ctx_of_regs:
  assumes "ctx_of s' = c"
  shows "gpr s' 0 = c_r0 c" "gpr s' 2 = c_r2 c" "gpr s' 9 = c_r9_return_lr c" "gpr s' 12 = c_r12_spsr c" "lr_of s' (bank_of s') = c_lr c"
  using assms by (auto simp: ctx_of_def)

section \<open>Device registers\<close>

lemma get_set_part:
  assumes "byte_lane a + k \<le> 32"
  shows "get_part k a (set_part k a v w) = v AND mask k"
  using assms by (intro bit_word_eqI) (auto simp: get_part_def set_part_def bit_simps)

lemma set_part_other:
  assumes "byte_lane a + k \<le> byte_lane b \<or> byte_lane b + j \<le> byte_lane a" and "byte_lane a + k \<le> 32" and "byte_lane b + j \<le> 32"
  shows "get_part j b (set_part k a v w) = get_part j b w"
  using assms by (intro bit_word_eqI) (auto simp: get_part_def set_part_def bit_simps)

text \<open>A byte written is the byte read, and no other byte changes.\<close>

lemma lane_of_parts:
  fixes a b :: addr
  shows "byte_lane a + 8 \<le> 32" and "a AND NOT 3 = b AND NOT 3 \<Longrightarrow> a \<noteq> b \<Longrightarrow> byte_lane a + 8 \<le> byte_lane b \<or> byte_lane b + 8 \<le> byte_lane a"
proof -
  have m: "unat (x AND 3) < 4" for x :: addr
    using word_and_le1 [of x 3] by (simp add: word_le_nat_alt)
  show "byte_lane a + 8 \<le> 32" using m [of a] by (simp add: byte_lane_def)
  assume h: "a AND NOT 3 = b AND NOT 3" "a \<noteq> b"
  have "a AND 3 \<noteq> b AND 3"
  proof
    assume "a AND 3 = b AND 3"
    then have "(a AND NOT 3) OR (a AND 3) = (b AND NOT 3) OR (b AND 3)" using h(1) by simp
    then show False using h(2) by (simp flip: bit.conj_disj_distrib)
  qed
  then have "unat (a AND 3) \<noteq> unat (b AND 3)" by (simp add: word_unat_eq_iff)
  then show "byte_lane a + 8 \<le> byte_lane b \<or> byte_lane b + 8 \<le> byte_lane a" by (auto simp: byte_lane_def)
qed

lemma byte_registers:
  assumes "s' = WR_REG8 call s"
  shows "gpr (RD_REG8 call s') 0 = gpr s 1 AND 0xFF" "arm_pc s' = rd LR s"
    "b \<noteq> gpr s 0 \<Longrightarrow> gpr (RD_REG8 call (s'\<lparr>gpr := (gpr s)(0 := b)\<rparr>)) 0 = gpr (RD_REG8 call (s\<lparr>gpr := (gpr s)(0 := b)\<rparr>)) 0"
  using lane_of_parts(1) [of "gpr s 0"] lane_of_parts(1) [of b] lane_of_parts(2) [of "gpr s 0" b]
  by (auto simp: assms WR_REG8_def RD_REG8_def bx_def get_set_part set_part_other mask_eq_exp_minus_1)

section \<open>Loading a context\<close>

lemma load_context_run:
  assumes w: "w = run call load_context s" and m: "mode_of (cpsr s) \<noteq> CPSR_M_USR" and call: "aapcs (call Reload_ostick)"
    and a: "gpr s 0 = a" "unat a + 56 \<le> 2 ^ 32"
  shows "ctx_of w = ctx_at (mem s) a" "mode_of (cpsr w) = CPSR_M_SYS" "sp_of w = (sp_of s)(CPSR_M_USR := a + 56)"
    "b \<noteq> CPSR_M_USR \<Longrightarrow> lr_of w b = lr_of s b" "spsr_of w = spsr_of s" "unat a + 56 \<le> unat x \<Longrightarrow> mem w x = mem s x"
proof -
  define s1 where "s1 = run call (to_mode CPSR_M_SYS) s"
  note k1 = to_mode_run [OF s1_def m disjI1 [OF refl]]
  define s2 where "s2 = wr SP a s1"
  define s3 where "s3 = exec call (LDM context_regs) s2"
  define s4 where "s4 = exec call (STM context_regs) s3"
  define s5 where "s5 = s4\<lparr>gpr := (gpr s4)(0 := 5)\<rparr>"
  define s6 where "s6 = call Reload_ostick s5"
  define s7 where "s7 = exec call (LDM context_regs) s6"
  note k3 = LDM_context [OF s3_def] and k4 = STM_context [OF s4_def] and k6 = aapcs_keeps [OF call s6_def] and k7 = LDM_context [OF s7_def]
  have b1: "bank_of s1 = CPSR_M_USR" using k1(1) by (simp add: bank_of_def)
  have b: "bank_of s2 = CPSR_M_USR" "bank_of s3 = CPSR_M_USR" "bank_of s4 = CPSR_M_USR" "bank_of s5 = CPSR_M_USR" "bank_of s6 = CPSR_M_USR" "bank_of s7 = CPSR_M_USR"
    using b1 k6(4) bank_of_cong [OF k3(5)] bank_of_cong [OF k4(6)] bank_of_cong [OF k7(5)] by (simp_all add: s2_def s5_def)
  have sp: "rd SP s2 = a" "rd SP s3 = a + 56" "rd SP s5 = a" "rd SP s6 = a"
    using b k3(2) k4(2) k6(1) by (simp_all add: s2_def s5_def b1)
  have "gpr s1 0 = gpr s 0" using k1(2) by (metis fun_upd_other zero_neq_numeral)
  then have "rd (R 0) s1 = a" using a(1) by simp
  then have "run call load_context s = s7"
    by (simp add: load_context_def s1_def s2_def s3_def s4_def s5_def s6_def s7_def del: exec.simps(12,13)) 
  then have ws: "w = s7" using w by simp
  have f4: "ctx_at (mem s4) a = ctx_of s3" using k4(1) sp(2) by simp
  have f6: "ctx_at (mem s6) a = ctx_at (mem s5) a" by (rule ctx_at_cong [OF a(2)]) (use k6(6) sp(3) in simp)
  show "ctx_of w = ctx_at (mem s) a"
    using ws k7(1) sp(1,4) f6 f4 k3(1) k1(6) by (simp add: s5_def s2_def)
  show "mode_of (cpsr w) = CPSR_M_SYS"
    using ws k7(5) k6(3) k4(6) k3(5) k1(1) by (simp add: s5_def s2_def)
  show "sp_of w = (sp_of s)(CPSR_M_USR := a + 56)"
    using ws k7(2) sp k6(1) k4(2) k3(2) k1(3) b b1 by (simp add: s5_def s2_def)
  show "b \<noteq> CPSR_M_USR \<Longrightarrow> lr_of w b = lr_of s b"
    using ws k7(3) k6(5) k4(4) k3(3) k1(4) b by (simp add: s5_def s2_def)
  show "spsr_of w = spsr_of s"
    using ws k7(4) k6(2) k4(5) k3(4) k1(5) by (simp add: s5_def s2_def)
  show "unat a + 56 \<le> unat x \<Longrightarrow> mem w x = mem s x"
  proof -
    assume x: "unat a + 56 \<le> unat x"
    then have "mem s4 x = mem s3 x"
      using above_frame [OF a(2) x] sp(2) by (intro STM_outside [OF s4_def]) simp
    then show ?thesis using ws k7(7) k6(6) sp(3) x k3(7) k1(6) by (simp add: s5_def s2_def)
  qed
qed

lemma unat_32: "unat (x :: u32) < 2 ^ 32"
  using unsigned_less [of x] by simp

lemma store_words_other:
  "\<forall>k < length vs. x \<noteq> a + of_nat (4 * k) \<Longrightarrow> store_words a vs m x = m x"
proof (induction vs arbitrary: a m)
  case (Cons v vs)
  have "x \<noteq> a + 4 + of_nat (4 * k)" if "k < length vs" for k
    using Cons.prems [rule_format, of "Suc k"] that by (simp add: algebra_simps)
  moreover have "x \<noteq> a" using Cons.prems [rule_format, of 0] by simp
  ultimately show ?case using Cons.IH by simp
qed simp

lemma below_stack:
  fixes x sp :: addr
  assumes "4 * n \<le> unat sp" and "unat x < unat sp - 4 * n"
  shows "\<forall>k < n. x \<noteq> sp - of_nat (4 * n) + of_nat (4 * k)"
proof (intro allI impI)
  fix k assume k: "k < n"
  have n: "unat (of_nat (4 * n) :: addr) = 4 * n"
    using assms(1) unat_32 [of sp] by (intro unat_of_nat32) (simp del: of_nat_mult)
  have d: "unat (sp - of_nat (4 * n)) = unat sp - 4 * n"
    using assms(1) n by (subst unat_sub) (simp_all add: word_le_nat_alt del: of_nat_mult)
  have "unat (sp - of_nat (4 * n)) + 4 * n \<le> 2 ^ 32" using d assms(1) unat_32 [of sp] by simp
  then have "unat (sp - of_nat (4 * n) + of_nat (4 * k)) = unat sp - 4 * n + 4 * k"
    using unat_plus_range [of "sp - of_nat (4 * n)" "4 * n" "4 * k"] k d by simp
  then show "x \<noteq> sp - of_nat (4 * n) + of_nat (4 * k)" using assms(2) by auto
qed

definition user_bank :: "u32 \<Rightarrow> bool" where
  "user_bank c \<longleftrightarrow> mode_of c = CPSR_M_USR \<or> mode_of c = CPSR_M_SYS"

lemma user_bank_bank: "user_bank (cpsr s) \<Longrightarrow> bank_of s = CPSR_M_USR"
  by (auto simp: user_bank_def bank_of_def)

lemma msr_fc:
  assumes "mode_of (cpsr s) = CPSR_M_SYS"
  shows "cpsr (msr PSR_fc v s) AND PSR_fc = v AND PSR_fc" "mode_of (cpsr (msr PSR_fc v s)) = mode_of v"
  using assms by (simp_all add: msr_def Let_def mode_of_def bit.conj_disj_distrib2 and.assoc)

lemma msr_keeps [simp]:
  "gpr (msr f v s) = gpr s" "sp_of (msr f v s) = sp_of s" "lr_of (msr f v s) = lr_of s" "spsr_of (msr f v s) = spsr_of s" "mem (msr f v s) = mem s"
  "arm_pc (msr f v s) = arm_pc s" "unknown (msr f v s) = unknown s"
  by (simp_all add: msr_def Let_def)

lemma bx_keeps [simp]:
  "gpr (bx r s) = gpr s" "sp_of (bx r s) = sp_of s" "lr_of (bx r s) = lr_of s" "spsr_of (bx r s) = spsr_of s" "mem (bx r s) = mem s"
  "cpsr (bx r s) = cpsr s" "bank_of (bx r s) = bank_of s" "arm_pc (bx r s) = rd r s"
  by (simp_all add: bx_def)

lemma ctx_of_cong:
  "gpr s' = gpr s \<Longrightarrow> lr_of s' = lr_of s \<Longrightarrow> bank_of s' = bank_of s \<Longrightarrow> ctx_of s' = ctx_of s"
  by (simp add: ctx_of_def)

text \<open>\<^verbatim>\<open>switch_task\<close> resumes exactly the context that its argument points to.\<close>

lemma switch_task_run:
  assumes m: "mode_of (cpsr s) = CPSR_M_SVC" and call: "aapcs (call Reload_ostick)"
    and a: "gpr s 0 = a" "unat a + 96 \<le> unat (sp_of s CPSR_M_SVC)"
    and c: "ctx_at (mem s) a = c" and w: "w = switch_task call s"
  shows "user_bank (c_r12_spsr c) \<Longrightarrow> ctx_of w = c" "arm_pc w = c_r9_return_lr c" "sp_of w CPSR_M_USR = a + 56" "cpsr w AND PSR_fc = c_r12_spsr c AND PSR_fc"
    "mode_of (cpsr w) = mode_of (c_r12_spsr c)" "unat a + 56 \<le> unat x \<Longrightarrow> unat x + 40 < unat (sp_of s CPSR_M_SVC) \<Longrightarrow> mem w x = mem s x"
proof -
  let ?rs = "[R 4, R 5, R 6, R 7, R 8, R 9, R 10, R 11, R 12, LR]"
  define s1 where "s1 = exec call (STM ?rs) (exec call (MRS_spsr (R 12)) s)"
  define s2 where "s2 = run call load_context s1"
  define s3 where "s3 = msr PSR_fc (gpr s2 12) s2"
  have wb: "w = bx (R 9) s3" by (simp add: w switch_task_def s1_def s2_def s3_def del: exec.simps(12))
  have b: "bank_of s = CPSR_M_SVC" using m by (simp add: bank_of_def)
  have s1: "gpr s1 0 = a" "cpsr s1 = cpsr s" "lr_of s1 = lr_of s" by (simp_all add: s1_def Let_def a(1))
  have mem1: "mem s1 x = mem s x" if "unat x + 40 < unat (sp_of s CPSR_M_SVC)" for x
  proof -
    have "\<forall>k < 10. x \<noteq> sp_of s CPSR_M_SVC - of_nat (4 * 10) + of_nat (4 * k)"
      by (rule below_stack) (use that in simp_all)
    then have "\<forall>k < 10. x \<noteq> sp_of s CPSR_M_SVC - 40 + of_nat (4 * k)" by simp
    then show ?thesis by (simp add: s1_def Let_def b store_words_other del: store_words.simps)
  qed
  have a': "unat a + 56 \<le> 2 ^ 32" using a(2) unat_32 [of "sp_of s CPSR_M_SVC"] by simp
  have c1: "ctx_at (mem s1) a = c"
    using ctx_at_cong [OF a', of "mem s1" "mem s"] mem1 a(2) c by simp
  have m1: "mode_of (cpsr s1) \<noteq> CPSR_M_USR" using m s1(2) by simp
  note k2 = load_context_run [OF s2_def m1 call s1(1) a']
  have g: "gpr s2 12 = c_r12_spsr c" "gpr s2 9 = c_r9_return_lr c" using ctx_of_regs(3,4) [OF k2(1)] c1 by simp_all
  have p: "cpsr s3 AND PSR_fc = c_r12_spsr c AND PSR_fc" "mode_of (cpsr s3) = mode_of (c_r12_spsr c)"
    using msr_fc [OF k2(2)] g(1) by (simp_all add: s3_def)
  show "ctx_of w = c" if "user_bank (c_r12_spsr c)"
  proof -
    have "bank_of s3 = bank_of s2" using p(2) that k2(2) by (auto simp: user_bank_def bank_of_def)
    then have "ctx_of s3 = ctx_of s2" by (intro ctx_of_cong) (simp_all add: s3_def)
    then show ?thesis using k2(1) c1 ctx_of_cong [of w s3] by (simp add: wb)
  qed
  show "arm_pc w = c_r9_return_lr c" "sp_of w CPSR_M_USR = a + 56" "cpsr w AND PSR_fc = c_r12_spsr c AND PSR_fc"
    "mode_of (cpsr w) = mode_of (c_r12_spsr c)"
    using g(2) k2(3) p by (simp_all add: wb s3_def)
  show "unat a + 56 \<le> unat x \<Longrightarrow> unat x + 40 < unat (sp_of s CPSR_M_SVC) \<Longrightarrow> mem w x = mem s x"
    using k2(6) [of x] mem1 [of x] by (simp add: wb s3_def)
qed

section \<open>The tick\<close>

lemma take_irq_regs [simp]:
  "gpr (take_irq s) = gpr s" "sp_of (take_irq s) = sp_of s" "mem (take_irq s) = mem s" "mode_of (cpsr (take_irq s)) = CPSR_M_IRQ"
  "lr_of (take_irq s) = (lr_of s)(CPSR_M_IRQ := arm_pc s + 4)" "spsr_of (take_irq s) = (spsr_of s)(CPSR_M_IRQ := cpsr s)"
  by (simp_all add: take_irq_def take_exception_def mode_of_def bit.conj_disj_distrib2 and.assoc)

lemma take_svc_regs [simp]:
  "gpr (take_svc s) = gpr s" "sp_of (take_svc s) = sp_of s" "mem (take_svc s) = mem s" "mode_of (cpsr (take_svc s)) = CPSR_M_SVC"
  "lr_of (take_svc s) = (lr_of s)(CPSR_M_SVC := arm_pc s)" "spsr_of (take_svc s) = (spsr_of s)(CPSR_M_SVC := cpsr s)"
  by (simp_all add: take_svc_def take_exception_def mode_of_def bit.conj_disj_distrib2 and.assoc)

lemma ctx_of_gpr:
  assumes "ctx_of s = ctx_of s'" and "i \<le> 12"
  shows "gpr s i = gpr s' i"
proof -
  have "i = 0 \<or> i = 1 \<or> i = 2 \<or> i = 3 \<or> i = 4 \<or> i = 5 \<or> i = 6 \<or> i = 7 \<or> i = 8 \<or> i = 9 \<or> i = 10 \<or> i = 11 \<or> i = 12"
    using assms(2) by presburger
  then show ?thesis using assms(1) by (elim disjE) (simp_all add: ctx_of_def)
qed

text \<open>Registers 9, 10 and 12 are overwritten before the context is saved.\<close>

lemma tick_saves:
  assumes user: "user_bank (cpsr s)" and irq: "56 \<le> unat (sp_of s CPSR_M_IRQ)"
    and call: "aapcs (call Get_act_irqnum)" and line: "\<forall>u. gpr (call Get_act_irqnum u) 0 = 66"
  shows "\<exists>t x. irq_entry call (take_irq s) = (Timer0_isr, t) \<and> mode_of (cpsr t) = CPSR_M_SVC
    \<and> gpr t 0 = sp_of s CPSR_M_USR - 56 \<and> sp_of t CPSR_M_SVC = sp_of s CPSR_M_SVC
    \<and> ctx_at (mem t) (gpr t 0) = (ctx_of s)\<lparr>c_r9_return_lr := arm_pc s, c_r10 := x, c_r12_spsr := cpsr s\<rparr>"
proof -
  let ?e = "take_irq s"
  define s1 where "s1 = exec call (STM context_regs) ?e"
  define s2 where "s2 = call Get_act_irqnum s1"
  define s3 where "s3 = exec call (LDM context_regs) s2"
  define s4 where "s4 = run call [SUB LR LR 4, MOV (R 9) LR, MRS_spsr (R 12), LDR_lit SP 0x9df41000] s3"
  define s5 where "s5 = run call (to_mode CPSR_M_SYS) s4"
  define s6 where "s6 = exec call (STM context_regs) s5"
  define s7 where "s7 = s6\<lparr>gpr := (gpr s6)(0 := rd SP s6)\<rparr>"
  define t where "t = run call (to_mode CPSR_M_SVC) s7"
  note k1 = STM_context [OF s1_def] and k2 = aapcs_keeps [OF call s2_def] and k3 = LDM_context [OF s3_def] and k6 = STM_context [OF s6_def]
  have b1: "bank_of ?e = CPSR_M_IRQ" "bank_of s1 = CPSR_M_IRQ" "bank_of s2 = CPSR_M_IRQ" "bank_of s3 = CPSR_M_IRQ"
    using k2(4) bank_of_cong [OF k1(6)] bank_of_cong [OF k3(5)] by (simp_all add: bank_of_def)
  let ?a = "sp_of s CPSR_M_IRQ - 56"
  have a: "unat ?a + 56 \<le> 2 ^ 32"
    using irq unat_32 [of "sp_of s CPSR_M_IRQ"] by (subst unat_sub) (simp_all add: word_le_nat_alt)
  have sp: "rd SP s1 = ?a" "rd SP s2 = ?a" using b1 k1(2) k2(1) by simp_all
  have "ctx_at (mem s2) ?a = ctx_at (mem s1) ?a" by (rule ctx_at_cong [OF a]) (use k2(6) sp(1) in simp)
  then have c3: "ctx_of s3 = ctx_of ?e" using k1(1) k3(1) sp(2) b1(1) by simp
  have g3: "gpr s3 i = gpr s i" if "i \<le> 12" for i
    using ctx_of_gpr [OF c3 that] by simp
  have l3: "lr_of s3 CPSR_M_IRQ = arm_pc s + 4" using ctx_of_regs(5) [OF c3] b1 by (simp add: ctx_of_def)
  have u3: "lr_of s3 CPSR_M_USR = lr_of s CPSR_M_USR" using k3(3) k2(5) k1(4) b1 by simp
  have r3: "spsr_of s3 CPSR_M_IRQ = cpsr s" using k3(4) k2(2) k1(5) by simp
  have s4: "gpr s4 = (gpr s3)(9 := arm_pc s, 12 := cpsr s)" "cpsr s4 = cpsr s3" "lr_of s4 CPSR_M_USR = lr_of s CPSR_M_USR"
    "sp_of s4 = (sp_of s3)(CPSR_M_IRQ := 0x9df41000)"
    using b1 l3 u3 r3 by (simp_all add: s4_def)
  have m4: "mode_of (cpsr s4) = CPSR_M_IRQ" using s4(2) k3(5) k2(3) k1(6) by simp
  then have m4': "mode_of (cpsr s4) \<noteq> CPSR_M_USR" by simp
  note k5 = to_mode_run [OF s5_def m4' disjI1 [OF refl]]
  have b5: "bank_of s5 = CPSR_M_USR" using k5(1) by (simp add: bank_of_def)
  have sp5: "rd SP s5 = sp_of s CPSR_M_USR" using b5 k5(3) s4(4) k3(2) k2(1) k1(2) b1 by simp
  have m7: "mode_of (cpsr s7) \<noteq> CPSR_M_USR" using k5(1) k6(6) by (simp add: s7_def)
  note kt = to_mode_run [OF t_def m7 disjI2 [OF refl]]
  have sp6: "rd SP s6 = sp_of s CPSR_M_USR - 56" using k6(2) sp5 bank_of_cong [OF k6(6)] b5 by simp
  obtain y where "gpr t = (gpr s7)(10 := y)" using kt(2) by blast
  then have gt: "gpr t 0 = sp_of s CPSR_M_USR - 56" using sp6 by (simp add: s7_def)
  obtain x where x: "gpr s5 = (gpr s4)(10 := x)" using k5(2) by blast
  have "ctx_of s5 = (ctx_of s)\<lparr>c_r9_return_lr := arm_pc s, c_r10 := x, c_r12_spsr := cpsr s\<rparr>"
    using g3 s4(1,3) x k5(4) b5 user_bank_bank [OF user] by (simp add: ctx_of_def)
  moreover have "ctx_at (mem t) (gpr t 0) = ctx_of s5" using gt k6(1) sp5 kt(6) by (simp add: s7_def)
  moreover have "irq_entry call ?e = (Timer0_isr, t)"
    using line by (simp add: irq_entry_def Let_def s1_def s2_def s3_def s4_def s5_def s6_def s7_def t_def del: exec.simps(12,13))
  moreover have "sp_of t CPSR_M_SVC = sp_of s CPSR_M_SVC" using kt(3) k6(2) k5(3) s4(4) k3(2) k2(1) k1(2) b1 b5 by (simp add: s7_def)
  ultimately show ?thesis using kt(1) gt by (intro exI [of _ t] exI [of _ x] conjI) (simp_all only:)
qed

text \<open>
  Preemption and resumption. When the tick interrupts a task anywhere, \<^verbatim>\<open>irq_entry\<close> reaches
  \<^verbatim>\<open>timer0_isr\<close> in supervisor mode with a \<^verbatim>\<open>struct TASK_CONTEXT\<close> on the stack of the task; whenever
  \<^verbatim>\<open>switch_task\<close> is later given this frame, unchanged, the task goes on at the instruction that was
  interrupted, with its stack pointer, link register, flags and mode, and with all its registers but
  three: registers 9, 10 and 12 have been overwritten before they were saved.
\<close>

lemma tick_resumes:
  assumes user: "user_bank (cpsr s)" "56 \<le> unat (sp_of s CPSR_M_IRQ)"
    and call: "aapcs (call Get_act_irqnum)" "\<forall>u. gpr (call Get_act_irqnum u) 0 = 66" "aapcs (call Reload_ostick)"
  shows "\<exists>t. irq_entry call (take_irq s) = (Timer0_isr, t) \<and> mode_of (cpsr t) = CPSR_M_SVC \<and> gpr t 0 = sp_of s CPSR_M_USR - 56
    \<and> (\<forall>v. mode_of (cpsr v) = CPSR_M_SVC \<and> gpr v 0 = gpr t 0 \<and> ctx_at (mem v) (gpr v 0) = ctx_at (mem t) (gpr t 0)
           \<and> unat (gpr v 0) + 96 \<le> unat (sp_of v CPSR_M_SVC) \<longrightarrow>
         (let w = switch_task call v
          in arm_pc w = arm_pc s \<and> sp_of w CPSR_M_USR = sp_of s CPSR_M_USR \<and> lr_of w CPSR_M_USR = lr_of s CPSR_M_USR
             \<and> cpsr w AND PSR_fc = cpsr s AND PSR_fc \<and> (\<forall>i \<le> 11. i \<noteq> 9 \<and> i \<noteq> 10 \<longrightarrow> gpr w i = gpr s i)
             \<and> gpr w 9 = arm_pc s \<and> gpr w 12 = cpsr s))"
proof -
  obtain t x where t: "irq_entry call (take_irq s) = (Timer0_isr, t)" "mode_of (cpsr t) = CPSR_M_SVC"
    "gpr t 0 = sp_of s CPSR_M_USR - 56" "ctx_at (mem t) (gpr t 0) = (ctx_of s)\<lparr>c_r9_return_lr := arm_pc s, c_r10 := x, c_r12_spsr := cpsr s\<rparr>"
    using tick_saves [where call = call, OF user call(1,2)] by blast
  have "arm_pc w = arm_pc s \<and> sp_of w CPSR_M_USR = sp_of s CPSR_M_USR \<and> lr_of w CPSR_M_USR = lr_of s CPSR_M_USR
      \<and> cpsr w AND PSR_fc = cpsr s AND PSR_fc \<and> (\<forall>i \<le> 11. i \<noteq> 9 \<and> i \<noteq> 10 \<longrightarrow> gpr w i = gpr s i) \<and> gpr w 9 = arm_pc s \<and> gpr w 12 = cpsr s"
    if v: "mode_of (cpsr v) = CPSR_M_SVC" "gpr v 0 = gpr t 0" "ctx_at (mem v) (gpr v 0) = ctx_at (mem t) (gpr t 0)"
      "unat (gpr v 0) + 96 \<le> unat (sp_of v CPSR_M_SVC)" and w: "w = switch_task call v" for v w
  proof -
    let ?c = "(ctx_of s)\<lparr>c_r9_return_lr := arm_pc s, c_r10 := x, c_r12_spsr := cpsr s\<rparr>"
    have c: "ctx_at (mem v) (gpr v 0) = ?c" using v(3) t(4) by simp
    have u: "user_bank (c_r12_spsr ?c)" using user(1) by simp
    note k = switch_task_run [OF v(1) call(3) refl v(4) c w]
    have "bank_of w = CPSR_M_USR" using k(5) user(1) by (auto simp: bank_of_def user_bank_def)
    then have r: "gpr w 9 = arm_pc s" "gpr w 12 = cpsr s" "lr_of w CPSR_M_USR = lr_of s CPSR_M_USR"
      using ctx_of_regs(3-5) [OF k(1) [OF u]] user_bank_bank [OF user(1)] by (simp_all add: ctx_of_def)
    have "ctx_of w = ctx_of (s\<lparr>gpr := (gpr s)(9 := arm_pc s, 10 := x, 12 := cpsr s)\<rparr>)" using k(1) [OF u] by (simp add: ctx_of_def)
    then have "\<forall>i \<le> 11. i \<noteq> 9 \<and> i \<noteq> 10 \<longrightarrow> gpr w i = gpr s i" using ctx_of_gpr [of w "s\<lparr>gpr := (gpr s)(9 := arm_pc s, 10 := x, 12 := cpsr s)\<rparr>"] by simp
    then show ?thesis using r k(2,3,4) v(2) t(3) by simp
  qed
  note resumed = this [OF _ _ _ _ refl]
  show ?thesis using t(1-3) resumed unfolding Let_def by blast
qed

definition demo_call :: "cfun \<Rightarrow> arm \<Rightarrow> arm" where
  "demo_call f s = (if f = Get_act_irqnum then s\<lparr>gpr := (gpr s)(0 := 66)\<rparr> else s)"

lemma demo_call_aapcs: "aapcs (demo_call f)"
  by (simp add: aapcs_def keeps_regs_def demo_call_def)

text \<open>A task at \<open>0x82001000\<close> with its stack in the page \<open>0x82300000\<close>.\<close>

definition demo_arm :: arm where
  "demo_arm = \<lparr>gpr = (\<lambda>i. of_nat i), sp_of = (\<lambda>_. 0)(CPSR_M_USR := 0x82300f00, CPSR_M_IRQ := 0x9df40ffc, CPSR_M_SVC := 0x9df3fffc),
     lr_of = (\<lambda>_. 0x82002000), spsr_of = (\<lambda>_. CPSR_M_SYS), cpsr = 0x60000010, mem = (\<lambda>_. 0), arm_pc = 0x82001000, vbar = 0x9ff52000, sctlr = 0, unknown = 0x60000010\<rparr>"

section \<open>System calls\<close>

text \<open>From the call of a stub, \<^verbatim>\<open>syscall_get_tid\<close> or a later one, to \<^verbatim>\<open>syscall_handler\<close>; \<open>ret\<close> is the address behind its \<^verbatim>\<open>svc\<close>.\<close>

definition at_svc :: "(cfun \<Rightarrow> arm \<Rightarrow> arm) \<Rightarrow> u32 \<Rightarrow> addr \<Rightarrow> arm \<Rightarrow> arm" where
  "at_svc call n ret s = take_svc ((run call (stub_call n) s)\<lparr>arm_pc := ret\<rparr>)"

lemma stub_run:
  assumes "user_bank (cpsr s)" and "n \<noteq> 0" "n \<noteq> 1" and "e = at_svc call n ret s"
  shows "gpr e = (gpr s)(2 := gpr s 0, 0 := n)" "sp_of e = (sp_of s)(CPSR_M_USR := sp_of s CPSR_M_USR - 8)"
    "lr_of e = (lr_of s)(CPSR_M_SVC := ret)" "spsr_of e = (spsr_of s)(CPSR_M_SVC := cpsr s)"
    "mem e = (mem s)(sp_of s CPSR_M_USR - 8 := gpr s 2, sp_of s CPSR_M_USR - 4 := lr_of s CPSR_M_USR)"
    "mode_of (cpsr e) = CPSR_M_SVC"
  using assms user_bank_bank [OF assms(1)] by (simp_all add: at_svc_def stub_call_def stub_regs_def Let_def)

text \<open>From the exception to \<^verbatim>\<open>syscall_handler\<close>: the frame lies below the stack pointer \<open>S\<close> that user code had at its \<^verbatim>\<open>svc\<close>.\<close>

lemma svc_save_run:
  assumes m: "mode_of (cpsr e) = CPSR_M_SVC" and S: "sp_of e CPSR_M_USR = S" and t: "t = run call svc_save e"
  shows "mode_of (cpsr t) = CPSR_M_SVC" "gpr t 0 = gpr e 0" "gpr t 1 = S - 56" "gpr t 2 = gpr e 2"
    "sp_of t CPSR_M_USR = S - 56" "spsr_of t = spsr_of e"
    "56 \<le> unat S \<Longrightarrow> unat S + 16 \<le> unat (sp_of e CPSR_M_SVC) \<Longrightarrow> \<exists>x. ctx_at (mem t) (S - 56)
       = (ctx_of e)\<lparr>c_r9_return_lr := lr_of e CPSR_M_SVC, c_r10 := x, c_r12_spsr := spsr_of e CPSR_M_SVC, c_lr := lr_of e CPSR_M_USR\<rparr>"
    "56 \<le> unat S \<Longrightarrow> unat S \<le> unat y \<Longrightarrow> unat y + 16 < unat (sp_of e CPSR_M_SVC) \<Longrightarrow> mem t y = mem e y"
proof -
  define s1 where "s1 = run call [MOV (R 9) LR, MRS_spsr (R 12)] e"
  define s2 where "s2 = run call (to_mode CPSR_M_SYS) s1"
  define s3 where "s3 = exec call (STM context_regs) s2"
  define s4 where "s4 = s3\<lparr>gpr := (gpr s3)(1 := rd SP s3)\<rparr>"
  define s5 where "s5 = run call (to_mode CPSR_M_SVC) s4"
  have be: "bank_of e = CPSR_M_SVC" using m by (simp add: bank_of_def)
  have s1: "gpr s1 = (gpr e)(9 := lr_of e CPSR_M_SVC, 12 := spsr_of e CPSR_M_SVC)" "cpsr s1 = cpsr e" "sp_of s1 = sp_of e" "lr_of s1 = lr_of e"
    "mem s1 = mem e" "spsr_of s1 = spsr_of e"
    using be by (simp_all add: s1_def)
  have m1: "mode_of (cpsr s1) \<noteq> CPSR_M_USR" using m s1(2) by simp
  note k2 = to_mode_run [OF s2_def m1 disjI1 [OF refl]] and k3 = STM_context [OF s3_def]
  have b2: "bank_of s2 = CPSR_M_USR" "bank_of s3 = CPSR_M_USR" using k2(1) bank_of_cong [OF k3(6)] by (simp_all add: bank_of_def)
  have sp2: "rd SP s2 = S" using b2 k2(3) s1(3) S by simp
  have sp3: "rd SP s3 = S - 56" using b2 k3(2) sp2 by simp
  have m4: "mode_of (cpsr s4) \<noteq> CPSR_M_USR" using k2(1) k3(6) by (simp add: s4_def)
  note k5 = to_mode_run [OF s5_def m4 disjI2 [OF refl]]
  have b5: "bank_of s5 = CPSR_M_SVC" using k5(1) by (simp add: bank_of_def)
  obtain x where x: "gpr s2 = (gpr s1)(10 := x)" using k2(2) by blast
  obtain z where z: "gpr s5 = (gpr s4)(10 := z)" using k5(2) by blast
  have ts: "t = exec call (STM [R 0, R 1, R 2, R 3]) s5"
    by (simp add: t svc_save_def s1_def s2_def s3_def s4_def s5_def del: exec.simps(12,13))
  have t5: "gpr t = gpr s5" "cpsr t = cpsr s5" "spsr_of t = spsr_of s5" "sp_of t = (sp_of s5)(CPSR_M_SVC := sp_of s5 CPSR_M_SVC - 16)"
    using b5 by (simp_all add: ts Let_def)
  show "mode_of (cpsr t) = CPSR_M_SVC" using t5(2) k5(1) by simp
  show "gpr t 0 = gpr e 0" "gpr t 1 = S - 56" "gpr t 2 = gpr e 2"
    using t5(1) z sp3 k3(3) x s1(1) by (simp_all add: s4_def)
  show "sp_of t CPSR_M_USR = S - 56" "spsr_of t = spsr_of e"
    using t5(3,4) k5(3,5) k3(2,5) b2 sp2 k2(3,5) s1(3,6) by (simp_all add: s4_def)
  have sv: "sp_of s5 CPSR_M_SVC = sp_of e CPSR_M_SVC" using k5(3) k3(2) b2 k2(3) s1(3) by (simp add: s4_def)
  have m3: "mem t y = mem s3 y" if "unat y + 16 < unat (sp_of e CPSR_M_SVC)" for y
  proof -
    have "\<forall>k < 4. y \<noteq> sp_of e CPSR_M_SVC - of_nat (4 * 4) + of_nat (4 * k)"
      by (rule below_stack) (use that in linarith)+
    then have "\<forall>k < 4. y \<noteq> sp_of e CPSR_M_SVC - 16 + of_nat (4 * k)" by simp
    then have "mem t y = mem s5 y" by (simp add: ts Let_def b5 sv store_words_other del: store_words.simps)
    then show ?thesis using k5(6) by (simp add: s4_def)
  qed
  have un: "unat (S - 56) = unat S - 56" if "56 \<le> unat S" using that by (simp add: unat_sub word_le_nat_alt)
  have a: "unat (S - 56) + 56 \<le> 2 ^ 32" if "56 \<le> unat S" using un [OF that] that unat_32 [of S] by simp
  show "\<exists>x. ctx_at (mem t) (S - 56)
       = (ctx_of e)\<lparr>c_r9_return_lr := lr_of e CPSR_M_SVC, c_r10 := x, c_r12_spsr := spsr_of e CPSR_M_SVC, c_lr := lr_of e CPSR_M_USR\<rparr>"
    if r: "56 \<le> unat S" "unat S + 16 \<le> unat (sp_of e CPSR_M_SVC)"
  proof -
    have "ctx_at (mem t) (S - 56) = ctx_at (mem s3) (S - 56)"
      by (rule ctx_at_cong [OF a [OF r(1)]]) (use un [OF r(1)] r in \<open>auto intro!: m3\<close>)
    also have "\<dots> = ctx_of s2" using k3(1) sp2 by simp
    also have "\<dots> = (ctx_of e)\<lparr>c_r9_return_lr := lr_of e CPSR_M_SVC, c_r10 := x, c_r12_spsr := spsr_of e CPSR_M_SVC, c_lr := lr_of e CPSR_M_USR\<rparr>"
      using b2 x s1(1,4) k2(4) by (simp add: ctx_of_def)
    finally show ?thesis by blast
  qed
  show "mem t y = mem e y" if y: "56 \<le> unat S" "unat S \<le> unat y" "unat y + 16 < unat (sp_of e CPSR_M_SVC)"
  proof -
    have "unat (S - 56) + 56 \<le> unat y" using un [OF y(1)] y by simp
    then have "mem s3 y = mem s2 y"
      using above_frame [OF a [OF y(1)]] sp2 by (intro STM_outside [OF s3_def]) simp
    then show ?thesis using m3 [OF y(3)] k2(6) s1(5) by simp
  qed
qed

lemma svc_saves:
  assumes user: "user_bank (cpsr s)" and n: "n \<noteq> 0" "n \<noteq> 1"
  shows "\<exists>t x. run call svc_save (at_svc call n ret s) = t \<and> mode_of (cpsr t) = CPSR_M_SVC
    \<and> gpr t 0 = n \<and> gpr t 1 = sp_of s CPSR_M_USR - 64 \<and> gpr t 2 = gpr s 0
    \<and> sp_of t CPSR_M_USR = sp_of s CPSR_M_USR - 64
    \<and> (unat (sp_of s CPSR_M_USR) + 16 < unat (sp_of s CPSR_M_SVC) \<and> 64 \<le> unat (sp_of s CPSR_M_USR) \<longrightarrow>
         ctx_at (mem t) (gpr t 1) = (ctx_of s)\<lparr>c_r0 := n, c_r2 := gpr s 0, c_r9_return_lr := ret, c_r10 := x, c_r12_spsr := cpsr s\<rparr>
         \<and> mem t (sp_of s CPSR_M_USR - 8) = gpr s 2 \<and> mem t (sp_of s CPSR_M_USR - 4) = lr_of s CPSR_M_USR)"
proof -
  let ?S = "sp_of s CPSR_M_USR - 8"
  define e where "e = at_svc call n ret s"
  define t where "t = run call svc_save e"
  note ke = stub_run [OF user n e_def]
  have S: "sp_of e CPSR_M_USR = ?S" using ke(2) by simp
  note k = svc_save_run [OF ke(6) S t_def]
  have sv: "sp_of e CPSR_M_SVC = sp_of s CPSR_M_SVC" using ke(2) by simp
  have frame: "\<exists>x. ctx_at (mem t) (gpr t 1) = (ctx_of s)\<lparr>c_r0 := n, c_r2 := gpr s 0, c_r9_return_lr := ret, c_r10 := x, c_r12_spsr := cpsr s\<rparr>"
    and words: "mem t (sp_of s CPSR_M_USR - 8) = gpr s 2" "mem t (sp_of s CPSR_M_USR - 4) = lr_of s CPSR_M_USR"
    if room: "unat (sp_of s CPSR_M_USR) + 16 < unat (sp_of s CPSR_M_SVC)" "64 \<le> unat (sp_of s CPSR_M_USR)"
  proof -
    have un: "unat ?S = unat (sp_of s CPSR_M_USR) - 8" "unat (sp_of s CPSR_M_USR - 4) = unat (sp_of s CPSR_M_USR) - 4"
      using room by (simp_all add: unat_sub word_le_nat_alt)
    have r: "56 \<le> unat ?S" "unat ?S + 16 \<le> unat (sp_of e CPSR_M_SVC)" using un room sv by simp_all
    obtain x where x: "ctx_at (mem t) (?S - 56)
       = (ctx_of e)\<lparr>c_r9_return_lr := lr_of e CPSR_M_SVC, c_r10 := x, c_r12_spsr := spsr_of e CPSR_M_SVC, c_lr := lr_of e CPSR_M_USR\<rparr>"
      using k(7) [OF r] by blast
    have "ctx_at (mem t) (gpr t 1) = (ctx_of s)\<lparr>c_r0 := n, c_r2 := gpr s 0, c_r9_return_lr := ret, c_r10 := x, c_r12_spsr := cpsr s\<rparr>"
      unfolding k(3) x using ke(1,3,4) user_bank_bank [OF user] by (simp add: ctx_of_def)
    then show "\<exists>x. ctx_at (mem t) (gpr t 1) = (ctx_of s)\<lparr>c_r0 := n, c_r2 := gpr s 0, c_r9_return_lr := ret, c_r10 := x, c_r12_spsr := cpsr s\<rparr>" ..
    show "mem t (sp_of s CPSR_M_USR - 8) = gpr s 2" "mem t (sp_of s CPSR_M_USR - 4) = lr_of s CPSR_M_USR"
      using k(8) [OF r(1), of ?S] k(8) [OF r(1), of "sp_of s CPSR_M_USR - 4"] un room sv ke(5) by simp_all
  qed
  have "gpr t 0 = n" "gpr t 1 = sp_of s CPSR_M_USR - 64" "gpr t 2 = gpr s 0" "sp_of t CPSR_M_USR = sp_of s CPSR_M_USR - 64"
    using k(2-5) ke(1) by simp_all
  then show ?thesis using k(1) frame words unfolding t_def e_def by blast
qed

text \<open>
  The way back pops whatever frame the handler has left. Where \<^verbatim>\<open>blx lr\<close> goes depends on the value \<open>v\<close> of
  the unpredictable read, which the mode is taken from: to the link register of that mode.
\<close>

lemma svc_back_run:
  assumes call: "keeps_regs (call Syscall_handler)" and t: "mode_of (cpsr t) = CPSR_M_SVC"
    and u: "u = call Syscall_handler t" and c: "ctx_at (mem u) (sp_of t CPSR_M_USR) = c"
    and w: "w = blx LR nxt (run call svc_back u)" and v: "v = unknown u"
  shows "ctx_of w = c\<lparr>c_r10 := v, c_lr := nxt\<rparr>" "sp_of w CPSR_M_USR = sp_of t CPSR_M_USR + 56" "cpsr w AND PSR_fc = v AND PSR_fc"
    "arm_pc w = (if user_bank v then c_lr c else lr_of u (mode_of v))"
proof -
  define s2 where "s2 = exec call (LDM [R 0, R 1, R 2, R 3]) u"
  define s3 where "s3 = run call (to_mode CPSR_M_SYS) s2"
  define s4 where "s4 = exec call (LDM context_regs) s3"
  define s5 where "s5 = s4\<lparr>gpr := (gpr s4)(10 := v)\<rparr>"
  define s6 where "s6 = msr PSR_fc (gpr s5 10) s5"
  note k1 = keeps_regs_keeps [OF call u] and k4 = LDM_context [OF s4_def]
  have b1: "bank_of u = CPSR_M_SVC" using k1(3) t by (simp add: bank_of_def)
  have s2: "cpsr s2 = cpsr u" "mem s2 = mem u" "sp_of s2 CPSR_M_USR = sp_of t CPSR_M_USR" "lr_of s2 = lr_of u" "unknown s2 = v"
    using k1(1) b1 by (simp_all add: s2_def Let_def v)
  have m2: "mode_of (cpsr s2) \<noteq> CPSR_M_USR" using s2(1) k1(3) t by simp
  note k3 = to_mode_run [OF s3_def m2 disjI1 [OF refl]]
  have b3: "bank_of s3 = CPSR_M_USR" "bank_of s4 = CPSR_M_USR" "bank_of s5 = CPSR_M_USR"
    using k3(1) k4(5) by (simp_all add: bank_of_def s5_def)
  have v4: "unknown s4 = v" using k4(8) k3(8) s2(5) by simp
  have sp3: "rd SP s3 = sp_of t CPSR_M_USR" using b3 k3(3) s2(3) by simp
  have c4: "ctx_of s4 = c" using k4(1) sp3 k3(6) s2(2) c by simp
  have m5: "mode_of (cpsr s5) = CPSR_M_SYS" using k3(1) k4(5) by (simp add: s5_def)
  have m6: "mode_of (cpsr s6) = mode_of v" using msr_fc(2) [OF m5, of "gpr s5 10"] by (simp add: s6_def s5_def)
  have b6: "bank_of s6 = (if user_bank v then CPSR_M_USR else mode_of v)" using m6 by (auto simp: bank_of_def user_bank_def)
  have "run call [MRS_spsr (R 10)] s4 = s5" using b3(2) v4 by (simp add: s5_def)
  then have wb: "w = blx LR nxt s6"
    unfolding w svc_back_def run_simps s2_def [symmetric] s3_def [symmetric] s4_def [symmetric] by (simp add: s6_def)
  have "gpr w = (gpr s4)(10 := v)" "rd LR w = nxt" by (simp_all add: wb blx_def s6_def s5_def)
  then show "ctx_of w = c\<lparr>c_r10 := v, c_lr := nxt\<rparr>" unfolding c4 [symmetric] by (simp add: ctx_of_def)
  have l4: "lr_of s4 = (lr_of u)(CPSR_M_USR := c_lr c)" using k4(3) sp3 k3(4,6) s2(2,4) b3(1) c by simp
  then show "arm_pc w = (if user_bank v then c_lr c else lr_of u (mode_of v))"
    using b6 by (auto simp: wb blx_def s6_def s5_def user_bank_def)
  show "sp_of w CPSR_M_USR = sp_of t CPSR_M_USR + 56" using k4(2) sp3 b3 by (simp add: wb blx_def s6_def s5_def)
  show "cpsr w AND PSR_fc = v AND PSR_fc" using msr_fc(1) [OF m5, of "gpr s5 10"] by (simp add: wb blx_def s6_def s5_def)
qed

definition room :: "arm \<Rightarrow> bool" where
  "room s \<longleftrightarrow> 64 \<le> unat (sp_of s CPSR_M_USR) \<and> unat (sp_of s CPSR_M_USR) + 96 \<le> unat (sp_of s CPSR_M_SVC)"

lemma stub_frame:
  assumes "user_bank (cpsr s)" and "n \<noteq> 1" and "e = at_svc call n ret s" and "z = 4 * of_nat (length (stub_regs n))"
  shows "gpr e = (gpr s)(2 := gpr s 0, 0 := n)" "sp_of e = (sp_of s)(CPSR_M_USR := sp_of s CPSR_M_USR - z)"
    "lr_of e = (lr_of s)(CPSR_M_SVC := ret)" "spsr_of e = (spsr_of s)(CPSR_M_SVC := cpsr s)" "mode_of (cpsr e) = CPSR_M_SVC"
    "z = 8 \<or> z = 12"
  using assms user_bank_bank [OF assms(1)]
  by (cases "n = 0"; simp add: at_svc_def stub_call_def stub_regs_def Let_def)+

text \<open>
  C14: a system call there and back, for every stub but that of \<^verbatim>\<open>yield\<close>. The stub, which pushes \<open>z\<close> bytes, and
  \<^verbatim>\<open>svc_entry\<close> reach \<^verbatim>\<open>syscall_handler\<close> with the number, the address of the saved context and the argument; the context holds the
  registers of the caller but for 0, 2, 9, 10 and 12. On the way back the registers are those of the frame \<open>c\<close> that the handler
  leaves, whatever it has changed there. But \<^verbatim>\<open>blx\<close> goes to the link register of the frame, which is that of the caller, not to the
  address behind \<^verbatim>\<open>svc\<close>: the stub is not resumed and its words stay on the stack. And this only if the value \<open>v\<close> of the read of
  a status register that system mode does not have happens to name user or system mode: \<open>v\<close>, of which nothing is
  assumed, goes to register 10, the flags and the mode, and another mode has another link register.
\<close>

theorem syscall_trip:
  assumes user: "user_bank (cpsr s)" "68 \<le> unat (sp_of s CPSR_M_USR)" "unat (sp_of s CPSR_M_USR) + 16 \<le> unat (sp_of s CPSR_M_SVC)"
    and n: "n \<noteq> 1" and z: "z = 4 * of_nat (length (stub_regs n))"
    and call: "keeps_regs (call Syscall_handler)" and t: "t = run call svc_save (at_svc call n ret s)"
    and c: "c = ctx_at (mem (call Syscall_handler t)) (gpr t 1)" and v: "v = unknown (call Syscall_handler t)"
    and w: "w = svc_entry call nxt (at_svc call n ret s)"
  shows "mode_of (cpsr t) = CPSR_M_SVC \<and> gpr t 0 = n \<and> gpr t 1 = sp_of s CPSR_M_USR - z - 56 \<and> gpr t 2 = gpr s 0
    \<and> (\<exists>x. ctx_at (mem t) (gpr t 1) = (ctx_of s)\<lparr>c_r0 := n, c_r2 := gpr s 0, c_r9_return_lr := ret, c_r10 := x, c_r12_spsr := cpsr s\<rparr>)
    \<and> ctx_of w = c\<lparr>c_r10 := v, c_lr := nxt\<rparr> \<and> sp_of w CPSR_M_USR = sp_of s CPSR_M_USR - z \<and> cpsr w AND PSR_fc = v AND PSR_fc
    \<and> arm_pc w = (if user_bank v then c_lr c else lr_of (call Syscall_handler t) (mode_of v))"
proof -
  define e where "e = at_svc call n ret s"
  note ke = stub_frame [OF user(1) n e_def z]
  have S: "sp_of e CPSR_M_USR = sp_of s CPSR_M_USR - z" using ke(2) by simp
  note k = svc_save_run [OF ke(5) S t [folded e_def]]
  have "unat z \<le> 12" using ke(6) by auto
  then have un: "unat (sp_of s CPSR_M_USR - z) = unat (sp_of s CPSR_M_USR) - unat z" using user(2) by (simp add: unat_sub word_le_nat_alt)
  have r: "56 \<le> unat (sp_of s CPSR_M_USR - z)" "unat (sp_of s CPSR_M_USR - z) + 16 \<le> unat (sp_of e CPSR_M_SVC)"
    using un \<open>unat z \<le> 12\<close> user(2,3) ke(2) by simp_all
  obtain x where x: "ctx_at (mem t) (gpr t 1)
       = (ctx_of e)\<lparr>c_r9_return_lr := lr_of e CPSR_M_SVC, c_r10 := x, c_r12_spsr := spsr_of e CPSR_M_SVC, c_lr := lr_of e CPSR_M_USR\<rparr>"
    using k(7) [OF r] k(3) by auto
  have f: "ctx_at (mem t) (gpr t 1) = (ctx_of s)\<lparr>c_r0 := n, c_r2 := gpr s 0, c_r9_return_lr := ret, c_r10 := x, c_r12_spsr := cpsr s\<rparr>"
    unfolding x using ke(1,3,4) user_bank_bank [OF user(1)] by (simp add: ctx_of_def)
  have wb: "w = blx LR nxt (run call svc_back (call Syscall_handler t))" by (simp add: w svc_entry_def t)
  have "ctx_at (mem (call Syscall_handler t)) (sp_of t CPSR_M_USR) = c" using c k(3,5) by simp
  note b = svc_back_run [OF call k(1) refl this wb v]
  show ?thesis using k(1-5) ke(1) f b by auto
qed

text \<open>
  The other way back. A task that \<^verbatim>\<open>fork\<close> has made from the context of a system call, with 0 in
  \<^verbatim>\<open>r0\<close> and a copy of the stack at \<open>p\<close>, is started by \<^verbatim>\<open>switch_task\<close> behind the \<^verbatim>\<open>svc\<close> of the stub. It finishes the
  stub: it returns in user mode to the caller of the stub, with 0, with the stack as before
  the call and with register 2 restored.
\<close>

lemma forked_child_returns:
  assumes user: "mode_of (cpsr s) = CPSR_M_USR" "room s" and n: "n \<noteq> 0" "n \<noteq> 1" and call: "aapcs (call Reload_ostick)"
    and t: "t = run call svc_save (at_svc call n ret s)"
    and v: "mode_of (cpsr v) = CPSR_M_SVC" "gpr v 0 = p" "unat p + 104 \<le> unat (sp_of v CPSR_M_SVC)"
      "ctx_at (mem v) p = (ctx_at (mem t) (gpr t 1))\<lparr>c_r0 := 0\<rparr>"
      "mem v (p + 56) = mem t (gpr t 1 + 56)" "mem v (p + 60) = mem t (gpr t 1 + 60)"
    and w: "w = stub_return call n (switch_task call v)"
  shows "arm_pc (switch_task call v) = ret \<and> arm_pc w = lr_of s CPSR_M_USR \<and> sp_of w CPSR_M_USR = p + 64
    \<and> mode_of (cpsr w) = CPSR_M_USR \<and> gpr w 0 = 0 \<and> (\<forall>i \<le> 11. i \<noteq> 0 \<and> i \<noteq> 9 \<and> i \<noteq> 10 \<longrightarrow> gpr w i = gpr s i)"
proof -
  have ub: "user_bank (cpsr s)" using user(1) by (simp add: user_bank_def)
  obtain x where k: "gpr t 1 = sp_of s CPSR_M_USR - 64"
    "ctx_at (mem t) (gpr t 1) = (ctx_of s)\<lparr>c_r0 := n, c_r2 := gpr s 0, c_r9_return_lr := ret, c_r10 := x, c_r12_spsr := cpsr s\<rparr>"
    "mem t (sp_of s CPSR_M_USR - 8) = gpr s 2" "mem t (sp_of s CPSR_M_USR - 4) = lr_of s CPSR_M_USR"
    using svc_saves [OF ub n, of call ret] user(2) t by (auto simp: room_def)
  let ?g = "(gpr s)(0 := 0, 2 := gpr s 0, 9 := ret, 10 := x, 12 := cpsr s)"
  let ?c = "ctx_of (s\<lparr>gpr := ?g\<rparr>)" and ?u = "switch_task call v"
  have c: "ctx_at (mem v) p = ?c" using v(4) k(2) by (simp add: ctx_of_def)
  have cu: "user_bank (c_r12_spsr ?c)" "unat p + 96 \<le> unat (sp_of v CPSR_M_SVC)" using ub v(3) by (simp_all add: ctx_of_def)
  note r = switch_task_run [where call = call, OF v(1) call v(2) cu(2) c refl]
  have m: "mode_of (cpsr ?u) = CPSR_M_USR" using r(5) user(1) by (simp add: ctx_of_def)
  have p: "unat (p + 56) = unat p + 56" "unat (p + 60) = unat p + 60"
    using unat_plus_range [of p 61 56] unat_plus_range [of p 61 60] v(3) unat_32 [of "sp_of v CPSR_M_SVC"] by simp_all
  have mem: "mem ?u (p + 56) = gpr s 2" "mem ?u (p + 60) = lr_of s CPSR_M_USR"
    using r(6) [of "p + 56"] r(6) [of "p + 60"] p v(3,5,6) k(1,3,4) by simp_all
  have b: "bank_of ?u = CPSR_M_USR" using m by (simp add: bank_of_def)
  have g: "gpr ?u i = ?g i" if "i \<le> 12" for i using ctx_of_gpr [OF r(1) [OF cu(1)] that] by simp
  let ?l = "exec call (LDM [R 2, LR]) ?u"
  have l: "gpr ?l = (gpr ?u)(2 := gpr s 2)" "lr_of ?l CPSR_M_USR = lr_of s CPSR_M_USR" "sp_of ?l CPSR_M_USR = p + 64" "cpsr ?l = cpsr ?u"
    using b r(3) mem by (simp_all add: Let_def add.commute)
  have wl: "w = bx LR (msr PSR_c CPSR_M_USR ?l)" using n by (simp add: w stub_return_def stub_regs_def del: exec.simps(13))
  have mw: "mode_of (cpsr (msr PSR_c CPSR_M_USR ?l)) = CPSR_M_USR"
    using m l(4) by (simp add: msr_def Let_def mode_of_def bit.conj_disj_distrib2 and.assoc del: exec.simps)
  then have "bank_of (msr PSR_c CPSR_M_USR ?l) = CPSR_M_USR" by (simp add: bank_of_def)
  then have "arm_pc w = lr_of s CPSR_M_USR" using l(2) by (simp add: wl del: exec.simps)
  moreover have "sp_of w CPSR_M_USR = p + 64" "gpr w = (gpr ?u)(2 := gpr s 2)" "cpsr w = cpsr (msr PSR_c CPSR_M_USR ?l)"
    using l(1,3) by (simp_all add: wl del: exec.simps)
  ultimately show ?thesis using g mw r(2) by (simp add: ctx_of_def)
qed

lemma svc_save_unknown: "unknown (run call svc_save s) = unknown s"
  by (simp add: svc_save_def to_mode_def context_regs_def Let_def)

text \<open>\<^verbatim>\<open>syscall_print_hello\<close>, with a handler that writes 7 to the saved \<^verbatim>\<open>r0\<close>, where the read happens to name user mode.\<close>

definition demo_handler :: "cfun \<Rightarrow> arm \<Rightarrow> arm" where
  "demo_handler f s = s\<lparr>mem := (mem s)(gpr s 1 := 7)\<rparr>"

theorem syscall_trip_witness:
  "\<exists>w. svc_entry demo_handler 0x9df00000 (at_svc demo_handler 0 0x82001010 demo_arm) = w
    \<and> arm_pc w = 0x82002000 \<and> sp_of w CPSR_M_USR = 0x82300ef4 \<and> gpr w 0 = 7 \<and> gpr w 9 = 0x82001010 \<and> rd LR w = 0x9df00000"
proof -
  let ?t = "run demo_handler svc_save (at_svc demo_handler 0 0x82001010 demo_arm)"
  have u: "user_bank (cpsr demo_arm)" "68 \<le> unat (sp_of demo_arm CPSR_M_USR)"
      "unat (sp_of demo_arm CPSR_M_USR) + 16 \<le> unat (sp_of demo_arm CPSR_M_SVC)" "(0 :: u32) \<noteq> 1"
    by (simp_all add: demo_arm_def user_bank_def mode_of_def)
  have k: "keeps_regs (demo_handler Syscall_handler)" by (simp add: keeps_regs_def demo_handler_def bank_of_def)
  note r = syscall_trip [where call = demo_handler, OF u refl k refl refl refl refl, of "0x82001010" "0x9df00000"]
  have z: "4 * of_nat (length (stub_regs 0)) = (12 :: u32)" by (simp add: stub_regs_def)
  have v: "unknown (demo_handler Syscall_handler ?t) = 0x60000010" "user_bank 0x60000010"
    by (simp_all add: svc_save_unknown demo_handler_def at_svc_def stub_call_def stub_regs_def take_svc_def take_exception_def Let_def
        demo_arm_def user_bank_def mode_of_def)
  have c: "ctx_at (mem (demo_handler Syscall_handler ?t)) (gpr ?t 1) = (ctx_at (mem ?t) (gpr ?t 1))\<lparr>c_r0 := 7\<rparr>"
    by (simp add: demo_handler_def ctx_at_def)
  have d: "sp_of demo_arm CPSR_M_USR = 0x82300f00" "lr_of demo_arm (bank_of demo_arm) = 0x82002000"
    by (simp_all add: demo_arm_def ctx_of_def bank_of_def mode_of_def)
  show ?thesis using r unfolding v c z by (auto simp: v d ctx_of_def)
qed

text \<open>\<^verbatim>\<open>first_run\<close> starts a context in user mode, whatever mode it holds.\<close>

lemma first_run_run:
  assumes m: "mode_of (cpsr s) = CPSR_M_SVC" and call: "aapcs (call Reload_ostick)"
    and a: "gpr s 0 = a" "unat a + 56 \<le> 2 ^ 32" and w: "w = first_run call s"
  shows "ctx_of w = ctx_at (mem s) a" "arm_pc w = c_r9_return_lr (ctx_at (mem s) a)" "sp_of w CPSR_M_USR = a + 56"
    "mode_of (cpsr w) = CPSR_M_USR" "cpsr w AND 0xC0 = 0"
proof -
  define s1 where "s1 = run call load_context s"
  have m': "mode_of (cpsr s) \<noteq> CPSR_M_USR" using m by simp
  note k = load_context_run [OF s1_def m' call a]
  define s2 where "s2 = msr PSR_c CPSR_M_USR s1"
  have wb: "w = bx (R 9) s2" by (simp add: w first_run_def s1_def s2_def)
  have p: "mode_of (cpsr s2) = CPSR_M_USR" "cpsr s2 AND 0xC0 = 0"
    using k(2) by (simp_all add: s2_def msr_def Let_def mode_of_def bit.conj_disj_distrib2 and.assoc)
  then have "bank_of s2 = bank_of s1" using k(2) by (simp add: bank_of_def)
  then have "ctx_of s2 = ctx_of s1" by (intro ctx_of_cong) (simp_all add: s2_def)
  then show "ctx_of w = ctx_at (mem s) a" using k(1) ctx_of_cong [of w s2] by (simp add: wb)
  show "arm_pc w = c_r9_return_lr (ctx_at (mem s) a)" using ctx_of_regs(3) [OF k(1)] by (simp add: wb s2_def)
  show "sp_of w CPSR_M_USR = a + 56" "mode_of (cpsr w) = CPSR_M_USR" "cpsr w AND 0xC0 = 0" using k(3) p by (simp_all add: wb s2_def)
qed

section \<open>Start\<close>

lemma set_mode:
  assumes "mode_of (cpsr s) \<noteq> CPSR_M_USR" and "s' = msr PSR_cxsf v s"
  shows "mode_of (cpsr s') = mode_of v" "cpsr s' AND 0xC0 = v AND 0xC0"
  using assms by (simp_all add: msr_def Let_def mode_of_def bit.conj_disj_distrib2 and.assoc)

lemma start_vectors_run:
  assumes "s' = run call (start_vectors ent) s"
  shows "cpsr s' = cpsr s" "gpr s' 1 = 0x9df40ffc" "gpr s' 3 = cpsr s AND 0xF8FF03DF" "sp_of s' (bank_of s) = 0x9df3fffc"
    "mem s' (vbar s + 0x24) = ent 0" "mem s' (vbar s + 0x28) = ent 1" "mem s' (vbar s + 0x2c) = ent 2" "mem s' (vbar s + 0x34) = ent 3"
    "mem s' (vbar s + 8) = mem s (vbar s + 8)" "mem s' (vbar s + 0xc) = mem s (vbar s + 0xc)"
    "mem s' (vbar s + 0x10) = mem s (vbar s + 0x10)" "mem s' (vbar s + 0x18) = mem s (vbar s + 0x18)"
  by (simp_all add: assms start_vectors_def Let_def)

lemma vector_jump: "mem s a = 0xe59ff014 \<Longrightarrow> jumps_to s a = Some (mem s (a + 0x1c))"
  by (simp add: jumps_to_def add.commute)

lemma stack_of_mode_run:
  assumes "s' = run call (stack_of_mode m) s" and "mode_of (cpsr s) \<noteq> CPSR_M_USR" and "m = CPSR_M_IRQ \<or> m = CPSR_M_ABT"
  shows "mode_of (cpsr s') = m" "sp_of s' = (sp_of s)(m := gpr s 1)" "gpr s' 1 = gpr s 1 + 4096" "gpr s' 3 = gpr s 3" "mem s' = mem s"
proof -
  define u where "u = msr PSR_cxsf m s"
  have "mode_of (cpsr u) = m" using set_mode(1) [OF assms(2) u_def] assms(3) by (auto simp: mode_of_def)
  then have b: "bank_of u = m" "mode_of (cpsr u) = m" using assms(3) by (auto simp: bank_of_def)
  have e: "msr f v (s\<lparr>gpr := g\<rparr>) = (msr f v s)\<lparr>gpr := g\<rparr>" for f v g by (simp add: msr_def Let_def)
  have "s' = wr (R 1) (gpr s 1 + 4096) (wr SP (gpr s 1) (u\<lparr>gpr := (gpr s)(2 := m)\<rparr>))"
    by (simp add: assms(1) stack_of_mode_def e u_def)
  then show "mode_of (cpsr s') = m" "sp_of s' = (sp_of s)(m := gpr s 1)" "gpr s' 1 = gpr s 1 + 4096" "gpr s' 3 = gpr s 3" "mem s' = mem s"
    using b by (simp_all add: u_def)
qed

text \<open>
  C15: \<^verbatim>\<open>_start\<close> enters \<^verbatim>\<open>kernal_entry\<close> in supervisor mode, with 4 KB between the tops of the supervisor, interrupt and abort
  stacks, and with the exceptions bound: the instructions at offsets 8, 0xc, 0x10 and 0x18 of the vectors, which
  \<^verbatim>\<open>set_exception_entry\<close> writes (\<open>sets_vectors\<close>), jump to \<^verbatim>\<open>svc_entry\<close>, \<^verbatim>\<open>prefetch_abort_entry\<close>, \<^verbatim>\<open>data_abort\<close> and \<^verbatim>\<open>irq_entry\<close>. It does
  not mask the interrupts: their masks are those it was entered with.
\<close>

theorem start_sets_up:
  assumes m: "mode_of (cpsr s) \<noteq> CPSR_M_USR" and call: "sets_vectors (call Set_exception_entry)" and r: "start_asm call ent s = (f, t)"
  shows "f = Kernal_entry \<and> mode_of (cpsr t) = CPSR_M_SVC \<and> cpsr t AND 0xC0 = cpsr s AND 0xC0
    \<and> jumps_to t (vbar s + 8) = Some (ent 0) \<and> jumps_to t (vbar s + 0xc) = Some (ent 1)
    \<and> jumps_to t (vbar s + 0x10) = Some (ent 2) \<and> jumps_to t (vbar s + 0x18) = Some (ent 3)
    \<and> sp_of t CPSR_M_SVC = 0x9df3fffc \<and> sp_of t CPSR_M_IRQ = 0x9df40ffc \<and> sp_of t CPSR_M_ABT = 0x9df41ffc"
proof -
  define s1 where "s1 = run call start_head s"
  define s2 where "s2 = call Set_exception_entry s1"
  define s3 where "s3 = run call (start_vectors ent) s2"
  define s4 where "s4 = run call (stack_of_mode CPSR_M_IRQ) s3"
  define s5 where "s5 = run call (stack_of_mode CPSR_M_ABT) s4"
  define s6 where "s6 = msr PSR_cxsf (gpr s5 3) s5"
  have kr: "keeps_regs (call Set_exception_entry)" using call by (simp add: sets_vectors_def)
  note k2 = keeps_regs_keeps [OF kr s2_def]
  have s1: "mode_of (cpsr s1) = CPSR_M_SVC" "cpsr s1 AND 0xC0 = cpsr s AND 0xC0" "vbar s1 = vbar s" "gpr s1 0 = vbar s"
    using m by (simp_all add: s1_def start_head_def Let_def msr_def mode_of_def bit.conj_disj_distrib2 and.assoc)
  have vb: "vbar s2 = vbar s" using k2(7) s1(3) by simp
  have v2: "mem s2 (vbar s + 4 * of_nat i) = 0xe59ff014" if "i \<in> {1..7}" for i
    using call that s1(4) unfolding sets_vectors_def s2_def by metis
  have "(cpsr s2 AND 0xDF) AND 0xC0 = (cpsr s1 AND 0xDF) AND 0xC0" using k2(8) by simp
  then have c2: "cpsr s2 AND 0xC0 = cpsr s AND 0xC0" using s1(2) by (simp add: and.assoc)
  have b2: "bank_of s2 = CPSR_M_SVC" using k2(3) s1(1) by (simp add: bank_of_def)
  note k3 = start_vectors_run [OF s3_def]
  have m3: "mode_of (cpsr s3) \<noteq> CPSR_M_USR" using k3(1) k2(3) s1(1) by simp
  note k4 = stack_of_mode_run [OF s4_def m3 disjI1 [OF refl]]
  have m4: "mode_of (cpsr s4) \<noteq> CPSR_M_USR" using k4(1) by simp
  note k5 = stack_of_mode_run [OF s5_def m4 disjI2 [OF refl]]
  have m5: "mode_of (cpsr s5) \<noteq> CPSR_M_USR" using k5(1) by simp
  have g: "gpr s5 3 = cpsr s2 AND 0xF8FF03DF" using k5(4) k4(4) k3(3) by simp
  have s6: "mode_of (cpsr s6) = CPSR_M_SVC" "cpsr s6 AND 0xC0 = cpsr s AND 0xC0"
    using set_mode [OF m5 s6_def] g c2 k2(3) s1(1) by (simp_all add: mode_of_def and.assoc)
  have ft: "(f, t) = (Kernal_entry, s6)"
    unfolding r [symmetric] start_asm_def run_simps s1_def s2_def s3_def s4_def s5_def s6_def exec.simps rd.simps by simp
  have t: "sp_of s6 = (sp_of s3)(CPSR_M_IRQ := 0x9df40ffc, CPSR_M_ABT := 0x9df41ffc)" "mem s6 = mem s3"
    using k5(2,5) k4(2,3,5) k3(2) by (simp_all add: s6_def)
  have "mem s6 (vbar s + 8) = 0xe59ff014" "mem s6 (vbar s + 0xc) = 0xe59ff014" "mem s6 (vbar s + 0x10) = 0xe59ff014" "mem s6 (vbar s + 0x18) = 0xe59ff014"
    using v2 [of 2] v2 [of 3] v2 [of 4] v2 [of 6] k3(9-12) vb t(2) by simp_all
  note j = this [THEN vector_jump]
  have "jumps_to s6 (vbar s + 8) = Some (ent 0)" "jumps_to s6 (vbar s + 0xc) = Some (ent 1)"
    "jumps_to s6 (vbar s + 0x10) = Some (ent 2)" "jumps_to s6 (vbar s + 0x18) = Some (ent 3)"
    using j k3(5-8) vb t(2) by (simp_all add: add.assoc)
  then show ?thesis using s6 k3(4) b2 t(1) ft by simp
qed

definition demo_start_call :: "cfun \<Rightarrow> arm \<Rightarrow> arm" where
  "demo_start_call f s = (if f = Set_exception_entry then s\<lparr>mem := store_words (gpr s 0 + 4) (replicate 7 0xe59ff014) (mem s)\<rparr> else s)"

lemma demo_start_call_sets: "sets_vectors (demo_start_call Set_exception_entry)"
proof -
  have "mem (demo_start_call Set_exception_entry s) (gpr s 0 + 4 * of_nat i) = 0xe59ff014" if "i \<in> {1..7}" for s i
  proof -
    have "i = 1 \<or> i = 2 \<or> i = 3 \<or> i = 4 \<or> i = 5 \<or> i = 6 \<or> i = 7" using that by auto
    then show ?thesis by (elim disjE) (simp_all add: demo_start_call_def eval_nat_numeral)
  qed
  then show ?thesis by (simp add: sets_vectors_def keeps_regs_def demo_start_call_def bank_of_def)
qed

theorem start_sets_up_witness:
  "jumps_to (snd (start_asm demo_start_call (\<lambda>i. 0x82000000 + of_nat i) (demo_arm\<lparr>cpsr := 0x13\<rparr>))) 0x9ff52018 = Some 0x82000003"
proof -
  have m: "mode_of (cpsr (demo_arm\<lparr>cpsr := 0x13\<rparr>)) \<noteq> CPSR_M_USR" by (simp add: mode_of_def)
  show ?thesis
    using start_sets_up [where call = demo_start_call, OF m demo_start_call_sets surjective_pairing, of "\<lambda>i. 0x82000000 + of_nat i"]
    by (simp add: demo_arm_def)
qed

end
