(* ===== verification/Preempt.thy ===== *)
theory Preempt
  imports Switching Arm
begin

text \<open>
  Preemption from registers to registers. The switches of the kernel model refine a queue of waiting tasks with
  the frames they will be resumed from; with the assembly code around it, a task that the tick interrupts goes on,
  one round later, where it was interrupted.
\<close>

section \<open>Switches and the contexts they load\<close>

text \<open>The task that gets the processor, with the context that is loaded for it.\<close>

definition hand_over :: "switch_event \<Rightarrow> kstate \<Rightarrow> ((addr \<times> task_context) \<times> kstate) option" where
  "hand_over e s = do { (s, c) \<leftarrow> switch_to e s; Some ((curr_running_task s, c), s) }"

text \<open>The reference: a running task, and a queue of waiting tasks with their frames.\<close>

fun queue_turn :: "switch_event \<Rightarrow> addr \<times> (addr \<times> addr) list \<Rightarrow> ((addr \<times> addr) \<times> addr \<times> (addr \<times> addr) list) option" where
  "queue_turn e (r, []) = Some ((r, switch_frame e), r, [])"
| "queue_turn e (r, w # ws) = Some (w, fst w, ws @ [(r, switch_frame e)])"

definition waiting :: "nat \<Rightarrow> (addr \<rightharpoonup> task_context) \<Rightarrow> kstate \<Rightarrow> addr \<times> (addr \<times> addr) list \<Rightarrow> bool" where
  "waiting i H s q \<longleftrightarrow> in_turn i H s (map fst (snd q) @ [fst q])
     \<and> (\<forall>(x, f) \<in> set (snd q). links task_context_ptr (task_heap s) x = Some f)"

lemma sched_loads:
  assumes "sched s = Some (s', c)"
  shows "\<exists>v. task_heap s' (curr_running_task s') = Some v \<and> ctx_heap s' (task_context_ptr v) = Some c"
  using assms
  by (auto simp: sched_def deref_def reload_ostick_def wr32_def switch_mm_def pgt_base_setup_def invalidate_tlb_def Let_def
      split: Option.bind_splits if_splits)

lemma switch_loads:
  assumes "switch_to e s = Some (s', c)" and "curr_running_task s \<noteq> NULL" and "task_heap s (curr_running_task s) = Some v"
  shows "\<exists>v. task_heap s' (curr_running_task s') = Some v \<and> ctx_heap s' (task_context_ptr v) = Some c"
  using switch_enters [OF assms(3) refl assms(2), of e] sched_loads assms(1) by auto

text \<open>One switch of the kernel model is one turn of the queue.\<close>

lemma hand_over_queue:
  assumes "waiting i H s q" and "frame_ok H (switch_frame e)"
  shows "\<exists>x f q' s'. queue_turn e q = Some ((x, f), q') \<and> hand_over e s = Some ((x, the (H f)), s') \<and> waiting i H s' q' \<and> fst q' = x \<and> curr_running_task s' = x"
proof -
  obtain r ws where q: "q = (r, ws)" by (cases q)
  define zs where "zs = map fst ws @ [r]"
  obtain x xs where zs: "zs = x # xs" by (cases zs) (simp_all add: zs_def)
  have turn: "in_turn i H s (x # xs)" and l: "last (x # xs) = r"
    using assms(1) zs [symmetric] by (simp_all add: waiting_def q zs_def)
  let ?L = "links task_context_ptr (task_heap s)"
  have cur: "curr_running_task s = r" using turn l by (simp add: in_turn_def)
  obtain v where v: "curr_running_task s \<noteq> NULL" "task_heap s (curr_running_task s) = Some v"
    using in_turnD(1,2) [OF turn last_in_set] cur l by auto
  have d: "distinct (map fst ws @ [r])" using in_turnD(3) [OF turn, of x] zs by (simp add: zs_def)
  obtain s' k where s': "switch_to e s = Some (s', k)" "curr_running_task s' = x" "in_turn i H s' (xs @ [x])"
    "links task_context_ptr (task_heap s') = ?L(r \<mapsto> switch_frame e)"
    using switch_to_turn [OF assms(2) turn] l by auto
  obtain w where w: "task_heap s' x = Some w" "ctx_heap s' (task_context_ptr w) = Some k"
    using switch_loads [OF s'(1) v] s'(2) by auto
  have H: "ctx_heap s' = H" using s'(3) by (simp add: in_turn_def)
  have ptr: "(?L(r \<mapsto> switch_frame e)) x = Some (task_context_ptr w)" using s'(4) w(1) by (metis links_apply)
  show ?thesis
  proof (cases ws)
    case Nil
    then have "x = r" "xs = []" using zs by (simp_all add: zs_def)
    then have "task_context_ptr w = switch_frame e" using ptr by simp
    then show ?thesis
      using s' w(2) H \<open>x = r\<close> \<open>xs = []\<close> by (intro exI [of _ x] exI [of _ "switch_frame e"] exI [of _ "(x, [])"] exI [of _ s'])
        (simp add: q Nil hand_over_def waiting_def)
  next
    case (Cons y us)
    obtain f where y: "y = (x, f)" using zs Cons by (cases y) (simp add: zs_def)
    have xs: "xs = map fst us @ [r]" using zs Cons y by (simp add: zs_def)
    have "?L x = Some f" using assms(1) by (simp add: waiting_def q Cons y)
    moreover have "x \<noteq> r" using d Cons y by simp
    ultimately have f: "task_context_ptr w = f" using ptr by simp
    have "\<forall>(z, g) \<in> set (us @ [(r, switch_frame e)]). links task_context_ptr (task_heap s') z = Some g"
    proof (intro ballI, clarify)
      fix z g assume z: "(z, g) \<in> set (us @ [(r, switch_frame e)])"
      show "links task_context_ptr (task_heap s') z = Some g"
      proof (cases "z = r")
        case True
        have "r \<notin> fst ` set us" using d by (simp add: Cons)
        then show ?thesis using z True by (force simp: s'(4))
      next
        case False
        then have "(z, g) \<in> set ws" using z by (simp add: Cons)
        then have "?L z = Some g" using assms(1) by (auto simp: waiting_def q)
        then show ?thesis using False by (simp add: s'(4))
      qed
    qed
    then show ?thesis
      using s' w(2) H f xs by (intro exI [of _ x] exI [of _ f] exI [of _ "(x, us @ [(r, switch_frame e)])"] exI [of _ s'])
        (simp add: q Cons y hand_over_def waiting_def)
  qed
qed

lemma hand_overs_queue:
  assumes "waiting i H s q" and "\<forall>e \<in> set es. frame_ok H (switch_frame e)"
  shows "\<exists>out q' s'. picks queue_turn es q = Some (out, q') \<and> picks hand_over es s = Some (map (\<lambda>(x, f). (x, the (H f))) out, s')
    \<and> waiting i H s' q' \<and> length out = length es"
  using assms
proof (induction es arbitrary: s q)
  case (Cons e es)
  obtain x f q1 s1 where 1: "queue_turn e q = Some ((x, f), q1)" "hand_over e s = Some ((x, the (H f)), s1)" "waiting i H s1 q1"
    using hand_over_queue [OF Cons.prems(1), of e] Cons.prems(2) by auto
  obtain out q' s' where 2: "picks queue_turn es q1 = Some (out, q')" "picks hand_over es s1 = Some (map (\<lambda>(x, f). (x, the (H f))) out, s')"
    "waiting i H s' q'" "length out = length es"
    using Cons.IH [OF 1(3)] Cons.prems(2) by auto
  show ?case
    using 1 2 by (intro exI [of _ "(x, f) # out"] exI [of _ q'] exI [of _ s']) simp
qed simp

text \<open>A task that waits behind \<open>us\<close> is next after them, with its own frame.\<close>

lemma queue_reaches:
  assumes "picks queue_turn es (q, us @ w # vs) = Some (out, st)" and "length es = Suc (length us)"
  shows "out \<noteq> [] \<and> last out = w"
  using assms
proof (induction us arbitrary: q es vs out)
  case Nil
  then obtain e where "es = [e]" by (cases es) auto
  then show ?case using Nil by auto
next
  case (Cons u us)
  obtain e es' where es: "es = e # es'" "length es' = Suc (length us)" using Cons.prems(2) by (cases es) auto
  obtain out' where out: "picks queue_turn es' (fst u, us @ w # (vs @ [(q, switch_frame e)])) = Some (out', st)" "out = u # out'"
    using Cons.prems(1) by (auto simp: es(1) split: Option.bind_splits)
  show ?case using Cons.IH [OF out(1) es(2)] out(2) by simp
qed

lemma queue_returns:
  assumes "picks queue_turn (e # es) (r, ws) = Some (out, st)" and "length es = length ws"
  shows "last out = (r, switch_frame e)"
proof (cases ws)
  case Nil
  then show ?thesis using assms by auto
next
  case (Cons w us)
  obtain out' where out: "picks queue_turn es (fst w, us @ (r, switch_frame e) # []) = Some (out', st)" "out = w # out'"
    using assms(1) by (auto simp: Cons split: Option.bind_splits)
  show ?thesis using queue_reaches [OF out(1)] assms(2) out(2) by (simp add: Cons)
qed

text \<open>
  C4: preemption from registers to registers. The tick interrupts the running task \<open>a\<close> anywhere in its code while
  the tasks \<open>ws\<close> of its priority wait. \<^verbatim>\<open>irq_entry\<close> reaches \<^verbatim>\<open>timer0_isr\<close> with the frame of \<open>a\<close>; after it and one
  switch more for every waiting task, by tick or by yield, the kernel hands the processor back to \<open>a\<close> with this very
  frame, and \<^verbatim>\<open>switch_task\<close> goes on with it where it was interrupted: same instruction, stack, link register, flags,
  mode and registers, but for the three, 9, 10 and 12, that \<^verbatim>\<open>irq_entry\<close> overwrites before it saves them.
\<close>

theorem preempted_task_continues:
  assumes user: "user_bank (cpsr s)" "56 \<le> unat (sp_of s CPSR_M_IRQ)"
    and call: "aapcs (call Get_act_irqnum)" "\<forall>u. gpr (call Get_act_irqnum u) 0 = 66" "aapcs (call Reload_ostick)"
    and irq: "irq_entry call (take_irq s) = (f, t)" and p: "p = gpr t 0"
    and kernel: "waiting i H k (a, ws)" "p \<noteq> NULL" "H p = Some (ctx_at (mem t) p)"
    and es: "\<forall>e \<in> set es. frame_ok H (switch_frame e)" "length es = length ws"
  shows "f = Timer0_isr \<and> (\<exists>ls k'. picks hand_over (By_tick p # es) k = Some (ls, k') \<and> last ls = (a, ctx_at (mem t) p)
    \<and> (\<forall>v w. mode_of (cpsr v) = CPSR_M_SVC \<and> gpr v 0 = p \<and> ctx_at (mem v) p = snd (last ls)
           \<and> unat p + 96 \<le> unat (sp_of v CPSR_M_SVC) \<and> w = switch_task call v \<longrightarrow>
         arm_pc w = arm_pc s \<and> sp_of w CPSR_M_USR = sp_of s CPSR_M_USR \<and> lr_of w CPSR_M_USR = lr_of s CPSR_M_USR
         \<and> cpsr w AND PSR_fc = cpsr s AND PSR_fc \<and> (\<forall>i \<le> 11. i \<noteq> 9 \<and> i \<noteq> 10 \<longrightarrow> gpr w i = gpr s i)))"
proof -
  have fr: "frame_ok H p" using kernel(2,3) by (simp add: frame_ok_def)
  then have ok: "\<forall>e \<in> set (By_tick p # es). frame_ok H (switch_frame e)" using es(1) by simp
  obtain out q' k' where k': "picks queue_turn (By_tick p # es) (a, ws) = Some (out, q')"
    "picks hand_over (By_tick p # es) k = Some (map (\<lambda>(x, f). (x, the (H f))) out, k')" "length out = length (By_tick p # es)"
    using hand_overs_queue [OF kernel(1) ok] by blast
  have "out \<noteq> []" using k'(3) by auto
  then have l: "last (map (\<lambda>(x, f). (x, the (H f))) out) = (a, ctx_at (mem t) p)"
    using queue_returns [OF k'(1) es(2)] kernel(3) by (simp add: last_map)
  note saved = tick_resumes [where call = call, OF user call, unfolded irq p [symmetric] Let_def]
  show ?thesis
    using saved k'(2) l by (auto simp: p)
qed

lemma in_turn_more:
  assumes "in_turn i H s xs" and "H \<subseteq>\<^sub>m H'"
  shows "in_turn i H' (s\<lparr>ctx_heap := H'\<rparr>) xs"
proof -
  have "frame_ok H' f" if "frame_ok H f" for f
    using that assms(2) by (auto simp: frame_ok_def map_le_def dom_def)
  then have "resumable (s\<lparr>ctx_heap := H'\<rparr>) x" if "resumable s x" for x
    using that assms(1) by (auto simp: resumable_def in_turn_def)
  then show ?thesis using assms(1) by (auto simp: in_turn_def rq_ok_def is_ready_def ready_level_def)
qed

theorem preempted_task_continues_witness:
  "\<exists>t (H :: addr \<rightharpoonup> task_context) ls k'. irq_entry demo_call (take_irq demo_arm) = (Timer0_isr, t)
    \<and> picks hand_over [By_tick 0x82300ec8, By_yield 0x9000] (demo_sched\<lparr>ctx_heap := H\<rparr>) = Some (ls, k') \<and> fst (last ls) = 0x3000
    \<and> arm_pc (switch_task demo_call (t\<lparr>sp_of := (sp_of t)(CPSR_M_SVC := 0x9df3fffc)\<rparr>)) = 0x82001000"
proof -
  have u: "user_bank (cpsr demo_arm)" "56 \<le> unat (sp_of demo_arm CPSR_M_IRQ)" "\<forall>u. gpr (demo_call Get_act_irqnum u) 0 = 66"
    by (simp_all add: demo_arm_def demo_call_def user_bank_def mode_of_def)
  obtain t where t: "irq_entry demo_call (take_irq demo_arm) = (Timer0_isr, t)" "mode_of (cpsr t) = CPSR_M_SVC" "gpr t 0 = sp_of demo_arm CPSR_M_USR - 56"
    using tick_saves [where call = demo_call, OF u(1,2) demo_call_aapcs u(3)] by blast
  have p: "(0x82300ec8 :: addr) = gpr t 0" using t(3) by (simp add: demo_arm_def)
  define H :: "addr \<rightharpoonup> task_context" where "H = [0x9000 \<mapsto> zero_ctx, 0x9100 \<mapsto> zero_ctx, 0x82300ec8 \<mapsto> ctx_at (mem t) 0x82300ec8]"
  define k where "k = demo_sched\<lparr>ctx_heap := H\<rparr>"
  have "in_turn 2 H k [0x2000, 0x3000]"
    unfolding k_def by (rule in_turn_more [OF demo_in_turn]) (simp add: H_def map_le_def)
  then have w: "waiting 2 H k (0x3000, [(0x2000, 0x9000)])"
    by (simp add: waiting_def k_def demo_sched_def demo_task_def)
  have h: "(0x82300ec8 :: addr) \<noteq> NULL" "H 0x82300ec8 = Some (ctx_at (mem t) 0x82300ec8)" by (simp_all add: H_def)
  have e: "\<forall>e \<in> set [By_yield 0x9000]. frame_ok H (switch_frame e)" "length [By_yield 0x9000] = length [(0x2000, 0x9000) :: addr \<times> addr]"
    by (simp_all add: H_def frame_ok_def)
  obtain ls k' where r: "picks hand_over [By_tick 0x82300ec8, By_yield 0x9000] k = Some (ls, k')" "last ls = (0x3000, ctx_at (mem t) 0x82300ec8)"
    "\<forall>v w. mode_of (cpsr v) = CPSR_M_SVC \<and> gpr v 0 = 0x82300ec8 \<and> ctx_at (mem v) 0x82300ec8 = snd (last ls)
       \<and> unat (0x82300ec8 :: addr) + 96 \<le> unat (sp_of v CPSR_M_SVC) \<and> w = switch_task demo_call v \<longrightarrow> arm_pc w = arm_pc demo_arm"
    using preempted_task_continues [where call = demo_call, OF u(1,2) demo_call_aapcs u(3) demo_call_aapcs t(1) p w h e] by blast
  have "arm_pc (switch_task demo_call (t\<lparr>sp_of := (sp_of t)(CPSR_M_SVC := 0x9df3fffc)\<rparr>)) = 0x82001000"
    using r(2,3) t(2) p by (simp add: demo_arm_def)
  then show ?thesis using t(1) r(1,2) unfolding k_def by (intro exI [of _ t] exI [of _ H] exI [of _ ls] exI [of _ k']) simp
qed

end
