(* ===== verification/ForkRun.thy ===== *)
theory ForkRun
  imports SysFork UserIO Preempt
begin

text \<open>
  \<^verbatim>\<open>fork\<close> from registers to registers: the parent's call of the stub \<^verbatim>\<open>syscall_fork\<close>, the entry code that saves it, the
  handler of the C model, and the start of the child on its own copy of the stack.
\<close>

text \<open>The machine has, from \<open>c\<close> on, the saved context and the two words that the stub has pushed before its \<^verbatim>\<open>svc\<close>.\<close>

definition frame_agrees :: "kstate \<Rightarrow> arm \<Rightarrow> addr \<Rightarrow> bool" where
  "frame_agrees s v c \<longleftrightarrow> ctx_heap s c = Some (ctx_at (mem v) c)
     \<and> load32 (c + 56) s = Some (mem v (c + 56)) \<and> load32 (c + 60) s = Some (mem v (c + 60))"

lemma load32_copied:
  assumes "\<forall>a < n. bytes s' (b + of_nat a) = bytes s (a0 + of_nat a)" and "m + 4 \<le> n"
    and "valid_range b n" "valid_range a0 n"
  shows "load32 (b + of_nat m) s' = load32 (a0 + of_nat m) s"
proof -
  have e: "x + of_nat m + of_nat i = x + of_nat (m + i)" for x :: addr and i by simp
  have "load8 (b + of_nat m + of_nat i) s' = load8 (a0 + of_nat m + of_nat i) s" if "i < 4" for i
    unfolding e load8_def
    using valid_range_at(1) [OF assms(3), of "m + i"] valid_range_at(1) [OF assms(4), of "m + i"] assms(1,2) that by (simp del: of_nat_add)
  from this [of 0] this [of 1] this [of 2] this [of 3] show ?thesis by (simp add: load32_def)
qed

text \<open>
  C7: fork returns twice. A task calls the stub \<^verbatim>\<open>syscall_fork\<close>; the entry code saves it on its stack and \<^verbatim>\<open>fork_handler\<close>
  runs on this frame. The child that it queues has a frame of its own at the same place in its page, with the number 0 and
  the words that the stub has pushed. Whenever \<^verbatim>\<open>switch_task\<close> is given the child's frame, the child
  finishes the stub and returns, in user mode, to the instruction behind the parent's call, with 0, with its stack
  pointer at the parent's place in its own page and with the parent's registers but for 9, 10 and 12.
\<close>

theorem fork_returns_in_child:
  assumes pages: "pages_ok s (n # q # fs) us" "page_heap s n = Some nv" "task_frame k nv"
      "pp \<in> set us" "page_heap s pp = Some pv" "task_frame p pv" "inj_on (links pgstart (page_heap s)) (set (us @ [n]))"
    and frames: "0x821 \<le> k" "k < 0xa00" "0x821 \<le> p" "p < 0xa00" "k \<noteq> p"
    and task: "curr_running_task s = section_of p" "task_heap s (section_of p) = Some t" "stk_bottom t = section_of p"
      "stk_top t = section_of p + 0xFFC" "priority t = of_nat i"
    and queues: "rq_ok s qs" "i < 5" "\<forall>x \<in> \<Union> (set (map set qs)). frame_no x \<noteq> k"
    and pool: "kblks_ok s (b # c # bs)" "\<forall>x \<in> {b, c} \<union> set bs. frame_no x \<noteq> k" "links b_start (blk_heap s) b = Some base" "table_ok base"
    and user: "mode_of (cpsr u) = CPSR_M_USR" "room u" "sp_of u CPSR_M_USR = section_of p + of_nat (4 * j + 64)" "j \<le> 1008"
    and entry: "m = run call svc_save (at_svc call 4 ret u)" "frame_agrees s m (gpr m 1)" and call: "aapcs (call Reload_ostick)"
  shows "\<exists>s' t' d. fork_handler (gpr m 1) (gpr m 2) s = Some s' \<and> rq_ok s' (qs[i := qs ! i @ [section_of k]])
    \<and> task_heap s' (section_of k) = Some t' \<and> task_context_ptr t' = d \<and> d = gpr m 1 - section_of p + section_of k
    \<and> ctx_heap s' d = Some ((ctx_at (mem m) (gpr m 1))\<lparr>c_r0 := 0\<rparr>)
    \<and> load32 (d + 56) s' = Some (mem m (gpr m 1 + 56)) \<and> load32 (d + 60) s' = Some (mem m (gpr m 1 + 60))
    \<and> (\<forall>v w. mode_of (cpsr v) = CPSR_M_SVC \<and> gpr v 0 = d \<and> unat d + 104 \<le> unat (sp_of v CPSR_M_SVC) \<and> frame_agrees s' v d
           \<and> w = stub_return call 4 (switch_task call v) \<longrightarrow>
         arm_pc w = lr_of u CPSR_M_USR \<and> mode_of (cpsr w) = CPSR_M_USR \<and> gpr w 0 = 0
         \<and> sp_of w CPSR_M_USR = sp_of u CPSR_M_USR - section_of p + section_of k
         \<and> (\<forall>i \<le> 11. i \<noteq> 0 \<and> i \<noteq> 9 \<and> i \<noteq> 10 \<longrightarrow> gpr w i = gpr u i))"
proof -
  have n4: "(4 :: u32) \<noteq> 0" "(4 :: u32) \<noteq> 1" by simp_all
  have "gpr m 1 = sp_of u CPSR_M_USR - 64"
    using svc_saves [of u 4 call ret] user(1) entry(1) n4 by (auto simp: user_bank_def)
  then have g: "gpr m 1 = section_of p + of_nat (4 * j)" using user(3) by simp
  let ?d = "section_of k + of_nat (4 * j)"
  have d: "?d = gpr m 1 - section_of p + section_of k" using g by simp
  have j: "j \<le> 1010" using user(4) by simp
  have saved: "ctx_heap s (section_of p + 4 * of_nat j) = Some (ctx_at (mem m) (gpr m 1))"
    "load32 (gpr m 1 + 56) s = Some (mem m (gpr m 1 + 56))" "load32 (gpr m 1 + 60) s = Some (mem m (gpr m 1 + 60))"
    using entry(2) g by (simp_all add: frame_agrees_def)
  obtain s' t' where s': "fork_handler (section_of p + 4 * of_nat j) (gpr m 2) s = Some s'" "rq_ok s' (qs[i := qs ! i @ [section_of k]])"
    "task_heap s' (section_of k) = Some t'"
    "task_fixed t' = task_fixed ((child_of k (section_of k + 4 * of_nat j) (taskid s + 1) t)\<lparr>pgtbase := base\<rparr>)"
    "ctx_heap s' (section_of k + 4 * of_nat j) = Some ((ctx_at (mem m) (gpr m 1))\<lparr>c_r0 := 0\<rparr>)"
    "\<forall>a < 4096. bytes s' (section_of k + of_nat a) = bytes s (section_of p + of_nat a)"
    using fork_ok [OF pages frames task queues saved(1) j pool, of "gpr m 2"] by blast
  have "task_context_ptr t' = section_of k + 4 * of_nat j"
    using arg_cong [OF s'(4), of task_context_ptr] by (simp add: task_fixed_def child_of_def)
  then have t': "task_context_ptr t' = ?d" by simp
  have r: "valid_range (section_of k) 4096" "valid_range (section_of p) 4096"
    using frames by (auto intro!: task_page_range)
  have w: "load32 (?d + 56) s' = Some (mem m (gpr m 1 + 56))" "load32 (?d + 60) s' = Some (mem m (gpr m 1 + 60))"
    using load32_copied [OF s'(6) _ r, of "4 * j + 56"] load32_copied [OF s'(6) _ r, of "4 * j + 60"] user(4) saved(2,3) g
    by (simp_all add: algebra_simps)
  have "arm_pc w = lr_of u CPSR_M_USR \<and> mode_of (cpsr w) = CPSR_M_USR \<and> gpr w 0 = 0
       \<and> sp_of w CPSR_M_USR = sp_of u CPSR_M_USR - section_of p + section_of k
       \<and> (\<forall>i \<le> 11. i \<noteq> 0 \<and> i \<noteq> 9 \<and> i \<noteq> 10 \<longrightarrow> gpr w i = gpr u i)"
    if v: "mode_of (cpsr v) = CPSR_M_SVC" "gpr v 0 = ?d" "unat ?d + 104 \<le> unat (sp_of v CPSR_M_SVC)" "frame_agrees s' v ?d"
      and wv: "w = stub_return call 4 (switch_task call v)" for v w
  proof -
    have c: "ctx_at (mem v) ?d = (ctx_at (mem m) (gpr m 1))\<lparr>c_r0 := 0\<rparr>" "mem v (?d + 56) = mem m (gpr m 1 + 56)" "mem v (?d + 60) = mem m (gpr m 1 + 60)"
      using v(4) s'(5) w by (simp_all add: frame_agrees_def)
    show ?thesis
      using forked_child_returns [where call = call, OF user(1,2) n4 call entry(1) v(1-3) c wv] user(3) by (simp add: algebra_simps)
  qed
  note returns = this
  have h: "fork_handler (gpr m 1) (gpr m 2) s = Some s'" using s'(1) g by simp
  have "ctx_heap s' ?d = Some ((ctx_at (mem m) (gpr m 1))\<lparr>c_r0 := 0\<rparr>)" using s'(5) by simp
  then show ?thesis
    using h s'(2,3) t' d w returns by (intro exI [of _ s'] exI [of _ t'] exI [of _ ?d] conjI; blast)
qed

text \<open>The parent of \<open>demo_fork\<close>, with the stack pointer at \<open>0x82300e40\<close>.\<close>

definition demo_caller :: arm where
  "demo_caller = demo_arm\<lparr>sp_of := (sp_of demo_arm)(CPSR_M_USR := 0x82300e40)\<rparr>"

definition demo_child :: "addr \<Rightarrow> task_context \<Rightarrow> u32 \<Rightarrow> u32 \<Rightarrow> arm" where
  "demo_child p c a b = demo_arm\<lparr>cpsr := 0x13, gpr := (\<lambda>_. p),
     mem := store_words p [c_r0 c, c_r1 c, c_r2 c, c_r3 c, c_r4 c, c_r5 c, c_r6 c, c_r7 c, c_r8 c, c_r9_return_lr c, c_r10 c,
       c_r11 c, c_r12_spsr c, c_lr c, a, b] (\<lambda>_. 0)\<rparr>"

definition demo_forking :: "arm \<Rightarrow> kstate \<Rightarrow> kstate" where
  "demo_forking m s0 = (demo_fork s0)\<lparr>ctx_heap := [0x82300e00 \<mapsto> ctx_at (mem m) 0x82300e00],
     bytes := (\<lambda>_. 0)(0x82300e38 := 2, 0x82300e3d := 0x20, 0x82300e3f := 0x82)\<rparr>"

theorem fork_returns_in_child_witness:
  "\<exists>m s s' v. m = run demo_call svc_save (at_svc demo_call 4 0x82001010 demo_caller)
    \<and> fork_handler (gpr m 1) (gpr m 2) s = Some s' \<and> rq_ok s' [[0x82300000, 0x82100000], [], [], [], []]
    \<and> arm_pc (stub_return demo_call 4 (switch_task demo_call v)) = 0x82002000
    \<and> gpr (stub_return demo_call 4 (switch_task demo_call v)) 0 = 0
    \<and> sp_of (stub_return demo_call 4 (switch_task demo_call v)) CPSR_M_USR = 0x82100e40"
proof -
  let ?at = "blk_at 0x82027400"
  define m where "m = run demo_call svc_save (at_svc demo_call 4 0x82001010 demo_caller)"
  have u: "mode_of (cpsr demo_caller) = CPSR_M_USR" "room demo_caller" "sp_of demo_caller CPSR_M_USR = section_of 0x823 + of_nat (4 * 0x380 + 64)"
    "user_bank (cpsr demo_caller)"
    by (simp_all add: demo_caller_def demo_arm_def mode_of_def room_def section_of_def user_bank_def)
  have m: "gpr m 1 = 0x82300e00" "mem m 0x82300e38 = 2" "mem m 0x82300e3c = 0x82002000"
    using svc_saves [OF u(4), of 4 demo_call "0x82001010"] by (auto simp: m_def demo_caller_def demo_arm_def)
  obtain s0 h where s0: "kblks_ok s0 (map ?at [40..<64])" "kblk_array s0"
    "s0 = demo_kpage\<lparr>blk_heap := h, kblk_list_base := 0x82027400, kpage := (kpage demo_kpage)\<lparr>
         blk_list_head := blk_at 0x82027400 40, free_start := 0x82028000\<rparr>\<rparr>"
    using demo_kpage_boot by blast
  let ?s = "demo_forking m s0"
  have split: "map ?at [40..<64] = ?at 40 # ?at 41 # map ?at [42..<64]" by (simp add: upt_conv_Cons del: upt_rec_numeral)
  have ks: "kblks_ok ?s (?at 40 # ?at 41 # map ?at [42..<64])"
    using s0(1) unfolding split by (simp add: kblks_ok_def demo_fork_def demo_forking_def)
  have fr: "\<forall>x \<in> {?at 40, ?at 41} \<union> set (map ?at [42..<64]). frame_no x \<noteq> 0x821"
    using demo_kpage_frames by (auto simp del: upt_rec_numeral)
  have st: "links b_start (blk_heap ?s) (?at 40) = Some 0x820a0000" "table_ok 0x820a0000"
    using s0(2,3) by (simp_all add: kblk_array_def demo_fork_def demo_forking_def block_start_def table_ok_def mask_eq_exp_minus_1)
  have ok: "pages_ok ?s (0x100 # 0x200 # []) [0x300]" "page_heap ?s 0x100 = Some (demo_frame 0x200 0 0x821)"
    "page_heap ?s 0x300 = Some (demo_frame 0 0 0x823)" "inj_on (links pgstart (page_heap ?s)) (set ([0x300] @ [0x100]))"
    "curr_running_task ?s = section_of 0x823" "task_heap ?s (section_of 0x823) = Some demo_parent"
    "rq_ok ?s [[0x82300000], [], [], [], []]"
    using demo_fork_ok(1,2,4,6,7,8,12) [of s0] by (simp_all add: demo_forking_def pages_ok_def rq_ok_def)
  have agree: "frame_agrees ?s m (gpr m 1)"
    using m by (simp add: frame_agrees_def demo_forking_def load32_def load8_def)
  have num: "(0x300 :: addr) \<in> set [0x300]" "(0x821 :: nat) \<le> 0x821" "(0x821 :: nat) < 0xa00" "(0x821 :: nat) \<le> 0x823" "(0x823 :: nat) < 0xa00"
    "(0x821 :: nat) \<noteq> 0x823" "(0 :: nat) < 5" "(0x380 :: nat) \<le> 1008"
    by simp_all
  obtain s' d where s': "fork_handler (gpr m 1) (gpr m 2) ?s = Some s'"
      "rq_ok s' ([[0x82300000], [], [], [], []][0 := [[0x82300000], [], [], [], []] ! 0 @ [section_of 0x821]])"
      "d = gpr m 1 - section_of 0x823 + section_of 0x821" "ctx_heap s' d = Some ((ctx_at (mem m) (gpr m 1))\<lparr>c_r0 := 0\<rparr>)"
      "load32 (d + 56) s' = Some (mem m (gpr m 1 + 56))" "load32 (d + 60) s' = Some (mem m (gpr m 1 + 60))"
    and ret: "\<forall>v w. mode_of (cpsr v) = CPSR_M_SVC \<and> gpr v 0 = d \<and> unat d + 104 \<le> unat (sp_of v CPSR_M_SVC) \<and> frame_agrees s' v d
           \<and> w = stub_return demo_call 4 (switch_task demo_call v) \<longrightarrow>
         arm_pc w = lr_of demo_caller CPSR_M_USR \<and> mode_of (cpsr w) = CPSR_M_USR \<and> gpr w 0 = 0
         \<and> sp_of w CPSR_M_USR = sp_of demo_caller CPSR_M_USR - section_of 0x823 + section_of 0x821
         \<and> (\<forall>i \<le> 11. i \<noteq> 0 \<and> i \<noteq> 9 \<and> i \<noteq> 10 \<longrightarrow> gpr w i = gpr demo_caller i)"
    using fork_returns_in_child [OF ok(1,2) demo_fork_ok(3) num(1) ok(3) demo_fork_ok(5) ok(4) num(2-6) ok(5,6) demo_fork_ok(9-11) ok(7) num(7)
        demo_fork_ok(13) ks fr st u(1-3) num(8) m_def agree demo_call_aapcs] by blast
  have d: "d = 0x82100e00" using s'(3) m(1) by (simp add: section_of_def)
  define v where "v = demo_child 0x82100e00 ((ctx_at (mem m) (gpr m 1))\<lparr>c_r0 := 0\<rparr>) 2 0x82002000"
  have c: "ctx_at (mem v) 0x82100e00 = (ctx_at (mem m) (gpr m 1))\<lparr>c_r0 := 0\<rparr>"
    unfolding v_def demo_child_def by (simp add: ctx_at_def [where a = "0x82100e00"])
  have v: "mode_of (cpsr v) = CPSR_M_SVC" "gpr v 0 = d" "unat d + 104 \<le> unat (sp_of v CPSR_M_SVC)" "mem v 0x82100e38 = 2" "mem v 0x82100e3c = 0x82002000"
    by (simp_all add: v_def demo_child_def demo_arm_def mode_of_def d)
  have "frame_agrees s' v d" using s'(4-6) c v(4,5) m unfolding frame_agrees_def d by simp
  then have "arm_pc (stub_return demo_call 4 (switch_task demo_call v)) = lr_of demo_caller CPSR_M_USR
      \<and> gpr (stub_return demo_call 4 (switch_task demo_call v)) 0 = 0
      \<and> sp_of (stub_return demo_call 4 (switch_task demo_call v)) CPSR_M_USR = sp_of demo_caller CPSR_M_USR - section_of 0x823 + section_of 0x821"
    using ret v(1-3) by blast
  moreover have "lr_of demo_caller CPSR_M_USR = 0x82002000" "sp_of demo_caller CPSR_M_USR - section_of 0x823 + section_of 0x821 = 0x82100e40"
    by (simp_all add: demo_caller_def demo_arm_def section_of_def)
  moreover have "rq_ok s' [[0x82300000, 0x82100000], [], [], [], []]" using s'(2) by (simp add: section_of_def)
  ultimately show ?thesis using m_def s'(1) by metis
qed

end
