(* ===== verification/Spec2Isabelle.thy ===== *)
theory Spec2Isabelle
  imports Startup IpcRun Timers ForkRun
begin

text \<open>
  BeagleboneLabOS: a small operating system for the BeagleBone Black (ARM Cortex-A8), in C.

  \<^bold>\<open>The program.\<close> U-Boot starts \<^verbatim>\<open>kernal_entry\<close> (\<^verbatim>\<open>src/src/kernel/main.c\<close>), which clears the bss, turns
  the MMU on with an identity map, sets up LEDs, interrupt controller and tick timer, builds the
  lists of 1 MB pages and of 16 KB kernel blocks, the directory tree and the IPC channel, creates the
  shell as the first task and enters the scheduler. From then on the kernel runs on system calls
  (\<^verbatim>\<open>svc\<close>) and on the tick. Each task owns one page: its struct at the start, its stack up to 4 KB, and
  252 blocks of 4 KB for \<^verbatim>\<open>malloc_blk\<close>; its translation table is a kernel block. A file is a pair of
  functions behind a descriptor: the UART consoles and one IPC queue.

  \<^bold>\<open>Reading the model.\<close> A C struct is a record, its objects live in typed heaps \<open>addr \<rightharpoonup> 'a\<close> inside the
  record \<open>kstate\<close> (\<^verbatim>\<open>Kstate\<close>), which also holds the kernel's globals, RAM as bytes, the page-table words,
  the CP15 registers and TLB, and a log of device writes. A C function is a function on \<open>kstate\<close> into
  \<open>option\<close>: \<open>None\<close> is a fault (a bad pointer, an index outside an array, a read past a string's array)
  or a loop that does not end, so \<open>= Some\<close> in a conclusion says that the code returns. The one index outside an array that
  is not a fault is \<^verbatim>\<open>page_list[446]\<close>, which every boot writes: it is the word behind the array, kept as a last cell.
  Words are 32 and 8 bits wide and wrap. \<open>printk\<close> appends what the UART sends to \<open>uart_tx\<close>.

  \<^bold>\<open>Theories\<close>, in the order of their imports:
  \<^item> \<^verbatim>\<open>Prelude\<close>: words, typed heaps, \<open>for_each\<close>, ranges of RAM, rounding (\<^verbatim>\<open>common.h\<close>);
    \<^verbatim>\<open>Links\<close>: singly and doubly linked lists in a heap, the contracts \<open>tail_append\<close> and
    \<open>page_source\<close>; \<^verbatim>\<open>Kstate\<close>: the structs of \<^verbatim>\<open>memory.h\<close>, \<^verbatim>\<open>task.h\<close>, \<^verbatim>\<open>file.h\<close>, \<^verbatim>\<open>queue.h\<close> and the state.
  \<^item> \<^verbatim>\<open>Printk\<close>: \<^verbatim>\<open>kernel/printk.c\<close> and the formatter of \<^verbatim>\<open>klib/stdio.c\<close>. Compared with a two-pass reference
    whose \<^verbatim>\<open>%d\<close> is signed: equal exactly where no \<^verbatim>\<open>%d\<close> meets a negative argument; numbers read back.
  \<^item> \<^verbatim>\<open>Pages\<close>, \<^verbatim>\<open>Blocks\<close>: \<^verbatim>\<open>kernel/memory.c\<close>. \<open>pages_ok s fs us\<close>: the free list is \<open>fs\<close>, the in-use list
    \<open>us\<close>; \<open>blks_ok\<close>, \<open>kblks_ok\<close> for the block lists. What each operation does to these lists, what the
    initialisers build, invariance over runs (\<open>page_step\<close>), capacity, and where the allocators fault.
  \<^item> \<^verbatim>\<open>Ram\<close>, \<^verbatim>\<open>CString\<close>: \<^verbatim>\<open>klib/mem.c\<close>, \<^verbatim>\<open>klib/string.c\<close>.
  \<^item> \<^verbatim>\<open>RingQueue\<close>, \<^verbatim>\<open>Ipc\<close>: \<^verbatim>\<open>klib/queue.c\<close> refines a bounded FIFO (contract \<open>bounded_fifo\<close>) over every
    sequence of operations; \<^verbatim>\<open>kernel/ipc.c\<close> on top of it.
  \<^item> \<^verbatim>\<open>Mmu\<close>: \<^verbatim>\<open>kernel/mmu.c\<close>. \<open>hw_desc\<close>, \<open>user_reads\<close>, \<open>user_writes\<close>, \<open>section_base\<close> state how the MMU
    reads a descriptor; the kernel's identity map, the sections that a task reaches (and the stale entries
    that it may reach), the table after a fork.
  \<^item> \<^verbatim>\<open>FileTree\<close>: \<^verbatim>\<open>kernel/file.c\<close> and the console functions. What boot builds, lookup by name,
    descriptors.
  \<^item> \<^verbatim>\<open>Devices\<close>: \<^verbatim>\<open>driver/timer.c\<close>, \<^verbatim>\<open>usr_led.c\<close>, the UART setup and the interrupt controller.
  \<^item> \<^verbatim>\<open>Sched\<close>: \<^verbatim>\<open>kernel/task.c\<close>. \<open>rq_ok s qs\<close>: the ready list of priority \<open>i\<close> is \<open>qs ! i\<close>.
    \<^verbatim>\<open>Switching\<close>: yield and tick; the contract \<open>rotating\<close> gives round robin over whole runs.
  \<^item> \<^verbatim>\<open>Syscall\<close>: the twenty handlers of \<^verbatim>\<open>kernel/syscall.c\<close> and the dispatcher. \<^verbatim>\<open>SysPath\<close>: the
    directory calls (contract \<open>name_listing\<close>). \<^verbatim>\<open>SysTask\<close>: exit, restart, what every call leaves
    mapped. \<^verbatim>\<open>SysFork\<close>, \<^verbatim>\<open>TaskCreate\<close>: fork and task_create as wholes.
  \<^item> \<^verbatim>\<open>Interrupt\<close>: the dispatcher \<open>irqs_handler\<close> over the table of bound routines, exception
    vectors, aborts. \<^verbatim>\<open>Boot\<close>: \<^verbatim>\<open>debug.c\<close> and \<^verbatim>\<open>kernal_entry\<close>; \<^verbatim>\<open>Startup\<close>: the state in which it reaches the
    shell.
  \<^item> \<^verbatim>\<open>User\<close>, \<^verbatim>\<open>UserIO\<close>: the system-call wrappers of \<^verbatim>\<open>klib/usyscall.c\<close>, the character functions and
    the start screen (\<^verbatim>\<open>console.c\<close>), proved through the handlers, descriptors and drivers.
    \<^verbatim>\<open>Shell\<close>: \<^verbatim>\<open>userproc/shell.c\<close>, \<^verbatim>\<open>commands.c\<close>.
  \<^item> \<^verbatim>\<open>Programs\<close>: the test programs of \<^verbatim>\<open>userproc\<close> over the wrappers. \<^verbatim>\<open>ProgramRuns\<close>: what they need of the
    system calls. \<^verbatim>\<open>Exits\<close>: a task that has exited stays in its ready list and is run again. \<^verbatim>\<open>IpcRun\<close>: the
    IPC test with both tasks, its exit and the tick between them.
  \<^item> \<^verbatim>\<open>Registers\<close>: the register structures of \<^verbatim>\<open>driver/*.h\<close> and \<^verbatim>\<open>interrupt_regs.h\<close> member by member, the
    writes of the drivers as members, and the UART functions on the registers. \<^verbatim>\<open>Timers\<close>: a timer as a device that takes the
    writes of the driver and counts; the driver refines a periodic clock, and when it interrupts.
  \<^item> \<^verbatim>\<open>Arm\<close>: \<^verbatim>\<open>start.s\<close>, \<^verbatim>\<open>exception.s\<close>, \<^verbatim>\<open>syscall_asm.s\<close> and \<^verbatim>\<open>task_asm.s\<close> as instructions on a machine with
    banked registers; a C function that they call is a parameter that keeps the procedure call standard
    (\<open>keeps_regs\<close>; \<open>aapcs\<close> where it also leaves the words above the stack pointer alone; \<open>sets_vectors\<close> for
    \<^verbatim>\<open>set_exception_entry\<close>, as \<^verbatim>\<open>Interrupt\<close> proves of its C model). \<open>unknown\<close> is the value of the one read that the architecture
    leaves unpredictable; nothing is assumed of it. What is saved and what is resumed, for ticks, system calls and forked tasks. \<open>ctx_at\<close> reads a
    frame as the \<^verbatim>\<open>struct TASK_CONTEXT\<close> of the C model; the frame of a system call lies 56 bytes below the
    stack pointer at \<^verbatim>\<open>svc\<close>. \<^verbatim>\<open>Preempt\<close>: the switches of the C model refine a queue of tasks with their frames, and
    with the assembly code around them a preempted task goes on where it was. \<^verbatim>\<open>ForkRun\<close>: fork from the parent's stub to the
    child's return, over \<open>fork_handler\<close>. The last section of this theory ties the machine to \<open>create_task\<close>.

  \<^bold>\<open>Loops and bounds.\<close> A C loop with a bound is \<open>for_each\<close> or a recursion on that bound. List walks,
  string scans and polling loops are \<open>partial_function (option)\<close>; the theorems derive from the list,
  the terminator or the answers of the device that they return. \<open>dirs_up\<close> stops at the 16 entries of
  \<^verbatim>\<open>dirwk\<close> and the page dumps at their 10 nodes, as in the code. \<open>main_shell\<close> never returns: \<open>shell_run n\<close> is its
  first \<open>n\<close> keys, for every \<open>n\<close>.

  \<^bold>\<open>Parameters\<close>, for what the C sources do not determine: the effect of an interrupt routine reached through the
  table (\<open>isr\<close>), the values of registers read by inline assembly, stack addresses of local variables and arrays
  (\<open>uframe\<close>, \<open>shell_vars\<close>), the linker's bss bounds and uninitialised locals (\<open>boot_env\<close>), the addresses at which the
  linker puts the program text and constants, and in \<^verbatim>\<open>Arm\<close> the C functions. Values that a device shows are read from
  the list \<open>dev_in\<close>.

  \<^bold>\<open>Not modelled.\<close> Of the processor: the fast interrupt, condition flags of a comparison (the branch is
  modelled), the code that U-Boot leaves behind the exception vectors, caches. The C model and the machine are tied
  together at the saved contexts (\<open>frame_agrees\<close>, \<open>ctx_at\<close>), not instruction by instruction: a switch in the C model is the pair of the state and the context
  it loads, and a system call of the user library runs its handler and returns with its result. The returns that the
  assembly code really takes are theorems of \<^verbatim>\<open>Arm\<close>.
  Of \<^verbatim>\<open>mmu.h\<close>, \<^verbatim>\<open>timer.h\<close> and \<^verbatim>\<open>uart.h\<close> the constants that no code uses; those used appear as numbers. Delay loops and
  memory barriers have no effect on the state. Bytes of a struct and its typed object are not tied together except where
  the code copies or clears whole structs (\<open>copy_objs\<close>, \<open>clear_task_page\<close>); the clearing of the bss acts on bytes only,
  and what it means for the globals is a hypothesis on the initial state.
\<close>

section \<open>From the C code to the registers\<close>

text \<open>
  C16: the context that \<^verbatim>\<open>create_task\<close> prepares for a new task holds its entry point and no status word.
  When \<^verbatim>\<open>switch_task\<close> is given this frame it goes to the entry point with the stack pointer above the frame, but the
  mode it sets is the reserved mode 0; \<^verbatim>\<open>first_run\<close> enters the same frame in user mode.
\<close>

theorem new_task_mode:
  assumes heap: "task_heap s (section_of k) = Some zero_task" "ctx_heap s (section_of k + 0xFC0) = Some zero_ctx"
    "section_of k \<noteq> NULL" "section_of k + 0xFC0 \<noteq> NULL"
    and call: "aapcs (call Reload_ostick)"
    and v: "mode_of (cpsr v) = CPSR_M_SVC" "gpr v 0 = section_of k + 0xFC0" "unat (gpr v 0) + 96 \<le> unat (sp_of v CPSR_M_SVC)"
  shows "\<exists>i s' c. create_task (section_of k) f (section_of k) pr s = Some (i, s') \<and> ctx_heap s' (section_of k + 0xFC0) = Some c
    \<and> (ctx_at (mem v) (gpr v 0) = c \<longrightarrow>
         arm_pc (switch_task call v) = f \<and> sp_of (switch_task call v) CPSR_M_USR = section_of k + 0xFF8
         \<and> mode_of (cpsr (switch_task call v)) = 0
         \<and> arm_pc (first_run call v) = f \<and> mode_of (cpsr (first_run call v)) = CPSR_M_USR)"
proof -
  let ?c = "first_context f"
  have room: "unat (gpr v 0) + 56 \<le> 2 ^ 32" using v(3) unat_32 [of "sp_of v CPSR_M_SVC"] by simp
  have z: "c_r12_spsr ?c = 0" "c_r9_return_lr ?c = f" by (simp_all add: first_context_def zero_ctx_def)
  have "arm_pc (switch_task call v) = f \<and> sp_of (switch_task call v) CPSR_M_USR = section_of k + 0xFF8
      \<and> mode_of (cpsr (switch_task call v)) = 0 \<and> arm_pc (first_run call v) = f \<and> mode_of (cpsr (first_run call v)) = CPSR_M_USR"
    if c: "ctx_at (mem v) (gpr v 0) = ?c"
    using switch_task_run(2,3,5) [where call = call, OF v(1) call refl v(3) c refl] first_run_run(2,4) [where call = call, OF v(1) call refl room refl]
      v(2) z c by (simp add: mode_of_def add.commute)
  then show ?thesis using create_task_ok [OF heap, of f pr] by (intro exI [of _ "taskid s + 1"]) auto
qed

theorem new_task_mode_witness:
  "\<exists>s v. mode_of (cpsr (switch_task demo_call v)) = 0 \<and> arm_pc (switch_task demo_call v) = 0x82004000
    \<and> (\<exists>i s'. create_task 0x82400000 0x82004000 0x82400000 0 s = Some (i, s'))"
proof -
  define s where "s = zero_state\<lparr>task_heap := [0x82400000 \<mapsto> zero_task], ctx_heap := [0x82400fc0 \<mapsto> zero_ctx]\<rparr>"
  define v where "v = demo_arm\<lparr>cpsr := 0x13, gpr := (\<lambda>_. 0x82400fc0), mem := (\<lambda>_. 0)(0x82400fe4 := 0x82004000)\<rparr>"
  have k: "section_of 0x824 = 0x82400000" by (simp add: section_of_def)
  have h: "task_heap s (section_of 0x824) = Some zero_task" "ctx_heap s (section_of 0x824 + 0xFC0) = Some zero_ctx"
    "section_of 0x824 \<noteq> NULL" "section_of 0x824 + 0xFC0 \<noteq> NULL"
    by (simp_all add: k s_def)
  have v: "mode_of (cpsr v) = CPSR_M_SVC" "gpr v 0 = section_of 0x824 + 0xFC0" "unat (gpr v 0) + 96 \<le> unat (sp_of v CPSR_M_SVC)"
    by (simp_all add: k v_def mode_of_def demo_arm_def)
  obtain i s' c where e: "create_task (section_of 0x824) 0x82004000 (section_of 0x824) 0 s = Some (i, s')"
    "ctx_heap s' (section_of 0x824 + 0xFC0) = Some c"
    "ctx_at (mem v) (gpr v 0) = c \<longrightarrow> arm_pc (switch_task demo_call v) = 0x82004000 \<and> mode_of (cpsr (switch_task demo_call v)) = 0"
    using new_task_mode [where call = demo_call, OF h demo_call_aapcs v, of "0x82004000" 0] by blast
  have "c = first_context 0x82004000" using e(1,2) create_task_ok [OF h, of "0x82004000" 0] by auto
  then have "ctx_at (mem v) (gpr v 0) = c" by (simp add: v_def ctx_at_def first_context_def zero_ctx_def)
  then show ?thesis using e(1,3) k by auto
qed

end
